(* ===== verification/Prelude.thy ===== *)
theory Prelude
  imports Main "HOL-Library.Word" "HOL-Library.Multiset"
begin

text \<open>
  Shared vocabulary of the development: the machine types of the Go code, the error
  results, the collections of rewrite rules, and the generic lemmas on words and lists
  that several components use.

  Go types: \<open>byte\<close>, \<open>int32\<close>/\<open>uint32\<close>, \<open>int64\<close>/\<open>uint64\<close> are words of that width (\<open>sint\<close> reads the
  signed value, \<open>unat\<close>/\<open>uint\<close> the unsigned one). Go's \<open>int\<close> (64 bit on the supported
  platforms) is HOL's \<open>int\<close>: the counters and coordinates that use it are bounded far
  below the width by the protocol fields they come from.
\<close>

unbundle bit_operations_syntax

type_synonym byte = "8 word"
type_synonym i32 = "32 word"
type_synonym i64 = "64 word"

text \<open>
  Rewrite rules by subject: \<open>stack_simps\<close> for item stacks and slot lists, \<open>wire_simps\<close> for
  the byte codecs, \<open>power_bounds\<close> for the redstone signal bounds.
\<close>

named_theorems stack_simps
named_theorems wire_simps
named_theorems power_bounds

subsection \<open>Lists\<close>

lemma sum_list_update:
  fixes f :: "'a \<Rightarrow> 'b::ab_group_add"
  shows "i < length xs \<Longrightarrow> sum_list (map f (xs[i := x])) = sum_list (map f xs) - f (xs ! i) + f x"
proof (induction xs arbitrary: i)
  case Nil
  then show ?case by simp
next
  case (Cons a xs)
  then show ?case by (cases i) (simp_all add: algebra_simps)
qed

lemma list_all_update: "list_all P xs \<Longrightarrow> P x \<Longrightarrow> list_all P (xs[i := x])"
  by (auto simp: list_all_iff dest!: set_update_subset_insert [THEN subsetD])

lemma list_all_nth: "list_all P xs \<Longrightarrow> i < length xs \<Longrightarrow> P (xs ! i)"
  by (simp add: list_all_length)

lemma sum_list_nonneg_int:
  fixes f :: "'a \<Rightarrow> int"
  shows "(\<And>x. x \<in> set xs \<Longrightarrow> 0 \<le> f x) \<Longrightarrow> 0 \<le> sum_list (map f xs)"
  by (induction xs) auto

subsection \<open>Words\<close>

lemma drop_bit_less:
  fixes w :: "'a::len word"
  assumes "w \<noteq> 0" and "0 < n"
  shows "unat (drop_bit n w) < unat w"
proof -
  have "unat w > 0" using assms(1) by (simp add: unat_gt_0)
  moreover have "(1::nat) < 2 ^ n" using assms(2) by (intro one_less_power) simp_all
  ultimately have "unat w div 2 ^ n < unat w" by simp
  then show ?thesis unfolding unat_drop_bit_eq by (simp add: drop_bit_eq_div)
qed

lemma low7_group:
  fixes v :: "'a::len word"
  shows "push_bit s (ucast ((ucast (v AND 0x7F) :: byte) AND 0x7F)) OR push_bit (s + 7) (drop_bit 7 v) = push_bit s v"
proof -
  have m: "(0x7F :: 'b::len word) = mask 7" by (simp add: mask_numeral)
  have low: "n - s < 7" if "bit v (n - s)" "\<not> bit v (7 + (n - (s + 7)))" for n
    using that by (cases "n - s < 7") auto
  show ?thesis
    unfolding m by (rule bit_word_eqI) (auto simp: bit_simps dest: low)
qed

text \<open>The signed value of 32-bit results that stay in range.\<close>

lemma sint_small: "- 2147483648 \<le> n \<Longrightarrow> n \<le> 2147483647 \<Longrightarrow> sint (word_of_int n :: i32) = n"
  by (simp add: sint_word_ariths signed_take_bit_int_eq_self sint_sbintrunc')

lemma sint_i32: "- 2147483648 \<le> sint (w :: i32) \<and> sint w \<le> 2147483647"
  using sint_ge [of w] sint_lt [of w] by simp

lemma sint_minus_small:
  assumes "0 \<le> sint (w :: i32)" "int n \<le> sint w"
  shows "sint (w - word_of_nat n) = sint w - int n"
  using assms sint_i32 [of w] sint_small [of "sint w - int n"] by simp

end
