(* ===== verification/Wire.thy ===== *)
theory Wire
  imports Prelude
begin

text \<open>
  The wire format of package \<open>java/protocol\<close>: variable-length integers (\<open>varint.go\<close>),
  primitive fields (\<open>types.go\<close>), UUIDs (\<open>uuid.go\<close>) and packet frames (\<open>packet.go\<close>).

  A reader is the list of the bytes still to come, then end of file; a read returns the
  decoded value with the rest of the list, or the error. A writer returns the bytes it
  appends. The errors a failing transport could add are not modelled.
\<close>

section \<open>Readers, writers and errors\<close>

datatype wire_error =
    EOF
  | UnexpectedEOF
  | ErrVarIntTooBig
  | ErrVarLongTooBig
  | NegativeLength int
  | LengthExceeds int int
  | InvalidLength int
  | Context string wire_error

type_synonym 'a reader = "byte list \<Rightarrow> wire_error + 'a \<times> byte list"

text \<open>The standard library's \<open>io.ReadFull\<close> on a buffer of \<open>n\<close> bytes.\<close>

definition read_full :: "nat \<Rightarrow> byte list reader" where
  "read_full n bs =
     (if n \<le> length bs then Inr (take n bs, drop n bs)
      else if bs = [] then Inl EOF else Inl UnexpectedEOF)"

text \<open>\<open>fmt.Errorf("...: %w", err)\<close> on the error branch, the continuation on the other.\<close>

definition bind_ctx :: "string \<Rightarrow> wire_error + 'a \<times> byte list \<Rightarrow> ('a \<Rightarrow> 'b reader) \<Rightarrow> wire_error + 'b \<times> byte list" where
  "bind_ctx c r f = (case r of Inl e \<Rightarrow> Inl (Context c e) | Inr (a, rest) \<Rightarrow> f a rest)"

section \<open>Variable-length integers (varint.go)\<close>

fun read_varint_loop :: "i32 \<Rightarrow> nat \<Rightarrow> nat \<Rightarrow> i32 reader" where
  "read_varint_loop result shift read bs =
     (if shift < 35 then
        (case bs of
           [] \<Rightarrow> Inl (if 0 < read then UnexpectedEOF else EOF)
         | b # bs' \<Rightarrow>
             let result' = result OR push_bit shift (ucast (b AND 0x7F))
             in if b AND 0x80 = 0 then Inr (result', bs')
                else read_varint_loop result' (shift + 7) (read + 1) bs')
      else Inl ErrVarIntTooBig)"

definition ReadVarInt :: "i32 reader" where
  "ReadVarInt bs = read_varint_loop 0 0 0 bs"

function WriteVarInt :: "i32 \<Rightarrow> byte list" where
  "WriteVarInt uv =
     (let b = ucast (uv AND 0x7F); uv' = drop_bit 7 uv
      in if uv' \<noteq> 0 then (b OR 0x80) # WriteVarInt uv' else [b])"
  by pat_completeness auto
termination
  by (relation "measure unat") (auto intro: drop_bit_less)

function VarIntSize_loop :: "i32 \<Rightarrow> nat \<Rightarrow> nat" where
  "VarIntSize_loop uv n = (if 0x80 \<le> uv then VarIntSize_loop (drop_bit 7 uv) (n + 1) else n)"
  by pat_completeness auto
termination
  by (relation "measure (\<lambda>(uv, n). unat uv)") (auto intro!: drop_bit_less)

definition VarIntSize :: "i32 \<Rightarrow> nat" where
  "VarIntSize v = VarIntSize_loop v 1"

fun read_varlong_loop :: "i64 \<Rightarrow> nat \<Rightarrow> i64 reader" where
  "read_varlong_loop result shift bs =
     (if shift < 70 then
        (case bs of
           [] \<Rightarrow> Inl EOF
         | b # bs' \<Rightarrow>
             let result' = result OR push_bit shift (ucast (b AND 0x7F))
             in if b AND 0x80 = 0 then Inr (result', bs')
                else read_varlong_loop result' (shift + 7) bs')
      else Inl ErrVarLongTooBig)"

definition ReadVarLong :: "i64 reader" where
  "ReadVarLong bs = read_varlong_loop 0 0 bs"

function WriteVarLong :: "i64 \<Rightarrow> byte list" where
  "WriteVarLong uv =
     (let b = ucast (uv AND 0x7F); uv' = drop_bit 7 uv
      in if uv' \<noteq> 0 then (b OR 0x80) # WriteVarLong uv' else [b])"
  by pat_completeness auto
termination
  by (relation "measure unat") (auto intro: drop_bit_less)

declare read_varint_loop.simps [simp del] read_varlong_loop.simps [simp del]
  WriteVarInt.simps [simp del] VarIntSize_loop.simps [simp del] WriteVarLong.simps [simp del]

section \<open>Primitive fields (types.go, uuid.go)\<close>

text \<open>The standard library's big-endian byte order: \<open>n\<close> bytes, most significant first.\<close>

primrec be_put :: "nat \<Rightarrow> 'a::len word \<Rightarrow> byte list" where
  "be_put 0 w = []"
| "be_put (Suc n) w = ucast (drop_bit (8 * n) w) # be_put n w"

definition be_get :: "byte list \<Rightarrow> 'a::len word" where
  "be_get bs = foldl (\<lambda>a b. push_bit 8 a OR ucast b) 0 bs"

text \<open>A fixed-width field: \<open>io.ReadFull\<close> into an array, then \<open>binary.BigEndian\<close>.\<close>

definition read_be :: "string \<Rightarrow> nat \<Rightarrow> 'a::len word reader" where
  "read_be ctx n bs = bind_ctx ctx (read_full n bs) (\<lambda>buf rest. Inr (be_get buf, rest))"

definition MaxStringLength :: int where
  "MaxStringLength = 131068"

definition MaxPacketSize :: int where
  "MaxPacketSize = 8 * 1024 * 1024"

definition ReadString :: "byte list reader" where
  "ReadString bs =
     bind_ctx ''protocol: reading string length'' (ReadVarInt bs) (\<lambda>len rest.
       if sint len < 0 then Inl (NegativeLength (sint len))
       else if sint len > MaxStringLength then Inl (LengthExceeds (sint len) MaxStringLength)
       else if len = 0 then Inr ([], rest)
       else bind_ctx ''protocol: reading string body'' (read_full (nat (sint len)) rest)
              (\<lambda>buf rest'. Inr (buf, rest')))"

definition WriteString :: "byte list \<Rightarrow> wire_error + byte list" where
  "WriteString s =
     (if int (length s) > MaxStringLength then Inl (LengthExceeds (int (length s)) MaxStringLength)
      else Inr (WriteVarInt (word_of_nat (length s)) @ s))"

definition ReadShort :: "16 word reader" where
  "ReadShort bs = read_be ''protocol: reading short'' 2 bs"

definition ReadUShort :: "16 word reader" where
  "ReadUShort bs = read_be ''protocol: reading ushort'' 2 bs"

definition WriteUShort :: "16 word \<Rightarrow> byte list" where
  "WriteUShort v = be_put 2 v"

definition ReadLong :: "i64 reader" where
  "ReadLong bs = read_be ''protocol: reading long'' 8 bs"

definition WriteLong :: "i64 \<Rightarrow> byte list" where
  "WriteLong v = be_put 8 v"

definition ReadBool :: "bool reader" where
  "ReadBool bs = bind_ctx ''protocol: reading bool'' (read_full 1 bs) (\<lambda>buf rest. Inr (buf ! 0 \<noteq> 0, rest))"

definition WriteBool :: "bool \<Rightarrow> byte list" where
  "WriteBool v = [if v then 1 else 0]"

definition ReadInt :: "i32 reader" where
  "ReadInt bs = read_be ''protocol: reading int'' 4 bs"

definition WriteInt :: "i32 \<Rightarrow> byte list" where
  "WriteInt v = be_put 4 v"

definition ReadByte :: "byte reader" where
  "ReadByte bs = bind_ctx ''protocol: reading byte'' (read_full 1 bs) (\<lambda>buf rest. Inr (buf ! 0, rest))"

definition ReadByteArray :: "byte list reader" where
  "ReadByteArray bs =
     bind_ctx ''protocol: reading byte array length'' (ReadVarInt bs) (\<lambda>len rest.
       if sint len < 0 then Inl (NegativeLength (sint len))
       else if sint len > MaxPacketSize then Inl (LengthExceeds (sint len) MaxPacketSize)
       else if len = 0 then Inr ([], rest)
       else bind_ctx ''protocol: reading byte array body'' (read_full (nat (sint len)) rest)
              (\<lambda>buf rest'. Inr (buf, rest')))"

definition WriteByteArray :: "byte list \<Rightarrow> byte list" where
  "WriteByteArray data =
     (if data = [] then WriteVarInt (word_of_nat (length data))
      else WriteVarInt (word_of_nat (length data)) @ data)"

text \<open>
  The code reinterprets the bits of a float without changing them (\<open>unsafe.Pointer\<close>), so a
  \<open>float32\<close> or \<open>float64\<close> on the wire is its bit pattern.
\<close>

definition ReadFloat :: "32 word reader" where
  "ReadFloat bs = read_be ''protocol: reading float'' 4 bs"

definition WriteFloat :: "32 word \<Rightarrow> byte list" where
  "WriteFloat bits = be_put 4 bits"

definition ReadDouble :: "64 word reader" where
  "ReadDouble bs = read_be ''protocol: reading double'' 8 bs"

definition WriteDouble :: "64 word \<Rightarrow> byte list" where
  "WriteDouble bits = be_put 8 bits"

text \<open>A UUID is an array of 16 bytes, written and read as it is.\<close>

definition ReadUUID :: "byte list reader" where
  "ReadUUID bs = bind_ctx ''protocol: reading UUID'' (read_full 16 bs) (\<lambda>u rest. Inr (u, rest))"

definition WriteUUID :: "byte list \<Rightarrow> byte list" where
  "WriteUUID u = u"

definition UUID_IsZero :: "byte list \<Rightarrow> bool" where
  "UUID_IsZero u = list_all (\<lambda>b. b = 0) u"

section \<open>Packet frames (packet.go)\<close>

record packet =
  ID :: i32
  Data :: "byte list"

definition ReadPacket :: "packet reader" where
  "ReadPacket bs =
     bind_ctx ''packet: reading length'' (ReadVarInt bs) (\<lambda>len rest.
       if sint len < 1 then Inl (InvalidLength (sint len))
       else if sint len > MaxPacketSize then Inl (LengthExceeds (sint len) MaxPacketSize)
       else bind_ctx ''packet: reading payload'' (read_full (nat (sint len)) rest) (\<lambda>payload rest'.
         bind_ctx ''packet: reading packet ID'' (ReadVarInt payload) (\<lambda>id data.
           Inr (\<lparr>ID = id, Data = data\<rparr>, rest'))))"

definition MarshalPacket :: "packet \<Rightarrow> byte list" where
  "MarshalPacket pkt =
     (let idBuf = WriteVarInt (ID pkt);
          totalLen = (word_of_nat (length idBuf + length (Data pkt)) :: i32)
      in WriteVarInt totalLen @ idBuf @ Data pkt)"

text \<open>
  The builder appends fields to the body of one packet. Writing a field into a buffer cannot
  fail except for a string over the limit, where the code panics: that is the \<open>Inl\<close> case.
\<close>

datatype field =
    FVarInt i32 | FString "byte list" | FLong i64 | FBool bool | FBytes "byte list"
  | FByteArray "byte list" | FUUID "byte list" | FInt i32 | FByte byte
  | FFloat "32 word" | FDouble "64 word" | FShort "16 word"

record builder =
  b_id :: i32
  b_buf :: "byte list"

definition NewBuilder :: "i32 \<Rightarrow> builder" where
  "NewBuilder i = \<lparr>b_id = i, b_buf = []\<rparr>"

fun field_bytes :: "field \<Rightarrow> wire_error + byte list" where
  "field_bytes (FVarInt v) = Inr (WriteVarInt v)"
| "field_bytes (FString s) = WriteString s"
| "field_bytes (FLong v) = Inr (WriteLong v)"
| "field_bytes (FBool v) = Inr (WriteBool v)"
| "field_bytes (FBytes d) = Inr d"
| "field_bytes (FByteArray d) = Inr (WriteByteArray d)"
| "field_bytes (FUUID u) = Inr (WriteUUID u)"
| "field_bytes (FInt v) = Inr (WriteInt v)"
| "field_bytes (FByte v) = Inr [v]"
| "field_bytes (FFloat v) = Inr (WriteFloat v)"
| "field_bytes (FDouble v) = Inr (WriteDouble v)"
| "field_bytes (FShort v) = Inr [ucast (signed_drop_bit 8 v), ucast v]"

definition append_field :: "builder \<Rightarrow> field \<Rightarrow> wire_error + builder" where
  "append_field b f =
     (case field_bytes f of
        Inl e \<Rightarrow> Inl e
      | Inr bytes \<Rightarrow> Inr (b\<lparr>b_buf := b_buf b @ bytes\<rparr>))"

definition Build :: "builder \<Rightarrow> packet" where
  "Build b = \<lparr>ID = b_id b, Data = b_buf b\<rparr>"

section \<open>Facts about the codecs\<close>

subsection \<open>Continuation bits\<close>

lemma bit_0x80: "bit (0x80 :: int) n \<longleftrightarrow> n = 7"
proof -
  have "(0x80 :: int) = push_bit 7 1" by simp
  then show ?thesis by (simp only: bit_push_bit_iff bit_1_iff) auto
qed

lemma mask7: "(0x7F :: 'a::len word) = mask 7"
  by (simp add: mask_numeral)

lemma low7_stop [wire_simps]: "(ucast (v AND 0x7F) :: byte) AND 0x80 = 0"
  unfolding mask7 by (rule bit_word_eqI) (auto simp: bit_simps bit_0x80)

lemma low7_cont [wire_simps]: "(b OR (0x80 :: byte)) AND 0x80 \<noteq> 0"
proof -
  have "bit ((b OR (0x80 :: byte)) AND 0x80) 7"
    by (simp add: bit_simps bit_0x80)
  then show ?thesis by auto
qed

lemma low7_payload [wire_simps]: "(b OR (0x80 :: byte)) AND 0x7F = b AND 0x7F"
  unfolding mask7 by (rule bit_word_eqI) (auto simp: bit_simps bit_0x80)

subsection \<open>Variable-length integers\<close>

lemma drop7_bound:
  fixes v :: "'a::len word"
  assumes "unat v < 2 ^ (w - s)" and "drop_bit 7 v \<noteq> 0"
  shows "s + 7 < w \<and> unat (drop_bit 7 v) < 2 ^ (w - (s + 7))"
proof -
  have d: "unat (drop_bit 7 v) = unat v div 2 ^ 7"
    unfolding unat_drop_bit_eq by (simp add: drop_bit_eq_div)
  have "unat (drop_bit 7 v) > 0" using assms(2) by (simp add: unat_gt_0)
  then have "2 ^ 7 \<le> unat v" unfolding d by (simp add: div_greater_zero_iff)
  then have "(2::nat) ^ 7 < 2 ^ (w - s)" using assms(1) by simp
  then have lt: "7 < w - s" by (rule power_less_imp_less_exp [rotated]) simp
  then have e: "w - s = (w - (s + 7)) + 7" by simp
  have "(2::nat) ^ (w - s) = 2 ^ (w - (s + 7)) * 2 ^ 7"
    by (subst e) (rule power_add)
  with assms(1) have "unat v div 2 ^ 7 < 2 ^ (w - (s + 7))"
    by (simp add: less_mult_imp_div_less)
  with d lt show ?thesis by simp
qed

lemma read_varint_write:
  assumes "unat v < 2 ^ (32 - s)" and "s < 32"
  shows "read_varint_loop res s n (WriteVarInt v @ rest) = Inr (res OR push_bit s v, rest)"
  using assms
proof (induction v arbitrary: res s n rule: WriteVarInt.induct)
  case (1 v)
  show ?case
  proof (cases "drop_bit 7 v = 0")
    case True
    with low7_group [of s v] "1.prems" show ?thesis
      by (simp add: WriteVarInt.simps [of v] read_varint_loop.simps Let_def wire_simps)
  next
    case False
    with drop7_bound [of v 32 s] "1.prems"
    have b: "s + 7 < 32" "unat (drop_bit 7 v) < 2 ^ (32 - (s + 7))" by auto
    show ?thesis
      using False b "1.IH" [OF refl refl False b(2) b(1)] low7_group [of s v]
      by (simp add: WriteVarInt.simps [of v] read_varint_loop.simps [of _ s] Let_def wire_simps or.assoc)
  qed
qed

lemma ReadVarInt_WriteVarInt [wire_simps]: "ReadVarInt (WriteVarInt v @ rest) = Inr (v, rest)"
  using read_varint_write [of v 0 0 0 rest] unsigned_less [of v] by (simp add: ReadVarInt_def)

lemma read_varlong_write:
  assumes "unat v < 2 ^ (64 - s)" and "s < 64"
  shows "read_varlong_loop res s (WriteVarLong v @ rest) = Inr (res OR push_bit s v, rest)"
  using assms
proof (induction v arbitrary: res s rule: WriteVarLong.induct)
  case (1 v)
  show ?case
  proof (cases "drop_bit 7 v = 0")
    case True
    with low7_group [of s v] "1.prems" show ?thesis
      by (simp add: WriteVarLong.simps [of v] read_varlong_loop.simps Let_def wire_simps)
  next
    case False
    with drop7_bound [of v 64 s] "1.prems"
    have b: "s + 7 < 64" "unat (drop_bit 7 v) < 2 ^ (64 - (s + 7))" by auto
    show ?thesis
      using False b "1.IH" [OF refl refl False b(2) b(1)] low7_group [of s v]
      by (simp add: WriteVarLong.simps [of v] read_varlong_loop.simps [of _ s] Let_def wire_simps or.assoc)
  qed
qed

lemma ReadVarLong_WriteVarLong [wire_simps]: "ReadVarLong (WriteVarLong v @ rest) = Inr (v, rest)"
  using read_varlong_write [of v 0 0 rest] unsigned_less [of v] by (simp add: ReadVarLong_def)

lemma drop7_zero: "drop_bit 7 v = 0 \<longleftrightarrow> v < (0x80 :: i32)"
proof -
  have "drop_bit 7 v = 0 \<longleftrightarrow> unat v div 2 ^ 7 = 0"
    unfolding unat_eq_0 [symmetric] unat_drop_bit_eq by (simp add: drop_bit_eq_div)
  also have "\<dots> \<longleftrightarrow> unat v < unat (0x80 :: i32)"
    by (simp add: div_eq_0_iff)
  finally show ?thesis by (simp add: word_less_nat_alt)
qed

lemma VarIntSize_loop_length: "VarIntSize_loop v (Suc n) = n + length (WriteVarInt v)"
proof (induction v arbitrary: n rule: WriteVarInt.induct)
  case (1 v)
  then show ?case
    by (auto simp: VarIntSize_loop.simps [of v] WriteVarInt.simps [of v] Let_def drop7_zero not_less)
qed

lemma VarIntSize_length: "VarIntSize v = length (WriteVarInt v)"
  using VarIntSize_loop_length [of v 0] by (simp add: VarIntSize_def)

lemma length_WriteVarInt_bound:
  "unat v < 2 ^ (32 - s) \<Longrightarrow> s < 32 \<Longrightarrow> 7 * length (WriteVarInt v) \<le> 38 - s"
proof (induction v arbitrary: s rule: WriteVarInt.induct)
  case (1 v)
  show ?case
  proof (cases "drop_bit 7 v = 0")
    case True
    with "1.prems" show ?thesis by (simp add: WriteVarInt.simps [of v])
  next
    case False
    with drop7_bound [of v 32 s] "1.prems"
    have b: "s + 7 < 32" "unat (drop_bit 7 v) < 2 ^ (32 - (s + 7))" by auto
    show ?thesis
      using False b "1.IH" [OF refl refl False b(2) b(1)]
      by (simp add: WriteVarInt.simps [of v] Let_def)
  qed
qed

lemma WriteVarInt_nonempty [wire_simps]: "WriteVarInt v \<noteq> []"
  by (simp add: WriteVarInt.simps [of v] Let_def)

lemma length_WriteVarInt: "length (WriteVarInt v) \<le> 5"
proof -
  have "unat v < 2 ^ LENGTH(32)" by (rule unsigned_less)
  then show ?thesis using length_WriteVarInt_bound [of v 0] by simp
qed

text \<open>The value of a run of 7-bit groups, least significant first.\<close>

primrec groups :: "nat \<Rightarrow> byte list \<Rightarrow> i32" where
  "groups s [] = 0"
| "groups s (b # bs) = push_bit s (ucast (b AND 0x7F)) OR groups (s + 7) bs"

definition more :: "byte \<Rightarrow> bool" where
  "more b \<longleftrightarrow> b AND 0x80 \<noteq> 0"

definition varint_spec :: "byte list \<Rightarrow> wire_error + i32 \<times> byte list" where
  "varint_spec bs =
     (let k = length (takeWhile more bs)
      in if 5 \<le> k then Inl ErrVarIntTooBig
         else if k = length bs then Inl (if bs = [] then EOF else UnexpectedEOF)
         else Inr (groups 0 (take (k + 1) bs), drop (k + 1) bs))"

lemma read_varint_loop_spec:
  assumes "n \<le> 5"
  shows "read_varint_loop res (7 * n) n bs =
     (let k = length (takeWhile more bs)
      in if 5 \<le> n + k then Inl ErrVarIntTooBig
         else if k = length bs then Inl (if n + k = 0 then EOF else UnexpectedEOF)
         else Inr (res OR groups (7 * n) (take (k + 1) bs), drop (k + 1) bs))"
  using assms
proof (induction bs arbitrary: n res)
  case Nil
  then show ?case by (simp add: read_varint_loop.simps)
next
  case (Cons b bs)
  show ?case
  proof (cases "n = 5")
    case True
    then show ?thesis by (simp add: read_varint_loop.simps)
  next
    case False
    with Cons.prems have n: "Suc n \<le> 5" by simp
    have e: "7 * n + 7 = 7 * Suc n" by simp
    show ?thesis
      using n Cons.IH [OF n, of "res OR push_bit (7 * n) (ucast (b AND 0x7F))"]
      by (auto simp: read_varint_loop.simps [of _ "7 * n"] more_def Let_def e or.assoc
          simp del: mult_Suc_right)
  qed
qed

lemma ReadVarInt_spec: "ReadVarInt bs = varint_spec bs"
  using read_varint_loop_spec [of 0 0 bs]
  by (simp add: ReadVarInt_def varint_spec_def Let_def)

subsection \<open>Fixed-width fields\<close>

lemma length_be_put [simp]: "length (be_put n w) = n"
  by (induction n) simp_all

lemma foldl_be_put:
  fixes a w :: "'a::len word"
  shows "foldl (\<lambda>a b. push_bit 8 a OR ucast b) a (be_put n w) = push_bit (8 * n) a OR take_bit (8 * n) w"
proof (induction n arbitrary: a)
  case 0
  then show ?case by simp
next
  case (Suc n)
  have "push_bit (8 * n) (push_bit 8 a OR ucast (ucast (drop_bit (8 * n) w) :: byte)) OR take_bit (8 * n) w
      = push_bit (8 * Suc n) a OR take_bit (8 * Suc n) w"
    by (rule bit_word_eqI) (auto simp: bit_simps add.commute [of 8])
  then show ?case by (simp add: Suc)
qed

lemma be_get_put [wire_simps]: "LENGTH('a::len) \<le> 8 * n \<Longrightarrow> be_get (be_put n w) = (w :: 'a word)"
  by (simp add: be_get_def foldl_be_put take_bit_word_eq_self)

lemma read_full_append [wire_simps]: "n = length xs \<Longrightarrow> read_full n (xs @ ys) = Inr (xs, ys)"
  by (simp add: read_full_def)

lemma bind_ctx_simps [simp]:
  "bind_ctx c (Inl e) f = Inl (Context c e)"
  "bind_ctx c (Inr (a, rest)) f = f a rest"
  by (simp_all add: bind_ctx_def)

lemma read_be_put [wire_simps]:
  "LENGTH('a::len) \<le> 8 * n \<Longrightarrow> read_be ctx n (be_put n w @ rest) = Inr (w :: 'a word, rest)"
  by (simp add: read_be_def wire_simps)

lemmas field_defs =
  ReadShort_def ReadUShort_def WriteUShort_def ReadLong_def WriteLong_def ReadInt_def WriteInt_def
  ReadFloat_def WriteFloat_def ReadDouble_def WriteDouble_def ReadByte_def ReadBool_def WriteBool_def
  ReadUUID_def WriteUUID_def

subsection \<open>Length-prefixed fields and frames\<close>

lemma sint_word_of_nat:
  assumes "n < 2 ^ 31"
  shows "sint (word_of_nat n :: i32) = int n"
proof -
  have "sint (word_of_nat n :: i32) = signed_take_bit 31 (int n)"
    by (simp add: signed_of_nat)
  also have "\<dots> = int n"
    using assms by (intro signed_take_bit_int_eq_self) auto
  finally show ?thesis .
qed

lemma word_of_nat_zero:
  assumes "n < 2 ^ 31"
  shows "(word_of_nat n :: i32) = 0 \<longleftrightarrow> n = 0"
  using sint_word_of_nat [OF assms] by auto

lemma ReadString_WriteString:
  assumes "int (length s) \<le> MaxStringLength"
  shows "WriteString s = Inr (WriteVarInt (word_of_nat (length s)) @ s)"
    and "ReadString (WriteVarInt (word_of_nat (length s)) @ s @ rest) = Inr (s, rest)"
proof -
  have n: "length s < 2 ^ 31" using assms by (simp add: MaxStringLength_def)
  show "WriteString s = Inr (WriteVarInt (word_of_nat (length s)) @ s)"
    using assms by (simp add: WriteString_def)
  show "ReadString (WriteVarInt (word_of_nat (length s)) @ s @ rest) = Inr (s, rest)"
    using assms n by (simp add: ReadString_def wire_simps sint_word_of_nat word_of_nat_zero)
qed

lemma ReadByteArray_WriteByteArray:
  assumes "int (length d) \<le> MaxPacketSize"
  shows "ReadByteArray (WriteByteArray d @ rest) = Inr (d, rest)"
proof -
  have n: "length d < 2 ^ 31" using assms by (simp add: MaxPacketSize_def)
  show ?thesis
    using assms n
    by (simp add: ReadByteArray_def WriteByteArray_def wire_simps sint_word_of_nat word_of_nat_zero)
qed

definition frame_length :: "packet \<Rightarrow> nat" where
  "frame_length pkt = VarIntSize (ID pkt) + length (Data pkt)"

lemma ReadPacket_MarshalPacket:
  assumes "int (frame_length pkt) \<le> MaxPacketSize"
  shows "ReadPacket (MarshalPacket pkt @ rest) = Inr (pkt, rest)"
proof -
  let ?n = "length (WriteVarInt (ID pkt)) + length (Data pkt)"
  have n: "?n < 2 ^ 31" "int ?n \<le> MaxPacketSize"
    using assms by (simp_all add: MaxPacketSize_def frame_length_def VarIntSize_length)
  have "0 < length (WriteVarInt (ID pkt))" by (simp add: wire_simps)
  then have pos: "\<not> int ?n < 1" by linarith
  show ?thesis
    using n(2) pos read_full_append [of ?n "WriteVarInt (ID pkt) @ Data pkt" rest]
    by (simp add: ReadPacket_def MarshalPacket_def Let_def wire_simps sint_word_of_nat [OF n(1)]
        del: of_nat_add)
qed

text \<open>An oversized frame is refused by the reader; \<open>MarshalPacket\<close> does not check.\<close>

lemma ReadPacket_oversize:
  assumes "MaxPacketSize < int (frame_length pkt)" and "frame_length pkt < 2 ^ 31"
  shows "ReadPacket (MarshalPacket pkt @ rest) = Inl (LengthExceeds (int (frame_length pkt)) MaxPacketSize)"
proof -
  let ?n = "length (WriteVarInt (ID pkt)) + length (Data pkt)"
  have n: "?n < 2 ^ 31" "MaxPacketSize < int ?n" and e: "frame_length pkt = ?n"
    using assms by (simp_all add: frame_length_def VarIntSize_length)
  have pos: "\<not> int ?n < 1" using n(2) by (simp add: MaxPacketSize_def)
  show ?thesis
    unfolding e using n(2) pos
    by (simp add: ReadPacket_def MarshalPacket_def Let_def wire_simps sint_word_of_nat [OF n(1)]
        del: of_nat_add)
qed

section \<open>Codecs as an interface\<close>

text \<open>
  What a field of a packet promises to the code that writes a sequence of them: reading
  back what was written gives the value and leaves the bytes after it.
\<close>

locale codec =
  fixes enc :: "'a \<Rightarrow> byte list"
    and dec :: "'a reader"
    and valid :: "'a \<Rightarrow> bool"
  assumes dec_enc: "valid x \<Longrightarrow> dec (enc x @ rest) = Inr (x, rest)"
begin

lemma enc_prefix_free:
  assumes "valid x" "valid y" "enc x @ r = enc y @ s"
  shows "x = y \<and> r = s"
proof -
  from dec_enc [OF assms(1), of r] have "dec (enc y @ s) = Inr (x, r)"
    by (simp only: assms(3))
  with dec_enc [OF assms(2), of s] show ?thesis by simp
qed

end

text \<open>Reading \<open>n\<close> values one after the other, as the connection loop reads packets.\<close>

fun read_many :: "'a reader \<Rightarrow> nat \<Rightarrow> 'a list reader" where
  "read_many dec 0 bs = Inr ([], bs)"
| "read_many dec (Suc n) bs =
     (case dec bs of
        Inl e \<Rightarrow> Inl e
      | Inr (x, bs') \<Rightarrow>
          (case read_many dec n bs' of Inl e \<Rightarrow> Inl e | Inr (xs, rest) \<Rightarrow> Inr (x # xs, rest)))"

context codec
begin

lemma read_many_concat:
  "list_all valid xs \<Longrightarrow> read_many dec (length xs) (concat (map enc xs) @ rest) = Inr (xs, rest)"
  by (induction xs) (auto simp: dec_enc)

lemma concat_inj:
  assumes "list_all valid xs" "list_all valid ys" "length xs = length ys"
    and "concat (map enc xs) = concat (map enc ys)"
  shows "xs = ys"
proof -
  have "read_many dec (length xs) (concat (map enc xs) @ []) = Inr (xs, [])"
    by (rule read_many_concat [OF assms(1)])
  then have "read_many dec (length ys) (concat (map enc ys) @ []) = Inr (xs, [])"
    by (simp only: assms(3,4))
  with read_many_concat [OF assms(2), of "[]"] show ?thesis by simp
qed

end

interpretation varint: codec WriteVarInt ReadVarInt "\<lambda>_. True"
  by unfold_locales (simp add: wire_simps)

interpretation varlong: codec WriteVarLong ReadVarLong "\<lambda>_. True"
  by unfold_locales (simp add: wire_simps)

interpretation long: codec WriteLong ReadLong "\<lambda>_. True"
  by unfold_locales (simp add: field_defs wire_simps)

interpretation int_field: codec WriteInt ReadInt "\<lambda>_. True"
  by unfold_locales (simp add: field_defs wire_simps)

interpretation ushort: codec WriteUShort ReadUShort "\<lambda>_. True"
  by unfold_locales (simp add: field_defs wire_simps)

interpretation float_field: codec WriteFloat ReadFloat "\<lambda>_. True"
  by unfold_locales (simp add: field_defs wire_simps)

interpretation double_field: codec WriteDouble ReadDouble "\<lambda>_. True"
  by unfold_locales (simp add: field_defs wire_simps)

interpretation bool_field: codec WriteBool ReadBool "\<lambda>_. True"
  by unfold_locales (simp add: field_defs read_full_def)

interpretation uuid: codec WriteUUID ReadUUID "\<lambda>u. length u = 16"
  by unfold_locales (simp add: field_defs wire_simps)

interpretation byte_array: codec WriteByteArray ReadByteArray "\<lambda>d. int (length d) \<le> MaxPacketSize"
  by unfold_locales (rule ReadByteArray_WriteByteArray)

interpretation packet: codec MarshalPacket ReadPacket "\<lambda>p. int (frame_length p) \<le> MaxPacketSize"
  by unfold_locales (rule ReadPacket_MarshalPacket)

section \<open>Properties\<close>

text \<open>A variable-length integer is written in at most five bytes, in exactly the number of
  bytes \<open>VarIntSize\<close> announces, and reading it back from any stream gives the value and leaves
  the bytes after it; the same for 64-bit integers.\<close>

theorem varint_roundtrip:
  "ReadVarInt (WriteVarInt v @ rest) = Inr (v, rest) \<and> length (WriteVarInt v) = VarIntSize v \<and> VarIntSize v \<le> 5 \<and>
   ReadVarLong (WriteVarLong l @ rest) = Inr (l, rest)"
  using length_WriteVarInt [of v] by (simp add: wire_simps VarIntSize_length)

text \<open>C11: \<open>ReadVarInt\<close> on any input: an empty stream is a clean end of file, a stream that ends
  inside a value is an unexpected end of file, five bytes that all ask for more are refused, and
  otherwise the groups of seven bits up to the first byte without a continuation bit are the value,
  the rest of the stream is untouched.\<close>

theorem ReadVarInt_total:
  "ReadVarInt bs = varint_spec bs"
  by (rule ReadVarInt_spec)

text \<open>C10: A sequence of packets, none over the size limit, written back to back is read back packet
  by packet, and the stream that follows is left unread.\<close>

theorem packet_stream_roundtrip:
  assumes "list_all (\<lambda>p. int (frame_length p) \<le> MaxPacketSize) pkts"
  shows "read_many ReadPacket (length pkts) (concat (map MarshalPacket pkts) @ rest) = Inr (pkts, rest)"
  using assms by (rule packet.read_many_concat)

theorem packet_stream_roundtrip_witness:
  "read_many ReadPacket 2 (concat (map MarshalPacket [\<lparr>ID = 3, Data = [1, 2]\<rparr>, \<lparr>ID = 0x40, Data = []\<rparr>]) @ [7])
    = Inr ([\<lparr>ID = 3, Data = [1, 2]\<rparr>, \<lparr>ID = 0x40, Data = []\<rparr>], [7])"
proof -
  have "list_all (\<lambda>p. int (frame_length p) \<le> MaxPacketSize) [\<lparr>ID = 3, Data = [1, 2]\<rparr>, \<lparr>ID = 0x40, Data = []\<rparr>]"
    by code_simp
  from packet_stream_roundtrip [OF this, of "[7]"] show ?thesis by (simp del: read_many.simps add: numeral_2_eq_2)
qed

text \<open>A packet over the limit is marshalled all the same, and the reader refuses what was
  written, naming the length it found.\<close>

theorem oversize_packet_refused:
  assumes "MaxPacketSize < int (frame_length pkt)" and "frame_length pkt < 2 ^ 31"
  shows "ReadPacket (MarshalPacket pkt @ rest) = Inl (LengthExceeds (int (frame_length pkt)) MaxPacketSize)"
  using assms by (rule ReadPacket_oversize)

lemma frame_length_replicate: "frame_length \<lparr>ID = 0, Data = replicate n b\<rparr> = Suc n"
  by (simp add: frame_length_def VarIntSize_def VarIntSize_loop.simps)

theorem oversize_packet_refused_witness:
  "ReadPacket (MarshalPacket \<lparr>ID = 0, Data = replicate 8388608 5\<rparr> @ []) = Inl (LengthExceeds 8388609 8388608)"
  using oversize_packet_refused [of "\<lparr>ID = 0, Data = replicate 8388608 5\<rparr>" "[]"]
  by (simp add: frame_length_replicate MaxPacketSize_def)

end
