(* ===== verification/Spatial.thy ===== *)
theory Spatial
  imports Wire
begin

text \<open>
  Block positions (\<open>core/spatial/spatial.go\<close>) and their packed 64-bit form, with the reader
  of \<open>java/protocol/types.go\<close> for the same format.
\<close>

record block_pos =
  pos_x :: i32
  pos_y :: i32
  pos_z :: i32

text \<open>\<open>int64(v)\<close> of an \<open>int32\<close> extends the sign; \<open>>>\<close> on \<open>int64\<close> is arithmetic.\<close>

definition Encode :: "block_pos \<Rightarrow> i64" where
  "Encode b =
     push_bit 38 (scast (pos_x b) AND 0x3FFFFFF)
     OR push_bit 12 (scast (pos_z b) AND 0x3FFFFFF)
     OR (scast (pos_y b) AND 0xFFF)"

definition EncodeBytes :: "block_pos \<Rightarrow> byte list" where
  "EncodeBytes b = be_put 8 (Encode b)"

definition DecodeBlockPos :: "i64 \<Rightarrow> block_pos" where
  "DecodeBlockPos e =
     \<lparr>pos_x = ucast (signed_drop_bit 38 e),
      pos_y = ucast (signed_drop_bit 52 (push_bit 52 e)),
      pos_z = ucast (signed_drop_bit 38 (push_bit 26 e))\<rparr>"

definition ReadPosition :: "(i32 \<times> i32 \<times> i32) reader" where
  "ReadPosition bs =
     bind_ctx ''protocol: reading position'' (ReadLong bs) (\<lambda>packed rest.
       let x = ucast (signed_drop_bit 38 packed);
           z = ucast (signed_drop_bit 38 (push_bit 26 packed));
           y = ucast (signed_drop_bit 52 (push_bit 52 packed))
       in Inr ((x, y, z), rest))"

text \<open>The part of a position the packed form keeps: 26 bits of x and z, 12 bits of y.\<close>

definition wrap_pos :: "block_pos \<Rightarrow> block_pos" where
  "wrap_pos b =
     \<lparr>pos_x = signed_take_bit 25 (pos_x b),
      pos_y = signed_take_bit 11 (pos_y b),
      pos_z = signed_take_bit 25 (pos_z b)\<rparr>"

definition in_pack_range :: "block_pos \<Rightarrow> bool" where
  "in_pack_range b \<longleftrightarrow>
     - (2 ^ 25) \<le> sint (pos_x b) \<and> sint (pos_x b) < 2 ^ 25 \<and>
     - (2 ^ 25) \<le> sint (pos_z b) \<and> sint (pos_z b) < 2 ^ 25 \<and>
     - (2 ^ 11) \<le> sint (pos_y b) \<and> sint (pos_y b) < 2 ^ 11"

lemma mask26: "(0x3FFFFFF :: i64) = mask 26"
  by (simp add: mask_numeral)

lemma mask12: "(0xFFF :: i64) = mask 12"
  by (simp add: mask_numeral)

lemma Decode_Encode: "DecodeBlockPos (Encode b) = wrap_pos b"
proof -
  have x: "ucast (signed_drop_bit 38 (Encode b)) = signed_take_bit 25 (pos_x b)"
    unfolding Encode_def mask26 mask12 by (rule bit_word_eqI) (auto simp: bit_simps)
  have z: "ucast (signed_drop_bit 38 (push_bit 26 (Encode b))) = signed_take_bit 25 (pos_z b)"
    unfolding Encode_def mask26 mask12 by (rule bit_word_eqI) (auto simp: bit_simps)
  have y: "ucast (signed_drop_bit 52 (push_bit 52 (Encode b))) = signed_take_bit 11 (pos_y b)"
    unfolding Encode_def mask26 mask12 by (rule bit_word_eqI) (auto simp: bit_simps)
  from x y z show ?thesis by (simp add: DecodeBlockPos_def wrap_pos_def)
qed

lemma Encode_Decode: "Encode (DecodeBlockPos e) = e"
proof -
  have x: "push_bit 38 (scast (ucast (signed_drop_bit 38 e) :: i32) AND mask 26) = push_bit 38 (drop_bit 38 e)"
    by (rule bit_word_eqI) (auto simp: bit_simps)
  have z: "push_bit 12 (scast (ucast (signed_drop_bit 38 (push_bit 26 e)) :: i32) AND mask 26)
      = push_bit 12 (take_bit 26 (drop_bit 12 e))"
    by (rule bit_word_eqI) (auto simp: bit_simps)
  have y: "(scast (ucast (signed_drop_bit 52 (push_bit 52 e)) :: i32) AND mask 12) = take_bit 12 e"
    by (rule bit_word_eqI) (auto simp: bit_simps)
  have low: "n - 12 < 26" if "bit e n" "\<not> bit e (38 + (n - 38))" for n
    using that by (cases "n < 38") auto
  have "push_bit 38 (drop_bit 38 e) OR push_bit 12 (take_bit 26 (drop_bit 12 e)) OR take_bit 12 e = e"
    by (rule bit_word_eqI) (auto simp: bit_simps dest: low)
  with x y z show ?thesis
    by (simp add: Encode_def DecodeBlockPos_def mask26 mask12)
qed

lemma signed_take_bit_fits:
  fixes w :: i32
  assumes "- (2 ^ n) \<le> sint w" "sint w < 2 ^ n"
  shows "signed_take_bit n w = w"
proof (rule bit_word_eqI)
  fix i assume i: "i < LENGTH(32)"
  have "signed_take_bit n (sint w) = sint w"
    using assms by (rule signed_take_bit_int_eq_self)
  then have "bit (signed_take_bit n (sint w)) i = bit (sint w) i"
    by simp
  then have "bit (sint w) (min n i) = bit (sint w) i"
    by (simp add: bit_signed_take_bit_iff)
  with i show "bit (signed_take_bit n w) i = bit w i"
    by (simp add: bit_simps)
qed

lemma wrap_pos_id: "in_pack_range b \<Longrightarrow> wrap_pos b = b"
  by (simp add: in_pack_range_def wrap_pos_def signed_take_bit_fits)

section \<open>Properties\<close>

text \<open>The packed position format: decoding an encoded position gives every coordinate reduced
  to its field (26, 26 and 12 bits, sign extended), a position in range comes back unchanged, and
  every 64-bit value is the encoding of the position it decodes to.\<close>

theorem position_roundtrip:
  "DecodeBlockPos (Encode b) = wrap_pos b \<and> (in_pack_range b \<longrightarrow> DecodeBlockPos (Encode b) = b) \<and>
   Encode (DecodeBlockPos e) = e"
  by (simp add: Decode_Encode Encode_Decode wrap_pos_id)

theorem position_roundtrip_witness:
  "DecodeBlockPos (Encode \<lparr>pos_x = -30000000, pos_y = -64, pos_z = 29999999\<rparr>)
    = \<lparr>pos_x = -30000000, pos_y = -64, pos_z = 29999999\<rparr>"
proof -
  have "in_pack_range \<lparr>pos_x = -30000000, pos_y = -64, pos_z = 29999999\<rparr>" by code_simp
  then show ?thesis using position_roundtrip by blast
qed

end
