(* ===== verification/Registry.thy ===== *)
theory Registry
  imports Prelude "HOL-Library.Char_ord" "HOL-Library.List_Lexorder"
begin

text \<open>
  The item registry (\<open>core/itemregistry\<close>): the definition of an item, its validation, the
  index built from a list of definitions, and the queries on it. The vanilla definitions
  are data (a JSON file embedded in the binary), so every function that consults the
  registry takes it as an argument. Floats are carried as their bit patterns.

  The lemmas show what a registry that \<open>NewRegistry\<close> accepted guarantees: the bounds the
  inventory code relies on, and tags that agree with the definitions.
\<close>

record equipment_props =
  eq_slot :: string
  eq_armor :: int
  eq_toughness :: i32
  eq_knockback :: i32

record combat_props =
  co_damage :: i32
  co_speed :: i32

record food_props =
  fo_nutrition :: i32
  fo_saturation :: i32
  fo_always :: bool

record consumable_props =
  cs_ticks :: int
  cs_animation :: string
  cs_remainder :: string

record tool_props =
  to_category :: string
  to_tier :: string
  to_speed :: i32
  to_cost :: int

record item_definition =
  def_id :: string
  def_max_stack :: int
  def_max_durability :: int
  def_equipment :: "equipment_props option"
  def_combat :: "combat_props option"
  def_food :: "food_props option"
  def_consumable :: "consumable_props option"
  def_tool :: "tool_props option"
  def_enchantability :: int
  def_repair :: "string option"
  def_rarity :: string
  def_fire_resistant :: bool
  def_fuel_ticks :: int
  def_tags :: "string list"

record item_registry =
  reg_definitions :: "string \<Rightarrow> item_definition option"
  reg_tags :: "string \<Rightarrow> string set option"

datatype registry_error =
    InvalidItemID string
  | InvalidMaxStack string int
  | NegativeDurability string
  | EquipmentWithoutSlot string
  | InvalidNutrition string
  | InvalidUseDuration string
  | InvalidBlockCost string
  | DuplicateDefinition string

text \<open>\<open>validate.go\<close>: the first violated rule, or nothing.\<close>

definition validateDefinition :: "item_definition \<Rightarrow> registry_error option" where
  "validateDefinition d =
     (if def_id d = [] \<or> CHR '':'' \<notin> set (def_id d) then Some (InvalidItemID (def_id d))
      else if def_max_stack d \<le> 0 then Some (InvalidMaxStack (def_id d) (def_max_stack d))
      else if def_max_durability d < 0 then Some (NegativeDurability (def_id d))
      else if (case def_equipment d of Some e \<Rightarrow> eq_slot e = [] | None \<Rightarrow> False)
        then Some (EquipmentWithoutSlot (def_id d))
      else if (case def_food d of Some f \<Rightarrow> sint (fo_nutrition f) \<le> 0 | None \<Rightarrow> False)
        then Some (InvalidNutrition (def_id d))
      else if (case def_consumable d of Some c \<Rightarrow> cs_ticks c \<le> 0 | None \<Rightarrow> False)
        then Some (InvalidUseDuration (def_id d))
      else if (case def_tool d of Some t \<Rightarrow> to_cost t \<le> 0 | None \<Rightarrow> False)
        then Some (InvalidBlockCost (def_id d))
      else None)"

definition add_tag :: "string \<Rightarrow> (string \<Rightarrow> string set option) \<Rightarrow> string \<Rightarrow> (string \<Rightarrow> string set option)" where
  "add_tag item tags tag =
     tags(tag \<mapsto> insert item (case tags tag of None \<Rightarrow> {} | Some m \<Rightarrow> m))"

fun add_definitions :: "item_registry \<Rightarrow> item_definition list \<Rightarrow> registry_error + item_registry" where
  "add_definitions r [] = Inr r"
| "add_definitions r (source # rest) =
     (let d = source\<lparr>def_tags := sort (def_tags source)\<rparr>
      in case validateDefinition d of
           Some e \<Rightarrow> Inl e
         | None \<Rightarrow>
             (if reg_definitions r (def_id d) \<noteq> None then Inl (DuplicateDefinition (def_id d))
              else add_definitions
                     \<lparr>reg_definitions = (reg_definitions r)(def_id d \<mapsto> d),
                      reg_tags = foldl (add_tag (def_id d)) (reg_tags r) (def_tags d)\<rparr> rest))"

definition NewRegistry :: "item_definition list \<Rightarrow> registry_error + item_registry" where
  "NewRegistry ds = add_definitions \<lparr>reg_definitions = (\<lambda>_. None), reg_tags = (\<lambda>_. None)\<rparr> ds"

definition Lookup :: "item_registry \<Rightarrow> string \<Rightarrow> item_definition option" where
  "Lookup r item = reg_definitions r item"

definition HasTag :: "item_registry \<Rightarrow> string \<Rightarrow> string \<Rightarrow> bool" where
  "HasTag r item tag = (case reg_tags r tag of None \<Rightarrow> False | Some m \<Rightarrow> item \<in> m)"

definition RepairsWith :: "item_registry \<Rightarrow> string \<Rightarrow> string \<Rightarrow> bool" where
  "RepairsWith r item ingredient =
     (case Lookup r item of
        None \<Rightarrow> False
      | Some d \<Rightarrow>
          (case def_repair d of
             None \<Rightarrow> False
           | Some wanted \<Rightarrow>
               if ingredient = [] then False
               else if wanted \<noteq> [] \<and> hd wanted = CHR ''#'' then HasTag r ingredient (tl wanted)
               else wanted = ingredient))"

section \<open>What an accepted registry guarantees\<close>

definition valid_definition :: "item_definition \<Rightarrow> bool" where
  "valid_definition d \<longleftrightarrow> validateDefinition d = None"

text \<open>
  The index is consistent: each definition is stored under its own id and valid, and an
  item is in the member set of a tag exactly when its definition lists the tag.
\<close>

definition registry_ok :: "item_registry \<Rightarrow> bool" where
  "registry_ok r \<longleftrightarrow>
     (\<forall>i d. reg_definitions r i = Some d \<longrightarrow> def_id d = i \<and> valid_definition d) \<and>
     (\<forall>i t. HasTag r i t \<longleftrightarrow> (\<exists>d. reg_definitions r i = Some d \<and> t \<in> set (def_tags d)))"

lemma validateDefinition_tags [simp]: "validateDefinition (d\<lparr>def_tags := ts\<rparr>) = validateDefinition d"
  by (simp add: validateDefinition_def)

lemma add_tags_lookup:
  "(case foldl (add_tag item) tags ts t of None \<Rightarrow> False | Some m \<Rightarrow> i \<in> m) \<longleftrightarrow>
   (case tags t of None \<Rightarrow> False | Some m \<Rightarrow> i \<in> m) \<or> (i = item \<and> t \<in> set ts)"
  by (induction ts arbitrary: tags) (auto simp: add_tag_def split: option.splits)

lemma add_definitions_ok:
  "registry_ok r \<Longrightarrow> add_definitions r ds = Inr r' \<Longrightarrow> registry_ok r'"
proof (induction r ds rule: add_definitions.induct)
  case (1 r)
  then show ?case by simp
next
  case (2 r source rest)
  let ?d = "source\<lparr>def_tags := sort (def_tags source)\<rparr>"
  let ?r = "\<lparr>reg_definitions = (reg_definitions r)(def_id ?d \<mapsto> ?d),
             reg_tags = foldl (add_tag (def_id ?d)) (reg_tags r) (def_tags ?d)\<rparr>"
  from "2.prems"(2) have v: "validateDefinition source = None"
    and fresh: "reg_definitions r (def_id source) = None"
    and more: "add_definitions ?r rest = Inr r'"
    by (auto simp: Let_def split: option.splits if_splits)
  from "2.prems"(1) have tags: "HasTag r i t \<longleftrightarrow> (\<exists>d. reg_definitions r i = Some d \<and> t \<in> set (def_tags d))" for i t
    by (simp add: registry_ok_def)
  have "HasTag ?r i t \<longleftrightarrow> HasTag r i t \<or> (i = def_id source \<and> t \<in> set (def_tags source))" for i t
    by (simp add: HasTag_def add_tags_lookup)
  then have "registry_ok ?r"
    using "2.prems"(1) v fresh tags by (auto simp: registry_ok_def valid_definition_def)
  then show ?case
    using "2.IH" [OF refl] v fresh more by simp
qed

lemma NewRegistry_ok: "NewRegistry ds = Inr r \<Longrightarrow> registry_ok r"
  unfolding NewRegistry_def
  by (rule add_definitions_ok) (simp_all add: registry_ok_def HasTag_def)

lemma valid_definition_bounds:
  "valid_definition d \<Longrightarrow> 0 < def_max_stack d \<and> 0 \<le> def_max_durability d"
  unfolding valid_definition_def validateDefinition_def
  by (simp only: if_split_eq1 option.distinct simp_thms not_le not_less) linarith?

lemma registry_ok_valid: "registry_ok r \<Longrightarrow> Lookup r i = Some d \<Longrightarrow> valid_definition d"
  unfolding registry_ok_def Lookup_def by blast

lemma registry_ok_stack: "registry_ok r \<Longrightarrow> Lookup r i = Some d \<Longrightarrow> 0 < def_max_stack d"
  using valid_definition_bounds registry_ok_valid by blast

lemma registry_ok_durability: "registry_ok r \<Longrightarrow> Lookup r i = Some d \<Longrightarrow> 0 \<le> def_max_durability d"
  using valid_definition_bounds registry_ok_valid by blast

section \<open>Properties\<close>

text \<open>C13: Every registry \<open>NewRegistry\<close> accepts is consistent: a definition is found under its own id,
  has passed validation, so its stack limit is positive and its durability not negative, and the
  tag index answers exactly what the tags of the definitions say.\<close>

theorem accepted_registry:
  assumes "NewRegistry ds = Inr r"
  shows "(\<forall>i d. Lookup r i = Some d \<longrightarrow> def_id d = i \<and> validateDefinition d = None \<and>
             0 < def_max_stack d \<and> 0 \<le> def_max_durability d) \<and>
         (\<forall>i t. HasTag r i t \<longleftrightarrow> (\<exists>d. Lookup r i = Some d \<and> t \<in> set (def_tags d)))"
proof -
  have ok: "registry_ok r" using assms by (rule NewRegistry_ok)
  have "def_id d = i \<and> valid_definition d" if "Lookup r i = Some d" for i d
    using ok that by (simp add: registry_ok_def Lookup_def)
  moreover have "HasTag r i t \<longleftrightarrow> (\<exists>d. Lookup r i = Some d \<and> t \<in> set (def_tags d))" for i t
    using ok by (simp add: registry_ok_def Lookup_def)
  ultimately show ?thesis
    using valid_definition_bounds by (simp add: valid_definition_def)
qed

definition bare_item :: "string \<Rightarrow> string list \<Rightarrow> item_definition" where
  "bare_item i tags =
     \<lparr>def_id = i, def_max_stack = 64, def_max_durability = 0, def_equipment = None, def_combat = None,
      def_food = None, def_consumable = None, def_tool = None, def_enchantability = 0, def_repair = None,
      def_rarity = [], def_fire_resistant = False, def_fuel_ticks = 0, def_tags = tags\<rparr>"

theorem accepted_registry_witness:
  "\<exists>r. NewRegistry [bare_item ''a:b'' [''t'']] = Inr r \<and> HasTag r ''a:b'' ''t'' \<and> \<not> HasTag r ''a:c'' ''t''"
proof -
  have v: "validateDefinition (bare_item ''a:b'' [''t'']) = None"
    by (simp add: validateDefinition_def bare_item_def)
  then obtain r where r: "NewRegistry [bare_item ''a:b'' [''t'']] = Inr r"
    and d: "Lookup r ''a:b'' = Some (bare_item ''a:b'' [''t''])" "Lookup r ''a:c'' = None"
    by (simp add: NewRegistry_def Let_def Lookup_def) (simp add: bare_item_def)
  from accepted_registry [OF r] d have "HasTag r ''a:b'' ''t'' \<and> \<not> HasTag r ''a:c'' ''t''"
    by (simp add: bare_item_def)
  with r show ?thesis by blast
qed

end
