(* ===== verification/Items.thy ===== *)
theory Items
  imports Registry GoStrings
begin

text \<open>
  Item stacks (\<open>core/player/item.go\<close>) and the compact enchantment component
  (\<open>core/player/enchantment_state.go\<close>). \<open>item_env\<close> holds what the functions consult from
  elsewhere: the item registry, and the canonical form of the JSON component string
  (\<open>ItemStack.NormalizedComponents\<close>, whose JSON codec is not modelled); every result holds
  for any such function.
\<close>

section \<open>Stacks\<close>

record explosion =
  ex_shape :: byte
  ex_colors :: "i32 list"
  ex_color_count :: byte
  ex_fade_colors :: "i32 list"
  ex_fade_count :: byte
  ex_trail :: bool
  ex_twinkle :: bool

record firework_data =
  fw_flight :: byte
  fw_count :: byte
  fw_explosions :: "explosion list"

record item_stack =
  ItemID :: string
  Count :: int
  Damage :: int
  Enchantments :: string
  PotDecorations :: "string list"
  HasFireworks :: bool
  Fireworks :: firework_data
  Components :: string

record item_env =
  registry :: item_registry
  norm_components :: "string \<Rightarrow> string"

definition MaxFireworkExplosions :: nat where "MaxFireworkExplosions = 7"

definition MaxFireworkColors :: nat where "MaxFireworkColors = 8"

text \<open>The zero values of the Go structs; arrays keep their length.\<close>

definition zero_explosion :: explosion where
  "zero_explosion =
     \<lparr>ex_shape = 0, ex_colors = replicate MaxFireworkColors 0, ex_color_count = 0,
      ex_fade_colors = replicate MaxFireworkColors 0, ex_fade_count = 0, ex_trail = False, ex_twinkle = False\<rparr>"

definition zero_fireworks :: firework_data where
  "zero_fireworks =
     \<lparr>fw_flight = 0, fw_count = 0, fw_explosions = replicate MaxFireworkExplosions zero_explosion\<rparr>"

definition no_item :: item_stack where
  "no_item =
     \<lparr>ItemID = [], Count = 0, Damage = 0, Enchantments = [], PotDecorations = replicate 4 [],
      HasFireworks = False, Fireworks = zero_fireworks, Components = []\<rparr>"

definition IsEmpty :: "item_stack \<Rightarrow> bool" where
  "IsEmpty s \<longleftrightarrow> Count s \<le> 0 \<or> ItemID s = []"

definition NormalizePotDecorations :: "string list \<Rightarrow> string list" where
  "NormalizePotDecorations ds = map (\<lambda>d. if d = [] then ''minecraft:brick'' else d) ds"

definition NormalizedPotDecorations :: "item_stack \<Rightarrow> string list" where
  "NormalizedPotDecorations s =
     (if ItemID s \<noteq> ''minecraft:decorated_pot'' then replicate 4 []
      else NormalizePotDecorations (PotDecorations s))"

definition clamp_explosion :: "explosion \<Rightarrow> explosion" where
  "clamp_explosion e =
     e\<lparr>ex_shape := (if ex_shape e > 4 then 0 else ex_shape e),
       ex_color_count := (if unat (ex_color_count e) > MaxFireworkColors then of_nat MaxFireworkColors else ex_color_count e),
       ex_fade_count := (if unat (ex_fade_count e) > MaxFireworkColors then of_nat MaxFireworkColors else ex_fade_count e)\<rparr>"

definition EffectiveFireworks :: "item_stack \<Rightarrow> firework_data" where
  "EffectiveFireworks s =
     (if ItemID s \<noteq> ''minecraft:firework_rocket'' then zero_fireworks
      else
        let data = Fireworks s;
            data = (if HasFireworks s then data else data\<lparr>fw_flight := 1\<rparr>);
            data = (if unat (fw_count data) > MaxFireworkExplosions
                    then data\<lparr>fw_count := of_nat MaxFireworkExplosions\<rparr> else data);
            n = unat (fw_count data)
        in data\<lparr>fw_explosions := map clamp_explosion (take n (fw_explosions data)) @ drop n (fw_explosions data)\<rparr>)"

definition SameItem :: "item_env \<Rightarrow> item_stack \<Rightarrow> item_stack \<Rightarrow> bool" where
  "SameItem E s other \<longleftrightarrow>
     ItemID s = ItemID other \<and> Damage s = Damage other \<and> Enchantments s = Enchantments other \<and>
     NormalizedPotDecorations s = NormalizedPotDecorations other \<and>
     EffectiveFireworks s = EffectiveFireworks other \<and>
     norm_components E (Components s) = norm_components E (Components other)"

definition MaxDurability :: "item_env \<Rightarrow> string \<Rightarrow> int" where
  "MaxDurability E i = (case Lookup (registry E) i of Some d \<Rightarrow> def_max_durability d | None \<Rightarrow> 0)"

definition MaxStackSize :: "item_env \<Rightarrow> string \<Rightarrow> int" where
  "MaxStackSize E i = (case Lookup (registry E) i of Some d \<Rightarrow> def_max_stack d | None \<Rightarrow> 64)"

definition RemainingDurability :: "item_env \<Rightarrow> item_stack \<Rightarrow> int" where
  "RemainingDurability E s =
     (let m = MaxDurability E (ItemID s)
      in if m = 0 then 0 else if m - Damage s < 0 then 0 else m - Damage s)"

section \<open>Enchantments (enchantment_state.go)\<close>

record enchantment_level =
  el_id :: string
  el_level :: int

definition decode_entry :: "string \<Rightarrow> enchantment_level option" where
  "decode_entry entry =
     (let parts = split_n2 CHR ''='' entry; level = Atoi (last parts)
      in if length parts \<noteq> 2 \<or> hd parts = [] \<or> CHR '':'' \<notin> set (hd parts) then None
         else (case level of
                 None \<Rightarrow> None
               | Some l \<Rightarrow> if l < 1 \<or> l > 255 then None else Some \<lparr>el_id = hd parts, el_level = l\<rparr>))"

fun decode_entries :: "string list \<Rightarrow> enchantment_level list option" where
  "decode_entries [] = Some []"
| "decode_entries (e # es) =
     (case decode_entry e of
        None \<Rightarrow> None
      | Some v \<Rightarrow> (case decode_entries es of None \<Rightarrow> None | Some vs \<Rightarrow> Some (v # vs)))"

definition DecodeEnchantments :: "string \<Rightarrow> enchantment_level list option" where
  "DecodeEnchantments encoded =
     (if encoded = [] then Some [] else decode_entries (split_on CHR '';'' encoded))"

definition encodeEnchantments :: "enchantment_level list \<Rightarrow> string" where
  "encodeEnchantments vs =
     join_with CHR '';'' (map (\<lambda>v. el_id v @ CHR ''='' # Itoa (el_level v)) (sort_key el_id vs))"

definition EnchantmentLevels :: "item_stack \<Rightarrow> enchantment_level list" where
  "EnchantmentLevels s = (case DecodeEnchantments (Enchantments s) of None \<Rightarrow> [] | Some vs \<Rightarrow> vs)"

definition with_namespace :: "string \<Rightarrow> string" where
  "with_namespace i = (if CHR '':'' \<in> set i then i else ''minecraft:'' @ i)"

definition EnchantmentLevel :: "item_stack \<Rightarrow> string \<Rightarrow> int" where
  "EnchantmentLevel s i =
     (case find (\<lambda>v. el_id v = with_namespace i) (EnchantmentLevels s) of
        None \<Rightarrow> 0 | Some v \<Rightarrow> el_level v)"

text \<open>The loop over the levels: the index of the first entry with the id.\<close>

fun index_of_id :: "string \<Rightarrow> enchantment_level list \<Rightarrow> nat option" where
  "index_of_id i [] = None"
| "index_of_id i (v # vs) = (if el_id v = i then Some 0 else map_option Suc (index_of_id i vs))"

definition Enchant :: "item_stack \<Rightarrow> string \<Rightarrow> int \<Rightarrow> item_stack \<times> bool" where
  "Enchant s i level =
     (if IsEmpty s \<or> level \<le> 0 then (s, False)
      else
        let i = with_namespace i; level = min level 255; values = EnchantmentLevels s
        in case index_of_id i values of
             Some n \<Rightarrow>
               (if level \<le> el_level (values ! n) then (s, False)
                else (s\<lparr>Enchantments := encodeEnchantments (values[n := (values ! n)\<lparr>el_level := level\<rparr>])\<rparr>, True))
           | None \<Rightarrow>
               (s\<lparr>Enchantments := encodeEnchantments (values @ [\<lparr>el_id = i, el_level = level\<rparr>])\<rparr>, True))"

definition ApplyDamage :: "item_env \<Rightarrow> item_stack \<Rightarrow> int \<Rightarrow> item_stack \<times> bool" where
  "ApplyDamage E s amount =
     (let m = MaxDurability E (ItemID s)
      in if m = 0 \<or> amount \<le> 0 \<or> IsEmpty s then (s, False)
         else
           let lvl = EnchantmentLevel s ''minecraft:unbreaking'';
               amount = (if lvl > 0 then (if amount div (lvl + 1) > 0 then amount div (lvl + 1) else 1) else amount);
               s = s\<lparr>Damage := Damage s + amount\<rparr>
           in if Damage s < m then (s, False)
              else let s = s\<lparr>Count := Count s - 1\<rparr>
                   in if Count s \<le> 0 then (no_item, True) else (s\<lparr>Damage := 0\<rparr>, True))"

end
