(* ===== verification/Inventory.thy ===== *)
theory Inventory
  imports Items
begin

text \<open>
  Adding stacks to slot lists: \<open>Player.GiveItem\<close> (\<open>core/player/player.go\<close>),
  \<open>addStackToInventory\<close> (\<open>java/handler/crafting.go\<close>), \<open>addStackToContainer\<close>
  (\<open>java/handler/chest.go\<close>), \<open>addStackToFurnaceSlot\<close> (\<open>java/handler/furnace.go\<close>) and the
  storage of vehicles (\<open>core/player/storage_inventory.go\<close>).

  The lemmas count the items of each kind: a kind is everything \<open>SameItem\<close> compares, and
  \<open>total E k slots\<close> is the number of items of kind \<open>k\<close> in the slots. Operations that move
  stacks keep every total; the interface \<open>stack_sink\<close> states that once for the three
  ways of adding a stack.
\<close>

section \<open>Adding a stack\<close>

definition InventorySize :: nat where "InventorySize = 46"
definition HotbarStart :: nat where "HotbarStart = 36"

text \<open>The two index ranges every loop visits in this order: the hotbar, then the main inventory.\<close>

definition storage_indices :: "nat list" where
  "storage_indices = [36..<45] @ [9..<36]"

text \<open>Merge into compatible partial stacks while something remains.\<close>

fun merge_loop :: "item_env \<Rightarrow> int \<Rightarrow> item_stack \<Rightarrow> nat list \<Rightarrow> item_stack list \<Rightarrow> int \<Rightarrow> item_stack list \<times> int" where
  "merge_loop E limit item [] slots remaining = (slots, remaining)"
| "merge_loop E limit item (i # is) slots remaining =
     (if remaining \<le> 0 then (slots, remaining)
      else if \<not> SameItem E (slots ! i) item \<or> limit \<le> Count (slots ! i)
        then merge_loop E limit item is slots remaining
      else
        let add = min (limit - Count (slots ! i)) remaining
        in merge_loop E limit item is
             (slots[i := (slots ! i)\<lparr>Count := Count (slots ! i) + add\<rparr>]) (remaining - add))"

text \<open>Use empty slots, splitting across stacks when necessary.\<close>

fun fill_loop :: "int \<Rightarrow> item_stack \<Rightarrow> nat list \<Rightarrow> item_stack list \<Rightarrow> int \<Rightarrow> item_stack list \<times> int" where
  "fill_loop limit item [] slots remaining = (slots, remaining)"
| "fill_loop limit item (i # is) slots remaining =
     (if remaining \<le> 0 then (slots, remaining)
      else if \<not> IsEmpty (slots ! i) then fill_loop limit item is slots remaining
      else
        let add = min limit remaining
        in fill_loop limit item is (slots[i := item\<lparr>Count := add\<rparr>]) (remaining - add))"

definition slot_room :: "item_env \<Rightarrow> int \<Rightarrow> item_stack \<Rightarrow> item_stack \<Rightarrow> int" where
  "slot_room E limit item slot =
     (if IsEmpty slot then limit
      else if SameItem E slot item \<and> Count slot < limit then limit - Count slot
      else 0)"

definition capacity :: "item_env \<Rightarrow> int \<Rightarrow> item_stack \<Rightarrow> nat list \<Rightarrow> item_stack list \<Rightarrow> int" where
  "capacity E limit item is slots = sum_list (map (\<lambda>i. slot_room E limit item (slots ! i)) is)"

definition add_stack :: "item_env \<Rightarrow> int \<Rightarrow> nat list \<Rightarrow> item_stack list \<Rightarrow> item_stack \<Rightarrow> item_stack list \<times> bool" where
  "add_stack E limit is slots item =
     (let (slots1, r1) = merge_loop E limit item is slots (Count item);
          (slots2, r2) = fill_loop limit item is slots1 r1
      in (slots2, r2 = 0))"

definition GiveItem :: "item_env \<Rightarrow> item_stack list \<Rightarrow> item_stack \<Rightarrow> item_stack list \<times> bool" where
  "GiveItem E inventory item =
     (if IsEmpty item then (inventory, True)
      else if capacity E (MaxStackSize E (ItemID item)) item storage_indices inventory < Count item
        then (inventory, False)
      else add_stack E (MaxStackSize E (ItemID item)) storage_indices inventory item)"

text \<open>Without the capacity check: on \<open>False\<close> part of the stack may have been placed.\<close>

definition addStackToInventory :: "item_env \<Rightarrow> item_stack list \<Rightarrow> item_stack \<Rightarrow> item_stack list \<times> bool" where
  "addStackToInventory E inventory item =
     (if IsEmpty item then (inventory, True)
      else add_stack E (MaxStackSize E (ItemID item)) storage_indices inventory item)"

definition addStackToContainer :: "item_env \<Rightarrow> item_stack list \<Rightarrow> item_stack \<Rightarrow> item_stack list \<times> bool" where
  "addStackToContainer E slots item =
     (if IsEmpty item then (slots, True)
      else if capacity E 64 item [0..<length slots] slots < Count item then (slots, False)
      else add_stack E 64 [0..<length slots] slots item)"

definition addStackToFurnaceSlot :: "item_env \<Rightarrow> item_stack \<Rightarrow> item_stack \<Rightarrow> item_stack \<times> bool" where
  "addStackToFurnaceSlot E destination source =
     (if IsEmpty source then (destination, False)
      else if IsEmpty destination then
        (if Count source > MaxStackSize E (ItemID source) then (destination, False) else (source, True))
      else if \<not> SameItem E destination source \<or>
              Count destination + Count source > MaxStackSize E (ItemID destination)
        then (destination, False)
      else (destination\<lparr>Count := Count destination + Count source\<rparr>, True))"

definition normalizeStack :: "item_stack \<Rightarrow> item_stack" where
  "normalizeStack s = (if Count s \<le> 0 then no_item else s)"

section \<open>Counting items\<close>

type_synonym item_key = "string \<times> int \<times> string \<times> string list \<times> firework_data \<times> string"

definition item_key :: "item_env \<Rightarrow> item_stack \<Rightarrow> item_key" where
  "item_key E s =
     (ItemID s, Damage s, Enchantments s, NormalizedPotDecorations s, EffectiveFireworks s,
      norm_components E (Components s))"

definition amount :: "item_env \<Rightarrow> item_key \<Rightarrow> item_stack \<Rightarrow> int" where
  "amount E k s = (if IsEmpty s \<or> item_key E s \<noteq> k then 0 else Count s)"

definition total :: "item_env \<Rightarrow> item_key \<Rightarrow> item_stack list \<Rightarrow> int" where
  "total E k slots = sum_list (map (amount E k) slots)"

text \<open>A slot is either the zero value or a positive number of a named item.\<close>

definition slot_ok :: "item_stack \<Rightarrow> bool" where
  "slot_ok s \<longleftrightarrow> s = no_item \<or> \<not> IsEmpty s"

definition slots_ok :: "item_stack list \<Rightarrow> bool" where
  "slots_ok slots \<longleftrightarrow> list_all slot_ok slots"

lemma SameItem_key: "SameItem E a b \<longleftrightarrow> item_key E a = item_key E b"
  by (auto simp: SameItem_def item_key_def)

lemma item_key_Count [simp]: "item_key E (s\<lparr>Count := n\<rparr>) = item_key E s"
  by (simp add: item_key_def NormalizedPotDecorations_def EffectiveFireworks_def)

lemma IsEmpty_no_item [simp]: "IsEmpty no_item"
  by (simp add: IsEmpty_def no_item_def)

lemma ItemID_no_item [simp]: "ItemID no_item = []" and Count_no_item [simp]: "Count no_item = 0"
  by (simp_all add: no_item_def)

lemma slot_ok_no_item [simp]: "slot_ok no_item"
  by (simp add: slot_ok_def)

lemma amount_no_item [simp]: "amount E k no_item = 0"
  by (simp add: amount_def)

lemma amount_empty [simp]: "IsEmpty s \<Longrightarrow> amount E k s = 0"
  by (simp add: amount_def)

lemma slot_ok_nonempty [simp]: "\<not> IsEmpty s \<Longrightarrow> slot_ok s"
  by (simp add: slot_ok_def)

lemma IsEmpty_Count: "IsEmpty (s\<lparr>Count := n\<rparr>) \<longleftrightarrow> n \<le> 0 \<or> ItemID s = []"
  by (simp add: IsEmpty_def)

lemma slot_ok_normalize [simp]: "ItemID s \<noteq> [] \<Longrightarrow> slot_ok (normalizeStack s)"
  by (auto simp: normalizeStack_def slot_ok_def IsEmpty_def)

lemma amount_Count: "ItemID s \<noteq> [] \<Longrightarrow> 0 \<le> n \<Longrightarrow> amount E k (s\<lparr>Count := n\<rparr>) = (if item_key E s = k then n else 0)"
  by (auto simp: amount_def IsEmpty_Count)

lemma amount_nonempty: "\<not> IsEmpty s \<Longrightarrow> amount E k s = (if item_key E s = k then Count s else 0)"
  by (simp add: amount_def)

lemma amount_normalize: "ItemID s \<noteq> [] \<Longrightarrow> 0 \<le> n \<Longrightarrow>
    amount E k (normalizeStack (s\<lparr>Count := n\<rparr>)) = (if item_key E s = k then n else 0)"
  by (auto simp: normalizeStack_def amount_Count)

lemma total_update:
  "i < length slots \<Longrightarrow> total E k (slots[i := s]) = total E k slots - amount E k (slots ! i) + amount E k s"
  unfolding total_def by (rule sum_list_update)

lemma amount_nonneg: "0 \<le> amount E k s"
  by (auto simp: amount_def IsEmpty_def)

lemma slots_ok_nth: "slots_ok slots \<Longrightarrow> i < length slots \<Longrightarrow> slot_ok (slots ! i)"
  by (simp add: slots_ok_def list_all_length)

lemma slots_ok_update: "slots_ok slots \<Longrightarrow> slot_ok s \<Longrightarrow> slots_ok (slots[i := s])"
  unfolding slots_ok_def by (rule list_all_update)

text \<open>A stack of the same kind as a nonempty one is not empty when its slot is in order.\<close>

lemma same_nonempty:
  assumes "slot_ok s" "SameItem E s item" "\<not> IsEmpty item"
  shows "\<not> IsEmpty s"
  using assms by (auto simp: slot_ok_def SameItem_def IsEmpty_def)

section \<open>The loops\<close>

lemma merge_loop_correct:
  assumes "\<not> IsEmpty item" "slots_ok slots" "0 \<le> remaining" "\<And>i. i \<in> set is \<Longrightarrow> i < length slots"
    and "merge_loop E limit item is slots remaining = (slots', r)"
  shows "slots_ok slots' \<and> length slots' = length slots \<and> 0 \<le> r \<and> r \<le> remaining \<and>
    total E k slots' + (if item_key E item = k then r else 0)
      = total E k slots + (if item_key E item = k then remaining else 0)"
  using assms
proof (induction E limit item "is" slots remaining rule: merge_loop.induct)
  case (1 E limit item slots remaining)
  then show ?case by simp
next
  case (2 E limit item i "is" slots remaining)
  let ?s = "slots ! i"
  let ?add = "min (limit - Count ?s) remaining"
  consider "remaining \<le> 0" | "0 < remaining" "\<not> SameItem E ?s item \<or> limit \<le> Count ?s"
    | "0 < remaining" "SameItem E ?s item" "Count ?s < limit" by linarith
  then show ?case
  proof cases
    case 1
    with "2.prems" show ?thesis by simp
  next
    case 2
    with "2.prems" show ?thesis by (intro "2.IH"(1)) auto
  next
    case 3
    have i: "i < length slots" by (rule "2.prems"(4)) simp
    have ne: "\<not> IsEmpty ?s"
      using slots_ok_nth [OF "2.prems"(2) i] 3(2) "2.prems"(1) by (rule same_nonempty)
    then have pos: "0 < Count ?s" "ItemID ?s \<noteq> []" by (auto simp: IsEmpty_def)
    let ?slots = "slots[i := ?s\<lparr>Count := Count ?s + ?add\<rparr>]"
    have run: "merge_loop E limit item is ?slots (remaining - ?add) = (slots', r)"
      using "2.prems"(5) 3 by (simp add: Let_def)
    have ok: "slots_ok ?slots"
      using "2.prems"(2) 3 pos by (intro slots_ok_update) (auto simp: IsEmpty_Count slot_ok_def)
    have key: "item_key E ?s = item_key E item" using 3(2) by (simp add: SameItem_key)
    have tot: "total E k ?slots = total E k slots + (if item_key E item = k then ?add else 0)"
      using i pos ne 3 by (simp add: total_update amount_Count amount_nonempty key)
    have "slots_ok slots' \<and> length slots' = length ?slots \<and> 0 \<le> r \<and> r \<le> remaining - ?add \<and>
        total E k slots' + (if item_key E item = k then r else 0)
          = total E k ?slots + (if item_key E item = k then remaining - ?add else 0)"
      using "2.prems" 3 ok run by (intro "2.IH"(2)) auto
    with tot 3 show ?thesis by auto
  qed
qed

lemma fill_loop_correct:
  assumes "\<not> IsEmpty item" "0 < limit" "slots_ok slots" "0 \<le> remaining" "\<And>i. i \<in> set is \<Longrightarrow> i < length slots"
    and "fill_loop limit item is slots remaining = (slots', r)"
  shows "slots_ok slots' \<and> length slots' = length slots \<and> 0 \<le> r \<and>
    total E k slots' + (if item_key E item = k then r else 0)
      = total E k slots + (if item_key E item = k then remaining else 0)"
  using assms
proof (induction limit item "is" slots remaining rule: fill_loop.induct)
  case (1 limit item slots remaining)
  then show ?case by simp
next
  case (2 limit item i "is" slots remaining)
  let ?s = "slots ! i"
  let ?add = "min limit remaining"
  consider "remaining \<le> 0" | "0 < remaining" "\<not> IsEmpty ?s" | "0 < remaining" "IsEmpty ?s" by linarith
  then show ?case
  proof cases
    case 1
    with "2.prems" show ?thesis by simp
  next
    case 2
    with "2.prems" show ?thesis by (intro "2.IH"(1)) auto
  next
    case 3
    have i: "i < length slots" by (rule "2.prems"(5)) simp
    have id: "ItemID item \<noteq> []" using "2.prems"(1) by (simp add: IsEmpty_def)
    let ?slots = "slots[i := item\<lparr>Count := ?add\<rparr>]"
    have run: "fill_loop limit item is ?slots (remaining - ?add) = (slots', r)"
      using "2.prems"(6) 3 by (simp add: Let_def)
    have ok: "slots_ok ?slots"
      using "2.prems" 3 id by (intro slots_ok_update) (auto simp: IsEmpty_Count slot_ok_def)
    have tot: "total E k ?slots = total E k slots + (if item_key E item = k then ?add else 0)"
      using i id 3 "2.prems"(2) by (simp add: total_update amount_Count)
    have "slots_ok slots' \<and> length slots' = length ?slots \<and> 0 \<le> r \<and>
        total E k slots' + (if item_key E item = k then r else 0)
          = total E k ?slots + (if item_key E item = k then remaining - ?add else 0)"
      using "2.prems" 3 ok run by (intro "2.IH"(2)) auto
    with tot show ?thesis by auto
  qed
qed

lemma add_stack_correct:
  assumes "\<not> IsEmpty item" "0 < limit" "slots_ok slots" "\<And>i. i \<in> set is \<Longrightarrow> i < length slots"
    and "add_stack E limit is slots item = (slots', done)"
  shows "slots_ok slots'" "length slots' = length slots"
    and "done \<Longrightarrow> total E k slots' = total E k slots + amount E k item"
proof -
  have c: "0 \<le> Count item" using assms(1) by (simp add: IsEmpty_def)
  obtain slots1 r1 where m: "merge_loop E limit item is slots (Count item) = (slots1, r1)" by fastforce
  obtain r2 where f: "fill_loop limit item is slots1 r1 = (slots', r2)" and d: "done = (r2 = 0)"
    using assms(5) m by (auto simp: add_stack_def split: prod.splits)
  note M = merge_loop_correct [OF assms(1,3) c assms(4) m, of k]
  have F: "slots_ok slots' \<and> length slots' = length slots1 \<and> 0 \<le> r2 \<and>
      total E k slots' + (if item_key E item = k then r2 else 0)
        = total E k slots1 + (if item_key E item = k then r1 else 0)"
    using M assms(4) by (intro fill_loop_correct [OF assms(1,2) _ _ _ f]) auto
  show "slots_ok slots'" "length slots' = length slots" using M F by auto
  show "total E k slots' = total E k slots + amount E k item" if "done"
    using M F d that assms(1) by (auto simp: amount_nonempty split: if_splits)
qed

text \<open>How much each loop places: the room of the slots it may use.\<close>

definition merge_room :: "item_env \<Rightarrow> int \<Rightarrow> item_stack \<Rightarrow> item_stack \<Rightarrow> int" where
  "merge_room E limit item s = (if \<not> IsEmpty s \<and> SameItem E s item \<and> Count s < limit then limit - Count s else 0)"

definition empty_room :: "int \<Rightarrow> item_stack \<Rightarrow> int" where
  "empty_room limit s = (if IsEmpty s then limit else 0)"

definition room_at :: "(item_stack \<Rightarrow> int) \<Rightarrow> nat list \<Rightarrow> item_stack list \<Rightarrow> int" where
  "room_at f is slots = sum_list (map (\<lambda>i. f (slots ! i)) is)"

lemma room_at_simps [simp]:
  "room_at f [] slots = 0"
  "room_at f (i # is) slots = f (slots ! i) + room_at f is slots"
  by (simp_all add: room_at_def)

lemma room_at_update [simp]: "i \<notin> set is \<Longrightarrow> room_at f is (slots[i := s]) = room_at f is slots"
  unfolding room_at_def by (rule arg_cong [where f = sum_list], rule map_cong [OF refl], metis nth_list_update_neq)

lemma room_at_nonneg: "(\<And>s. 0 \<le> f s) \<Longrightarrow> 0 \<le> room_at f is slots"
  unfolding room_at_def by (rule sum_list_nonneg_int)

lemma merge_room_nonneg: "0 \<le> merge_room E limit item s"
  by (simp add: merge_room_def)

lemma empty_room_full: "\<not> IsEmpty s \<Longrightarrow> empty_room limit s = 0"
  and empty_room_empty: "IsEmpty s \<Longrightarrow> empty_room limit s = limit"
  by (simp_all add: empty_room_def)

lemma capacity_split:
  "capacity E limit item is slots = room_at (merge_room E limit item) is slots + room_at (empty_room limit) is slots"
  by (induction "is") (auto simp: capacity_def merge_room_def empty_room_def slot_room_def)

lemma merge_loop_room:
  assumes "\<not> IsEmpty item" "slots_ok slots" "0 \<le> remaining" "distinct is" "\<And>i. i \<in> set is \<Longrightarrow> i < length slots"
    and "merge_loop E limit item is slots remaining = (slots', r)"
  shows "r = max 0 (remaining - room_at (merge_room E limit item) is slots) \<and>
    (\<forall>j. IsEmpty (slots' ! j) = IsEmpty (slots ! j))"
  using assms
proof (induction E limit item "is" slots remaining rule: merge_loop.induct)
  case (1 E limit item slots remaining)
  then show ?case by simp
next
  case (2 E limit item i "is" slots remaining)
  let ?s = "slots ! i"
  let ?add = "min (limit - Count ?s) remaining"
  have nn: "0 \<le> merge_room E limit item ?s + room_at (merge_room E limit item) is slots"
    by (intro add_nonneg_nonneg room_at_nonneg merge_room_nonneg)
  consider "remaining \<le> 0" | "0 < remaining" "\<not> SameItem E ?s item \<or> limit \<le> Count ?s"
    | "0 < remaining" "SameItem E ?s item" "Count ?s < limit" by linarith
  then show ?case
  proof cases
    case 1
    with "2.prems"(3,6) nn show ?thesis by auto
  next
    case 2
    then have z: "merge_room E limit item ?s = 0" by (auto simp: merge_room_def)
    have "r = max 0 (remaining - room_at (merge_room E limit item) is slots) \<and>
        (\<forall>j. IsEmpty (slots' ! j) = IsEmpty (slots ! j))"
      using 2 "2.prems" by (intro "2.IH"(1)) auto
    with z show ?thesis by simp
  next
    case 3
    have i: "i < length slots" by (rule "2.prems"(5)) simp
    have ne: "\<not> IsEmpty ?s"
      using slots_ok_nth [OF "2.prems"(2) i] 3(2) "2.prems"(1) by (rule same_nonempty)
    then have pos: "0 < Count ?s" "ItemID ?s \<noteq> []" by (auto simp: IsEmpty_def)
    let ?t = "?s\<lparr>Count := Count ?s + ?add\<rparr>"
    let ?slots = "slots[i := ?t]"
    have run: "merge_loop E limit item is ?slots (remaining - ?add) = (slots', r)"
      using "2.prems"(6) 3 by (simp add: Let_def)
    have net: "\<not> IsEmpty ?t" using pos 3 by (auto simp: IsEmpty_Count)
    then have ok: "slots_ok ?slots"
      using "2.prems"(2) by (intro slots_ok_update) auto
    have room: "merge_room E limit item ?s = limit - Count ?s" using 3 ne by (simp add: merge_room_def)
    have "r = max 0 (remaining - ?add - room_at (merge_room E limit item) is ?slots) \<and>
        (\<forall>j. IsEmpty (slots' ! j) = IsEmpty (?slots ! j))"
      using 3 "2.prems"(1,4,5) ok run by (intro "2.IH"(2)) auto
    moreover have "IsEmpty (?slots ! j) = IsEmpty (slots ! j)" for j
      using ne net i by (cases "j = i") auto
    ultimately show ?thesis
      using "2.prems"(4) room 3 room_at_nonneg [of "merge_room E limit item" "is" slots, OF merge_room_nonneg] by auto
  qed
qed

lemma fill_loop_room:
  assumes "0 < limit" "0 \<le> remaining" "distinct is" "\<And>i. i \<in> set is \<Longrightarrow> i < length slots"
    and "fill_loop limit item is slots remaining = (slots', r)"
  shows "r = max 0 (remaining - room_at (empty_room limit) is slots)"
  using assms
proof (induction limit item "is" slots remaining rule: fill_loop.induct)
  case (1 limit item slots remaining)
  then show ?case by simp
next
  case (2 limit item i "is" slots remaining)
  have nn: "0 \<le> empty_room limit (slots ! i) + room_at (empty_room limit) is slots"
    using "2.prems"(1) by (intro add_nonneg_nonneg room_at_nonneg) (auto simp: empty_room_def)
  consider "remaining \<le> 0" | "0 < remaining" "\<not> IsEmpty (slots ! i)" | "0 < remaining" "IsEmpty (slots ! i)" by linarith
  then show ?case
  proof cases
    case 1
    with "2.prems"(2,5) nn show ?thesis by auto
  next
    case 2
    have "r = max 0 (remaining - room_at (empty_room limit) is slots)"
      using 2 "2.prems" by (intro "2.IH"(1)) auto
    with 2 show ?thesis by (simp add: empty_room_full)
  next
    case 3
    let ?add = "min limit remaining"
    let ?slots = "slots[i := item\<lparr>Count := ?add\<rparr>]"
    have run: "fill_loop limit item is ?slots (remaining - ?add) = (slots', r)"
      using "2.prems"(5) 3 by (simp add: Let_def)
    have "r = max 0 (remaining - ?add - room_at (empty_room limit) is ?slots)"
      using 3 "2.prems"(1,3,4) run by (intro "2.IH"(2)) auto
    moreover have "0 \<le> room_at (empty_room limit) is slots"
      using "2.prems"(1) by (intro room_at_nonneg) (auto simp: empty_room_def)
    ultimately show ?thesis
      using "2.prems"(3) 3 by (auto simp: empty_room_empty)
  qed
qed

lemma room_at_cong: "(\<And>i. i \<in> set is \<Longrightarrow> f (xs ! i) = f (ys ! i)) \<Longrightarrow> room_at f is xs = room_at f is ys"
  unfolding room_at_def by (rule arg_cong [where f = sum_list], rule map_cong) auto

text \<open>The stack fits exactly when the capacity of the visited slots reaches its count.\<close>

lemma add_stack_fits:
  assumes "\<not> IsEmpty item" "0 < limit" "slots_ok slots" "distinct is" "\<And>i. i \<in> set is \<Longrightarrow> i < length slots"
  shows "snd (add_stack E limit is slots item) \<longleftrightarrow> Count item \<le> capacity E limit item is slots"
proof -
  have c: "0 < Count item" using assms(1) by (simp add: IsEmpty_def)
  obtain slots1 r1 where m: "merge_loop E limit item is slots (Count item) = (slots1, r1)" by fastforce
  obtain slots2 r2 where f: "fill_loop limit item is slots1 r1 = (slots2, r2)" by fastforce
  have M: "r1 = max 0 (Count item - room_at (merge_room E limit item) is slots)"
    "\<forall>j. IsEmpty (slots1 ! j) = IsEmpty (slots ! j)"
    using merge_loop_room [OF assms(1,3) _ assms(4,5) m] c by auto
  have len: "length slots1 = length slots"
    using merge_loop_correct [OF assms(1,3) _ assms(5) m] c by auto
  have F: "r2 = max 0 (r1 - room_at (empty_room limit) is slots1)"
    using M(1) assms(5) len by (intro fill_loop_room [OF assms(2) _ assms(4) _ f]) auto
  have "room_at (empty_room limit) is slots1 = room_at (empty_room limit) is slots"
    using M(2) by (intro room_at_cong) (simp add: empty_room_def)
  moreover have "0 \<le> room_at (empty_room limit) is slots"
    using assms(2) by (intro room_at_nonneg) (simp add: empty_room_def)
  ultimately have "r2 = 0 \<longleftrightarrow> Count item \<le> capacity E limit item is slots"
    using M(1) F by (auto simp: capacity_split)
  then show ?thesis using m f by (simp add: add_stack_def)
qed

section \<open>Places a stack can be moved to\<close>

text \<open>
  What the click handlers rely on when they move a stack: adding keeps the slots in order,
  and a successful add places exactly the items of the stack. An atomic sink also leaves
  the slots alone when it refuses. \<open>fits\<close> is the shape of the slot lists the sink serves.
\<close>

locale stack_sink =
  fixes add :: "item_stack list \<Rightarrow> item_stack \<Rightarrow> item_stack list \<times> bool"
    and E :: item_env
    and fits :: "item_stack list \<Rightarrow> bool"
  assumes add_ok: "fits slots \<Longrightarrow> slots_ok slots \<Longrightarrow> slot_ok item \<Longrightarrow> add slots item = (slots', d) \<Longrightarrow>
      slots_ok slots' \<and> length slots' = length slots"
    and add_total: "fits slots \<Longrightarrow> slots_ok slots \<Longrightarrow> slot_ok item \<Longrightarrow> add slots item = (slots', True) \<Longrightarrow>
      total E k slots' = total E k slots + amount E k item"
begin

text \<open>Taking a stack out of a list and adding it back to the same list moves it.\<close>

lemma move_within:
  assumes "fits (slots[i := no_item])" "slots_ok slots" "i < length slots"
    and "add (slots[i := no_item]) (slots ! i) = (slots', True)"
  shows "slots_ok slots' \<and> length slots' = length slots \<and> total E k slots' = total E k slots"
proof -
  have ok: "slots_ok (slots[i := no_item])" "slot_ok (slots ! i)"
    using assms(2,3) by (auto intro: slots_ok_update slots_ok_nth)
  show ?thesis
    using add_ok [OF assms(1) ok assms(4)] add_total [OF assms(1) ok assms(4), of k] assms(3)
    by (simp add: total_update)
qed

text \<open>Moving a stack from a slot of one list into another list.\<close>

lemma move_across:
  assumes "fits dst" "slots_ok dst" "slots_ok src" "i < length src"
    and "add dst (src ! i) = (dst', True)"
  shows "slots_ok dst' \<and> length dst' = length dst \<and> slots_ok (src[i := no_item]) \<and>
    total E k dst' + total E k (src[i := no_item]) = total E k dst + total E k src"
proof -
  have ok: "slot_ok (src ! i)" using assms(3,4) by (rule slots_ok_nth)
  show ?thesis
    using add_ok [OF assms(1,2) ok assms(5)] add_total [OF assms(1,2) ok assms(5), of k] assms(3,4)
    by (simp add: total_update slots_ok_update)
qed

end

locale atomic_sink = stack_sink +
  assumes add_refused: "fits slots \<Longrightarrow> slots_ok slots \<Longrightarrow> add slots item = (slots', False) \<Longrightarrow> slots' = slots"
begin

lemma add_conserves:
  assumes "fits slots" "slots_ok slots" "slot_ok item" "add slots item = (slots', d)"
  shows "total E k slots' = total E k slots + (if d then amount E k item else 0)"
  using assms add_total [of slots item slots' k] add_refused [of slots item slots'] by (cases d) auto

end

definition env_ok :: "item_env \<Rightarrow> bool" where
  "env_ok E \<longleftrightarrow> registry_ok (registry E)"

lemma MaxStackSize_pos: "env_ok E \<Longrightarrow> 0 < MaxStackSize E i"
  by (auto simp: env_ok_def MaxStackSize_def registry_ok_stack split: option.splits)

definition inventory_shape :: "item_env \<Rightarrow> item_stack list \<Rightarrow> bool" where
  "inventory_shape E slots \<longleftrightarrow> env_ok E \<and> length slots = InventorySize"

lemma storage_indices_bound: "inventory_shape E slots \<Longrightarrow> i \<in> set storage_indices \<Longrightarrow> i < length slots"
  by (auto simp: inventory_shape_def storage_indices_def InventorySize_def)

lemma distinct_storage_indices: "distinct storage_indices"
  by (auto simp: storage_indices_def)

lemma addStackToInventory_ok:
  assumes "inventory_shape E slots" "slots_ok slots" "addStackToInventory E slots item = (slots', d)"
  shows "slots_ok slots' \<and> length slots' = length slots \<and>
    (d \<longrightarrow> total E k slots' = total E k slots + amount E k item)"
proof (cases "IsEmpty item")
  case True
  with assms show ?thesis by (simp add: addStackToInventory_def)
next
  case False
  have "0 < MaxStackSize E (ItemID item)"
    using assms(1) by (simp add: inventory_shape_def MaxStackSize_pos)
  moreover have "add_stack E (MaxStackSize E (ItemID item)) storage_indices slots item = (slots', d)"
    using assms(3) False by (simp add: addStackToInventory_def)
  ultimately show ?thesis
    using add_stack_correct [OF False _ assms(2) storage_indices_bound [OF assms(1)]] by blast
qed

lemma GiveItem_cases:
  assumes "inventory_shape E slots" "slots_ok slots" "\<not> IsEmpty item"
  shows "GiveItem E slots item =
    (if Count item \<le> capacity E (MaxStackSize E (ItemID item)) item storage_indices slots
     then addStackToInventory E slots item else (slots, False))"
  using assms by (simp add: GiveItem_def addStackToInventory_def)

lemma GiveItem_done:
  assumes "inventory_shape E slots" "slots_ok slots" "\<not> IsEmpty item"
  shows "snd (GiveItem E slots item) \<longleftrightarrow>
    Count item \<le> capacity E (MaxStackSize E (ItemID item)) item storage_indices slots"
proof -
  have "0 < MaxStackSize E (ItemID item)"
    using assms(1) by (simp add: inventory_shape_def MaxStackSize_pos)
  then have "snd (add_stack E (MaxStackSize E (ItemID item)) storage_indices slots item) \<longleftrightarrow>
      Count item \<le> capacity E (MaxStackSize E (ItemID item)) item storage_indices slots"
    using assms storage_indices_bound distinct_storage_indices by (intro add_stack_fits) auto
  then show ?thesis using assms(3) by (auto simp: GiveItem_def)
qed

lemma GiveItem_ok:
  assumes "inventory_shape E slots" "slots_ok slots" "GiveItem E slots item = (slots', d)"
  shows "slots_ok slots' \<and> length slots' = length slots \<and>
    (if d then total E k slots' = total E k slots + amount E k item else slots' = slots)"
proof (cases "IsEmpty item")
  case True
  with assms show ?thesis by (auto simp: GiveItem_def)
next
  case False
  note C = GiveItem_cases [OF assms(1,2) False] GiveItem_done [OF assms(1,2) False]
  show ?thesis
  proof (cases "Count item \<le> capacity E (MaxStackSize E (ItemID item)) item storage_indices slots")
    case True
    with C(2) assms(3) have d by simp
    moreover have "addStackToInventory E slots item = (slots', d)"
      using C(1) True assms(3) by simp
    ultimately show ?thesis
      using addStackToInventory_ok [OF assms(1,2), of item slots' d] by simp
  next
    case False
    with C assms(2,3) show ?thesis by auto
  qed
qed

lemma addStackToContainer_ok:
  assumes "slots_ok slots" "addStackToContainer E slots item = (slots', d)"
  shows "slots_ok slots' \<and> length slots' = length slots \<and>
    (if d then total E k slots' = total E k slots + amount E k item else slots' = slots)"
proof (cases "IsEmpty item")
  case True
  with assms show ?thesis by (auto simp: addStackToContainer_def)
next
  case False
  show ?thesis
  proof (cases "Count item \<le> capacity E 64 item [0..<length slots] slots")
    case True
    then have a: "add_stack E 64 [0..<length slots] slots item = (slots', d)"
      using False assms(2) by (simp add: addStackToContainer_def)
    have "snd (add_stack E 64 [0..<length slots] slots item)"
      using add_stack_fits [of item 64 slots "[0..<length slots]" E] False assms(1) True by simp
    with a have "d" by simp
    then show ?thesis
      using add_stack_correct [OF \<open>\<not> IsEmpty item\<close> _ assms(1) _ a] by simp
  next
    case False
    with assms \<open>\<not> IsEmpty item\<close> show ?thesis by (auto simp: addStackToContainer_def)
  qed
qed

interpretation give: atomic_sink "GiveItem E" E "inventory_shape E" for E
  by unfold_locales (use GiveItem_ok in \<open>fastforce split: if_splits\<close>)+

interpretation inv: stack_sink "addStackToInventory E" E "inventory_shape E" for E
  by unfold_locales (use addStackToInventory_ok in \<open>fastforce\<close>)+

interpretation chest: atomic_sink "addStackToContainer E" E "\<lambda>_. True" for E
  by unfold_locales (use addStackToContainer_ok in \<open>fastforce split: if_splits\<close>)+

section \<open>Properties\<close>

text \<open>C5: \<open>GiveItem\<close> on a well-formed inventory places the whole stack exactly when the 36 storage slots
  have the capacity for it; then the inventory holds exactly the items of the stack more, of
  every kind, and otherwise it is unchanged.\<close>

theorem GiveItem_all_or_nothing:
  assumes "inventory_shape E slots" "slots_ok slots" "\<not> IsEmpty item" "GiveItem E slots item = (slots', d)"
  shows "(d \<longleftrightarrow> Count item \<le> capacity E (MaxStackSize E (ItemID item)) item storage_indices slots) \<and>
    slots_ok slots' \<and> length slots' = length slots \<and>
    (if d then \<forall>k. total E k slots' = total E k slots + amount E k item else slots' = slots)"
  using GiveItem_ok [OF assms(1,2,4)] GiveItem_done [OF assms(1-3)] assms(2,4) by (cases d) simp_all

definition empty_registry :: item_registry where
  "empty_registry = \<lparr>reg_definitions = (\<lambda>_. None), reg_tags = (\<lambda>_. None)\<rparr>"

theorem GiveItem_all_or_nothing_witness:
  "snd (GiveItem \<lparr>registry = empty_registry, norm_components = id\<rparr> (replicate 46 no_item)
     (no_item\<lparr>ItemID := ''m:s'', Count := 70\<rparr>))"
proof -
  let ?E = "\<lparr>registry = empty_registry, norm_components = id\<rparr>" and ?i = "no_item\<lparr>ItemID := ''m:s'', Count := 70\<rparr>"
  obtain slots' d where g: "GiveItem ?E (replicate 46 no_item) ?i = (slots', d)" by fastforce
  have "inventory_shape ?E (replicate 46 no_item)"
    by (simp add: inventory_shape_def InventorySize_def env_ok_def registry_ok_def empty_registry_def HasTag_def)
  moreover have "slots_ok (replicate 46 no_item)" by (simp add: slots_ok_def list_all_iff)
  moreover have "\<not> IsEmpty ?i" by (simp add: IsEmpty_def)
  moreover have "Count ?i \<le> capacity ?E (MaxStackSize ?E (ItemID ?i)) ?i storage_indices (replicate 46 no_item)"
    by (simp add: capacity_def storage_indices_def slot_room_def MaxStackSize_def Lookup_def empty_registry_def upt_rec)
  ultimately show ?thesis using GiveItem_all_or_nothing [OF _ _ _ g] g by simp
qed

end
