(* ===== verification/Blocks.thy ===== *)
theory Blocks
  imports GoStrings
begin

text \<open>
  Block states (\<open>core/world/block.go\<close>). The property map of a block is its association list
  with distinct keys, in some order: nothing the program computes may depend on that order.
  \<open>Key\<close> is the canonical name of a state and the key of every palette; the main lemma shows
  that on well-formed states two keys agree exactly when the states do.
\<close>

record block =
  Namespace :: string
  Name :: string
  Properties :: "(string \<times> string) list"

definition Air :: block where
  "Air = \<lparr>Namespace = ''minecraft'', Name = ''air'', Properties = []\<rparr>"

definition zero_block :: block where
  "zero_block = \<lparr>Namespace = [], Name = [], Properties = []\<rparr>"

text \<open>Reading a Go map: the zero value for a missing key.\<close>

definition get_prop :: "block \<Rightarrow> string \<Rightarrow> string" where
  "get_prop b k = (case map_of (Properties b) k of None \<Rightarrow> [] | Some v \<Rightarrow> v)"

definition with_prop :: "block \<Rightarrow> string \<Rightarrow> string \<Rightarrow> block" where
  "with_prop b k v = b\<lparr>Properties := (k, v) # filter (\<lambda>p. fst p \<noteq> k) (Properties b)\<rparr>"

definition IsAir :: "block \<Rightarrow> bool" where
  "IsAir b \<longleftrightarrow> (Namespace b = [] \<and> Name b = []) \<or>
     (Namespace b = ''minecraft'' \<and> Name b = ''air'' \<and> length (Properties b) = 0)"

definition ResourceLocation :: "block \<Rightarrow> string" where
  "ResourceLocation b = (if Namespace b = [] then Name b else Namespace b @ '':'' @ Name b)"

definition BlockFromResourceLocation :: "string \<Rightarrow> block" where
  "BlockFromResourceLocation s =
     (case split_n2 CHR '':'' s of
        [ns, n] \<Rightarrow> \<lparr>Namespace = ns, Name = n, Properties = []\<rparr>
      | _ \<Rightarrow> \<lparr>Namespace = ''minecraft'', Name = s, Properties = []\<rparr>)"

definition DoublePlantPartnerY :: "block \<Rightarrow> int \<Rightarrow> (int \<times> string) option" where
  "DoublePlantPartnerY b y =
     (if ResourceLocation b \<notin> {''minecraft:tall_grass'', ''minecraft:large_fern'', ''minecraft:sunflower'',
          ''minecraft:lilac'', ''minecraft:rose_bush'', ''minecraft:peony'', ''minecraft:pitcher_plant''} then None
      else if get_prop b ''half'' = ''lower'' then Some (y + 1, ''upper'')
      else if get_prop b ''half'' = ''upper'' then Some (y - 1, ''lower'')
      else None)"

definition Equal :: "block \<Rightarrow> block \<Rightarrow> bool" where
  "Equal b other \<longleftrightarrow>
     Namespace b = Namespace other \<and> Name b = Name other \<and>
     length (Properties b) = length (Properties other) \<and>
     list_all (\<lambda>(k, v). get_prop other k = v) (Properties b)"

definition Key :: "block \<Rightarrow> string" where
  "Key b =
     (if length (Properties b) = 0 then ResourceLocation b
      else ResourceLocation b @ ''['' @
        join_with CHR '','' (map (\<lambda>(k, v). k @ ''='' @ v) (sort_key fst (Properties b))) @ '']'')"

section \<open>Well-formed states\<close>

text \<open>
  A state of a resource file: names free of the key syntax, a property map, and no empty
  property value (Go reads a missing key as the empty string).
\<close>

definition plain :: "string \<Rightarrow> bool" where
  "plain s \<longleftrightarrow> set s \<inter> {CHR '':'', CHR ''['', CHR '']'', CHR '','', CHR ''=''} = {}"

definition block_wf :: "block \<Rightarrow> bool" where
  "block_wf b \<longleftrightarrow> plain (Namespace b) \<and> plain (Name b) \<and> Namespace b \<noteq> [] \<and>
     distinct (map fst (Properties b)) \<and>
     list_all (\<lambda>(k, v). plain k \<and> plain v \<and> v \<noteq> []) (Properties b)"

definition same_state :: "block \<Rightarrow> block \<Rightarrow> bool" where
  "same_state a b \<longleftrightarrow> Namespace a = Namespace b \<and> Name a = Name b \<and> map_of (Properties a) = map_of (Properties b)"

lemma Key_Air: "Key Air = ''minecraft:air''"
  by (simp add: Key_def Air_def ResourceLocation_def)

lemma IsAir_Air [simp]: "IsAir Air"
  by (simp add: IsAir_def Air_def)

lemma get_prop_with: "get_prop (with_prop b k v) k' = (if k' = k then v else get_prop b k')"
proof -
  have "map_of (filter (\<lambda>p. fst p \<noteq> k) xs) k' = map_of xs k'" if "k' \<noteq> k" for xs :: "(string \<times> string) list"
    using that by (induction xs) auto
  then show ?thesis by (simp add: get_prop_def with_prop_def)
qed

lemma ResourceLocation_with_prop [simp]: "ResourceLocation (with_prop b k v) = ResourceLocation b"
  by (simp add: ResourceLocation_def with_prop_def)

definition parse_pair :: "string \<Rightarrow> string \<times> string" where
  "parse_pair s = (case split_n2 CHR ''='' s of [k, v] \<Rightarrow> (k, v) | _ \<Rightarrow> ([], []))"

lemma parse_pair: "plain k \<Longrightarrow> parse_pair (k @ CHR ''='' # v) = (k, v)"
  by (simp add: parse_pair_def plain_def split_n2_append)

text \<open>The pairs of a key in sorted order determine the map, and the map determines them.\<close>

lemma sorted_pairs_eq:
  fixes xs ys :: "(string \<times> string) list"
  assumes "distinct (map fst xs)" "distinct (map fst ys)"
  shows "sort_key fst xs = sort_key fst ys \<longleftrightarrow> map_of xs = map_of ys"
proof
  assume "sort_key fst xs = sort_key fst ys"
  then have "set (sort_key fst xs) = set (sort_key fst ys)" by (rule arg_cong)
  then have "set xs = set ys" by (simp only: set_sort)
  then show "map_of xs = map_of ys" by (simp only: map_of_inject_set [OF assms])
next
  assume "map_of xs = map_of ys"
  then have s: "set xs = set ys" by (simp only: map_of_inject_set [OF assms])
  have i: "inj_on fst (set xs)" using assms(1) by (simp add: distinct_map)
  have d: "distinct (map fst (sort_key fst zs))" if "distinct (map fst zs)" for zs :: "(string \<times> string) list"
    using that by (simp add: distinct_map)
  show "sort_key fst xs = sort_key fst ys"
    by (rule map_sorted_distinct_set_unique [where f = fst])
      (use s i d [OF assms(1)] d [OF assms(2)] in \<open>simp_all only: set_sort sorted_sort_key Un_absorb\<close>)
qed

lemma block_wf_RL:
  assumes "block_wf b"
  shows "CHR ''['' \<notin> set (ResourceLocation b)" "split_n2 CHR '':'' (ResourceLocation b) = [Namespace b, Name b]"
  using assms by (auto simp: block_wf_def plain_def ResourceLocation_def split_n2_append)

definition pair_text :: "string \<times> string \<Rightarrow> string" where
  "pair_text = (\<lambda>(k, v). k @ ''='' @ v)"

lemma sorted_texts:
  assumes "block_wf b" "Properties b \<noteq> []"
  shows "map parse_pair (split_on CHR '','' (join_with CHR '','' (map pair_text (sort_key fst (Properties b)))))
    = sort_key fst (Properties b)"
proof -
  let ?s = "sort_key fst (Properties b)"
  have ok: "\<forall>p \<in> set ?s. plain (fst p) \<and> plain (snd p)"
    using assms(1) by (auto simp: block_wf_def list_all_iff)
  have "CHR '','' \<notin> set x" if "x \<in> set (map pair_text ?s)" for x
    using that ok by (auto simp: pair_text_def plain_def)
  moreover have "map pair_text ?s \<noteq> []" using assms(2) by (metis Nil_is_map_conv length_0_conv length_sort)
  ultimately have "split_on CHR '','' (join_with CHR '','' (map pair_text ?s)) = map pair_text ?s"
    by (intro split_join) auto
  moreover have "map parse_pair (map pair_text ?s) = map id ?s"
    unfolding map_map by (rule map_cong [OF refl]) (use ok in \<open>auto simp: pair_text_def parse_pair\<close>)
  ultimately show ?thesis by simp
qed

lemma Key_RL: "block_wf b \<Longrightarrow> takeWhile (\<lambda>c. c \<noteq> CHR ''['') (Key b) = ResourceLocation b"
  using block_wf_RL(1) [of b] by (simp add: Key_def takeWhile_at takeWhile_none)

lemma Key_rest: "block_wf b \<Longrightarrow> dropWhile (\<lambda>c. c \<noteq> CHR ''['') (Key b) =
    (if Properties b = [] then []
     else CHR ''['' # join_with CHR '','' (map pair_text (sort_key fst (Properties b))) @ '']'')"
  using block_wf_RL(1) [of b] by (simp add: Key_def pair_text_def dropWhile_at dropWhile_none)

lemma Key_inject:
  assumes "block_wf a" "block_wf b"
  shows "Key a = Key b \<longleftrightarrow> same_state a b"
proof
  assume k: "Key a = Key b"
  then have rl: "ResourceLocation a = ResourceLocation b"
    using Key_RL [OF assms(1)] Key_RL [OF assms(2)] by simp
  then have n: "Namespace a = Namespace b" "Name a = Name b"
    using block_wf_RL(2) [OF assms(1)] block_wf_RL(2) [OF assms(2)] by simp_all
  have r: "(Properties a = []) = (Properties b = [])" and
    j: "Properties a \<noteq> [] \<Longrightarrow> join_with CHR '','' (map pair_text (sort_key fst (Properties a)))
      = join_with CHR '','' (map pair_text (sort_key fst (Properties b)))"
    using k Key_rest [OF assms(1)] Key_rest [OF assms(2)] by (auto split: if_splits)
  have "map_of (Properties a) = map_of (Properties b)"
  proof (cases "Properties a = []")
    case True
    with r show ?thesis by simp
  next
    case False
    with r j sorted_texts [OF assms(1)] sorted_texts [OF assms(2)]
    have "sort_key fst (Properties a) = sort_key fst (Properties b)" by metis
    then show ?thesis using sorted_pairs_eq assms by (auto simp: block_wf_def)
  qed
  with n show "same_state a b" by (simp add: same_state_def)
next
  assume s: "same_state a b"
  then have "sort_key fst (Properties a) = sort_key fst (Properties b)"
    using sorted_pairs_eq assms by (auto simp: block_wf_def same_state_def)
  moreover have "length (Properties a) = length (Properties b)"
    using calculation by (metis length_sort)
  ultimately show "Key a = Key b"
    using s by (simp add: Key_def ResourceLocation_def same_state_def)
qed

lemma map_of_eq_length:
  assumes "distinct (map fst xs)" "distinct (map fst ys)" "map_of xs = map_of ys"
  shows "length xs = length ys"
proof -
  have "set (map fst xs) = set (map fst ys)" using assms(3) by (metis dom_map_of_conv_image_fst list.set_map)
  then have "length (map fst xs) = length (map fst ys)"
    using distinct_card [OF assms(1)] distinct_card [OF assms(2)] by metis
  then show ?thesis by simp
qed

lemma Equal_same_state:
  assumes "block_wf a" "block_wf b"
  shows "Equal a b \<longleftrightarrow> same_state a b"
proof -
  have d: "distinct (map fst (Properties a))" "distinct (map fst (Properties b))"
    and ne: "\<forall>(k, v) \<in> set (Properties a). v \<noteq> []"
    using assms by (auto simp: block_wf_def list_all_iff)
  have "map_of (Properties a) = map_of (Properties b)" if l: "length (Properties a) = length (Properties b)"
    and p: "\<forall>(k, v) \<in> set (Properties a). get_prop b k = v"
  proof -
    have "set (Properties a) \<subseteq> set (Properties b)"
      using p ne by (fastforce simp: get_prop_def split: option.splits dest!: map_of_SomeD)
    moreover have "card (set (Properties a)) = card (set (Properties b))"
      using l d by (simp add: distinct_card distinct_map)
    ultimately have "set (Properties a) = set (Properties b)"
      by (intro card_subset_eq) auto
    then show ?thesis using map_of_inject_set [OF d] by simp
  qed
  moreover have "\<forall>(k, v) \<in> set (Properties a). get_prop b k = v"
    if m: "map_of (Properties a) = map_of (Properties b)"
    using m [symmetric] d(1) by (auto simp: get_prop_def map_of_is_SomeI)
  ultimately show ?thesis
    using map_of_eq_length [OF d] by (auto simp: Equal_def same_state_def list_all_iff)
qed

section \<open>Properties\<close>

text \<open>For blocks whose names and properties use none of the separators, two blocks have the same
  key exactly when they are the same state (the order of the properties does not matter), and
  \<open>Equal\<close> decides the same relation.\<close>

theorem block_key_identifies_state:
  assumes "block_wf a" "block_wf b"
  shows "(Key a = Key b \<longleftrightarrow> same_state a b) \<and> (Equal a b \<longleftrightarrow> same_state a b)"
  using Key_inject [OF assms] Equal_same_state [OF assms] by simp

theorem block_key_identifies_state_witness:
  "Key \<lparr>Namespace = ''m'', Name = ''d'', Properties = [(''b'', ''1''), (''a'', ''2'')]\<rparr>
    = Key \<lparr>Namespace = ''m'', Name = ''d'', Properties = [(''a'', ''2''), (''b'', ''1'')]\<rparr>"
proof -
  let ?a = "\<lparr>Namespace = ''m'', Name = ''d'', Properties = [(''b'', ''1''), (''a'', ''2'')]\<rparr>"
    and ?b = "\<lparr>Namespace = ''m'', Name = ''d'', Properties = [(''a'', ''2''), (''b'', ''1'')]\<rparr>"
  have "block_wf ?a" "block_wf ?b" by (simp_all add: block_wf_def plain_def)
  moreover have "same_state ?a ?b" by (simp add: same_state_def fun_eq_iff)
  ultimately show ?thesis using block_key_identifies_state by blast
qed

end
