(* ===== verification/Chunks.thy ===== *)
theory Chunks
  imports Blocks
begin

text \<open>
  Chunk sections and columns (\<open>core/world/chunk.go\<close>): the block palette with its lazily
  rebuilt index, the counter of non-air positions, the biome cells, and the height query.
  \<open>section_ok\<close> is the invariant every operation keeps; under it every array access of the
  code is in range.
\<close>

definition SectionSize :: int where "SectionSize = 16"
definition WorldMinY :: int where "WorldMinY = -64"
definition WorldMaxY :: int where "WorldMaxY = 319"
definition SectionCount :: nat where "SectionCount = 24"

record section_data =
  blockPalette :: "block list"
  paletteIndex :: "(string \<rightharpoonup> 16 word) option"
  blockData :: "16 word list"
  NonAir :: "16 word"
  Biome :: string
  biomePalette :: "string list"
  biomeIndex :: "(string \<rightharpoonup> 16 word) option"
  biomeData :: "16 word list"

definition plains :: string where "plains = ''minecraft:plains''"

definition NewSection :: section_data where
  "NewSection = \<lparr>blockPalette = [Air], paletteIndex = Some [Key Air \<mapsto> 0], blockData = replicate 4096 0,
     NonAir = 0, Biome = plains, biomePalette = [plains], biomeIndex = Some [plains \<mapsto> 0],
     biomeData = replicate 64 0\<rparr>"

definition grid_index :: "nat \<Rightarrow> nat \<Rightarrow> nat \<Rightarrow> nat" where
  "grid_index x y z = y * 256 + z * 16 + x"

text \<open>\<open>None\<close> is the nil section.\<close>

definition At :: "section_data option \<Rightarrow> nat \<Rightarrow> nat \<Rightarrow> nat \<Rightarrow> block" where
  "At so x y z =
     (case so of None \<Rightarrow> Air
      | Some s \<Rightarrow> if blockPalette s = [] then Air
                  else blockPalette s ! unat (blockData s ! grid_index x y z))"

lemma At_None [simp]: "At None x y z = Air"
  by (simp add: At_def)

text \<open>The loop that rebuilds an index from its palette; a later entry overwrites an earlier one.\<close>

fun index_from :: "('a \<Rightarrow> string) \<Rightarrow> nat \<Rightarrow> 'a list \<Rightarrow> (string \<rightharpoonup> 16 word) \<Rightarrow> (string \<rightharpoonup> 16 word)" where
  "index_from key i [] m = m"
| "index_from key i (b # bs) m = index_from key (Suc i) bs (m(key b \<mapsto> of_nat i))"

definition updateNonAir :: "section_data \<Rightarrow> 16 word \<Rightarrow> 16 word \<Rightarrow> section_data" where
  "updateNonAir s old new =
     (let wasAir = (old = 0); isAir = (new = 0)
      in if wasAir \<and> \<not> isAir then s\<lparr>NonAir := NonAir s + 1\<rparr>
         else if \<not> wasAir \<and> isAir then s\<lparr>NonAir := NonAir s - 1\<rparr>
         else s)"

definition Set :: "section_data \<Rightarrow> nat \<Rightarrow> nat \<Rightarrow> nat \<Rightarrow> block \<Rightarrow> section_data" where
  "Set s x y z b =
     (let index = (case paletteIndex s of Some m \<Rightarrow> m | None \<Rightarrow> index_from Key 0 (blockPalette s) Map.empty);
          g = grid_index x y z;
          old = blockData s ! g
      in case index (Key b) of
           Some i \<Rightarrow> updateNonAir (s\<lparr>paletteIndex := Some index, blockData := (blockData s)[g := i]\<rparr>) old i
         | None \<Rightarrow>
             let newIdx = of_nat (length (blockPalette s))
             in updateNonAir
                  (s\<lparr>blockPalette := blockPalette s @ [b], paletteIndex := Some (index(Key b \<mapsto> newIdx)),
                     blockData := (blockData s)[g := newIdx]\<rparr>) old newIdx)"

definition Finalize :: "section_data \<Rightarrow> section_data" where
  "Finalize s = s\<lparr>paletteIndex := None, biomeIndex := None\<rparr>"

definition SetUniformBiome :: "section_data \<Rightarrow> string \<Rightarrow> section_data" where
  "SetUniformBiome s biome0 =
     (let biome = (if biome0 = [] then plains else biome0)
      in s\<lparr>Biome := biome, biomePalette := [biome], biomeIndex := Some [biome \<mapsto> 0], biomeData := replicate 64 0\<rparr>)"

definition cell_ok :: "int \<Rightarrow> int \<Rightarrow> int \<Rightarrow> bool" where
  "cell_ok x y z \<longleftrightarrow> \<not> (x < 0 \<or> x \<ge> 4 \<or> y < 0 \<or> y \<ge> 4 \<or> z < 0 \<or> z \<ge> 4)"

definition SetBiomeCell :: "section_data \<Rightarrow> int \<Rightarrow> int \<Rightarrow> int \<Rightarrow> string \<Rightarrow> section_data" where
  "SetBiomeCell s x y z biome0 =
     (if \<not> cell_ok x y z then s
      else
        let biome = (if biome0 = [] then plains else biome0);
            index = (case biomeIndex s of Some m \<Rightarrow> m | None \<Rightarrow> index_from id 0 (biomePalette s) Map.empty);
            cell = nat (y * 16 + z * 4 + x);
            (i, index', palette') =
              (case index biome of
                 Some i \<Rightarrow> (i, index, biomePalette s)
               | None \<Rightarrow> let i = of_nat (length (biomePalette s))
                         in (i, index(biome \<mapsto> i), biomePalette s @ [biome]))
        in s\<lparr>biomePalette := palette', biomeIndex := Some index', biomeData := (biomeData s)[cell := i],
             Biome := (if palette' \<noteq> [] then palette' ! 0 else Biome s)\<rparr>)"

definition BiomeAtCell :: "section_data option \<Rightarrow> int \<Rightarrow> int \<Rightarrow> int \<Rightarrow> string" where
  "BiomeAtCell so x y z =
     (case so of None \<Rightarrow> plains
      | Some s \<Rightarrow>
          if \<not> cell_ok x y z \<or> biomePalette s = [] then plains
          else let i = unat (biomeData s ! nat (y * 16 + z * 4 + x))
               in if length (biomePalette s) \<le> i then biomePalette s ! 0 else biomePalette s ! i)"

definition BiomePalette :: "section_data option \<Rightarrow> string list" where
  "BiomePalette so = (case so of None \<Rightarrow> [plains] | Some s \<Rightarrow> if biomePalette s = [] then [plains] else biomePalette s)"

definition SectionMinY :: "nat \<Rightarrow> int" where
  "SectionMinY i = WorldMinY + int i * SectionSize"

record chunk =
  ChunkX :: i32
  ChunkZ :: i32
  Sections :: "section_data option list"

text \<open>The two descending loops of the height query; the scan starts at \<open>n - 1\<close>.\<close>

fun top_in_section :: "section_data \<Rightarrow> nat \<Rightarrow> nat \<Rightarrow> nat \<Rightarrow> nat option" where
  "top_in_section s x z 0 = None"
| "top_in_section s x z (Suc n) = (if \<not> IsAir (At (Some s) x n z) then Some n else top_in_section s x z n)"

fun highest_from :: "chunk \<Rightarrow> nat \<Rightarrow> nat \<Rightarrow> nat \<Rightarrow> int" where
  "highest_from c x z 0 = WorldMinY - 1"
| "highest_from c x z (Suc i) =
     (case Sections c ! i of
        None \<Rightarrow> highest_from c x z i
      | Some s \<Rightarrow>
          if NonAir s = 0 then highest_from c x z i
          else case top_in_section s x z 16 of
                 Some y \<Rightarrow> SectionMinY i + int y
               | None \<Rightarrow> highest_from c x z i)"

definition HighestBlockY :: "chunk \<Rightarrow> int \<Rightarrow> int \<Rightarrow> int" where
  "HighestBlockY c x z =
     (if x < 0 \<or> x \<ge> SectionSize \<or> z < 0 \<or> z \<ge> SectionSize then WorldMinY - 1
      else highest_from c (nat x) (nat z) SectionCount)"

section \<open>The palette invariant\<close>

definition index_ok :: "string list \<Rightarrow> (string \<rightharpoonup> 16 word) \<Rightarrow> bool" where
  "index_ok keys m \<longleftrightarrow> (\<forall>k w. m k = Some w \<longleftrightarrow> unat w < length keys \<and> keys ! unat w = k)"

definition section_ok :: "section_data \<Rightarrow> bool" where
  "section_ok s \<longleftrightarrow>
     blockPalette s \<noteq> [] \<and> blockPalette s ! 0 = Air \<and> length (blockPalette s) < 2 ^ 16 \<and>
     distinct (map Key (blockPalette s)) \<and>
     length (blockData s) = 4096 \<and> list_all (\<lambda>i. unat i < length (blockPalette s)) (blockData s) \<and>
     (\<forall>m. paletteIndex s = Some m \<longrightarrow> index_ok (map Key (blockPalette s)) m) \<and>
     NonAir s = of_nat (length (filter (\<lambda>i. i \<noteq> 0) (blockData s)))"

definition biomes_ok :: "section_data \<Rightarrow> bool" where
  "biomes_ok s \<longleftrightarrow>
     biomePalette s \<noteq> [] \<and> length (biomePalette s) < 2 ^ 16 \<and> distinct (biomePalette s) \<and>
     length (biomeData s) = 64 \<and> list_all (\<lambda>i. unat i < length (biomePalette s)) (biomeData s) \<and>
     (\<forall>m. biomeIndex s = Some m \<longrightarrow> index_ok (biomePalette s) m)"

lemma unat_small: "n < 2 ^ 16 \<Longrightarrow> unat (of_nat n :: 16 word) = n"
  by (simp add: unat_of_nat take_bit_nat_eq_self)

lemma index_ok_None:
  assumes "index_ok keys m" "length keys < 2 ^ 16"
  shows "m k = None \<longleftrightarrow> k \<notin> set keys"
proof
  assume "m k = None"
  show "k \<notin> set keys"
  proof
    assume "k \<in> set keys"
    then obtain i where i: "i < length keys" "keys ! i = k" by (auto simp: in_set_conv_nth)
    then have "m k = Some (of_nat i)"
      using assms by (simp add: index_ok_def unat_small)
    with \<open>m k = None\<close> show False by simp
  qed
next
  assume "k \<notin> set keys"
  then show "m k = None"
    using assms(1) unfolding index_ok_def by (metis not_None_eq nth_mem)
qed

lemma index_ok_append:
  assumes "index_ok keys m" "k \<notin> set keys" "Suc (length keys) < 2 ^ 16"
  shows "index_ok (keys @ [k]) (m(k \<mapsto> of_nat (length keys)))"
  unfolding index_ok_def
proof (intro allI)
  fix k' w
  have u: "unat (of_nat (length keys) :: 16 word) = length keys" using assms(3) by (simp add: unat_small)
  have old: "m k' = Some w \<longleftrightarrow> unat w < length keys \<and> keys ! unat w = k'"
    using assms(1) by (simp add: index_ok_def)
  have w: "w = of_nat (length keys) \<longleftrightarrow> unat w = length keys"
    unfolding word_unat_eq_iff [of w] u ..
  show "(m(k \<mapsto> of_nat (length keys))) k' = Some w \<longleftrightarrow>
      unat w < length (keys @ [k]) \<and> (keys @ [k]) ! unat w = k'"
  proof (cases "k' = k")
    case True
    then show ?thesis using assms(2) w by (auto simp: nth_append)
  next
    case False
    then show ?thesis using old by (auto simp: nth_append)
  qed
qed

lemma index_from_append: "index_from key i (bs @ [b]) m = (index_from key i bs m)(key b \<mapsto> of_nat (i + length bs))"
  by (induction bs arbitrary: i m) (simp_all add: ac_simps)

lemma index_from_ok: "distinct (map key bs) \<Longrightarrow> length bs < 2 ^ 16 \<Longrightarrow> index_ok (map key bs) (index_from key 0 bs Map.empty)"
proof (induction bs rule: rev_induct)
  case Nil
  show ?case by (simp add: index_ok_def)
next
  case (snoc b bs)
  have "index_ok (map key bs @ [key b]) ((index_from key 0 bs Map.empty)(key b \<mapsto> of_nat (length (map key bs))))"
    using snoc by (intro index_ok_append) auto
  moreover have "index_from key 0 (bs @ [b]) Map.empty
      = (index_from key 0 bs Map.empty)(key b \<mapsto> of_nat (length (map key bs)))"
    unfolding index_from_append by simp
  ultimately show ?case by (simp only: map_append list.map)
qed

lemma updateNonAir_simps [simp]:
  "blockPalette (updateNonAir s old new) = blockPalette s"
  "blockData (updateNonAir s old new) = blockData s"
  "paletteIndex (updateNonAir s old new) = paletteIndex s"
  "biomePalette (updateNonAir s old new) = biomePalette s"
  "biomeData (updateNonAir s old new) = biomeData s"
  "biomeIndex (updateNonAir s old new) = biomeIndex s"
  by (simp_all add: updateNonAir_def Let_def)

lemma NonAir_update:
  "NonAir (updateNonAir s old new) = NonAir s - (if old = 0 then 0 else 1) + (if new = 0 then 0 else 1)"
  by (simp add: updateNonAir_def Let_def)

lemma count_sum: "of_nat (length (filter (\<lambda>i. i \<noteq> 0) xs)) = (sum_list (map (\<lambda>i. if i = 0 then 0 else 1) xs) :: 16 word)"
  by (induction xs) simp_all

lemma count_update:
  fixes xs :: "16 word list"
  assumes "g < length xs"
  shows "(of_nat (length (filter (\<lambda>i. i \<noteq> 0) (xs[g := v]))) :: 16 word)
    = of_nat (length (filter (\<lambda>i. i \<noteq> 0) xs)) - (if xs ! g = 0 then 0 else 1) + (if v = 0 then 0 else 1)"
  unfolding count_sum by (rule sum_list_update [OF assms])

text \<open>The index \<open>Set\<close> works with, rebuilt when \<open>Finalize\<close> dropped it.\<close>

definition live_index :: "section_data \<Rightarrow> (string \<rightharpoonup> 16 word)" where
  "live_index s = (case paletteIndex s of Some m \<Rightarrow> m | None \<Rightarrow> index_from Key 0 (blockPalette s) Map.empty)"

lemma live_index_ok: "section_ok s \<Longrightarrow> index_ok (map Key (blockPalette s)) (live_index s)"
  by (auto simp: live_index_def section_ok_def index_from_ok split: option.splits)

definition palette_add :: "section_data \<Rightarrow> block \<Rightarrow> block list \<times> (string \<rightharpoonup> 16 word) \<times> 16 word" where
  "palette_add s b =
     (case live_index s (Key b) of
        Some i \<Rightarrow> (blockPalette s, live_index s, i)
      | None \<Rightarrow> (blockPalette s @ [b], (live_index s)(Key b \<mapsto> of_nat (length (blockPalette s))),
                 of_nat (length (blockPalette s))))"

lemma Set_fields:
  assumes "palette_add s b = (pal, m, i)"
  shows "Set s x y z b = updateNonAir (s\<lparr>blockPalette := pal, paletteIndex := Some m,
    blockData := (blockData s)[grid_index x y z := i]\<rparr>) (blockData s ! grid_index x y z) i"
  using assms by (cases "live_index s (Key b)")
    (auto simp: Set_def Let_def palette_add_def live_index_def [symmetric] split: option.splits)

lemma palette_add_ok:
  assumes "section_ok s" "palette_add s b = (pal, m, i)" "Suc (length (blockPalette s)) < 2 ^ 16"
  shows "pal ! 0 = Air \<and> length (blockPalette s) \<le> length pal \<and> length pal < 2 ^ 16 \<and> distinct (map Key pal) \<and>
    index_ok (map Key pal) m \<and> unat i < length pal \<and> Key (pal ! unat i) = Key b \<and>
    (\<forall>j < length (blockPalette s). pal ! j = blockPalette s ! j)"
proof -
  let ?keys = "map Key (blockPalette s)"
  have io: "index_ok ?keys (live_index s)" using assms(1) by (rule live_index_ok)
  have p: "blockPalette s \<noteq> []" "blockPalette s ! 0 = Air" "distinct ?keys"
    using assms(1) by (auto simp: section_ok_def)
  show ?thesis
  proof (cases "live_index s (Key b)")
    case None
    then have "Key b \<notin> set ?keys" using index_ok_None [OF io, of "Key b"] assms(3) by simp
    moreover have "index_ok (?keys @ [Key b]) ((live_index s)(Key b \<mapsto> of_nat (length ?keys)))"
      using io calculation assms(3) by (intro index_ok_append) auto
    ultimately show ?thesis
      using None assms(2,3) p by (auto simp: palette_add_def nth_append unat_small)
  next
    case (Some w)
    then have "unat w < length ?keys \<and> ?keys ! unat w = Key b" using io by (simp add: index_ok_def)
    then show ?thesis using Some assms p io by (auto simp: palette_add_def)
  qed
qed

text \<open>\<open>Set\<close> keeps the invariant as long as the 16-bit palette has room for one more state.\<close>

lemma Set_ok:
  assumes "section_ok s" "Suc (length (blockPalette s)) < 2 ^ 16" "grid_index x y z < 4096"
  shows "section_ok (Set s x y z b)"
proof -
  obtain pal m i where a: "palette_add s b = (pal, m, i)" by (cases "palette_add s b")
  note P = palette_add_ok [OF assms(1) a assms(2)]
  have "list_all (\<lambda>j. unat j < length pal) (blockData s)"
    using assms(1) P by (auto simp: section_ok_def list_all_iff intro: less_le_trans)
  moreover have "length pal > 0" using P by (cases pal) simp_all
  ultimately show ?thesis
    using assms(1,3) P by (simp add: section_ok_def Set_fields [OF a] NonAir_update count_update list_all_update)
qed

lemma At_Set:
  assumes "section_ok s" "Suc (length (blockPalette s)) < 2 ^ 16" "grid_index x y z < 4096" "grid_index u v w < 4096"
  shows "grid_index u v w = grid_index x y z \<Longrightarrow> Key (At (Some (Set s x y z b)) u v w) = Key b"
    and "grid_index u v w \<noteq> grid_index x y z \<Longrightarrow> At (Some (Set s x y z b)) u v w = At (Some s) u v w"
proof -
  obtain pal m i where a: "palette_add s b = (pal, m, i)" by (cases "palette_add s b")
  note P = palette_add_ok [OF assms(1) a assms(2)]
  have ne: "blockPalette s \<noteq> []" "pal \<noteq> []" "length (blockData s) = 4096"
    and d: "unat (blockData s ! grid_index u v w) < length (blockPalette s)"
    using assms(1,4) P by (auto simp: section_ok_def list_all_length)
  show "Key (At (Some (Set s x y z b)) u v w) = Key b" if "grid_index u v w = grid_index x y z"
    using that P ne assms(3) by (simp add: At_def Set_fields [OF a])
  show "At (Some (Set s x y z b)) u v w = At (Some s) u v w" if "grid_index u v w \<noteq> grid_index x y z"
    using that P ne d by (simp add: At_def Set_fields [OF a])
qed

lemma grid_index_less: "x < 16 \<Longrightarrow> y < 16 \<Longrightarrow> z < 16 \<Longrightarrow> grid_index x y z < 4096"
  by (simp add: grid_index_def)

lemma grid_index_parts:
  assumes "x < 16" "z < 16"
  shows "grid_index x y z mod 16 = x" "grid_index x y z div 16 mod 16 = z" "grid_index x y z div 256 = y"
proof -
  have g: "grid_index x y z = x + 16 * (z + 16 * y)" by (simp add: grid_index_def)
  then have d: "grid_index x y z div 16 = z + 16 * y" using assms(1) by simp
  show "grid_index x y z mod 16 = x" unfolding g using assms(1) by (simp only: mod_mult_self2 mod_less)
  show "grid_index x y z div 16 mod 16 = z" unfolding d using assms(2) by (simp only: mod_mult_self2 mod_less)
  have "grid_index x y z div 256 = grid_index x y z div 16 div 16" by (simp only: div_mult2_eq [symmetric]) simp
  then show "grid_index x y z div 256 = y" using assms(2) d by simp
qed

lemma grid_index_inj:
  assumes "x < 16" "z < 16" "u < 16" "w < 16"
  shows "grid_index x y z = grid_index u v w \<longleftrightarrow> x = u \<and> y = v \<and> z = w"
  using grid_index_parts [OF assms(1,2), of y] grid_index_parts [OF assms(3,4), of v] by metis

lemma NewSection_ok: "section_ok NewSection" and NewSection_biomes: "biomes_ok NewSection"
  by (auto simp: NewSection_def section_ok_def biomes_ok_def index_ok_def list_all_iff Key_Air unsigned_eq_0_iff)

lemma Finalize_ok [simp]: "section_ok s \<Longrightarrow> section_ok (Finalize s)"
  and Finalize_biomes [simp]: "biomes_ok s \<Longrightarrow> biomes_ok (Finalize s)"
  and At_Finalize [simp]: "At (Some (Finalize s)) x y z = At (Some s) x y z"
  by (simp_all add: Finalize_def section_ok_def biomes_ok_def At_def)

lemma At_in_palette:
  assumes "section_ok s" "grid_index x y z < 4096"
  shows "At (Some s) x y z \<in> set (blockPalette s)"
  using assms by (auto simp: section_ok_def At_def list_all_length)

text \<open>Position by position the counter counts what the palette does not call air.\<close>

lemma At_zero:
  assumes "section_ok s" "grid_index x y z < 4096"
  shows "blockData s ! grid_index x y z = 0 \<longleftrightarrow> At (Some s) x y z = Air"
proof -
  let ?w = "blockData s ! grid_index x y z"
  have p: "blockPalette s \<noteq> []" "blockPalette s ! 0 = Air" "distinct (map Key (blockPalette s))"
    "unat ?w < length (blockPalette s)"
    using assms by (auto simp: section_ok_def list_all_length)
  have "distinct (blockPalette s)" using p(3) by (simp add: distinct_map)
  then have "blockPalette s ! unat ?w = blockPalette s ! 0 \<longleftrightarrow> unat ?w = 0"
    using p by (intro nth_eq_iff_index_eq) auto
  then show ?thesis using p by (auto simp: At_def unsigned_eq_0_iff)
qed

lemma NonAir_zero:
  assumes "section_ok s" "NonAir s = 0" "grid_index x y z < 4096"
  shows "At (Some s) x y z = Air"
proof -
  let ?n = "length (filter (\<lambda>i. i \<noteq> 0) (blockData s))"
  have "?n \<le> 4096" using assms(1) by (metis length_filter_le section_ok_def)
  moreover have "(of_nat ?n :: 16 word) = 0" using assms by (simp add: section_ok_def)
  ultimately have "?n = 0" using unat_small [of ?n] by simp
  then have "\<forall>i \<in> set (blockData s). i = 0" by (simp add: filter_empty_conv)
  moreover have "length (blockData s) = 4096" using assms(1) by (simp add: section_ok_def)
  ultimately show ?thesis using At_zero [OF assms(1,3)] assms(3) by simp
qed

section \<open>Biome cells\<close>

lemma cell_less: "cell_ok x y z \<Longrightarrow> nat (y * 16 + z * 4 + x) < 64"
  by (auto simp: cell_ok_def)

lemma cell_parts:
  fixes x y z :: int
  assumes "0 \<le> x" "x < 4" "0 \<le> z" "z < 4"
  shows "(y * 16 + z * 4 + x) mod 4 = x" "(y * 16 + z * 4 + x) div 4 mod 4 = z" "(y * 16 + z * 4 + x) div 4 div 4 = y"
proof -
  have c: "y * 16 + z * 4 + x = x + 4 * (z + 4 * y)" by simp
  have d: "(y * 16 + z * 4 + x) div 4 = z + 4 * y" unfolding c using assms(1,2) by simp
  show "(y * 16 + z * 4 + x) mod 4 = x"
    unfolding c using assms(1,2) by (simp only: mod_mult_self2 mod_pos_pos_trivial)
  show "(y * 16 + z * 4 + x) div 4 mod 4 = z"
    unfolding d using assms(3,4) by (simp only: mod_mult_self2 mod_pos_pos_trivial)
  show "(y * 16 + z * 4 + x) div 4 div 4 = y"
    unfolding d using assms(3,4) by simp
qed

lemma cell_inj:
  assumes "cell_ok x y z" "cell_ok u v w"
  shows "nat (y * 16 + z * 4 + x) = nat (v * 16 + w * 4 + u) \<longleftrightarrow> x = u \<and> y = v \<and> z = w"
proof -
  have "nat (y * 16 + z * 4 + x) = nat (v * 16 + w * 4 + u) \<longleftrightarrow> y * 16 + z * 4 + x = v * 16 + w * 4 + u"
    using assms by (intro eq_nat_nat_iff) (auto simp: cell_ok_def)
  also have "\<dots> \<longleftrightarrow> x = u \<and> y = v \<and> z = w"
    using assms cell_parts [of x z y] cell_parts [of u w v] unfolding cell_ok_def de_Morgan_disj not_less not_le by metis
  finally show ?thesis .
qed

lemma BiomeAtCell_in:
  "biomes_ok s \<Longrightarrow> cell_ok x y z \<Longrightarrow>
    BiomeAtCell (Some s) x y z = biomePalette s ! unat (biomeData s ! nat (y * 16 + z * 4 + x)) \<and>
    unat (biomeData s ! nat (y * 16 + z * 4 + x)) < length (biomePalette s)"
  using cell_less [of x y z] by (auto simp: biomes_ok_def BiomeAtCell_def list_all_length Let_def not_le)

definition live_biomes :: "section_data \<Rightarrow> (string \<rightharpoonup> 16 word)" where
  "live_biomes s = (case biomeIndex s of Some m \<Rightarrow> m | None \<Rightarrow> index_from id 0 (biomePalette s) Map.empty)"

lemma live_biomes_ok: "biomes_ok s \<Longrightarrow> index_ok (biomePalette s) (live_biomes s)"
  using index_from_ok [of id "biomePalette s"] by (auto simp: live_biomes_def biomes_ok_def split: option.splits)

definition real_biome :: "string \<Rightarrow> string" where
  "real_biome b = (if b = [] then plains else b)"

lemma SetBiomeCell_Some:
  assumes "cell_ok x y z" "live_biomes s (real_biome b) = Some i" "biomePalette s \<noteq> []"
  shows "SetBiomeCell s x y z b = s\<lparr>biomeIndex := Some (live_biomes s),
    biomeData := (biomeData s)[nat (y * 16 + z * 4 + x) := i], Biome := biomePalette s ! 0\<rparr>"
  using assms by (simp add: SetBiomeCell_def live_biomes_def [symmetric] real_biome_def [symmetric])

lemma SetBiomeCell_None:
  assumes "cell_ok x y z" "live_biomes s (real_biome b) = None" "biomePalette s \<noteq> []"
  shows "SetBiomeCell s x y z b =
    (let i = of_nat (length (biomePalette s)) in
     s\<lparr>biomePalette := biomePalette s @ [real_biome b], biomeIndex := Some ((live_biomes s)(real_biome b \<mapsto> i)),
       biomeData := (biomeData s)[nat (y * 16 + z * 4 + x) := i], Biome := biomePalette s ! 0\<rparr>)"
  using assms by (simp add: SetBiomeCell_def live_biomes_def [symmetric] real_biome_def [symmetric] nth_append Let_def)

lemma SetBiomeCell_ok:
  assumes "biomes_ok s" "Suc (length (biomePalette s)) < 2 ^ 16"
  shows "biomes_ok (SetBiomeCell s x y z b)"
proof (cases "cell_ok x y z")
  case False
  with assms show ?thesis by (simp add: SetBiomeCell_def)
next
  case c: True
  have io: "index_ok (biomePalette s) (live_biomes s)" using assms(1) by (rule live_biomes_ok)
  have ne: "biomePalette s \<noteq> []" using assms(1) by (simp add: biomes_ok_def)
  show ?thesis
  proof (cases "live_biomes s (real_biome b)")
    case (Some i)
    then have "unat i < length (biomePalette s)" using io by (simp add: index_ok_def)
    then show ?thesis
      using assms(1) io unfolding SetBiomeCell_Some [OF c Some ne] by (simp add: biomes_ok_def list_all_update)
  next
    case None
    then have new: "real_biome b \<notin> set (biomePalette s)" using index_ok_None [OF io] assms(2) by simp
    have "list_all (\<lambda>i. unat i < Suc (length (biomePalette s))) (biomeData s)"
      using assms(1) by (auto simp: biomes_ok_def list_all_iff less_SucI)
    then show ?thesis
      using assms new index_ok_append [OF io new assms(2)] unfolding SetBiomeCell_None [OF c None ne] Let_def
      by (simp add: biomes_ok_def list_all_update unat_small)
  qed
qed

lemma BiomeAtCell_Set:
  assumes "biomes_ok s" "Suc (length (biomePalette s)) < 2 ^ 16" "cell_ok x y z" "cell_ok u v w"
  shows "BiomeAtCell (Some (SetBiomeCell s x y z b)) u v w =
    (if x = u \<and> y = v \<and> z = w then real_biome b else BiomeAtCell (Some s) u v w)"
proof -
  let ?s = "SetBiomeCell s x y z b"
  have io: "index_ok (biomePalette s) (live_biomes s)" using assms(1) by (rule live_biomes_ok)
  have ne: "biomePalette s \<noteq> []" and len: "length (biomeData s) = 64"
    using assms(1) by (simp_all add: biomes_ok_def)
  note R = BiomeAtCell_in [OF SetBiomeCell_ok [OF assms(1,2), of x y z b] assms(4)] BiomeAtCell_in [OF assms(1,4)]
  note I = cell_inj [OF assms(3,4)]
  show ?thesis
  proof (cases "live_biomes s (real_biome b)")
    case (Some i)
    then have i: "biomePalette s ! unat i = real_biome b" using io by (simp add: index_ok_def)
    show ?thesis
      using R I i len cell_less [OF assms(4)] by (simp add: SetBiomeCell_Some [OF assms(3) Some ne] nth_list_update)
  next
    case None
    show ?thesis
      using R I len cell_less [OF assms(4)] assms(2)
      by (simp add: SetBiomeCell_None [OF assms(3) None ne] nth_list_update Let_def unat_small nth_append)
  qed
qed

section \<open>The height of a column\<close>

definition chunk_ok :: "chunk \<Rightarrow> bool" where
  "chunk_ok c \<longleftrightarrow> length (Sections c) = SectionCount \<and>
     list_all (\<lambda>so. case so of None \<Rightarrow> True | Some s \<Rightarrow> section_ok s \<and> biomes_ok s) (Sections c)"

text \<open>The block of a column at height \<open>n\<close> above the bottom of the world.\<close>

definition column_at :: "chunk \<Rightarrow> nat \<Rightarrow> nat \<Rightarrow> nat \<Rightarrow> block" where
  "column_at c x z n = At (Sections c ! (n div 16)) x (n mod 16) z"

lemma top_in_section_spec:
  "case top_in_section s x z n of
     None \<Rightarrow> \<forall>y < n. IsAir (At (Some s) x y z)
   | Some y \<Rightarrow> y < n \<and> \<not> IsAir (At (Some s) x y z) \<and> (\<forall>y'. y < y' \<longrightarrow> y' < n \<longrightarrow> IsAir (At (Some s) x y' z))"
proof (induction n)
  case 0
  then show ?case by simp
next
  case (Suc n)
  show ?case
  proof (cases "IsAir (At (Some s) x n z)")
    case True
    with Suc show ?thesis by (simp add: less_Suc_eq split: option.splits)
  next
    case False
    then show ?thesis by simp
  qed
qed

definition skipped :: "section_data option \<Rightarrow> nat \<Rightarrow> nat \<Rightarrow> bool" where
  "skipped so x z = (case so of None \<Rightarrow> True | Some s \<Rightarrow> NonAir s = 0 \<or> top_in_section s x z 16 = None)"

lemma section_all_air:
  assumes "chunk_ok c" "i < SectionCount" "x < 16" "z < 16" "skipped (Sections c ! i) x z" "n div 16 = i"
  shows "IsAir (column_at c x z n)"
proof (cases "Sections c ! i")
  case None
  then show ?thesis using assms(6) by (simp add: column_at_def At_def)
next
  case (Some s)
  have y: "n mod 16 < 16" by simp
  have ok: "section_ok s" using assms(1,2) Some by (auto simp: chunk_ok_def list_all_length split: option.splits)
  have "IsAir (At (Some s) x (n mod 16) z)"
  proof (cases "NonAir s = 0")
    case True
    then show ?thesis using NonAir_zero [OF ok True grid_index_less [OF assms(3) y assms(4)]] by simp
  next
    case False
    then have "top_in_section s x z 16 = None" using assms(5) Some by (simp add: skipped_def)
    then show ?thesis using top_in_section_spec [where s = s and x = x and z = z and n = 16] y by simp
  qed
  then show ?thesis using Some assms(6) by (simp add: column_at_def)
qed

lemma highest_from_Suc:
  "highest_from c x z (Suc i) =
    (if skipped (Sections c ! i) x z then highest_from c x z i
     else SectionMinY i + int (the (top_in_section (the (Sections c ! i)) x z 16)))"
  by (auto simp: skipped_def split: option.splits)

lemma highest_from_spec:
  assumes "chunk_ok c" "x < 16" "z < 16" "i \<le> SectionCount"
  shows "(highest_from c x z i = WorldMinY - 1 \<and> (\<forall>n < 16 * i. IsAir (column_at c x z n))) \<or>
    (\<exists>n < 16 * i. highest_from c x z i = WorldMinY + int n \<and> \<not> IsAir (column_at c x z n) \<and>
       (\<forall>m. n < m \<longrightarrow> m < 16 * i \<longrightarrow> IsAir (column_at c x z m)))"
  using assms(4)
proof (induction i)
  case 0
  then show ?case by simp
next
  case (Suc i)
  have i: "i < SectionCount" using Suc.prems by simp
  have below: "m < 16 * i" if "m < 16 * Suc i" "m div 16 \<noteq> i" for m
    using that by (simp add: div_less_iff_less_mult less_Suc_eq [symmetric] order_le_less) 
  show ?case
  proof (cases "skipped (Sections c ! i) x z")
    case True
    have e: "highest_from c x z (Suc i) = highest_from c x z i" using True by (simp only: highest_from_Suc if_True)
    have air: "IsAir (column_at c x z m)" if "m div 16 = i" for m
      using section_all_air [OF assms(1) i assms(2,3) True that] .
    from Suc.IH i consider (none) "highest_from c x z i = WorldMinY - 1" "\<forall>n < 16 * i. IsAir (column_at c x z n)"
      | (some) n where "n < 16 * i" "highest_from c x z i = WorldMinY + int n" "\<not> IsAir (column_at c x z n)"
        "\<forall>m. n < m \<longrightarrow> m < 16 * i \<longrightarrow> IsAir (column_at c x z m)"
      by auto
    then show ?thesis
    proof cases
      case none
      then have "\<forall>n < 16 * Suc i. IsAir (column_at c x z n)" using air below by blast
      then show ?thesis unfolding e using none(1) by (intro disjI1) simp
    next
      case some
      then have "\<forall>m. n < m \<longrightarrow> m < 16 * Suc i \<longrightarrow> IsAir (column_at c x z m)" using air below by blast
      moreover have "n < 16 * Suc i" using some(1) by simp
      ultimately show ?thesis unfolding e using some(2,3) by (intro disjI2) blast
    qed
  next
    case False
    then obtain s y where s: "Sections c ! i = Some s" "top_in_section s x z 16 = Some y"
      by (auto simp: skipped_def split: option.splits)
    have y: "y < 16" "\<not> IsAir (At (Some s) x y z)" "\<And>y'. y < y' \<Longrightarrow> y' < 16 \<Longrightarrow> IsAir (At (Some s) x y' z)"
      using top_in_section_spec [where s = s and x = x and z = z and n = 16] s(2) by auto
    let ?n = "16 * i + y"
    have "highest_from c x z (Suc i) = WorldMinY + int ?n"
      unfolding highest_from_Suc using False s by (simp add: SectionMinY_def SectionSize_def)
    moreover have "\<not> IsAir (column_at c x z ?n)" using s(1) y(1,2) by (simp add: column_at_def)
    moreover have "IsAir (column_at c x z m)" if m: "?n < m" "m < 16 * Suc i" for m
    proof -
      obtain d where d: "m = 16 * i + d" using m(1) by (metis add_lessD1 less_imp_le le_iff_add)
      have "y < d" "d < 16" using m d by auto
      then show ?thesis using s(1) y(3) [of d] by (simp add: column_at_def d)
    qed
    moreover have "?n < 16 * Suc i" using y(1) by simp
    ultimately show ?thesis by blast
  qed
qed

section \<open>Properties\<close>

text \<open>C7: Writing a block into a section with room in its palette keeps the section invariant (the
  palette starts with air and has no state twice, every index is in the palette, the counter of
  non-air blocks is exact), the position reads back as the written state and no other position changes.\<close>

theorem section_write:
  assumes "section_ok s" "Suc (length (blockPalette s)) < 2 ^ 16" "x < 16" "y < 16" "z < 16" "u < 16" "v < 16" "w < 16"
  shows "section_ok (Set s x y z b) \<and>
    Key (At (Some (Set s x y z b)) u v w) = (if (u, v, w) = (x, y, z) then Key b else Key (At (Some s) u v w))"
proof -
  have g: "grid_index x y z < 4096" "grid_index u v w < 4096" using assms by (simp_all add: grid_index_def)
  have "grid_index u v w = grid_index x y z \<longleftrightarrow> (u, v, w) = (x, y, z)"
    using grid_index_inj assms by auto
  then show ?thesis using Set_ok [OF assms(1,2) g(1), of b] At_Set [OF assms(1,2) g, of b] by auto
qed

theorem section_write_witness:
  "Key (At (Some (Set NewSection 1 2 3 \<lparr>Namespace = ''m'', Name = ''s'', Properties = []\<rparr>)) 1 2 3) = ''m:s''"
proof -
  let ?b = "\<lparr>Namespace = ''m'', Name = ''s'', Properties = []\<rparr>"
  have "Suc (length (blockPalette NewSection)) < 2 ^ 16" by (simp add: NewSection_def)
  then have "Key (At (Some (Set NewSection 1 2 3 ?b)) 1 2 3) = Key ?b"
    using section_write [OF NewSection_ok, of 1 2 3 1 2 3 ?b] by simp
  then show ?thesis by (simp add: Key_def ResourceLocation_def)
qed

text \<open>\<open>HighestBlockY\<close> of a column inside the chunk is the height of a block that is not air with
  only air above it, or one below the world's bottom when the column has no other block than air.\<close>

theorem HighestBlockY_highest:
  assumes "chunk_ok c" "0 \<le> x" "x < 16" "0 \<le> z" "z < 16"
  shows "(HighestBlockY c x z = WorldMinY - 1 \<and> (\<forall>n < 384. IsAir (column_at c (nat x) (nat z) n))) \<or>
    (\<exists>n < 384. HighestBlockY c x z = WorldMinY + int n \<and> \<not> IsAir (column_at c (nat x) (nat z) n) \<and>
       (\<forall>m. n < m \<longrightarrow> m < 384 \<longrightarrow> IsAir (column_at c (nat x) (nat z) m)))"
proof -
  have "HighestBlockY c x z = highest_from c (nat x) (nat z) SectionCount"
    using assms by (simp add: HighestBlockY_def SectionSize_def)
  moreover have n: "16 * SectionCount = 384" by (simp add: SectionCount_def)
  moreover have "nat x < 16" "nat z < 16" using assms(2-5) by simp_all
  ultimately show ?thesis
    using highest_from_spec [OF assms(1), of "nat x" "nat z" SectionCount, unfolded n] by (simp only: order_refl simp_thms)
qed

theorem HighestBlockY_highest_witness:
  "HighestBlockY \<lparr>ChunkX = 0, ChunkZ = 0, Sections = replicate SectionCount None\<rparr> 4 5 = -65"
proof -
  let ?c = "\<lparr>ChunkX = 0, ChunkZ = 0, Sections = replicate SectionCount None\<rparr>"
  have ok: "chunk_ok ?c" by (simp add: chunk_ok_def list_all_iff)
  have air: "IsAir (column_at ?c 4 5 n)" if "n < 384" for n
    using that by (simp add: column_at_def SectionCount_def)
  from HighestBlockY_highest [OF ok, of 4 5] air show ?thesis by (auto simp: WorldMinY_def)
qed

text \<open>Setting a biome cell stores the biome (plains for the empty name) in that cell and changes
  no other, and keeps the biome palette free of duplicates with every index in range.\<close>

theorem biome_cell_write:
  assumes "biomes_ok s" "Suc (length (biomePalette s)) < 2 ^ 16" "cell_ok x y z" "cell_ok u v w"
  shows "biomes_ok (SetBiomeCell s x y z b) \<and>
    BiomeAtCell (Some (SetBiomeCell s x y z b)) u v w =
      (if x = u \<and> y = v \<and> z = w then real_biome b else BiomeAtCell (Some s) u v w)"
  using SetBiomeCell_ok [OF assms(1,2)] BiomeAtCell_Set [OF assms] by simp

theorem biome_cell_write_witness:
  "BiomeAtCell (Some (SetBiomeCell NewSection 1 2 3 ''minecraft:desert'')) 1 2 3 = ''minecraft:desert''"
proof -
  have "Suc (length (biomePalette NewSection)) < 2 ^ 16" "cell_ok 1 2 3" by (simp_all add: NewSection_def cell_ok_def)
  then show ?thesis
    using biome_cell_write [OF NewSection_biomes, of 1 2 3 1 2 3 "''minecraft:desert''"] by (simp add: real_biome_def)
qed

end
