(* ===== verification/Worlds.thy ===== *)
theory Worlds
  imports Chunks Inventory "HOL-Library.AList"
begin

text \<open>
  The world store (\<open>core/world/world.go\<close>, \<open>core/world/lectern.go\<close>): the chunk cache over a
  storage backend and a generator, with its dirty and flushing sets and LRU eviction; block
  reads and writes; container contents. The backend is the interface \<open>core/world/storage.go\<close>:
  \<open>disk\<close> is what \<open>LoadChunk\<close> returns, \<open>load_fails\<close> says where it errs, and the steps of
  \<open>Flush\<close> are separate so that other operations can run in between.
\<close>

section \<open>State\<close>

record container_item = item_stack + Slot :: int

definition zero_item :: "item_stack \<Rightarrow> int \<Rightarrow> container_item" where
  "zero_item s slot = \<lparr>ItemID = ItemID s, Count = Count s, Damage = Damage s, Enchantments = Enchantments s,
     PotDecorations = PotDecorations s, HasFireworks = HasFireworks s, Fireworks = Fireworks s,
     Components = Components s, Slot = slot\<rparr>"

definition ContainerItemFromStack :: "int \<Rightarrow> item_stack \<Rightarrow> container_item" where
  "ContainerItemFromStack slot s = zero_item s slot"

definition Stack :: "container_item \<Rightarrow> item_stack" where
  "Stack i = \<lparr>ItemID = ItemID i, Count = Count i, Damage = Damage i, Enchantments = Enchantments i,
     PotDecorations = PotDecorations i, HasFireworks = HasFireworks i, Fireworks = Fireworks i,
     Components = Components i\<rparr>"

lemma Stack_FromStack [simp]: "Stack (ContainerItemFromStack slot s) = s"
  by (simp add: Stack_def ContainerItemFromStack_def zero_item_def)

lemma FromStack_fields [simp]:
  "Slot (ContainerItemFromStack slot s) = slot" "ItemID (ContainerItemFromStack slot s) = ItemID s"
  "Count (ContainerItemFromStack slot s) = Count s"
  by (simp_all add: ContainerItemFromStack_def zero_item_def)

record block_entity =
  EntityX :: int
  EntityY :: int
  EntityZ :: int
  EntityType :: string
  EntityData :: "byte list"
  Items :: "container_item list"
  LastBookshelfSlot :: int
  LecternPage :: int
  LecternPages :: int

record world_chunk = chunk +
  BlockEntities :: "block_entity list"

type_synonym chunk_key = "i32 \<times> i32"

record world_env =
  generate :: "chunk_key \<Rightarrow> world_chunk option"
  load_fails :: "chunk_key \<Rightarrow> bool"
  book_pages :: "item_stack \<Rightarrow> string \<Rightarrow> int option"

record world =
  chunks :: "(chunk_key \<times> world_chunk) list"
  dirty :: "chunk_key set"
  flushing :: "chunk_key set"
  lastAccess :: "chunk_key \<Rightarrow> i64"
  accessClock :: i64
  maxCachedChunks :: int
  disk :: "(chunk_key \<rightharpoonup> world_chunk) option"

definition New :: "(chunk_key \<rightharpoonup> world_chunk) option \<Rightarrow> world" where
  "New storage = \<lparr>chunks = [], dirty = {}, flushing = {}, lastAccess = (\<lambda>_. 0), accessClock = 0,
     maxCachedChunks = 768, disk = storage\<rparr>"

section \<open>The chunk cache\<close>

definition touchChunkLocked :: "world \<Rightarrow> chunk_key \<Rightarrow> world" where
  "touchChunkLocked w key =
     w\<lparr>accessClock := accessClock w + 1, lastAccess := (lastAccess w)(key := accessClock w + 1)\<rparr>"

text \<open>The scan for the least recently used chunk that is neither dirty nor being flushed.\<close>

fun oldest_clean :: "world \<Rightarrow> (chunk_key \<times> world_chunk) list \<Rightarrow> chunk_key option \<Rightarrow> chunk_key option" where
  "oldest_clean w [] found = found"
| "oldest_clean w ((key, c) # rest) found =
     (if key \<in> dirty w \<or> key \<in> flushing w then oldest_clean w rest found
      else oldest_clean w rest
        (case found of None \<Rightarrow> Some key
         | Some k \<Rightarrow> if lastAccess w key < lastAccess w k then Some key else Some k))"

definition evict :: "world \<Rightarrow> chunk_key \<Rightarrow> world" where
  "evict w key = w\<lparr>chunks := AList.delete key (chunks w), lastAccess := (lastAccess w)(key := 0)\<rparr>"

lemma oldest_clean_mem:
  "oldest_clean w cs found = Some k \<Longrightarrow> (k \<in> fst ` set cs \<and> k \<notin> dirty w \<and> k \<notin> flushing w) \<or> found = Some k"
  by (induction w cs found rule: oldest_clean.induct) (auto split: if_splits option.splits)

lemma oldest_clean_none: "oldest_clean w cs found = None \<longleftrightarrow> found = None \<and> fst ` set cs \<subseteq> dirty w \<union> flushing w"
  by (induction w cs found rule: oldest_clean.induct) (auto split: if_splits option.splits)

lemma evict_shorter: "k \<in> fst ` set (chunks w) \<Longrightarrow> length (chunks (evict w k)) < length (chunks w)"
  unfolding evict_def by (auto simp: AList.delete_eq intro!: length_filter_less)

function trimChunksLocked :: "world \<Rightarrow> world" where
  "trimChunksLocked w =
     (if int (length (chunks w)) \<le> maxCachedChunks w then w
      else (case oldest_clean w (chunks w) None of
              None \<Rightarrow> w
            | Some key \<Rightarrow> trimChunksLocked (evict w key)))"
  by pat_completeness auto
termination
  by (relation "measure (\<lambda>w. length (chunks w))") (auto dest!: oldest_clean_mem intro!: evict_shorter)

declare trimChunksLocked.simps [simp del]

definition SetMaxCachedChunks :: "world \<Rightarrow> int \<Rightarrow> world" where
  "SetMaxCachedChunks w limit = trimChunksLocked (w\<lparr>maxCachedChunks := (if limit < 128 then 128 else limit)\<rparr>)"

definition finalize_chunk :: "world_chunk \<Rightarrow> world_chunk" where
  "finalize_chunk c = c\<lparr>Sections := map (map_option Finalize) (Sections c)\<rparr>"

definition empty_chunk :: "chunk_key \<Rightarrow> world_chunk" where
  "empty_chunk key = \<lparr>ChunkX = fst key, ChunkZ = snd key, Sections = replicate SectionCount None, BlockEntities = []\<rparr>"

definition from_disk :: "world_env \<Rightarrow> (chunk_key \<rightharpoonup> world_chunk) option \<Rightarrow> chunk_key \<Rightarrow> world_chunk option" where
  "from_disk G d key = (case d of None \<Rightarrow> None | Some m \<Rightarrow> if load_fails G key then None else m key)"

definition load_chunk :: "world_env \<Rightarrow> (chunk_key \<rightharpoonup> world_chunk) option \<Rightarrow> chunk_key \<Rightarrow> world_chunk" where
  "load_chunk G d key =
     (case from_disk G d key of
        Some c \<Rightarrow> c
      | None \<Rightarrow> (case generate G key of Some c \<Rightarrow> c | None \<Rightarrow> empty_chunk key))"

definition Chunk :: "world_env \<Rightarrow> world \<Rightarrow> chunk_key \<Rightarrow> world_chunk \<times> world" where
  "Chunk G w key =
     (case map_of (chunks w) key of
        Some c \<Rightarrow> (c, touchChunkLocked w key)
      | None \<Rightarrow>
          let c = finalize_chunk (load_chunk G (disk w) key);
              generated = (from_disk G (disk w) key = None);
              w1 = touchChunkLocked (w\<lparr>chunks := (key, c) # chunks w\<rparr>) key;
              w2 = (if generated \<and> disk w \<noteq> None then w1\<lparr>dirty := insert key (dirty w1)\<rparr> else w1)
          in (c, trimChunksLocked w2))"

definition ChunkIfLoaded :: "world \<Rightarrow> chunk_key \<Rightarrow> world_chunk option" where
  "ChunkIfLoaded w key = map_of (chunks w) key"

definition IsChunkLoaded :: "world \<Rightarrow> chunk_key \<Rightarrow> bool" where
  "IsChunkLoaded w key = (map_of (chunks w) key \<noteq> None)"

definition LoadedCount :: "world \<Rightarrow> nat" where
  "LoadedCount w = length (chunks w)"

text \<open>Storing a modified chunk: it becomes dirty, which pins it.\<close>

definition put_chunk :: "world \<Rightarrow> chunk_key \<Rightarrow> world_chunk \<Rightarrow> world" where
  "put_chunk w key c =
     (touchChunkLocked (w\<lparr>chunks := AList.update key c (chunks w)\<rparr>) key)\<lparr>dirty := insert key (dirty w)\<rparr>"

section \<open>Blocks\<close>

definition ChunkCoordsFor :: "int \<Rightarrow> int \<Rightarrow> chunk_key" where
  "ChunkCoordsFor x z = (word_of_int (x div SectionSize), word_of_int (z div SectionSize))"

definition blockInChunk :: "world_chunk \<Rightarrow> int \<Rightarrow> int \<Rightarrow> int \<Rightarrow> block" where
  "blockInChunk c x y z =
     (let relY = y - WorldMinY; sIdx = nat (relY div SectionSize)
      in case Sections c ! sIdx of
           None \<Rightarrow> Air
         | Some s \<Rightarrow> At (Some s) (nat (x mod SectionSize)) (nat (relY mod SectionSize)) (nat (z mod SectionSize)))"

definition GetBlock :: "world_env \<Rightarrow> world \<Rightarrow> int \<Rightarrow> int \<Rightarrow> int \<Rightarrow> block \<times> world" where
  "GetBlock G w x y z =
     (if y < WorldMinY \<or> y > WorldMaxY then (Air, w)
      else let (c, w') = Chunk G w (ChunkCoordsFor x z) in (blockInChunk c x y z, w'))"

definition BlockIfLoaded :: "world \<Rightarrow> int \<Rightarrow> int \<Rightarrow> int \<Rightarrow> block \<times> bool" where
  "BlockIfLoaded w x y z =
     (if y < WorldMinY \<or> y > WorldMaxY then (Air, True)
      else case ChunkIfLoaded w (ChunkCoordsFor x z) of
             None \<Rightarrow> (Air, False)
           | Some c \<Rightarrow> (blockInChunk c x y z, True))"

definition set_in_chunk :: "chunk_key \<Rightarrow> world_chunk \<Rightarrow> int \<Rightarrow> int \<Rightarrow> int \<Rightarrow> block \<Rightarrow> world_chunk" where
  "set_in_chunk key c x y z b =
     (let relY = y - WorldMinY;
          sIdx = nat (relY div SectionSize);
          lx = nat (x - sint (fst key) * SectionSize);
          ly = nat (relY mod SectionSize);
          lz = nat (z - sint (snd key) * SectionSize);
          s = (case Sections c ! sIdx of None \<Rightarrow> NewSection | Some s \<Rightarrow> s)
      in c\<lparr>Sections := (Sections c)[sIdx := Some (Set s lx ly lz b)]\<rparr>)"

definition at_pos :: "int \<Rightarrow> int \<Rightarrow> int \<Rightarrow> block_entity \<Rightarrow> bool" where
  "at_pos x y z e \<longleftrightarrow> EntityX e = x \<and> EntityY e = y \<and> EntityZ e = z"

definition drop_entity :: "int \<Rightarrow> int \<Rightarrow> int \<Rightarrow> world_chunk \<Rightarrow> world_chunk" where
  "drop_entity x y z c =
     c\<lparr>BlockEntities := filter (\<lambda>e. \<not> at_pos x y z e) (BlockEntities c)\<rparr>"

text \<open>
  The storage part of \<open>SetBlock\<close>: everything up to the release of the world lock. The
  notifications after it (neighbour ticks, observers, rails, sponges) start other operations.
\<close>

definition SetBlock :: "world_env \<Rightarrow> world \<Rightarrow> int \<Rightarrow> int \<Rightarrow> int \<Rightarrow> block \<Rightarrow> world" where
  "SetBlock G w x y z b =
     (if y < WorldMinY \<or> y > WorldMaxY then w
      else let key = ChunkCoordsFor x z;
               (c, w') = Chunk G w key;
               c1 = set_in_chunk key c x y z b;
               c2 = (if IsAir b then drop_entity x y z c1 else c1)
           in trimChunksLocked (put_chunk w' key c2))"

definition setBlockNoPhysics :: "world_env \<Rightarrow> world \<Rightarrow> int \<Rightarrow> int \<Rightarrow> int \<Rightarrow> block \<Rightarrow> world" where
  "setBlockNoPhysics G w x y z b =
     (if y < WorldMinY \<or> y > WorldMaxY then w
      else let key = ChunkCoordsFor x z; (c, w') = Chunk G w key
           in trimChunksLocked (put_chunk w' key (set_in_chunk key c x y z b)))"

definition SurfaceY :: "world_env \<Rightarrow> world \<Rightarrow> int \<Rightarrow> int \<Rightarrow> int \<times> world" where
  "SurfaceY G w x z =
     (let key = ChunkCoordsFor x z; (c, w') = Chunk G w key
      in (HighestBlockY (chunk.truncate c) (x - sint (fst key) * SectionSize) (z - sint (snd key) * SectionSize), w'))"

section \<open>Containers\<close>

definition find_entity :: "int \<Rightarrow> int \<Rightarrow> int \<Rightarrow> block_entity list \<Rightarrow> block_entity option" where
  "find_entity x y z es = List.find (at_pos x y z) es"

definition ContainerItems :: "world_env \<Rightarrow> world \<Rightarrow> int \<Rightarrow> int \<Rightarrow> int \<Rightarrow> container_item list \<times> world" where
  "ContainerItems G w x y z =
     (let (c, w') = Chunk G w (ChunkCoordsFor x z)
      in (case find_entity x y z (BlockEntities c) of None \<Rightarrow> [] | Some e \<Rightarrow> Items e, w'))"

definition IsLecternBook :: "string \<Rightarrow> bool" where
  "IsLecternBook s \<longleftrightarrow> s = ''minecraft:written_book'' \<or> s = ''minecraft:writable_book''"

definition LecternBook :: "block_entity \<Rightarrow> string" where
  "LecternBook e =
     (case List.find (\<lambda>i. Slot i = 0 \<and> ItemID i \<noteq> []) (Items e) of None \<Rightarrow> [] | Some i \<Rightarrow> ItemID i)"

fun first_pages :: "world_env \<Rightarrow> item_stack \<Rightarrow> string list \<Rightarrow> int" where
  "first_pages G s [] = 1"
| "first_pages G s (name # names) =
     (case book_pages G s name of Some n \<Rightarrow> max 1 n | None \<Rightarrow> first_pages G s names)"

fun LecternPageCount :: "world_env \<Rightarrow> container_item list \<Rightarrow> int" where
  "LecternPageCount G [] = 0"
| "LecternPageCount G (i # is) =
     (if Slot i \<noteq> 0 \<or> \<not> IsLecternBook (ItemID i) then LecternPageCount G is
      else first_pages G (Stack i)
        [''minecraft:written_book_content'', ''written_book_content'',
         ''minecraft:writable_book_content'', ''writable_book_content''])"

definition clean_items :: "container_item list \<Rightarrow> container_item list" where
  "clean_items items = filter (\<lambda>i. \<not> (Slot i < 0 \<or> ItemID i = [] \<or> Count i \<le> 0)) items"

fun update_first :: "('a \<Rightarrow> bool) \<Rightarrow> ('a \<Rightarrow> 'a) \<Rightarrow> 'a list \<Rightarrow> 'a list option" where
  "update_first P f [] = None"
| "update_first P f (x # xs) = (if P x then Some (f x # xs) else map_option ((#) x) (update_first P f xs))"

definition set_entity :: "string \<Rightarrow> container_item list \<Rightarrow> int \<Rightarrow> block_entity \<Rightarrow> block_entity" where
  "set_entity ty clean pages e =
     (if ty = ''minecraft:lectern'' then e\<lparr>LecternPage := 0, LecternPages := pages\<rparr> else e)
       \<lparr>EntityType := ty, Items := clean,
        EntityData := (if length (EntityData e) < 2 then [10, 0] else EntityData e)\<rparr>"

definition set_items :: "world_env \<Rightarrow> int \<Rightarrow> int \<Rightarrow> int \<Rightarrow> string \<Rightarrow> container_item list \<Rightarrow> block_entity list \<Rightarrow> block_entity list" where
  "set_items G x y z ty items es =
     (let clean = clean_items items;
          pages = (if ty = ''minecraft:lectern'' then LecternPageCount G clean else 0)
      in case update_first (at_pos x y z) (set_entity ty clean pages) es of
           Some es' \<Rightarrow> es'
         | None \<Rightarrow> es @ [\<lparr>EntityX = x, EntityY = y, EntityZ = z, EntityType = ty, EntityData = [10, 0],
                        Items = clean, LastBookshelfSlot = 0, LecternPage = 0, LecternPages = pages\<rparr>])"

definition SetContainerItems :: "world_env \<Rightarrow> world \<Rightarrow> int \<Rightarrow> int \<Rightarrow> int \<Rightarrow> string \<Rightarrow> container_item list \<Rightarrow> world" where
  "SetContainerItems G w x y z ty items =
     (let key = ChunkCoordsFor x z; (c, w') = Chunk G w key
      in put_chunk w' key (c\<lparr>BlockEntities := set_items G x y z ty items (BlockEntities c)\<rparr>))"

section \<open>The cache is transparent\<close>

text \<open>
  What a key means: the cached chunk, or what a load would give. Loading finalizes the
  palette indexes, so contents are compared after \<open>Finalize\<close>.
\<close>

definition cached_or :: "(chunk_key \<times> world_chunk) list \<Rightarrow> chunk_key \<Rightarrow> world_chunk \<Rightarrow> world_chunk" where
  "cached_or cs k d = (case map_of cs k of Some c \<Rightarrow> c | None \<Rightarrow> d)"

definition visible :: "world_env \<Rightarrow> world \<Rightarrow> chunk_key \<Rightarrow> world_chunk" where
  "visible G w k = finalize_chunk (cached_or (chunks w) k (load_chunk G (disk w) k))"

text \<open>
  The invariant, with \<open>pend\<close> the keys a running flush has still to save: no key is cached
  twice, and a cached chunk that is neither dirty nor pending is what a load would give.
\<close>

definition cache_ok :: "world_env \<Rightarrow> world \<Rightarrow> chunk_key list \<Rightarrow> bool" where
  "cache_ok G w pend \<longleftrightarrow>
     (\<forall>k. \<not> load_fails G k) \<and> distinct (map fst (chunks w)) \<and> set pend \<subseteq> flushing w \<and>
     (\<forall>k c. map_of (chunks w) k = Some c \<longrightarrow> k \<notin> dirty w \<longrightarrow> k \<notin> set pend \<longrightarrow>
        finalize_chunk c = finalize_chunk (load_chunk G (disk w) k))"

lemma cached_or_simps [simp]:
  "map_of cs k = Some c \<Longrightarrow> cached_or cs k d = c"
  "map_of cs k = None \<Longrightarrow> cached_or cs k d = d"
  "cached_or ((j, c) # cs) k d = (if k = j then c else cached_or cs k d)"
  "cached_or (AList.update j c cs) k d = (if k = j then c else cached_or cs k d)"
  "cached_or (AList.delete j cs) k d = (if k = j then d else cached_or cs k d)"
  by (auto simp: cached_or_def AList.update_conv AList.delete_conv)

lemma Finalize_idem [simp]: "Finalize (Finalize s) = Finalize s"
  by (simp add: Finalize_def)

lemma finalize_chunk_idem [simp]: "finalize_chunk (finalize_chunk c) = finalize_chunk c"
  by (simp add: finalize_chunk_def option.map_comp o_def)

lemma touch_simps [simp]:
  "chunks (touchChunkLocked w k) = chunks w" "dirty (touchChunkLocked w k) = dirty w"
  "flushing (touchChunkLocked w k) = flushing w" "disk (touchChunkLocked w k) = disk w"
  "maxCachedChunks (touchChunkLocked w k) = maxCachedChunks w"
  by (simp_all add: touchChunkLocked_def)

lemma visible_cong: "chunks w' = chunks w \<Longrightarrow> disk w' = disk w \<Longrightarrow> visible G w' = visible G w"
  by (simp add: visible_def fun_eq_iff)

lemma visible_touch [simp]: "visible G (touchChunkLocked w k) = visible G w"
  by (rule visible_cong) simp_all

lemma cache_ok_touch [simp]: "cache_ok G (touchChunkLocked w k) pend = cache_ok G w pend"
  by (simp add: cache_ok_def)

lemma evict_ok:
  assumes "cache_ok G w pend" "k \<notin> dirty w" "k \<notin> flushing w"
  shows "cache_ok G (evict w k) pend" "visible G (evict w k) = visible G w"
proof -
  show "cache_ok G (evict w k) pend"
    using assms(1) by (simp add: cache_ok_def evict_def AList.delete_conv AList.distinct_delete)
  have "k \<notin> set pend" using assms by (auto simp: cache_ok_def)
  then show "visible G (evict w k) = visible G w"
    using assms(1,2) by (cases "map_of (chunks w) k") (auto simp: visible_def evict_def cache_ok_def fun_eq_iff)
qed

lemma trim_ok:
  assumes "cache_ok G w pend"
  shows "cache_ok G (trimChunksLocked w) pend \<and> visible G (trimChunksLocked w) = visible G w \<and>
    dirty (trimChunksLocked w) = dirty w \<and> flushing (trimChunksLocked w) = flushing w \<and>
    disk (trimChunksLocked w) = disk w \<and> maxCachedChunks (trimChunksLocked w) = maxCachedChunks w"
  using assms
proof (induction w rule: trimChunksLocked.induct)
  case (1 w)
  show ?case
  proof (cases "int (length (chunks w)) \<le> maxCachedChunks w \<or> oldest_clean w (chunks w) None = None")
    case True
    then have "trimChunksLocked w = w" by (subst trimChunksLocked.simps) auto
    with "1.prems" show ?thesis by simp
  next
    case False
    then obtain k where k: "oldest_clean w (chunks w) None = Some k" by auto
    have nd: "k \<notin> dirty w" "k \<notin> flushing w" using oldest_clean_mem [OF k] by auto
    have "trimChunksLocked w = trimChunksLocked (evict w k)"
      using False k by (subst trimChunksLocked.simps) simp
    then show ?thesis
      using "1.IH" [OF _ k] evict_ok [OF "1.prems" nd] False by (simp add: evict_def)
  qed
qed

text \<open>After trimming the cache is within its limit, or every chunk left is pinned.\<close>

lemma trim_bound:
  "int (length (chunks (trimChunksLocked w))) \<le> maxCachedChunks w \<or>
   fst ` set (chunks (trimChunksLocked w)) \<subseteq> dirty w \<union> flushing w"
proof (induction w rule: trimChunksLocked.induct)
  case (1 w)
  show ?case
  proof (cases "int (length (chunks w)) \<le> maxCachedChunks w")
    case True
    then show ?thesis by (simp add: trimChunksLocked.simps)
  next
    case big: False
    show ?thesis
    proof (cases "oldest_clean w (chunks w) None")
      case None
      then have "trimChunksLocked w = w" by (subst trimChunksLocked.simps) simp
      with None show ?thesis by (simp add: oldest_clean_none)
    next
      case (Some k)
      have "trimChunksLocked w = trimChunksLocked (evict w k)"
        using big Some by (subst trimChunksLocked.simps) simp
      then show ?thesis using "1.IH" [OF big Some] by (simp add: evict_def)
    qed
  qed
qed

lemma trim_keeps:
  "map_of (chunks w) k = Some c \<Longrightarrow> k \<in> dirty w \<or> k \<in> flushing w \<Longrightarrow> map_of (chunks (trimChunksLocked w)) k = Some c"
proof (induction w rule: trimChunksLocked.induct)
  case (1 w)
  show ?case
  proof (cases "int (length (chunks w)) \<le> maxCachedChunks w \<or> oldest_clean w (chunks w) None = None")
    case True
    then have "trimChunksLocked w = w" by (subst trimChunksLocked.simps) auto
    with "1.prems" show ?thesis by simp
  next
    case False
    then obtain j where j: "oldest_clean w (chunks w) None = Some j" by auto
    have "j \<noteq> k" using oldest_clean_mem [OF j] "1.prems"(2) by auto
    moreover have "trimChunksLocked w = trimChunksLocked (evict w j)"
      using False j by (subst trimChunksLocked.simps) simp
    ultimately show ?thesis
      using "1.IH" [OF _ j] "1.prems" False by (simp add: evict_def AList.delete_conv)
  qed
qed

lemma Chunk_ok:
  assumes "cache_ok G w pend" "Chunk G w key = (c, w')"
  shows "finalize_chunk c = visible G w key \<and> visible G w' = visible G w \<and> cache_ok G w' pend \<and>
    dirty w \<subseteq> dirty w' \<and> flushing w' = flushing w \<and> disk w' = disk w"
proof (cases "map_of (chunks w) key")
  case (Some d)
  then show ?thesis using assms by (auto simp: Chunk_def visible_def)
next
  case None
  let ?c = "finalize_chunk (load_chunk G (disk w) key)"
  let ?w1 = "touchChunkLocked (w\<lparr>chunks := (key, ?c) # chunks w\<rparr>) key"
  let ?w2 = "if from_disk G (disk w) key = None \<and> disk w \<noteq> None then ?w1\<lparr>dirty := insert key (dirty ?w1)\<rparr> else ?w1"
  have run: "c = ?c" "w' = trimChunksLocked ?w2"
    using assms(2) None by (simp_all add: Chunk_def Let_def)
  have "key \<notin> fst ` set (chunks w)" using None by (simp add: map_of_eq_None_iff)
  then have "cache_ok G ?w2 pend" using assms(1) by (auto simp: cache_ok_def)
  from trim_ok [OF this] have t: "cache_ok G w' pend" "visible G w' = visible G ?w2"
    "dirty w' = dirty ?w2" "flushing w' = flushing ?w2" "disk w' = disk ?w2"
    unfolding run by blast+
  moreover have "visible G ?w2 = visible G w"
    using None by (auto simp: visible_def fun_eq_iff)
  moreover have "finalize_chunk c = visible G w key" using None run(1) by (simp add: visible_def)
  moreover have "dirty w \<subseteq> dirty ?w2" "flushing ?w2 = flushing w" "disk ?w2 = disk w" by auto
  ultimately show ?thesis by simp
qed

lemma put_chunk_ok:
  assumes "cache_ok G w pend"
  shows "cache_ok G (put_chunk w key c) pend"
    and "visible G (put_chunk w key c) = (visible G w)(key := finalize_chunk c)"
    and "flushing (put_chunk w key c) = flushing w" "dirty (put_chunk w key c) = insert key (dirty w)"
    and "disk (put_chunk w key c) = disk w"
proof -
  show "visible G (put_chunk w key c) = (visible G w)(key := finalize_chunk c)"
    by (auto simp: visible_def put_chunk_def fun_eq_iff)
  show "cache_ok G (put_chunk w key c) pend"
    using assms by (auto simp: cache_ok_def put_chunk_def AList.update_conv intro: AList.distinct_update)
qed (simp_all add: put_chunk_def)

section \<open>Reading and writing blocks\<close>

definition world_chunk_ok :: "world_chunk \<Rightarrow> bool" where
  "world_chunk_ok c \<longleftrightarrow> chunk_ok (chunk.truncate c)"

text \<open>
  The block and the container contents the cache shows at a position, and the sizes under
  which \<open>SetBlock\<close> can add one more state to a palette.
\<close>

definition block_at :: "world_env \<Rightarrow> world \<Rightarrow> int \<Rightarrow> int \<Rightarrow> int \<Rightarrow> block" where
  "block_at G w x y z =
     (if y < WorldMinY \<or> y > WorldMaxY then Air else blockInChunk (visible G w (ChunkCoordsFor x z)) x y z)"

definition items_at :: "world_env \<Rightarrow> world \<Rightarrow> int \<Rightarrow> int \<Rightarrow> int \<Rightarrow> container_item list" where
  "items_at G w x y z =
     (case find_entity x y z (BlockEntities (visible G w (ChunkCoordsFor x z))) of None \<Rightarrow> [] | Some e \<Rightarrow> Items e)"

definition in_border :: "int \<Rightarrow> int \<Rightarrow> bool" where
  "in_border x z \<longleftrightarrow> - (2 ^ 31) \<le> x \<and> x < 2 ^ 31 \<and> - (2 ^ 31) \<le> z \<and> z < 2 ^ 31"

lemma sections_finalize [simp]:
  "i < length (Sections c) \<Longrightarrow> Sections (finalize_chunk c) ! i = map_option Finalize (Sections c ! i)"
  "length (Sections (finalize_chunk c)) = length (Sections c)"
  "BlockEntities (finalize_chunk c) = BlockEntities c"
  by (simp_all add: finalize_chunk_def)

lemma section_index: "WorldMinY \<le> y \<Longrightarrow> y \<le> WorldMaxY \<Longrightarrow> nat ((y - WorldMinY) div SectionSize) < SectionCount"
  by (simp add: WorldMinY_def WorldMaxY_def SectionSize_def SectionCount_def)

lemma blockInChunk_finalize:
  assumes "length (Sections c) = SectionCount" "WorldMinY \<le> y" "y \<le> WorldMaxY"
  shows "blockInChunk (finalize_chunk c) x y z = blockInChunk c x y z"
  using assms(1) section_index [OF assms(2,3)]
  by (cases "Sections c ! nat ((y - WorldMinY) div SectionSize)") (simp_all add: blockInChunk_def Let_def)

lemma world_chunk_ok_finalize [simp]: "world_chunk_ok c \<Longrightarrow> world_chunk_ok (finalize_chunk c)"
  by (auto simp: world_chunk_ok_def chunk_ok_def chunk.truncate_def finalize_chunk_def list_all_iff split: option.splits)

lemma world_chunk_ok_length: "world_chunk_ok c \<Longrightarrow> length (Sections c) = SectionCount"
  by (simp add: world_chunk_ok_def chunk_ok_def chunk.truncate_def)

lemma local_coord:
  assumes "- (2 ^ 31) \<le> x" "x < 2 ^ 31"
  shows "nat (x - sint (word_of_int (x div SectionSize) :: i32) * SectionSize) = nat (x mod SectionSize)"
proof -
  have "- (2 ^ 31) \<le> x div 16" "x div 16 < 2 ^ 31" using assms by linarith+
  then have "sint (word_of_int (x div 16) :: i32) = x div 16"
    by (simp add: signed_of_int signed_take_bit_int_eq_self)
  then show ?thesis by (simp add: SectionSize_def minus_div_mult_eq_mod)
qed

lemma nat_mod16: "nat ((x :: int) mod SectionSize) < 16"
  by (simp add: SectionSize_def)

text \<open>Writing one block of a chunk changes that block of that chunk.\<close>

definition palette_room :: "world_chunk \<Rightarrow> bool" where
  "palette_room c \<longleftrightarrow> list_all (\<lambda>so. case so of None \<Rightarrow> True | Some s \<Rightarrow> Suc (length (blockPalette s)) < 2 ^ 16) (Sections c)"

lemma set_in_chunk_eq:
  assumes "in_border x z"
  shows "set_in_chunk (ChunkCoordsFor x z) c x y z b =
    (let i = nat ((y - WorldMinY) div SectionSize);
         s = (case Sections c ! i of None \<Rightarrow> NewSection | Some s \<Rightarrow> s)
     in c\<lparr>Sections := (Sections c)[i := Some (Set s (nat (x mod SectionSize)) (nat ((y - WorldMinY) mod SectionSize))
       (nat (z mod SectionSize)) b)]\<rparr>)"
  using assms local_coord [of x] local_coord [of z] by (simp add: set_in_chunk_def ChunkCoordsFor_def in_border_def Let_def)

lemma section_of_ok:
  assumes "world_chunk_ok c" "palette_room c" "i < SectionCount"
  defines "s \<equiv> (case Sections c ! i of None \<Rightarrow> NewSection | Some s \<Rightarrow> s)"
  shows "section_ok s" "biomes_ok s" "Suc (length (blockPalette s)) < 2 ^ 16" "At (Sections c ! i) x y z = At (Some s) x y z \<or>
    grid_index x y z \<ge> 4096"
proof -
  have o: "case Sections c ! i of None \<Rightarrow> True | Some s \<Rightarrow> section_ok s \<and> biomes_ok s"
    and r: "case Sections c ! i of None \<Rightarrow> True | Some s \<Rightarrow> Suc (length (blockPalette s)) < 2 ^ 16"
    using assms(1-3) by (auto simp: world_chunk_ok_def chunk_ok_def chunk.truncate_def palette_room_def list_all_length)
  show "section_ok s" "biomes_ok s"
    using o NewSection_ok NewSection_biomes by (auto simp: s_def split: option.splits)
  show "Suc (length (blockPalette s)) < 2 ^ 16"
    using r by (auto simp: s_def NewSection_def split: option.splits)
  show "At (Sections c ! i) x y z = At (Some s) x y z \<or> grid_index x y z \<ge> 4096"
    by (cases "Sections c ! i") (auto simp: s_def At_def NewSection_def)
qed

lemma Set_biomes [simp]: "biomes_ok s \<Longrightarrow> biomes_ok (Set s x y z b)"
  by (cases "palette_add s b") (simp add: Set_fields biomes_ok_def)

lemma set_in_chunk_ok:
  assumes "world_chunk_ok c" "palette_room c" "in_border x z" "WorldMinY \<le> y" "y \<le> WorldMaxY"
  shows "world_chunk_ok (set_in_chunk (ChunkCoordsFor x z) c x y z b)"
proof -
  let ?i = "nat ((y - WorldMinY) div SectionSize)"
  have i: "?i < SectionCount" using assms(4,5) by (rule section_index)
  note S = section_of_ok [OF assms(1,2) i]
  show ?thesis
    using assms(1) S Set_ok [OF S(1,3) grid_index_less [OF nat_mod16 nat_mod16 nat_mod16]]
    unfolding set_in_chunk_eq [OF assms(3)] world_chunk_ok_def chunk_ok_def
    by (auto simp: chunk.truncate_def Let_def intro!: list_all_update)
qed

lemma blockInChunk_set:
  fixes b :: block
  assumes "world_chunk_ok c" "palette_room c" "in_border x z" "WorldMinY \<le> y" "y \<le> WorldMaxY"
    and "in_border u w" "WorldMinY \<le> v" "v \<le> WorldMaxY" "ChunkCoordsFor u w = ChunkCoordsFor x z"
  defines "c' \<equiv> set_in_chunk (ChunkCoordsFor x z) c x y z b"
  shows "(u, v, w) = (x, y, z) \<Longrightarrow> Key (blockInChunk c' u v w) = Key b"
    and "(u, v, w) \<noteq> (x, y, z) \<Longrightarrow> blockInChunk c' u v w = blockInChunk c u v w"
proof -
  let ?i = "nat ((y - WorldMinY) div SectionSize)" and ?j = "nat ((v - WorldMinY) div SectionSize)"
  let ?l = "\<lambda>a. nat (a mod SectionSize)"
  let ?s = "case Sections c ! ?i of None \<Rightarrow> NewSection | Some s \<Rightarrow> s"
  have i: "?i < SectionCount" "?j < SectionCount" using assms(4-8) by (auto intro: section_index)
  have len: "length (Sections c) = SectionCount" using assms(1) by (rule world_chunk_ok_length)
  note S = section_of_ok [OF assms(1,2) i(1)]
  note g = grid_index_less [OF nat_mod16 nat_mod16 nat_mod16]
  note A = At_Set [OF S(1,3) g [of x "y - WorldMinY" z] g [of u "v - WorldMinY" w]]
  have c': "c' = c\<lparr>Sections := (Sections c)[?i := Some (Set ?s (?l x) (?l (y - WorldMinY)) (?l z) b)]\<rparr>"
    unfolding c'_def set_in_chunk_eq [OF assms(3)] Let_def ..
  show "Key (blockInChunk c' u v w) = Key b" if "(u, v, w) = (x, y, z)"
    using that A(1) i len by (simp add: c' blockInChunk_def Let_def)
  show "blockInChunk c' u v w = blockInChunk c u v w" if ne: "(u, v, w) \<noteq> (x, y, z)"
  proof (cases "?j = ?i")
    case False
    then show ?thesis by (simp add: c' blockInChunk_def Let_def)
  next
    case True
    have "grid_index (?l u) (?l (v - WorldMinY)) (?l w) \<noteq> grid_index (?l x) (?l (y - WorldMinY)) (?l z)"
    proof
      assume eq: "grid_index (?l u) (?l (v - WorldMinY)) (?l w) = grid_index (?l x) (?l (y - WorldMinY)) (?l z)"
      then have l: "?l u = ?l x" "?l (v - WorldMinY) = ?l (y - WorldMinY)" "?l w = ?l z"
        using grid_index_inj [OF nat_mod16 nat_mod16 nat_mod16 nat_mod16] by blast+
      have d: "(v - WorldMinY) div SectionSize = (y - WorldMinY) div SectionSize"
        using True assms(4,7) by (simp add: SectionSize_def eq_nat_nat_iff pos_imp_zdiv_nonneg_iff)
      have k: "(word_of_int (u div SectionSize) :: i32) = word_of_int (x div SectionSize)"
        "(word_of_int (w div SectionSize) :: i32) = word_of_int (z div SectionSize)"
        using assms(9) by (simp_all add: ChunkCoordsFor_def)
      have div: "a div SectionSize = b div SectionSize"
        if "(word_of_int (a div SectionSize) :: i32) = word_of_int (b div SectionSize)"
          "- (2 ^ 31) \<le> a" "a < 2 ^ 31" "- (2 ^ 31) \<le> b" "b < 2 ^ 31" for a b
      proof -
        have "signed_take_bit 31 (n div 16) = n div 16" if "- (2 ^ 31) \<le> n" "n < 2 ^ 31" for n :: int
          using that by (intro signed_take_bit_int_eq_self) linarith+
        moreover have "sint (word_of_int (a div SectionSize) :: i32) = sint (word_of_int (b div SectionSize) :: i32)"
          using that(1) by simp
        ultimately show ?thesis using that(2-5) by (simp add: SectionSize_def signed_of_int)
      qed
      have eqI: "a = b" if "a div SectionSize = b div SectionSize" "?l a = ?l b" for a b :: int
        using that by (metis SectionSize_def div_mult_mod_eq eq_nat_nat_iff pos_mod_sign zero_less_numeral)
      have "u = x" "w = z" using div [OF k(1)] div [OF k(2)] l assms(3,6) by (auto intro!: eqI simp: in_border_def)
      moreover have "v - WorldMinY = y - WorldMinY" using d l(2) by (rule eqI)
      ultimately show False using ne by simp
    qed
    from A(2) [OF this] show ?thesis
      using True S(4) [of "?l u" "?l (v - WorldMinY)" "?l w"] g [of u "v - WorldMinY" w] i len
      by (cases "Sections c ! ?i") (auto simp: c' blockInChunk_def Let_def)
  qed
qed

lemma GetBlock_visible:
  assumes "cache_ok G w pend" "world_chunk_ok (visible G w (ChunkCoordsFor x z))" "GetBlock G w x y z = (b, w')"
  shows "b = block_at G w x y z \<and> visible G w' = visible G w \<and> cache_ok G w' pend"
proof (cases "y < WorldMinY \<or> y > WorldMaxY")
  case True
  then show ?thesis using assms by (auto simp: GetBlock_def block_at_def)
next
  case False
  obtain c where c: "Chunk G w (ChunkCoordsFor x z) = (c, w')" and b: "b = blockInChunk c x y z"
    using assms(3) False by (auto simp: GetBlock_def split: prod.splits)
  note C = Chunk_ok [OF assms(1) c]
  have "length (Sections c) = SectionCount"
    using C world_chunk_ok_length [OF assms(2)] by (metis sections_finalize(2))
  then show ?thesis
    using C b False blockInChunk_finalize [of c y x z] by (auto simp: block_at_def)
qed

text \<open>Every chunk in the cache, and every chunk a load gives, satisfies the palette invariant.\<close>

definition chunks_ok :: "world_env \<Rightarrow> world \<Rightarrow> bool" where
  "chunks_ok G w \<longleftrightarrow> (\<forall>k c. map_of (chunks w) k = Some c \<longrightarrow> world_chunk_ok c) \<and>
     (\<forall>k. world_chunk_ok (load_chunk G (disk w) k))"

lemma trim_sub:
  "map_of (chunks (trimChunksLocked w)) k = Some c \<Longrightarrow> map_of (chunks w) k = Some c"
proof (induction w rule: trimChunksLocked.induct)
  case (1 w)
  show ?case
  proof (cases "int (length (chunks w)) \<le> maxCachedChunks w \<or> oldest_clean w (chunks w) None = None")
    case True
    then have "trimChunksLocked w = w" by (subst trimChunksLocked.simps) auto
    with "1.prems" show ?thesis by simp
  next
    case False
    then obtain j where j: "oldest_clean w (chunks w) None = Some j" by auto
    have "trimChunksLocked w = trimChunksLocked (evict w j)"
      using False j by (subst trimChunksLocked.simps) simp
    then have "map_of (chunks (evict w j)) k = Some c"
      using "1.IH" [OF _ j] "1.prems" False by simp
    then show ?thesis by (simp add: evict_def AList.delete_conv split: if_splits)
  qed
qed

lemma trim_disk [simp]: "disk (trimChunksLocked w) = disk w" and trim_dirty [simp]: "dirty (trimChunksLocked w) = dirty w"
proof (induction w rule: trimChunksLocked.induct)
  case (1 w)
  have "disk (trimChunksLocked w) = disk w \<and> dirty (trimChunksLocked w) = dirty w"
  proof (cases "int (length (chunks w)) \<le> maxCachedChunks w \<or> oldest_clean w (chunks w) None = None")
    case True
    then have "trimChunksLocked w = w" by (subst trimChunksLocked.simps) auto
    then show ?thesis by simp
  next
    case False
    then obtain j where j: "oldest_clean w (chunks w) None = Some j" by auto
    have "trimChunksLocked w = trimChunksLocked (evict w j)"
      using False j by (subst trimChunksLocked.simps) simp
    then show ?thesis
      using "1.IH" [OF _ j] False by (simp add: evict_def)
  qed
  then show "disk (trimChunksLocked w) = disk w" "dirty (trimChunksLocked w) = dirty w" by simp_all
qed

lemma trim_chunks_ok: "chunks_ok G w \<Longrightarrow> chunks_ok G (trimChunksLocked w)"
  unfolding chunks_ok_def using trim_sub by (metis trim_disk)

lemma put_chunks_ok: "chunks_ok G w \<Longrightarrow> world_chunk_ok c \<Longrightarrow> chunks_ok G (put_chunk w key c)"
  by (auto simp: chunks_ok_def put_chunk_def AList.update_conv)

lemma chunks_ok_Cons:
  "chunks w' = (key, c) # chunks w \<Longrightarrow> disk w' = disk w \<Longrightarrow> chunks_ok G w \<Longrightarrow> world_chunk_ok c \<Longrightarrow> chunks_ok G w'"
  unfolding chunks_ok_def by (auto split: if_splits)

lemma Chunk_wf:
  assumes "chunks_ok G w" "Chunk G w key = (c, w')"
  shows "world_chunk_ok c \<and> chunks_ok G w'"
proof (cases "map_of (chunks w) key")
  case (Some d)
  with assms(1) have "world_chunk_ok d" unfolding chunks_ok_def by blast
  moreover have "chunks_ok G (touchChunkLocked w key) = chunks_ok G w" by (simp add: chunks_ok_def)
  ultimately show ?thesis using assms Some by (auto simp: Chunk_def)
next
  case None
  let ?c = "finalize_chunk (load_chunk G (disk w) key)"
  let ?w1 = "touchChunkLocked (w\<lparr>chunks := (key, ?c) # chunks w\<rparr>) key"
  let ?w2 = "if from_disk G (disk w) key = None \<and> disk w \<noteq> None then ?w1\<lparr>dirty := insert key (dirty ?w1)\<rparr> else ?w1"
  have run: "c = ?c" "w' = trimChunksLocked ?w2"
    using assms(2) None by (simp_all add: Chunk_def Let_def)
  have l: "world_chunk_ok (load_chunk G (disk w) key)" using assms(1) unfolding chunks_ok_def by blast
  have "chunks_ok G ?w2"
    by (rule chunks_ok_Cons [where key = key, OF _ _ assms(1) world_chunk_ok_finalize [OF l]]) simp_all
  then show ?thesis using run l trim_chunks_ok by simp
qed

lemma palette_room_finalize [simp]: "palette_room (finalize_chunk c) = palette_room c"
  by (auto simp: palette_room_def finalize_chunk_def list_all_iff Finalize_def split: option.splits)

lemma drop_entity_simps [simp]:
  "Sections (drop_entity x y z c) = Sections c" "world_chunk_ok (drop_entity x y z c) = world_chunk_ok c"
  by (simp_all add: drop_entity_def world_chunk_ok_def chunk.truncate_def)

lemma blockInChunk_drop [simp]: "blockInChunk (drop_entity a b d c) x y z = blockInChunk c x y z"
  by (simp add: blockInChunk_def)

lemma SetBlock_out: "y < WorldMinY \<or> y > WorldMaxY \<Longrightarrow> SetBlock G w x y z b = w"
  by (simp add: SetBlock_def)

text \<open>The two setters write the block into the chunk they look up and make it dirty.\<close>

definition written :: "chunk_key \<Rightarrow> world_chunk \<Rightarrow> int \<Rightarrow> int \<Rightarrow> int \<Rightarrow> block \<Rightarrow> bool \<Rightarrow> world_chunk" where
  "written key c x y z b drop_it =
     (if drop_it then drop_entity x y z (set_in_chunk key c x y z b) else set_in_chunk key c x y z b)"

lemma write_visible:
  assumes "cache_ok G w pend" "chunks_ok G w" "palette_room (visible G w (ChunkCoordsFor x z))"
    and "in_border x z" "WorldMinY \<le> y" "y \<le> WorldMaxY"
    and "Chunk G w (ChunkCoordsFor x z) = (c, w1)"
    and "w' = trimChunksLocked (put_chunk w1 (ChunkCoordsFor x z) (written (ChunkCoordsFor x z) c x y z b d))"
  shows "cache_ok G w' pend" "chunks_ok G w'" "ChunkCoordsFor x z \<in> dirty w'"
    and "visible G w' = (visible G w)(ChunkCoordsFor x z := finalize_chunk (written (ChunkCoordsFor x z) c x y z b d))"
    and "world_chunk_ok c" "palette_room c" "finalize_chunk c = visible G w (ChunkCoordsFor x z)"
proof -
  let ?k = "ChunkCoordsFor x z" and ?d = "written (ChunkCoordsFor x z) c x y z b d"
  note C = Chunk_ok [OF assms(1,7)] Chunk_wf [OF assms(2,7)]
  show ok: "world_chunk_ok c" "palette_room c" and f: "finalize_chunk c = visible G w ?k"
    using C assms(3) by (metis palette_room_finalize)+
  have d: "world_chunk_ok ?d"
    using set_in_chunk_ok [OF ok assms(4-6)] by (simp add: written_def)
  have c1: "cache_ok G w1 pend" "chunks_ok G w1" using C by simp_all
  note P = put_chunk_ok [OF c1(1), of ?k ?d]
  note T = trim_ok [OF P(1)]
  show "cache_ok G w' pend" "ChunkCoordsFor x z \<in> dirty w'" using T P(4) assms(8) by simp_all
  show "chunks_ok G w'" using trim_chunks_ok [OF put_chunks_ok [OF c1(2) d]] assms(8) by simp
  show "visible G w' = (visible G w)(?k := finalize_chunk ?d)" using T P(2) C assms(8) by simp
qed

lemma block_at_written:
  assumes "world_chunk_ok c" "palette_room c" "in_border x z" "WorldMinY \<le> y" "y \<le> WorldMaxY" "in_border u v'"
    and "finalize_chunk c = visible G w (ChunkCoordsFor x z)"
    and "visible G w' = (visible G w)(ChunkCoordsFor x z := finalize_chunk (written (ChunkCoordsFor x z) c x y z b d))"
  shows "(u, v, v') = (x, y, z) \<Longrightarrow> Key (block_at G w' u v v') = Key b"
    and "(u, v, v') \<noteq> (x, y, z) \<Longrightarrow> block_at G w' u v v' = block_at G w u v v'"
proof -
  let ?k = "ChunkCoordsFor x z" and ?d = "written (ChunkCoordsFor x z) c x y z b d"
  have len: "length (Sections c) = SectionCount" "length (Sections ?d) = SectionCount"
    using world_chunk_ok_length [OF assms(1)] by (simp_all add: written_def set_in_chunk_def Let_def)
  have old: "block_at G w u v v' = blockInChunk c u v v'" and new: "block_at G w' u v v' = blockInChunk ?d u v v'"
    if "ChunkCoordsFor u v' = ?k" "WorldMinY \<le> v" "v \<le> WorldMaxY"
    using that blockInChunk_finalize [OF len(1) that(2,3)] blockInChunk_finalize [OF len(2) that(2,3)]
    by (simp_all add: block_at_def assms(7) [symmetric] assms(8))
  have d: "blockInChunk ?d u v v' = blockInChunk (set_in_chunk ?k c x y z b) u v v'"
    by (simp add: written_def)
  show "Key (block_at G w' u v v') = Key b" if "(u, v, v') = (x, y, z)"
    using that blockInChunk_set(1) [OF assms(1-5) assms(6)] new d assms(4,5) by simp
  show "block_at G w' u v v' = block_at G w u v v'" if ne: "(u, v, v') \<noteq> (x, y, z)"
  proof (cases "ChunkCoordsFor u v' = ?k \<and> WorldMinY \<le> v \<and> v \<le> WorldMaxY")
    case True
    then show ?thesis
      using blockInChunk_set(2) [OF assms(1-5) assms(6) _ _ _ ne] old new d by simp
  next
    case False
    then show ?thesis by (auto simp: block_at_def assms(8))
  qed
qed

section \<open>Container contents\<close>

lemma update_first_None: "update_first P f xs = None \<longleftrightarrow> (\<forall>x \<in> set xs. \<not> P x)"
  by (induction xs) auto

lemma find_update_first:
  assumes "update_first P f xs = Some ys" "\<And>x. P x \<Longrightarrow> P (f x)"
  shows "List.find P ys = map_option f (List.find P xs) \<and> List.find P xs \<noteq> None"
  using assms(1)
proof (induction xs arbitrary: ys)
  case (Cons x xs)
  then show ?case using assms(2) by (auto split: if_splits)
qed simp

lemma find_update_other:
  assumes "update_first P f xs = Some ys" "\<And>x. P x \<Longrightarrow> \<not> Q x \<and> \<not> Q (f x)"
  shows "List.find Q ys = List.find Q xs"
  using assms(1)
proof (induction xs arbitrary: ys)
  case (Cons x xs)
  then show ?case using assms(2) by (auto split: if_splits)
qed simp

lemma find_append_one: "List.find P (xs @ [x]) = (case List.find P xs of Some y \<Rightarrow> Some y | None \<Rightarrow> if P x then Some x else None)"
  by (induction xs) auto

lemma set_entity_simps [simp]:
  "EntityX (set_entity ty c n e) = EntityX e" "EntityY (set_entity ty c n e) = EntityY e"
  "EntityZ (set_entity ty c n e) = EntityZ e" "at_pos x y z (set_entity ty c n e) = at_pos x y z e" "Items (set_entity ty c n e) = c"
  by (simp_all add: set_entity_def at_pos_def)

lemma find_entity_set_items:
  "\<exists>e. find_entity x y z (set_items G x y z ty items es) = Some e \<and> Items e = clean_items items"
proof -
  let ?P = "at_pos x y z"
  let ?f = "set_entity ty (clean_items items) (if ty = ''minecraft:lectern'' then LecternPageCount G (clean_items items) else 0)"
  show ?thesis
  proof (cases "update_first ?P ?f es")
    case None
    then have "List.find ?P es = None" by (simp add: update_first_None find_None_iff)
    then show ?thesis using None by (simp add: set_items_def find_entity_def Let_def find_append_one at_pos_def)
  next
    case (Some es')
    then have "List.find ?P es' = map_option ?f (List.find ?P es) \<and> List.find ?P es \<noteq> None"
      by (rule find_update_first) simp
    then show ?thesis using Some by (auto simp: set_items_def find_entity_def Let_def)
  qed
qed

lemma find_entity_set_items_other:
  assumes "(u, v, w) \<noteq> (x, y, z)"
  shows "find_entity u v w (set_items G x y z ty items es) = find_entity u v w es"
proof -
  let ?P = "at_pos x y z"
  let ?f = "set_entity ty (clean_items items) (if ty = ''minecraft:lectern'' then LecternPageCount G (clean_items items) else 0)"
  show ?thesis
  proof (cases "update_first ?P ?f es")
    case None
    then show ?thesis using assms
      by (auto simp: set_items_def find_entity_def Let_def find_append_one at_pos_def split: option.splits)
  next
    case (Some es')
    then have "List.find (at_pos u v w) es' = List.find (at_pos u v w) es"
      by (rule find_update_other) (use assms in \<open>auto simp: at_pos_def\<close>)
    then show ?thesis using Some by (simp add: set_items_def find_entity_def Let_def)
  qed
qed

lemma ContainerItems_visible:
  assumes "cache_ok G w pend" "ContainerItems G w x y z = (items, w')"
  shows "items = items_at G w x y z \<and> visible G w' = visible G w \<and> cache_ok G w' pend"
proof -
  obtain c where c: "Chunk G w (ChunkCoordsFor x z) = (c, w')"
    and i: "items = (case find_entity x y z (BlockEntities c) of None \<Rightarrow> [] | Some e \<Rightarrow> Items e)"
    using assms(2) by (auto simp: ContainerItems_def split: prod.splits)
  note C = Chunk_ok [OF assms(1) c]
  have "BlockEntities (visible G w (ChunkCoordsFor x z)) = BlockEntities c"
    using C by (metis sections_finalize(3))
  then show ?thesis using C i by (simp add: items_at_def)
qed

lemma SetContainerItems_visible:
  assumes "cache_ok G w pend" "w' = SetContainerItems G w x y z ty items"
  shows "cache_ok G w' pend" "ChunkCoordsFor x z \<in> dirty w'"
    and "items_at G w' u v t = (if (u, v, t) = (x, y, z) then clean_items items else items_at G w u v t)"
    and "k \<noteq> ChunkCoordsFor x z \<Longrightarrow> visible G w' k = visible G w k"
    and "Sections (visible G w' k) = Sections (visible G w k)"
proof -
  let ?k = "ChunkCoordsFor x z"
  obtain c w1 where c: "Chunk G w ?k = (c, w1)" by fastforce
  let ?c = "c\<lparr>BlockEntities := set_items G x y z ty items (BlockEntities c)\<rparr>"
  have run: "w' = put_chunk w1 ?k ?c" using assms(2) c by (simp add: SetContainerItems_def)
  note C = Chunk_ok [OF assms(1) c]
  note P = put_chunk_ok [of G w1 pend ?k ?c]
  have old: "finalize_chunk c = visible G w ?k" "visible G w1 = visible G w" "cache_ok G w1 pend" using C by simp_all
  show "cache_ok G w' pend" "?k \<in> dirty w'" using P old run by simp_all
  have vis: "visible G w' = (visible G w)(?k := finalize_chunk ?c)" using P old run by simp
  then show "k \<noteq> ?k \<Longrightarrow> visible G w' k = visible G w k" by simp
  have be: "BlockEntities (visible G w ?k) = BlockEntities c" using old(1) by (metis sections_finalize(3))
  have "Sections (finalize_chunk ?c) = Sections (finalize_chunk c)" by (simp add: finalize_chunk_def)
  then show "Sections (visible G w' k) = Sections (visible G w k)" using vis old(1) by auto
  show "items_at G w' u v t = (if (u, v, t) = (x, y, z) then clean_items items else items_at G w u v t)"
  proof (cases "ChunkCoordsFor u t = ?k")
    case False
    then show ?thesis using vis by (auto simp: items_at_def)
  next
    case True
    show ?thesis
    proof (cases "(u, v, t) = (x, y, z)")
      case eq: True
      obtain e where "find_entity x y z (set_items G x y z ty items (BlockEntities c)) = Some e" "Items e = clean_items items"
        using find_entity_set_items by metis
      then show ?thesis using eq vis by (simp add: items_at_def)
    next
      case ne: False
      show ?thesis
        using True ne vis be find_entity_set_items_other [OF ne] by (auto simp: items_at_def)
    qed
  qed
qed

section \<open>Properties\<close>

text \<open>C12: Trimming the chunk cache ends with the cache within its limit or with only chunks that are
  dirty or being flushed, and never drops a chunk that has changes to save.\<close>

theorem trim_bounds_cache:
  "(int (length (chunks (trimChunksLocked w))) \<le> maxCachedChunks w \<or>
    fst ` set (chunks (trimChunksLocked w)) \<subseteq> dirty w \<union> flushing w) \<and>
   (\<forall>k c. map_of (chunks w) k = Some c \<longrightarrow> k \<in> dirty w \<union> flushing w \<longrightarrow>
      map_of (chunks (trimChunksLocked w)) k = Some c)"
  using trim_bound [of w] trim_keeps [of w] unfolding Un_iff by blast

theorem trim_bounds_cache_witness:
  "map_of (chunks (trimChunksLocked ((New None)\<lparr>maxCachedChunks := 0,
      chunks := [((1, 2), empty_chunk (1, 2))], dirty := {(1, 2)}\<rparr>))) (1, 2) = Some (empty_chunk (1, 2))"
  by (rule trim_bounds_cache [THEN conjunct2, rule_format]) simp_all

end
