(* ===== verification/Persistence.thy ===== *)
theory Persistence
  imports Worlds
begin

text \<open>
  The autosave of the world (\<open>World.Flush\<close>, \<open>World.restoreDirty\<close>) interleaved with the other
  operations of the cache. \<open>Flush\<close> releases the lock between its phases, so each phase is a
  step of its own; its state is the list of keys still to save. The abstract specification
  is the map of visible chunks: only the block and container writes change it.
\<close>

record flush_state =
  store :: world
  pending :: "chunk_key list option"

definition pending_keys :: "flush_state \<Rightarrow> chunk_key list" where
  "pending_keys s = (case pending s of None \<Rightarrow> [] | Some ks \<Rightarrow> ks)"

text \<open>Swapping the dirty set out; \<open>order\<close> is the order the map is iterated in.\<close>

definition flush_begin :: "world \<Rightarrow> chunk_key list \<Rightarrow> flush_state" where
  "flush_begin w order = \<lparr>store = w\<lparr>dirty := {}, flushing := dirty w\<rparr>, pending = Some order\<rparr>"

definition flush_save :: "world \<Rightarrow> chunk_key \<Rightarrow> world" where
  "flush_save w key =
     (case map_of (chunks w) key of
        None \<Rightarrow> w
      | Some c \<Rightarrow> w\<lparr>disk := map_option (\<lambda>d. d(key \<mapsto> c)) (disk w)\<rparr>)"

definition restoreDirty :: "world \<Rightarrow> chunk_key set \<Rightarrow> world" where
  "restoreDirty w keys = w\<lparr>flushing := {}, dirty := dirty w \<union> keys\<rparr>"

definition flush_commit :: "world \<Rightarrow> world" where
  "flush_commit w = trimChunksLocked (w\<lparr>flushing := {}\<rparr>)"

text \<open>The whole of \<open>Flush\<close> with nothing in between; \<open>save_ok\<close> and \<open>sync_ok\<close> are the backend's answers.\<close>

fun flush_loop :: "(chunk_key \<Rightarrow> bool) \<Rightarrow> world \<Rightarrow> chunk_key list \<Rightarrow> world \<times> bool" where
  "flush_loop save_ok w [] = (w, True)"
| "flush_loop save_ok w (key # keys) =
     (if map_of (chunks w) key = None then flush_loop save_ok w keys
      else if \<not> save_ok key then (w, False)
      else flush_loop save_ok (flush_save w key) keys)"

definition Flush :: "(chunk_key \<Rightarrow> bool) \<Rightarrow> bool \<Rightarrow> world \<Rightarrow> chunk_key list \<Rightarrow> world \<times> bool" where
  "Flush save_ok sync_ok w order =
     (if disk w = None then (trimChunksLocked w, True)
      else let (w1, saved) = flush_loop save_ok (store (flush_begin w order)) order
           in if saved \<and> sync_ok then (flush_commit w1, True)
              else (restoreDirty w1 (dirty w), False))"

datatype event =
    Load chunk_key
  | Write int int int block
  | Items int int int string "container_item list"
  | Limit int
  | Begin "chunk_key list"
  | Save
  | Fail
  | Commit

inductive world_step :: "world_env \<Rightarrow> flush_state \<Rightarrow> event \<Rightarrow> flush_state \<Rightarrow> bool" for G where
  load: "Chunk G (store s) key = (c, w') \<Longrightarrow> world_step G s (Load key) (s\<lparr>store := w'\<rparr>)"
| set_block: "in_border x z \<Longrightarrow> palette_room (visible G (store s) (ChunkCoordsFor x z)) \<Longrightarrow>
    world_step G s (Write x y z b) (s\<lparr>store := SetBlock G (store s) x y z b\<rparr>)"
| items: "world_step G s (Items x y z ty is) (s\<lparr>store := SetContainerItems G (store s) x y z ty is\<rparr>)"
| limit: "world_step G s (Limit n) (s\<lparr>store := SetMaxCachedChunks (store s) n\<rparr>)"
| begin_flush: "pending s = None \<Longrightarrow> disk (store s) \<noteq> None \<Longrightarrow> set order = dirty (store s) \<Longrightarrow> distinct order \<Longrightarrow>
    world_step G s (Begin order) (flush_begin (store s) order)"
| save: "pending s = Some (key # keys) \<Longrightarrow>
    world_step G s Save (s\<lparr>store := flush_save (store s) key, pending := Some keys\<rparr>)"
| fail: "pending s = Some keys \<Longrightarrow>
    world_step G s Fail (s\<lparr>store := restoreDirty (store s) (flushing (store s)), pending := None\<rparr>)"
| commit: "pending s = Some [] \<Longrightarrow>
    world_step G s Commit (s\<lparr>store := flush_commit (store s), pending := None\<rparr>)"

inductive_cases world_stepE: "world_step G s ev s'"

inductive world_steps :: "world_env \<Rightarrow> flush_state \<Rightarrow> event list \<Rightarrow> flush_state \<Rightarrow> bool" for G where
  steps_nil: "world_steps G s [] s"
| steps_cons: "world_step G s ev s' \<Longrightarrow> world_steps G s' evs s'' \<Longrightarrow> world_steps G s (ev # evs) s''"

inductive_cases world_steps_NilE: "world_steps G s [] s'"
inductive_cases world_steps_ConsE: "world_steps G s (ev # evs) s'"

section \<open>The invariant of the steps\<close>

definition step_ok :: "world_env \<Rightarrow> flush_state \<Rightarrow> bool" where
  "step_ok G s \<longleftrightarrow> cache_ok G (store s) (pending_keys s) \<and> chunks_ok G (store s) \<and>
     (pending s = None \<longrightarrow> flushing (store s) = {}) \<and> distinct (pending_keys s) \<and>
     (disk (store s) = None \<longrightarrow> pending s = None)"

definition same_view :: "world_env \<Rightarrow> flush_state \<Rightarrow> flush_state \<Rightarrow> bool" where
  "same_view G s t \<longleftrightarrow> visible G (store t) = visible G (store s)"

lemma cache_ok_begin:
  assumes "cache_ok G w []" "set order = dirty w"
  shows "cache_ok G (w\<lparr>dirty := {}, flushing := dirty w\<rparr>) order"
  using assms by (simp add: cache_ok_def)

lemma load_chunk_update:
  "\<not> load_fails G k \<Longrightarrow> load_chunk G (map_option (\<lambda>d. d(key \<mapsto> c)) d) k =
    (if d \<noteq> None \<and> k = key then c else load_chunk G d k)"
  by (auto simp: load_chunk_def from_disk_def split: option.splits)

lemma flush_save_ok:
  assumes "cache_ok G w (key # keys)" "chunks_ok G w" "disk w \<noteq> None"
  shows "cache_ok G (flush_save w key) keys" "visible G (flush_save w key) = visible G w"
    "chunks_ok G (flush_save w key)"
proof -
  have nf: "\<not> load_fails G k" for k using assms(1) unfolding cache_ok_def by blast
  have "cache_ok G (flush_save w key) keys \<and> visible G (flush_save w key) = visible G w \<and> chunks_ok G (flush_save w key)"
  proof (cases "map_of (chunks w) key")
    case None
    then have "flush_save w key = w" by (simp add: flush_save_def)
    moreover have "cache_ok G w keys"
      using assms(1) None unfolding cache_ok_def by (metis list.set_intros(2) option.distinct(1) set_ConsD subset_code(1))
    ultimately show ?thesis using assms(2) by simp
  next
    case (Some c)
    let ?d = "map_option (\<lambda>d. d(key \<mapsto> c)) (disk w)"
    have s: "flush_save w key = w\<lparr>disk := ?d\<rparr>" using Some by (simp add: flush_save_def)
    have load: "load_chunk G ?d k = (if k = key then c else load_chunk G (disk w) k)" for k
      using load_chunk_update [OF nf] assms(3) by auto
    have wc: "world_chunk_ok c" using assms(2) Some unfolding chunks_ok_def by blast
    let ?w = "w\<lparr>disk := ?d\<rparr>"
    have f: "chunks ?w = chunks w" "disk ?w = ?d" "dirty ?w = dirty w" "flushing ?w = flushing w" by simp_all
    have "chunks_ok G ?w"
      using assms(2) wc unfolding chunks_ok_def f load by simp
    moreover have "cache_ok G ?w keys"
      unfolding cache_ok_def f load
    proof (intro conjI allI impI)
      show "set keys \<subseteq> flushing w" "distinct (map fst (chunks w))" using assms(1) by (simp_all add: cache_ok_def)
      show "finalize_chunk e = finalize_chunk (if k = key then c else load_chunk G (disk w) k)"
        if "map_of (chunks w) k = Some e" "k \<notin> dirty w" "k \<notin> set keys" for k e
      proof (cases "k = key")
        case True
        with that(1) Some show ?thesis by simp
      next
        case False
        then have "k \<notin> set (key # keys)" using that(3) by simp
        moreover have "\<forall>k c. map_of (chunks w) k = Some c \<longrightarrow> k \<notin> dirty w \<longrightarrow> k \<notin> set (key # keys) \<longrightarrow>
            finalize_chunk c = finalize_chunk (load_chunk G (disk w) k)"
          using assms(1) unfolding cache_ok_def by (elim conjE)
        ultimately have "finalize_chunk e = finalize_chunk (load_chunk G (disk w) k)"
          using that(1,2) by blast
        then show ?thesis using False by (simp only: if_False)
      qed
    qed (rule nf)
    moreover have "visible G ?w = visible G w"
    proof (rule ext)
      fix k
      show "visible G ?w k = visible G w k"
        unfolding visible_def f load using Some by (cases "k = key") simp_all
    qed
    ultimately show ?thesis by (simp only: s)
  qed
  then show "cache_ok G (flush_save w key) keys" "visible G (flush_save w key) = visible G w"
    "chunks_ok G (flush_save w key)" by simp_all
qed

lemma pending_keys_simps [simp]:
  "pending_keys (s\<lparr>store := w\<rparr>) = pending_keys s"
  "pending_keys (s\<lparr>pending := Some ks\<rparr>) = ks"
  "pending_keys (s\<lparr>pending := None\<rparr>) = []"
  "pending s = Some ks \<Longrightarrow> pending_keys s = ks"
  "pending s = None \<Longrightarrow> pending_keys s = []"
  "pending_keys (flush_begin w order) = order"
  by (simp_all add: pending_keys_def flush_begin_def)

lemma cache_ok_unpin:
  assumes "cache_ok G w keys" "set keys \<subseteq> dirty w'" "dirty w \<subseteq> dirty w'" "chunks w' = chunks w" "disk w' = disk w"
  shows "cache_ok G w' []"
  unfolding cache_ok_def
proof (intro conjI allI impI)
  show "\<not> load_fails G k" for k using assms(1) unfolding cache_ok_def by blast
  show "distinct (map fst (chunks w'))" using assms(1,4) by (simp add: cache_ok_def)
  show "set [] \<subseteq> flushing w'" by simp
  show "finalize_chunk c = finalize_chunk (load_chunk G (disk w') k)"
    if "map_of (chunks w') k = Some c" "k \<notin> dirty w'" for k c
  proof -
    have "k \<notin> dirty w" "k \<notin> set keys" using that(2) assms(2,3) by auto
    then show ?thesis using assms(1) that(1) unfolding cache_ok_def assms(4,5) by blast
  qed
qed

lemma chunks_ok_cong: "chunks w' = chunks w \<Longrightarrow> disk w' = disk w \<Longrightarrow> chunks_ok G w' = chunks_ok G w"
  by (simp only: chunks_ok_def)

text \<open>Loads, limits and every phase of a flush keep what is visible; the invariant holds throughout.\<close>

lemma SetBlock_run:
  assumes "WorldMinY \<le> y" "y \<le> WorldMaxY" "Chunk G w (ChunkCoordsFor x z) = (c, w1)"
  shows "SetBlock G w x y z b =
    trimChunksLocked (put_chunk w1 (ChunkCoordsFor x z) (written (ChunkCoordsFor x z) c x y z b (IsAir b)))"
  using assms by (simp add: SetBlock_def written_def Let_def)

lemma setBlockNoPhysics_run:
  assumes "WorldMinY \<le> y" "y \<le> WorldMaxY" "Chunk G w (ChunkCoordsFor x z) = (c, w1)"
  shows "setBlockNoPhysics G w x y z b =
    trimChunksLocked (put_chunk w1 (ChunkCoordsFor x z) (written (ChunkCoordsFor x z) c x y z b False))"
  using assms by (simp add: setBlockNoPhysics_def written_def Let_def)

lemma SetBlock_ok:
  assumes "cache_ok G w pend" "chunks_ok G w" "palette_room (visible G w (ChunkCoordsFor x z))" "in_border x z"
  shows "cache_ok G (SetBlock G w x y z b) pend" "chunks_ok G (SetBlock G w x y z b)"
    and "flushing (SetBlock G w x y z b) = flushing w" "disk (SetBlock G w x y z b) = disk w"
proof -
  let ?k = "ChunkCoordsFor x z"
  have "cache_ok G (SetBlock G w x y z b) pend \<and> chunks_ok G (SetBlock G w x y z b) \<and>
    flushing (SetBlock G w x y z b) = flushing w \<and> disk (SetBlock G w x y z b) = disk w"
  proof (cases "y < WorldMinY \<or> y > WorldMaxY")
    case True
    then show ?thesis using assms by (simp add: SetBlock_out)
  next
    case False
    obtain c w1 where c: "Chunk G w ?k = (c, w1)" by fastforce
    have y: "WorldMinY \<le> y" "y \<le> WorldMaxY" using False by auto
    note R = SetBlock_run [OF y c, of b]
    note W = write_visible [OF assms y c R]
    have c1: "cache_ok G w1 pend" "flushing w1 = flushing w" "disk w1 = disk w" using Chunk_ok [OF assms(1) c] by simp_all
    note P = put_chunk_ok [OF c1(1), of ?k "written ?k c x y z b (IsAir b)"]
    show ?thesis using W(1,2) trim_ok [OF P(1)] P(3,5) c1(2,3) R by simp
  qed
  then show "cache_ok G (SetBlock G w x y z b) pend" "chunks_ok G (SetBlock G w x y z b)"
    "flushing (SetBlock G w x y z b) = flushing w" "disk (SetBlock G w x y z b) = disk w" by simp_all
qed

lemma SetContainerItems_ok:
  assumes "cache_ok G w pend" "chunks_ok G w"
  shows "chunks_ok G (SetContainerItems G w x y z ty is)"
    and "flushing (SetContainerItems G w x y z ty is) = flushing w" "disk (SetContainerItems G w x y z ty is) = disk w"
proof -
  let ?k = "ChunkCoordsFor x z"
  obtain c w1 where c: "Chunk G w ?k = (c, w1)" by fastforce
  let ?c = "c\<lparr>BlockEntities := set_items G x y z ty is (BlockEntities c)\<rparr>"
  have run: "SetContainerItems G w x y z ty is = put_chunk w1 ?k ?c" using c by (simp add: SetContainerItems_def)
  have wf: "world_chunk_ok c" "chunks_ok G w1" using Chunk_wf [OF assms(2) c] by simp_all
  have "world_chunk_ok ?c" using wf(1) by (simp add: world_chunk_ok_def chunk.truncate_def)
  then show "chunks_ok G (SetContainerItems G w x y z ty is)" using put_chunks_ok [OF wf(2)] run by simp
  have c1: "cache_ok G w1 pend" "flushing w1 = flushing w" "disk w1 = disk w" using Chunk_ok [OF assms(1) c] by simp_all
  show "flushing (SetContainerItems G w x y z ty is) = flushing w" "disk (SetContainerItems G w x y z ty is) = disk w"
    using put_chunk_ok(3,5) [OF c1(1)] c1(2,3) run by simp_all
qed

lemma step_ok_step:
  assumes "world_step G s ev s'" "step_ok G s"
  shows "step_ok G s'"
  using assms
proof (induction rule: world_step.induct)
  case (load s key c w')
  then have c: "cache_ok G (store s) (pending_keys s)" "chunks_ok G (store s)" by (simp_all add: step_ok_def)
  show ?case using load Chunk_ok [OF c(1) load(1)] Chunk_wf [OF c(2) load(1)] by (simp add: step_ok_def)
next
  case (set_block x z s y b)
  then have c: "cache_ok G (store s) (pending_keys s)" "chunks_ok G (store s)" by (simp_all add: step_ok_def)
  show ?case using set_block SetBlock_ok [OF c set_block(2,1)] by (simp add: step_ok_def)
next
  case (items s x y z ty its)
  then have c: "cache_ok G (store s) (pending_keys s)" "chunks_ok G (store s)" by (simp_all add: step_ok_def)
  show ?case
    using items SetContainerItems_ok [OF c] SetContainerItems_visible(1) [OF c(1) refl] by (simp add: step_ok_def)
next
  case (limit s n)
  let ?w = "(store s)\<lparr>maxCachedChunks := (if n < 128 then 128 else n)\<rparr>"
  have c: "cache_ok G ?w (pending_keys s)" "chunks_ok G ?w"
    using limit by (simp_all add: step_ok_def cache_ok_def chunks_ok_def)
  show ?case
    using limit trim_ok [OF c(1)] trim_chunks_ok [OF c(2)] by (simp add: step_ok_def SetMaxCachedChunks_def)
next
  case (begin_flush s order)
  then show ?case
    using cache_ok_begin [of G "store s" order] by (simp add: step_ok_def flush_begin_def chunks_ok_def)
next
  case (save s key keys)
  then have c: "cache_ok G (store s) (key # keys)" "chunks_ok G (store s)" "disk (store s) \<noteq> None"
    by (auto simp: step_ok_def)
  show ?case using save flush_save_ok [OF c] c(3) by (auto simp: step_ok_def flush_save_def split: option.splits)
next
  case (fail s keys)
  then have c: "cache_ok G (store s) keys" by (simp add: step_ok_def)
  then have "set keys \<subseteq> flushing (store s)" by (simp add: cache_ok_def)
  then have "cache_ok G (restoreDirty (store s) (flushing (store s))) []"
    by (intro cache_ok_unpin [OF c]) (auto simp: restoreDirty_def)
  then show ?case using fail by (simp add: step_ok_def restoreDirty_def chunks_ok_def)
next
  case (commit s)
  then have c: "cache_ok G (store s) []" by (simp add: step_ok_def)
  then have c': "cache_ok G ((store s)\<lparr>flushing := {}\<rparr>) []" by (simp add: cache_ok_def)
  have w: "chunks_ok G ((store s)\<lparr>flushing := {}\<rparr>)" using commit by (simp add: step_ok_def chunks_ok_def)
  show ?case
    using commit trim_ok [OF c'] trim_chunks_ok [OF w] by (simp add: step_ok_def flush_commit_def)
qed

section \<open>The steps refine a plain map of blocks and containers\<close>

type_synonym position = "int \<times> int \<times> int"

fun spec_blocks :: "event \<Rightarrow> (position \<Rightarrow> string) \<Rightarrow> position \<Rightarrow> string" where
  "spec_blocks (Write x y z b) f = (if WorldMinY \<le> y \<and> y \<le> WorldMaxY then f((x, y, z) := Key b) else f)"
| "spec_blocks _ f = f"

fun spec_items :: "event \<Rightarrow> (position \<Rightarrow> container_item list) \<Rightarrow> position \<Rightarrow> container_item list" where
  "spec_items (Write x y z b) g = (if WorldMinY \<le> y \<and> y \<le> WorldMaxY \<and> IsAir b then g((x, y, z) := []) else g)"
| "spec_items (Items x y z ty is) g = g((x, y, z) := clean_items is)"
| "spec_items _ g = g"

definition block_keys :: "world_env \<Rightarrow> flush_state \<Rightarrow> position \<Rightarrow> string" where
  "block_keys G s = (\<lambda>(x, y, z). Key (block_at G (store s) x y z))"

definition containers :: "world_env \<Rightarrow> flush_state \<Rightarrow> position \<Rightarrow> container_item list" where
  "containers G s = (\<lambda>(x, y, z). items_at G (store s) x y z)"

lemma entities_written [simp]: "BlockEntities (written key c x y z b False) = BlockEntities c"
  "BlockEntities (written key c x y z b True) =
    filter (\<lambda>e. \<not> at_pos x y z e) (BlockEntities c)"
  by (simp_all add: written_def set_in_chunk_def drop_entity_def Let_def)

lemma find_filter_other:
  "(\<And>e. Q e \<Longrightarrow> P e) \<Longrightarrow> List.find Q (filter P es) = List.find Q es"
  by (induction es) auto

lemma find_filter_same: "List.find P (filter (\<lambda>e. \<not> P e) es) = None"
  by (auto simp: find_None_iff)

lemma find_entity_drop:
  "find_entity u v t (filter (\<lambda>e. \<not> at_pos x y z e) es) =
    (if (u, v, t) = (x, y, z) then None else find_entity u v t es)"
proof (cases "(u, v, t) = (x, y, z)")
  case True
  then show ?thesis by (simp add: find_entity_def find_filter_same)
next
  case False
  then have "List.find (at_pos u v t) (filter (\<lambda>e. \<not> at_pos x y z e) es) = List.find (at_pos u v t) es"
    by (intro find_filter_other) (auto simp: at_pos_def)
  then show ?thesis unfolding find_entity_def using False by (simp only: if_False)
qed

lemma items_at_cong:
  "BlockEntities (visible G w' (ChunkCoordsFor x z)) = BlockEntities (visible G w (ChunkCoordsFor x z)) \<Longrightarrow>
    items_at G w' x y z = items_at G w x y z"
  by (simp add: items_at_def)

lemma same_visible:
  assumes "visible G (store s') = visible G (store s)"
  shows "block_keys G s' = block_keys G s" "containers G s' = containers G s"
  unfolding block_keys_def containers_def block_at_def items_at_def assms by (rule refl)+

lemma write_containers:
  assumes "finalize_chunk c = visible G w (ChunkCoordsFor x z)"
    and "visible G w' = (visible G w)(ChunkCoordsFor x z := finalize_chunk (written (ChunkCoordsFor x z) c x y z b d))"
  shows "items_at G w' u v t = (if d \<and> (u, v, t) = (x, y, z) then [] else items_at G w u v t)"
proof (cases "ChunkCoordsFor u t = ChunkCoordsFor x z")
  case True
  have "BlockEntities (visible G w (ChunkCoordsFor x z)) = BlockEntities c"
    unfolding assms(1) [symmetric] by simp
  then show ?thesis using True assms(2) by (cases d) (auto simp: items_at_def find_entity_drop)
next
  case False
  then show ?thesis using assms(2) by (auto simp: items_at_def)
qed

lemma step_refines:
  assumes "world_step G s ev s'" "step_ok G s" "in_border (fst p) (snd (snd p))"
  shows "block_keys G s' p = spec_blocks ev (block_keys G s) p" "containers G s' = spec_items ev (containers G s)"
proof -
  have "block_keys G s' p = spec_blocks ev (block_keys G s) p \<and> containers G s' = spec_items ev (containers G s)"
    using assms
  proof (induction rule: world_step.induct)
    case (load s key c w')
    then have "visible G w' = visible G (store s)" using Chunk_ok [of G "store s" "pending_keys s"] by (simp add: step_ok_def)
    then show ?case using same_visible [of G "s\<lparr>store := w'\<rparr>" s] by simp
  next
    case (set_block x z s y b)
    obtain u v t where p: "p = (u, v, t)" by (cases p)
    show ?case
    proof (cases "y < WorldMinY \<or> y > WorldMaxY")
      case True
      then show ?thesis by (auto simp: SetBlock_out)
    next
      case False
      have y: "WorldMinY \<le> y" "y \<le> WorldMaxY" using False by auto
      have ok: "cache_ok G (store s) (pending_keys s)" "chunks_ok G (store s)" using set_block by (simp_all add: step_ok_def)
      obtain c w1 where c: "Chunk G (store s) (ChunkCoordsFor x z) = (c, w1)" by fastforce
      note W = write_visible [OF ok set_block(2,1) y c SetBlock_run [OF y c, of b]]
      have uv: "in_border u t" using set_block p by simp
      note B = block_at_written [OF W(5,6) set_block(1) y uv W(7,4), of v]
      have "block_keys G (s\<lparr>store := SetBlock G (store s) x y z b\<rparr>) p = spec_blocks (Write x y z b) (block_keys G s) p"
      proof (cases "(u, v, t) = (x, y, z)")
        case True
        with B(1) y p show ?thesis by (simp add: block_keys_def)
      next
        case False
        have "block_keys G (s\<lparr>store := SetBlock G (store s) x y z b\<rparr>) p = block_keys G s p"
          using B(2) [OF False] p by (simp add: block_keys_def)
        moreover have "p \<noteq> (x, y, z)" using False p by simp
        ultimately show ?thesis using y by simp
      qed
      moreover have "containers G (s\<lparr>store := SetBlock G (store s) x y z b\<rparr>) = spec_items (Write x y z b) (containers G s)"
        using y by (auto simp: containers_def write_containers [OF W(7,4)] fun_eq_iff)
      ultimately show ?thesis ..
    qed
  next
    case (items s x y z ty its)
    have ok: "cache_ok G (store s) (pending_keys s)" using items by (simp add: step_ok_def)
    note V = SetContainerItems_visible [OF ok refl]
    have "block_at G (SetContainerItems G (store s) x y z ty its) u v t = block_at G (store s) u v t" for u v t
      using V(5) by (simp add: block_at_def blockInChunk_def)
    then show ?case using V(3) by (auto simp: block_keys_def containers_def fun_eq_iff)
  next
    case (limit s n)
    let ?w = "(store s)\<lparr>maxCachedChunks := (if n < 128 then 128 else n)\<rparr>"
    have "cache_ok G ?w (pending_keys s)" using limit by (simp add: step_ok_def cache_ok_def)
    moreover have "visible G ?w = visible G (store s)" by (rule visible_cong) simp_all
    ultimately have "visible G (SetMaxCachedChunks (store s) n) = visible G (store s)"
      using trim_ok by (simp add: SetMaxCachedChunks_def)
    then show ?case using same_visible [of G "s\<lparr>store := SetMaxCachedChunks (store s) n\<rparr>" s] by simp
  next
    case (begin_flush s order)
    have "visible G (store (flush_begin (store s) order)) = visible G (store s)"
      by (rule visible_cong) (simp_all add: flush_begin_def)
    then show ?case using same_visible [of G "flush_begin (store s) order" s] by simp
  next
    case (save s key keys)
    then have c: "cache_ok G (store s) (key # keys)" "chunks_ok G (store s)" "disk (store s) \<noteq> None"
      by (auto simp: step_ok_def)
    show ?case
      using flush_save_ok(2) [OF c] same_visible [of G "s\<lparr>store := flush_save (store s) key, pending := Some keys\<rparr>" s] by simp
  next
    case (fail s keys)
    have "visible G (restoreDirty (store s) (flushing (store s))) = visible G (store s)"
      by (rule visible_cong) (simp_all add: restoreDirty_def)
    then show ?case
      using same_visible [of G "s\<lparr>store := restoreDirty (store s) (flushing (store s)), pending := None\<rparr>" s] by simp
  next
    case (commit s)
    have c: "cache_ok G ((store s)\<lparr>flushing := {}\<rparr>) []" using commit by (simp add: step_ok_def cache_ok_def)
    have "visible G ((store s)\<lparr>flushing := {}\<rparr>) = visible G (store s)" by (rule visible_cong) simp_all
    then have "visible G (flush_commit (store s)) = visible G (store s)"
      using trim_ok [OF c] by (simp add: flush_commit_def)
    then show ?case using same_visible [of G "s\<lparr>store := flush_commit (store s), pending := None\<rparr>" s] by simp
  qed
  then show "block_keys G s' p = spec_blocks ev (block_keys G s) p" "containers G s' = spec_items ev (containers G s)"
    by simp_all
qed

lemma spec_blocks_cong: "f p = g p \<Longrightarrow> spec_blocks ev f p = spec_blocks ev g p"
  by (cases ev) (simp_all split: if_split)

lemma spec_blocks_fold_cong: "f p = g p \<Longrightarrow> fold spec_blocks evs f p = fold spec_blocks evs g p"
proof (induction evs arbitrary: f g)
  case (Cons ev evs)
  have "spec_blocks ev f p = spec_blocks ev g p" using Cons.prems by (rule spec_blocks_cong)
  from Cons.IH [where f = "spec_blocks ev f" and g = "spec_blocks ev g", OF this] show ?case by (simp only: fold_simps)
qed simp

lemma steps_ok: "world_steps G s evs s' \<Longrightarrow> step_ok G s \<Longrightarrow> step_ok G s'"
  by (induction rule: world_steps.induct) (auto intro: step_ok_step)

definition idle :: "world \<Rightarrow> flush_state" where
  "idle w = \<lparr>store = w, pending = None\<rparr>"

lemma New_ok:
  assumes "\<And>k. \<not> load_fails G k" "\<And>k. world_chunk_ok (load_chunk G d k)"
  shows "step_ok G (idle (New d))"
  using assms by (simp add: step_ok_def cache_ok_def chunks_ok_def New_def pending_keys_def idle_def)

lemma empty_chunk_ok: "world_chunk_ok (empty_chunk k)" "palette_room (empty_chunk k)"
  by (simp_all add: empty_chunk_def world_chunk_ok_def chunk_ok_def chunk.truncate_def palette_room_def list_all_iff)

text \<open>A world whose generator makes empty chunks, and a block to put into it.\<close>

definition void_env :: world_env where
  "void_env = \<lparr>generate = (\<lambda>_. None), load_fails = (\<lambda>_. False), book_pages = (\<lambda>_ _. None)\<rparr>"

definition stone :: block where
  "stone = \<lparr>Namespace = ''minecraft'', Name = ''stone'', Properties = []\<rparr>"

lemma void_load: "load_chunk void_env None k = empty_chunk k" "load_chunk void_env (Some Map.empty) k = empty_chunk k"
  by (simp_all add: load_chunk_def from_disk_def void_env_def)

lemma void_fails: "\<not> load_fails void_env k"
  by (simp add: void_env_def)

lemma void_ok: "step_ok void_env (idle (New None))" "step_ok void_env (idle (New (Some Map.empty)))"
  by (rule New_ok; simp add: void_load empty_chunk_ok void_fails)+

lemma Key_stone: "Key stone = ''minecraft:stone''" "\<not> IsAir stone"
  by (simp_all add: Key_def stone_def ResourceLocation_def IsAir_def)



section \<open>A complete flush\<close>

lemma flush_loop_ok:
  assumes "cache_ok G w keys" "chunks_ok G w" "disk w \<noteq> None" "flush_loop save_ok w keys = (w', ok)"
  shows "\<exists>rest. cache_ok G w' rest \<and> set rest \<subseteq> set keys \<and> (ok \<longrightarrow> rest = []) \<and> chunks_ok G w' \<and>
    visible G w' = visible G w \<and> dirty w' = dirty w \<and> flushing w' = flushing w \<and> chunks w' = chunks w \<and> disk w' \<noteq> None"
  using assms
proof (induction save_ok w keys rule: flush_loop.induct)
  case (1 save_ok w)
  then show ?case by (intro exI [of _ "[]"]) simp
next
  case (2 save_ok w key keys)
  note S = flush_save_ok [OF "2.prems"(1-3)]
  have same: "dirty (flush_save w key) = dirty w" "flushing (flush_save w key) = flushing w"
    "chunks (flush_save w key) = chunks w" "disk (flush_save w key) \<noteq> None"
    using "2.prems"(3) by (auto simp: flush_save_def split: option.splits)
  consider (gone) "map_of (chunks w) key = None" | (bad) "map_of (chunks w) key \<noteq> None" "\<not> save_ok key"
    | (good) "map_of (chunks w) key \<noteq> None" "save_ok key" by blast
  then show ?case
  proof cases
    case gone
    then have e: "flush_save w key = w" by (simp add: flush_save_def)
    have "flush_loop save_ok w keys = (w', ok)" using "2.prems"(4) gone by simp
    from "2.IH"(1) [OF gone S(1,3) [unfolded e] "2.prems"(3) this]
    obtain rest where "cache_ok G w' rest" "set rest \<subseteq> set keys" "ok \<longrightarrow> rest = []" "chunks_ok G w'"
      "visible G w' = visible G w" "dirty w' = dirty w" "flushing w' = flushing w" "chunks w' = chunks w" "disk w' \<noteq> None"
      by (elim exE conjE) 
    then show ?thesis by (intro exI [of _ rest]) auto
  next
    case bad
    then have "w' = w" "\<not> ok" using "2.prems"(4) by auto
    then show ?thesis using "2.prems"(1-3) by (intro exI [of _ "key # keys"]) simp
  next
    case good
    then have "flush_loop save_ok (flush_save w key) keys = (w', ok)"
      using "2.prems"(4) by (simp only: flush_loop.simps if_False not_True_eq_False simp_thms)
    from "2.IH"(2) [OF good(1) _ S(1,3) same(4) this] good(2)
    obtain rest where "cache_ok G w' rest" "set rest \<subseteq> set keys" "ok \<longrightarrow> rest = []" "chunks_ok G w'"
      "visible G w' = visible G w" "dirty w' = dirty w" "flushing w' = flushing w" "chunks w' = chunks w" "disk w' \<noteq> None"
      using S(2) same(1-3) by auto
    then show ?thesis by (intro exI [of _ rest]) auto
  qed
qed

lemma cache_okD:
  assumes "cache_ok G w pend" "map_of (chunks w) k = Some c" "k \<notin> dirty w" "k \<notin> set pend"
  shows "finalize_chunk c = finalize_chunk (load_chunk G (disk w) k)"
  using assms unfolding cache_ok_def by blast

lemma Flush_run:
  assumes "disk w \<noteq> None" "flush_loop save_ok (store (flush_begin w order)) order = (w1, saved)"
  shows "Flush save_ok sync_ok w order =
    (if saved \<and> sync_ok then (flush_commit w1, True) else (restoreDirty w1 (dirty w), False))"
  unfolding Flush_def Let_def using assms by (simp only: if_False prod.case)

lemma in_sync:
  assumes "cache_ok G w []" "dirty w = {}"
  shows "finalize_chunk (load_chunk G (disk w) k) = visible G w k"
proof (cases "map_of (chunks w) k")
  case None
  then show ?thesis by (simp add: visible_def)
next
  case (Some c)
  then have "finalize_chunk c = finalize_chunk (load_chunk G (disk w) k)"
    using assms by (intro cache_okD [OF assms(1)]) simp_all
  then show ?thesis using Some by (simp add: visible_def)
qed



end
