(* ===== verification/Recipes.thy ===== *)
theory Recipes
  imports Inventory
begin

text \<open>
  Crafting recipes (\<open>java/handler/recipes.go\<close>, \<open>java/handler/crafting.go\<close>): the slot displays,
  the shaped and shapeless matchers, the lookup of the result of a grid, and the recipe-book
  placement. Item tags and the recipe catalogue are data, so they are arguments.
\<close>

section \<open>Slot displays\<close>

datatype slot_display =
    EmptyDisplay
  | AnyFuel
  | ItemDisplay string
  | StackDisplay item_stack
  | TagDisplay string
  | SmithingTrim "slot_display list"
  | WithRemainder "slot_display list"
  | Composite "slot_display list"

type_synonym item_tags = "string \<Rightarrow> string set"

fun matches :: "item_tags \<Rightarrow> slot_display \<Rightarrow> string \<Rightarrow> bool" where
  "matches T (ItemDisplay i) item = (i = item)"
| "matches T (StackDisplay s) item = (ItemID s = item)"
| "matches T (TagDisplay t) item = (item \<in> T t)"
| "matches T (Composite children) item = list_ex (\<lambda>c. matches T c item) children"
| "matches T _ item = False"

datatype recipe_kind = Shapeless | Shaped | Furnace | Stonecutter | Smithing

record recipe =
  r_name :: string
  r_kind :: recipe_kind
  r_width :: nat
  r_height :: nat
  r_ingredients :: "slot_display list"
  r_result :: slot_display
  r_station :: string

definition result_stack :: "slot_display \<Rightarrow> item_stack" where
  "result_stack d = (case d of StackDisplay s \<Rightarrow> s | _ \<Rightarrow> no_item)"

record recipe_ingredient =
  ri_values :: "string list"

definition ingredientRecipeSlot :: "recipe_ingredient \<Rightarrow> slot_display" where
  "ingredientRecipeSlot i =
     (let children = map (\<lambda>v. if has_prefix v ''#'' then TagDisplay (trim_prefix v ''#'') else ItemDisplay v) (ri_values i)
      in if ri_values i = [] then EmptyDisplay
         else if length children = 1 then hd children
         else Composite children)"

definition stackRecipeSlot :: "string \<Rightarrow> int \<Rightarrow> slot_display" where
  "stackRecipeSlot i n = StackDisplay (no_item\<lparr>ItemID := i, Count := n\<rparr>)"

section \<open>Matching a grid\<close>

definition cell_matches :: "item_tags \<Rightarrow> recipe \<Rightarrow> item_stack list \<Rightarrow> nat \<Rightarrow> nat \<Rightarrow> bool \<Rightarrow> nat \<Rightarrow> nat \<Rightarrow> bool" where
  "cell_matches T r grid offsetY offsetX mirrored gy gx =
     (let slot = grid ! (gy * 3 + gx);
          inside = (gx \<ge> offsetX \<and> gx < offsetX + r_width r \<and> gy \<ge> offsetY \<and> gy < offsetY + r_height r)
      in if \<not> inside then IsEmpty slot
         else
           let rx = gx - offsetX;
               rx = (if mirrored then r_width r - 1 - rx else rx);
               ingredient = r_ingredients r ! ((gy - offsetY) * r_width r + rx)
           in if ingredient = EmptyDisplay then IsEmpty slot
              else \<not> (IsEmpty slot \<or> \<not> matches T ingredient (ItemID slot)))"

definition placed_at :: "item_tags \<Rightarrow> recipe \<Rightarrow> item_stack list \<Rightarrow> nat \<Rightarrow> nat \<Rightarrow> bool \<Rightarrow> bool" where
  "placed_at T r grid offsetY offsetX mirrored =
     list_all (\<lambda>gy. list_all (cell_matches T r grid offsetY offsetX mirrored gy) [0..<3]) [0..<3]"

definition shapedGridMatches :: "item_tags \<Rightarrow> recipe \<Rightarrow> item_stack list \<Rightarrow> bool" where
  "shapedGridMatches T r grid =
     list_ex (\<lambda>offsetY. list_ex (\<lambda>offsetX. list_ex (placed_at T r grid offsetY offsetX) [False, True])
       [0..<4 - r_width r]) [0..<4 - r_height r]"

text \<open>The backtracking search: which items are still unused.\<close>

fun match_from :: "item_tags \<Rightarrow> string list \<Rightarrow> slot_display list \<Rightarrow> bool list \<Rightarrow> bool" where
  "match_from T items [] used = True"
| "match_from T items (g # gs) used =
     list_ex (\<lambda>i. \<not> (used ! i \<or> \<not> matches T g (items ! i)) \<and> match_from T items gs (used[i := True]))
       [0..<length items]"

definition grid_items :: "item_stack list \<Rightarrow> string list" where
  "grid_items grid = map ItemID (filter (\<lambda>s. \<not> IsEmpty s) grid)"

definition shapelessGridMatches :: "item_tags \<Rightarrow> recipe \<Rightarrow> item_stack list \<Rightarrow> bool" where
  "shapelessGridMatches T r grid =
     (let items = grid_items grid
      in if length items \<noteq> length (r_ingredients r) then False
         else match_from T items (r_ingredients r) (replicate (length items) False))"

fun findCraftingResultIn :: "item_tags \<Rightarrow> recipe list \<Rightarrow> item_stack list \<Rightarrow> item_stack" where
  "findCraftingResultIn T [] grid = no_item"
| "findCraftingResultIn T (r # rs) grid =
     (if r_station r \<noteq> ''minecraft:crafting_table'' then findCraftingResultIn T rs grid
      else if r_kind r = Shaped \<and> shapedGridMatches T r grid then result_stack (r_result r)
      else if r_kind r = Shapeless \<and> shapelessGridMatches T r grid then result_stack (r_result r)
      else findCraftingResultIn T rs grid)"

definition FindPersonalCraftingResult :: "item_tags \<Rightarrow> recipe list \<Rightarrow> item_stack list \<Rightarrow> item_stack" where
  "FindPersonalCraftingResult T rs grid =
     findCraftingResultIn T rs
       [grid ! 0, grid ! 1, no_item, grid ! 2, grid ! 3, no_item, no_item, no_item, no_item]"

definition FindBedrockCraftingTableResult :: "item_tags \<Rightarrow> recipe list \<Rightarrow> recipe list \<Rightarrow> item_stack list \<Rightarrow> item_stack" where
  "FindBedrockCraftingTableResult T rs bedrock grid =
     (let result = findCraftingResultIn T rs grid
      in if \<not> IsEmpty result then result else findCraftingResultIn T bedrock grid)"

section \<open>Placing a recipe from the book\<close>

text \<open>\<open>None\<close> is the error of a recipe that does not fit the 3x3 template.\<close>

definition craftingTemplate :: "recipe \<Rightarrow> slot_display list option" where
  "craftingTemplate r =
     (if r_kind r = Shapeless then
        (if length (r_ingredients r) > 9 then None
         else Some (r_ingredients r @ replicate (9 - length (r_ingredients r)) EmptyDisplay))
      else if r_width r > 3 \<or> r_height r > 3 then None
      else Some (map (\<lambda>i. let y = i div 3; x = i mod 3
                          in if y < r_height r \<and> x < r_width r then r_ingredients r ! (y * r_width r + x) else EmptyDisplay)
                   [0..<9]))"

definition findMatchingInventorySlot :: "item_tags \<Rightarrow> item_stack list \<Rightarrow> slot_display \<Rightarrow> nat option" where
  "findMatchingInventorySlot T inventory ingredient =
     List.find (\<lambda>i. \<not> IsEmpty (inventory ! i) \<and> matches T ingredient (ItemID (inventory ! i))) storage_indices"

definition take_one :: "item_stack \<Rightarrow> item_stack" where
  "take_one s = (if Count s - 1 = 0 then no_item else s\<lparr>Count := Count s - 1\<rparr>)"

definition put_one :: "string \<Rightarrow> item_stack \<Rightarrow> item_stack" where
  "put_one chosen cell =
     (if IsEmpty cell then no_item\<lparr>ItemID := chosen, Count := 1\<rparr> else cell\<lparr>Count := Count cell + 1\<rparr>)"

definition blocked :: "string \<Rightarrow> item_stack \<Rightarrow> bool" where
  "blocked chosen cell \<longleftrightarrow> \<not> IsEmpty cell \<and> (ItemID cell \<noteq> chosen \<or> Count cell \<ge> 64)"

fun place_from :: "item_tags \<Rightarrow> nat \<Rightarrow> slot_display list \<Rightarrow> item_stack list \<Rightarrow> item_stack list \<Rightarrow> (item_stack list \<times> item_stack list) option" where
  "place_from T gridIndex [] inventory grid = Some (inventory, grid)"
| "place_from T gridIndex (ingredient # rest) inventory grid =
     (if ingredient = EmptyDisplay then place_from T (Suc gridIndex) rest inventory grid
      else case findMatchingInventorySlot T inventory ingredient of
        None \<Rightarrow> None
      | Some i \<Rightarrow>
          if blocked (ItemID (inventory ! i)) (grid ! gridIndex) then None
          else place_from T (Suc gridIndex) rest (inventory[i := take_one (inventory ! i)])
                 (grid[gridIndex := put_one (ItemID (inventory ! i)) (grid ! gridIndex)]))"

definition placeRecipeOnce :: "item_tags \<Rightarrow> slot_display list \<Rightarrow> item_stack list \<Rightarrow> item_stack list \<Rightarrow> (item_stack list \<times> item_stack list) option" where
  "placeRecipeOnce T template inventory grid = place_from T 0 template inventory grid"

text \<open>The loop of at most 64 rounds; \<open>n\<close> rounds are left. It counts the rounds that succeeded.\<close>

fun place_rounds :: "item_tags \<Rightarrow> slot_display list \<Rightarrow> bool \<Rightarrow> nat \<Rightarrow> item_stack list \<Rightarrow> item_stack list \<Rightarrow> item_stack list \<times> item_stack list \<times> nat" where
  "place_rounds T template makeAll 0 inventory grid = (inventory, grid, 0)"
| "place_rounds T template makeAll (Suc n) inventory grid =
     (case placeRecipeOnce T template inventory grid of
        None \<Rightarrow> (inventory, grid, 0)
      | Some (inventory', grid') \<Rightarrow>
          if \<not> makeAll then (inventory', grid', 1)
          else let (i, g, m) = place_rounds T template makeAll n inventory' grid' in (i, g, Suc m))"

section \<open>What the matchers decide\<close>

text \<open>The search finds a pairing of ingredients and unused items when there is one.\<close>

lemma match_from_iff:
  assumes "length used = length items"
  shows "match_from T items gs used \<longleftrightarrow>
    (\<exists>js. length js = length gs \<and> distinct js \<and> (\<forall>j \<in> set js. j < length items \<and> \<not> used ! j) \<and>
       list_all2 (\<lambda>g j. matches T g (items ! j)) gs js)"
  using assms
proof (induction gs arbitrary: used)
  case Nil
  then show ?case by simp
next
  case (Cons g gs)
  show ?case (is "?l \<longleftrightarrow> (\<exists>js. ?P js)")
  proof
    assume ?l
    then obtain i where i: "i < length items" "\<not> used ! i" "matches T g (items ! i)"
      "match_from T items gs (used[i := True])"
      by (auto simp: list_ex_iff)
    with Cons.IH [of "used[i := True]"] Cons.prems obtain js where js:
      "length js = length gs" "distinct js" "\<forall>j \<in> set js. j < length items \<and> \<not> used[i := True] ! j"
      "list_all2 (\<lambda>g j. matches T g (items ! j)) gs js" by auto
    have "i \<notin> set js" using js(3) i(1) Cons.prems by (metis nth_list_update_eq)
    moreover have "\<forall>j \<in> set js. \<not> used ! j" using js(3) calculation by (metis nth_list_update_neq)
    ultimately have "?P (i # js)" using i js by simp
    then show "\<exists>js. ?P js" by blast
  next
    assume "\<exists>js. ?P js"
    then obtain i js where js: "length js = length gs" "distinct (i # js)"
      "\<forall>j \<in> set (i # js). j < length items \<and> \<not> used ! j"
      "matches T g (items ! i)" "list_all2 (\<lambda>g j. matches T g (items ! j)) gs js"
      by (auto simp: length_Suc_conv)
    have "\<forall>j \<in> set js. j < length items \<and> \<not> used[i := True] ! j"
      using js(2,3) by (metis distinct.simps(2) list.set_intros(2) nth_list_update_neq)
    then have "match_from T items gs (used[i := True])"
      using Cons.IH [of "used[i := True]"] Cons.prems js by auto
    then show ?l using js by (auto simp: list_ex_iff)
  qed
qed

lemma rearrange_map: "mset (map f is) = mset ys \<Longrightarrow> \<exists>js. mset js = mset is \<and> map f js = ys"
proof (induction ys arbitrary: "is")
  case Nil
  then show ?case by simp
next
  case (Cons y ys)
  then have "y \<in> set (map f is)" by (metis list.set_intros(1) set_mset_mset)
  then obtain i where i: "i \<in> set is" "f i = y" by auto
  then have "mset (map f is) = add_mset y (mset (map f (remove1 i is)))"
    by (metis image_mset_add_mset insert_DiffM mset_map mset_remove1 set_mset_mset)
  then have "mset (map f (remove1 i is)) = mset ys" using Cons.prems by simp
  then obtain js where "mset js = mset (remove1 i is)" "map f js = ys" using Cons.IH by blast
  then show ?case using i by (intro exI [of _ "i # js"]) simp
qed

text \<open>Pairing by positions is pairing with a permutation of the items.\<close>

lemma pairing_mset:
  "(\<exists>js. length js = length xs \<and> distinct js \<and> (\<forall>j \<in> set js. j < length items) \<and>
      list_all2 (\<lambda>g j. P g (items ! j)) xs js) \<and> length items = length xs \<longleftrightarrow>
   (\<exists>ys. mset ys = mset items \<and> list_all2 P xs ys)"
  (is "?l \<longleftrightarrow> ?r")
proof
  assume ?l
  then obtain js where js: "length js = length items" "distinct js" "\<forall>j \<in> set js. j < length items"
    "list_all2 (\<lambda>g j. P g (items ! j)) xs js" and len: "length items = length xs" by auto
  have "set js = {..<length items}"
    using js(1-3) by (intro card_subset_eq) (auto simp: distinct_card)
  then have "mset js = mset [0..<length items]"
    using js(2) by (metis atLeast_upt distinct_upt set_eq_iff_mset_eq_distinct)
  then have "mset (map ((!) items) js) = mset items"
    by (metis map_nth mset_map)
  moreover have "list_all2 P xs (map ((!) items) js)"
    using js(4) by (simp add: list_all2_map2)
  ultimately show ?r by blast
next
  assume ?r
  then obtain ys where ys: "mset ys = mset items" "list_all2 P xs ys" by auto
  then have "mset (map ((!) items) [0..<length items]) = mset ys" by (simp add: map_nth)
  then obtain js where js: "mset js = mset [0..<length items]" "map ((!) items) js = ys"
    using rearrange_map by blast
  have "distinct js" using js(1) by (metis distinct_upt mset_eq_imp_distinct_iff)
  moreover have "\<forall>j \<in> set js. j < length items" using js(1) by (metis atLeast_upt lessThan_iff set_mset_mset)
  moreover have "list_all2 (\<lambda>g j. P g (items ! j)) xs js"
    using ys(2) js(2) by (auto simp: list_all2_map2)
  moreover have "length js = length xs" "length items = length xs"
    using list_all2_lengthD [OF ys(2)] mset_eq_length [OF ys(1)] js(2) by auto
  ultimately show ?l by blast
qed

lemma list_all2_matches_len: "list_all2 P xs ys \<Longrightarrow> mset ys = mset zs \<Longrightarrow> length zs = length xs"
  by (metis list_all2_lengthD mset_eq_length)

lemma shapeless_grid_iff:
  "shapelessGridMatches T r grid \<longleftrightarrow>
    (\<exists>items. mset items = mset (grid_items grid) \<and> list_all2 (matches T) (r_ingredients r) items)"
proof -
  let ?items = "grid_items grid"
  have "shapelessGridMatches T r grid \<longleftrightarrow>
      length ?items = length (r_ingredients r) \<and>
      match_from T ?items (r_ingredients r) (replicate (length ?items) False)"
    by (auto simp: shapelessGridMatches_def Let_def)
  also have "match_from T ?items (r_ingredients r) (replicate (length ?items) False) \<longleftrightarrow>
      (\<exists>js. length js = length (r_ingredients r) \<and> distinct js \<and> (\<forall>j \<in> set js. j < length ?items) \<and>
         list_all2 (\<lambda>g j. matches T g (?items ! j)) (r_ingredients r) js)"
    by (subst match_from_iff) auto
  finally show ?thesis using pairing_mset [of "r_ingredients r" ?items "matches T"] by blast
qed

text \<open>C8: The backtracking matcher of shapeless recipes accepts a grid exactly when its items can be
  listed in some order so that the ingredients of the recipe match them one by one.\<close>

theorem shapeless_matches_iff:
  "shapelessGridMatches T r grid \<longleftrightarrow>
    (\<exists>items. mset items = mset (grid_items grid) \<and> list_all2 (matches T) (r_ingredients r) items)"
  by (rule shapeless_grid_iff)

text \<open>Cells of a grid that is being filled from a template.\<close>

definition cell_fits :: "item_tags \<Rightarrow> slot_display \<Rightarrow> item_stack \<Rightarrow> bool" where
  "cell_fits T d s \<longleftrightarrow> (if d = EmptyDisplay then IsEmpty s else \<not> IsEmpty s \<and> matches T d (ItemID s))"

definition cell_open :: "item_tags \<Rightarrow> slot_display \<Rightarrow> item_stack \<Rightarrow> bool" where
  "cell_open T d s \<longleftrightarrow> IsEmpty s \<or> cell_fits T d s"

lemma find_slot_matches:
  "findMatchingInventorySlot T inventory d = Some i \<Longrightarrow>
    \<not> IsEmpty (inventory ! i) \<and> matches T d (ItemID (inventory ! i)) \<and> i \<in> set storage_indices"
  unfolding findMatchingInventorySlot_def find_Some_iff by (metis nth_mem)

lemma place_from_fits:
  assumes "place_from T i template inventory grid = Some (inventory', grid')"
    and "length grid = i + length template" "\<forall>j < length template. cell_open T (template ! j) (grid ! (i + j))"
  shows "length grid' = length grid \<and> (\<forall>j < i. grid' ! j = grid ! j) \<and>
    (\<forall>j < length template. cell_fits T (template ! j) (grid' ! (i + j)))"
  using assms
proof (induction T i template inventory grid rule: place_from.induct)
  case (1 T i inventory grid)
  then show ?case by simp
next
  case (2 T i d rest inventory grid)
  have open0: "cell_open T d (grid ! i)" using "2.prems"(3) by force
  have rest_open: "\<forall>j < length rest. cell_open T (rest ! j) (grid ! (Suc i + j))"
    using "2.prems"(3) by force
  have split: "(\<forall>j < length (d # rest). cell_fits T ((d # rest) ! j) (g ! (i + j))) \<longleftrightarrow>
      cell_fits T d (g ! i) \<and> (\<forall>j < length rest. cell_fits T (rest ! j) (g ! (Suc i + j)))" for g
    by (auto simp: less_Suc_eq_0_disj)
  show ?case
  proof (cases "d = EmptyDisplay")
    case True
    then have "place_from T (Suc i) rest inventory grid = Some (inventory', grid')" using "2.prems"(1) by simp
    from "2.IH"(1) [OF True this] "2.prems"(2) rest_open
    have ih: "length grid' = length grid" "\<forall>j < Suc i. grid' ! j = grid ! j"
      "\<forall>j < length rest. cell_fits T (rest ! j) (grid' ! (Suc i + j))" by auto
    have "cell_fits T d (grid' ! i)" using ih(2) open0 True by (simp add: cell_open_def cell_fits_def)
    then show ?thesis using ih split by auto
  next
    case False
    then obtain k where k: "findMatchingInventorySlot T inventory d = Some k"
      using "2.prems"(1) by (auto split: option.splits)
    let ?cell' = "put_one (ItemID (inventory ! k)) (grid ! i)"
    note m = find_slot_matches [OF k]
    have ok: "\<not> blocked (ItemID (inventory ! k)) (grid ! i)" using "2.prems"(1) False k by auto
    then have run: "place_from T (Suc i) rest (inventory[k := take_one (inventory ! k)]) (grid[i := ?cell'])
        = Some (inventory', grid')"
      using "2.prems"(1) False k by simp
    have fit: "cell_fits T d ?cell'"
      using m ok False by (auto simp: cell_fits_def IsEmpty_def put_one_def blocked_def)
    have "\<forall>j < length rest. cell_open T (rest ! j) (grid[i := ?cell'] ! (Suc i + j))"
      using rest_open by simp
    from "2.IH"(2) [OF False k ok run] this "2.prems"(2)
    have ih: "length grid' = length grid" "\<forall>j < Suc i. grid' ! j = grid[i := ?cell'] ! j"
      "\<forall>j < length rest. cell_fits T (rest ! j) (grid' ! (Suc i + j))" by auto
    have "grid' ! i = ?cell'" using ih(2) "2.prems"(2) by simp
    then show ?thesis using ih split fit by auto
  qed
qed

lemma place_rounds_fits:
  assumes "place_rounds T template makeAll n inventory grid = (inventory', grid', m)"
    and "length grid = length template" "\<forall>j < length template. cell_open T (template ! j) (grid ! j)" "0 < m"
  shows "length grid' = length template \<and> (\<forall>j < length template. cell_fits T (template ! j) (grid' ! j))"
  using assms
proof (induction T template makeAll n inventory grid arbitrary: m rule: place_rounds.induct)
  case (1 T template makeAll inventory grid)
  then show ?case by simp
next
  case (2 T template makeAll n inventory grid)
  obtain i1 g1 where p: "placeRecipeOnce T template inventory grid = Some (i1, g1)"
    using "2.prems" by (auto split: option.splits)
  have f1: "length g1 = length template" "\<forall>j < length template. cell_fits T (template ! j) (g1 ! j)"
    using place_from_fits [OF p [unfolded placeRecipeOnce_def]] "2.prems"(2,3) by simp_all
  show ?case
  proof (cases makeAll)
    case False
    then show ?thesis using "2.prems"(1) p f1 by simp
  next
    case True
    obtain i2 g2 m2 where r: "place_rounds T template makeAll n i1 g1 = (i2, g2, m2)" by (cases "place_rounds T template makeAll n i1 g1")
    have g: "grid' = g2" "inventory' = i2" using "2.prems"(1) p True r by simp_all
    have op: "\<forall>j < length template. cell_open T (template ! j) (g1 ! j)" using f1(2) by (simp add: cell_open_def)
    show ?thesis
    proof (cases "m2 = 0")
      case zero: True
      have "g2 = g1"
        using r zero by (cases n) (auto split: option.splits if_splits prod.splits)
      then show ?thesis using f1 g by simp
    next
      case False
      then show ?thesis using "2.IH" [OF p refl _ _ f1(1) op, of m2] r True g by simp
    qed
  qed
qed

lemma fits_template_shaped:
  assumes "r_kind r \<noteq> Shapeless" "craftingTemplate r = Some template" "length grid = 9"
    and fit: "\<forall>j < 9. cell_fits T (template ! j) (grid ! j)"
  shows "shapedGridMatches T r grid"
proof -
  have wh: "r_width r \<le> 3" "r_height r \<le> 3" using assms(1,2) by (auto simp: craftingTemplate_def split: if_splits)
  have tmpl: "template ! i = (if i div 3 < r_height r \<and> i mod 3 < r_width r
      then r_ingredients r ! (i div 3 * r_width r + i mod 3) else EmptyDisplay)" if "i < 9" for i
    using assms(1,2) wh that by (auto simp: craftingTemplate_def Let_def split: if_splits)
  have "cell_matches T r grid 0 0 False gy gx" if "gy < 3" "gx < 3" for gy gx
  proof -
    have i: "gy * 3 + gx < 9" "(gy * 3 + gx) div 3 = gy" "(gy * 3 + gx) mod 3 = gx" using that by auto
    show ?thesis
      using fit [rule_format, OF i(1)] tmpl [OF i(1)] unfolding i(2,3)
      by (auto simp: cell_matches_def cell_fits_def Let_def split: if_splits)
  qed
  then have "placed_at T r grid 0 0 False" by (auto simp: placed_at_def list_all_iff)
  moreover have "0 \<in> set [0..<4 - r_width r]" "0 \<in> set [0..<4 - r_height r]" using wh by auto
  ultimately show ?thesis unfolding shapedGridMatches_def list_ex_iff by (metis list.set_intros(1))
qed

lemma fits_template_shapeless:
  assumes "r_kind r = Shapeless" "craftingTemplate r = Some template" "length grid = 9"
    and "EmptyDisplay \<notin> set (r_ingredients r)"
    and fit: "\<forall>j < 9. cell_fits T (template ! j) (grid ! j)"
  shows "shapelessGridMatches T r grid"
proof -
  let ?n = "length (r_ingredients r)"
  have n: "?n \<le> 9" "template = r_ingredients r @ replicate (9 - ?n) EmptyDisplay"
    using assms(1,2) by (auto simp: craftingTemplate_def split: if_splits)
  have low: "cell_fits T (r_ingredients r ! j) (grid ! j)" if "j < ?n" for j
    using fit [rule_format, of j] that n by (simp add: nth_append)
  have high: "IsEmpty (grid ! j)" if "?n \<le> j" "j < 9" for j
    using fit [rule_format, of j] that n by (simp add: nth_append cell_fits_def)
  have full: "\<not> IsEmpty (grid ! j) \<and> matches T (r_ingredients r ! j) (ItemID (grid ! j))" if "j < ?n" for j
  proof -
    have "r_ingredients r ! j \<noteq> EmptyDisplay" using assms(4) nth_mem [OF that] by metis
    then show ?thesis using low [OF that] by (simp add: cell_fits_def)
  qed
  have "filter (\<lambda>s. \<not> IsEmpty s) (take ?n grid) = take ?n grid"
    using full n(1) assms(3) by (auto simp: filter_id_conv in_set_conv_nth)
  moreover have "filter (\<lambda>s. \<not> IsEmpty s) (drop ?n grid) = []"
    using high assms(3) by (auto simp: filter_empty_conv in_set_conv_nth)
  ultimately have "filter (\<lambda>s. \<not> IsEmpty s) grid = take ?n grid"
    by (metis append_Nil2 append_take_drop_id filter_append)
  then have "grid_items grid = map ItemID (take ?n grid)" by (simp add: grid_items_def)
  moreover have "list_all2 (matches T) (r_ingredients r) (map ItemID (take ?n grid))"
    using full n(1) assms(3) by (simp add: list_all2_conv_all_nth)
  ultimately show ?thesis
    unfolding shapeless_grid_iff by (intro exI [of _ "map ItemID (take ?n grid)"]) (simp only: simp_thms)
qed

text \<open>What the recipe book places is what the crafting table accepts: when at least one round of a
  recipe has been placed into an empty grid, the grid matches the recipe.\<close>

theorem placed_recipe_matches:
  assumes "craftingTemplate r = Some template" "EmptyDisplay \<notin> set (r_ingredients r) \<or> r_kind r \<noteq> Shapeless"
    and "place_rounds T template makeAll n inventory (replicate 9 no_item) = (inventory', grid, m)" "0 < m"
  shows "if r_kind r = Shapeless then shapelessGridMatches T r grid else shapedGridMatches T r grid"
proof -
  have len: "length template = 9"
    using assms(1) by (auto simp: craftingTemplate_def split: if_splits)
  have "length grid = 9 \<and> (\<forall>j < 9. cell_fits T (template ! j) (grid ! j))"
    using place_rounds_fits [OF assms(3) _ _ assms(4)] len by (simp add: cell_open_def)
  then show ?thesis
    using fits_template_shaped [of r template grid T] fits_template_shapeless [of r template grid T] assms(1,2) by auto
qed

definition plank_recipe :: recipe where
  "plank_recipe = \<lparr>r_name = ''planks'', r_kind = Shaped, r_width = 1, r_height = 1,
     r_ingredients = [ItemDisplay ''minecraft:log''],
     r_result = StackDisplay (no_item\<lparr>ItemID := ''minecraft:planks'', Count := 4\<rparr>), r_station = ''minecraft:crafting_table''\<rparr>"

definition logs :: "item_stack list" where
  "logs = replicate 36 no_item @ [no_item\<lparr>ItemID := ''minecraft:log'', Count := 3\<rparr>] @ replicate 9 no_item"

lemma plank_placed:
  "craftingTemplate plank_recipe = Some (the (craftingTemplate plank_recipe))"
  "snd (snd (place_rounds (\<lambda>_. {}) (the (craftingTemplate plank_recipe)) True 64 logs (replicate 9 no_item))) = 3"
  by code_simp+

theorem placed_recipe_matches_witness:
  "shapedGridMatches (\<lambda>_. {}) plank_recipe
     (fst (snd (place_rounds (\<lambda>_. {}) (the (craftingTemplate plank_recipe)) True 64 logs (replicate 9 no_item))))"
proof -
  let ?p = "place_rounds (\<lambda>_. {}) (the (craftingTemplate plank_recipe)) True 64 logs (replicate 9 no_item)"
  have "?p = (fst ?p, fst (snd ?p), snd (snd ?p))" by simp
  moreover have "EmptyDisplay \<notin> set (r_ingredients plank_recipe) \<or> r_kind plank_recipe \<noteq> Shapeless"
    by (simp add: plank_recipe_def)
  moreover have "0 < snd (snd ?p)" by (simp only: plank_placed(2))
  ultimately show ?thesis
    using placed_recipe_matches [OF plank_placed(1)] by (metis plank_recipe_def recipe.select_convs(2) recipe_kind.distinct(1))
qed

end
