(* ===== verification/Players.thy ===== *)
theory Players
  imports Worlds Spatial
begin

text \<open>
  The inventory state of a player (\<open>core/player/player.go\<close>), the shared storage of vehicles
  (\<open>core/player/storage_inventory.go\<close>), and the slot references the click handlers obtain as
  pointers. \<open>holdings\<close> counts the items of a kind a player holds in the inventory, the
  crafting grid, the open screen and the cursor; the interface \<open>slot_click\<close> states what a
  click on one slot guarantees, and what follows for the whole player.
\<close>

section \<open>State\<close>

record storage_inventory =
  st_slots :: "item_stack list"
  st_removed :: bool

definition NewStorageInventory :: "nat \<Rightarrow> storage_inventory" where
  "NewStorageInventory n = \<lparr>st_slots = replicate n no_item, st_removed = False\<rparr>"

definition Snapshot :: "storage_inventory option \<Rightarrow> item_stack list" where
  "Snapshot so = (case so of None \<Rightarrow> [] | Some s \<Rightarrow> st_slots s)"

text \<open>\<open>copy(dst, src)\<close>: the elements both have.\<close>

definition go_copy :: "'a list \<Rightarrow> 'a list \<Rightarrow> 'a list" where
  "go_copy dst src = take (length dst) src @ drop (length src) dst"

definition Update :: "storage_inventory option \<Rightarrow> (item_stack list \<Rightarrow> item_stack list) \<Rightarrow> storage_inventory option \<times> bool" where
  "Update so change =
     (case so of None \<Rightarrow> (None, False)
      | Some s \<Rightarrow> if st_removed s then (Some s, False)
                  else (Some (s\<lparr>st_slots := go_copy (st_slots s) (change (st_slots s))\<rparr>), True))"

definition Drain :: "storage_inventory option \<Rightarrow> storage_inventory option \<times> item_stack list" where
  "Drain so =
     (case so of None \<Rightarrow> (None, [])
      | Some s \<Rightarrow> (Some \<lparr>st_slots = [], st_removed = True\<rparr>, st_slots s))"

record player =
  Inventory :: "item_stack list"
  EnderChestInventory :: "item_stack list"
  OpenContainerID :: i32
  OpenContainerKind :: string
  OpenContainerPos :: block_pos
  OpenContainerPartnerPos :: block_pos
  OpenContainerHasPartner :: bool
  OpenContainerStorage :: "storage_inventory option"
  ContainerStateID :: i32
  ContainerSlots :: "item_stack list"
  CraftingGrid :: "item_stack list"
  CraftingResult :: item_stack
  CarriedItem :: item_stack
  CrafterDisabledSlots :: "16 word"
  QuickCraftButton :: byte
  QuickCraftSlots :: "int list"

definition zero_pos :: block_pos where
  "zero_pos = \<lparr>pos_x = 0, pos_y = 0, pos_z = 0\<rparr>"

definition new_player :: player where
  "new_player =
     \<lparr>Inventory = replicate InventorySize no_item, EnderChestInventory = replicate 27 no_item,
      OpenContainerID = 0, OpenContainerKind = [], OpenContainerPos = zero_pos,
      OpenContainerPartnerPos = zero_pos, OpenContainerHasPartner = False,
      OpenContainerStorage = None, ContainerStateID = 0, ContainerSlots = [],
      CraftingGrid = replicate 9 no_item, CraftingResult = no_item, CarriedItem = no_item,
      CrafterDisabledSlots = 0, QuickCraftButton = 0, QuickCraftSlots = []\<rparr>"

section \<open>Slots\<close>

text \<open>What a \<open>*player.ItemStack\<close> into the player's state points at.\<close>

datatype slot_ref = InInventory nat | InGrid nat | InContainer nat

fun get_slot :: "player \<Rightarrow> slot_ref \<Rightarrow> item_stack" where
  "get_slot p (InInventory i) = Inventory p ! i"
| "get_slot p (InGrid i) = CraftingGrid p ! i"
| "get_slot p (InContainer i) = ContainerSlots p ! i"

fun put_slot :: "player \<Rightarrow> slot_ref \<Rightarrow> item_stack \<Rightarrow> player" where
  "put_slot p (InInventory i) s = p\<lparr>Inventory := (Inventory p)[i := s]\<rparr>"
| "put_slot p (InGrid i) s = p\<lparr>CraftingGrid := (CraftingGrid p)[i := s]\<rparr>"
| "put_slot p (InContainer i) s = p\<lparr>ContainerSlots := (ContainerSlots p)[i := s]\<rparr>"

fun valid_ref :: "player \<Rightarrow> slot_ref \<Rightarrow> bool" where
  "valid_ref p (InInventory i) = (i < length (Inventory p))"
| "valid_ref p (InGrid i) = (i < length (CraftingGrid p))"
| "valid_ref p (InContainer i) = (i < length (ContainerSlots p))"

text \<open>Changing the cursor and a slot together, as every click does.\<close>

definition on_slot :: "player \<Rightarrow> slot_ref \<Rightarrow> (item_stack \<Rightarrow> item_stack \<Rightarrow> item_stack \<times> item_stack) \<Rightarrow> player" where
  "on_slot p r f =
     (let (carried, target) = f (CarriedItem p) (get_slot p r)
      in put_slot (p\<lparr>CarriedItem := carried\<rparr>) r target)"

section \<open>What a player holds\<close>

definition holdings :: "item_env \<Rightarrow> item_key \<Rightarrow> player \<Rightarrow> int" where
  "holdings E k p =
     total E k (Inventory p) + total E k (CraftingGrid p) + total E k (ContainerSlots p) + amount E k (CarriedItem p)"

definition player_ok :: "player \<Rightarrow> bool" where
  "player_ok p \<longleftrightarrow>
     length (Inventory p) = InventorySize \<and> length (CraftingGrid p) = 9 \<and>
     slots_ok (Inventory p) \<and> slots_ok (CraftingGrid p) \<and> slots_ok (ContainerSlots p) \<and>
     slot_ok (CarriedItem p)"

text \<open>Two states with the same screen, apart from the stacks in it.\<close>

definition same_screen :: "player \<Rightarrow> player \<Rightarrow> bool" where
  "same_screen p q \<longleftrightarrow>
     OpenContainerKind p = OpenContainerKind q \<and> OpenContainerPos p = OpenContainerPos q \<and>
     OpenContainerPartnerPos p = OpenContainerPartnerPos q \<and> OpenContainerHasPartner p = OpenContainerHasPartner q \<and>
     length (ContainerSlots p) = length (ContainerSlots q)"

lemma same_screen_refl [simp]: "same_screen p p"
  by (simp add: same_screen_def)

lemma same_screen_trans: "same_screen p q \<Longrightarrow> same_screen q r \<Longrightarrow> same_screen p r"
  by (simp add: same_screen_def)

lemma put_slot_screen [simp]: "same_screen (put_slot p r s) q = same_screen p q"
  by (cases r) (simp_all add: same_screen_def)

lemma put_slot_carried [simp]: "CarriedItem (put_slot p r s) = CarriedItem p"
  by (cases r) simp_all

lemma carried_screen [simp]: "same_screen (p\<lparr>CarriedItem := c\<rparr>) q = same_screen p q"
  by (simp add: same_screen_def)

lemma get_put [simp]: "valid_ref p r \<Longrightarrow> get_slot (put_slot p r s) r = s"
  by (cases r) simp_all

lemma get_put_other [simp]: "r \<noteq> r' \<Longrightarrow> get_slot (put_slot p r s) r' = get_slot p r'"
  by (cases r; cases r') auto

lemma carried_slots [simp]:
  "get_slot (p\<lparr>CarriedItem := c\<rparr>) r = get_slot p r" "valid_ref (p\<lparr>CarriedItem := c\<rparr>) r = valid_ref p r"
  by (cases r; simp)+

lemma valid_put [simp]: "valid_ref (put_slot p r s) r' = valid_ref p r'"
  by (cases r; cases r') simp_all

lemma holdings_put:
  "valid_ref p r \<Longrightarrow> holdings E k (put_slot p r s) = holdings E k p - amount E k (get_slot p r) + amount E k s"
  by (cases r) (simp_all add: holdings_def total_update)

lemma holdings_carried:
  "holdings E k (p\<lparr>CarriedItem := c\<rparr>) = holdings E k p - amount E k (CarriedItem p) + amount E k c"
  by (simp add: holdings_def)

lemma player_ok_put: "player_ok p \<Longrightarrow> slot_ok s \<Longrightarrow> player_ok (put_slot p r s)"
  by (cases r) (simp_all add: player_ok_def slots_ok_update)

lemma player_ok_carried: "player_ok p \<Longrightarrow> slot_ok c \<Longrightarrow> player_ok (p\<lparr>CarriedItem := c\<rparr>)"
  by (simp add: player_ok_def)

lemma player_ok_get: "player_ok p \<Longrightarrow> valid_ref p r \<Longrightarrow> slot_ok (get_slot p r)"
  by (cases r) (simp_all add: player_ok_def slots_ok_nth)

lemma new_player_ok [simp]: "player_ok new_player"
  by (simp add: player_ok_def new_player_def slots_ok_def list_all_iff)

section \<open>Clicks on one slot\<close>

text \<open>
  The contract of a click: the cursor and the slot stay in order and together keep every
  amount. The lemmas lift it to the player.
\<close>

locale slot_click =
  fixes f :: "item_stack \<Rightarrow> item_stack \<Rightarrow> item_stack \<times> item_stack"
    and E :: item_env
  assumes keeps: "slot_ok c \<Longrightarrow> slot_ok t \<Longrightarrow> f c t = (c', t') \<Longrightarrow>
      slot_ok c' \<and> slot_ok t' \<and> amount E k c' + amount E k t' = amount E k c + amount E k t"
begin

lemma click_ok:
  assumes "player_ok p" "valid_ref p r"
  shows "player_ok (on_slot p r f) \<and> holdings E k (on_slot p r f) = holdings E k p \<and> same_screen (on_slot p r f) p"
proof -
  obtain c' t' where f: "f (CarriedItem p) (get_slot p r) = (c', t')" by fastforce
  have ok: "slot_ok (CarriedItem p)" "slot_ok (get_slot p r)"
    using assms by (simp_all add: player_ok_def player_ok_get)
  note K = keeps [OF ok f]
  have "on_slot p r f = put_slot (p\<lparr>CarriedItem := c'\<rparr>) r t'" using f by (simp add: on_slot_def)
  then show ?thesis
    using assms K [of k] by (simp add: player_ok_put player_ok_carried holdings_put holdings_carried)
qed

end

text \<open>Moving items between two stacks of one kind.\<close>

lemma amount_transfer:
  assumes "\<not> IsEmpty c" "\<not> IsEmpty t" "SameItem E t c" "0 \<le> n" "n \<le> Count c"
  shows "slot_ok (normalizeStack (c\<lparr>Count := Count c - n\<rparr>)) \<and> slot_ok (t\<lparr>Count := Count t + n\<rparr>) \<and>
    amount E k (normalizeStack (c\<lparr>Count := Count c - n\<rparr>)) + amount E k (t\<lparr>Count := Count t + n\<rparr>)
      = amount E k c + amount E k t"
proof -
  have ids: "ItemID c \<noteq> []" "ItemID t \<noteq> []" "0 < Count t" "0 < Count c" using assms(1,2) by (auto simp: IsEmpty_def)
  have key: "item_key E t = item_key E c" using assms(3) by (simp add: SameItem_key)
  have "slot_ok (t\<lparr>Count := Count t + n\<rparr>)" using ids assms(4) by (simp add: slot_ok_def IsEmpty_Count)
  moreover have "slot_ok (normalizeStack (c\<lparr>Count := Count c - n\<rparr>))" using ids by simp
  ultimately show ?thesis
    using ids assms by (simp add: amount_normalize amount_Count amount_nonempty key)
qed

lemma amount_split:
  assumes "\<not> IsEmpty s" "0 < n" "n \<le> Count s"
  shows "slot_ok (normalizeStack (s\<lparr>Count := Count s - n\<rparr>)) \<and> slot_ok (s\<lparr>Count := n\<rparr>) \<and>
    amount E k (normalizeStack (s\<lparr>Count := Count s - n\<rparr>)) + amount E k (s\<lparr>Count := n\<rparr>) = amount E k s"
proof -
  have ids: "ItemID s \<noteq> []" using assms(1) by (auto simp: IsEmpty_def)
  have "slot_ok (s\<lparr>Count := n\<rparr>)" using ids assms(2) by (simp add: slot_ok_def IsEmpty_Count)
  then show ?thesis using ids assms by (simp add: amount_normalize amount_Count amount_nonempty)
qed

lemma empty_is_none: "slot_ok s \<Longrightarrow> IsEmpty s \<Longrightarrow> s = no_item"
  by (simp add: slot_ok_def)

end
