(* ===== verification/Clicks.thy ===== *)
theory Clicks
  imports Players Recipes
begin

text \<open>
  The container clicks of the Java adapter: the player's inventory screen and the crafting
  table (\<open>java/handler/crafting.go\<close>), chests (\<open>java/handler/chest.go\<close>) and furnaces
  (\<open>java/handler/furnace.go\<close>). A click decides on the cursor and one slot, a shift click moves
  one stack, a drag distributes the cursor. \<open>button\<close> is the byte of the packet.
\<close>

section \<open>Clicking one slot\<close>

text \<open>Taking half of a stack, placing one item, merging: the branches the handlers share.\<close>

definition take_half :: "item_stack \<Rightarrow> item_stack \<times> item_stack" where
  "take_half target =
     (let take = (Count target + 1) div 2
      in (target\<lparr>Count := take\<rparr>, normalizeStack (target\<lparr>Count := Count target - take\<rparr>)))"

definition merge_into :: "int \<Rightarrow> item_stack \<Rightarrow> item_stack \<Rightarrow> item_stack \<times> item_stack" where
  "merge_into add carried target =
     (normalizeStack (carried\<lparr>Count := Count carried - add\<rparr>), target\<lparr>Count := Count target + add\<rparr>)"

definition place_single :: "item_stack \<Rightarrow> item_stack \<times> item_stack" where
  "place_single carried = (normalizeStack (carried\<lparr>Count := Count carried - 1\<rparr>), carried\<lparr>Count := 1\<rparr>)"

definition chest_left :: "item_env \<Rightarrow> item_stack \<Rightarrow> item_stack \<Rightarrow> item_stack \<times> item_stack" where
  "chest_left E carried target =
     (if IsEmpty carried then (target, no_item)
      else if IsEmpty target then (no_item, carried)
      else if SameItem E target carried \<and> Count target < 64
        then merge_into (min (64 - Count target) (Count carried)) carried target
      else (target, carried))"

definition chest_right :: "item_env \<Rightarrow> item_stack \<Rightarrow> item_stack \<Rightarrow> item_stack \<times> item_stack" where
  "chest_right E carried target =
     (if IsEmpty carried then (if IsEmpty target then (carried, target) else take_half target)
      else if IsEmpty target then place_single carried
      else if SameItem E target carried \<and> Count target < 64 then merge_into 1 carried target
      else (carried, target))"

text \<open>The crafting grid takes half of an empty slot too.\<close>

definition crafting_right :: "item_env \<Rightarrow> item_stack \<Rightarrow> item_stack \<Rightarrow> item_stack \<times> item_stack" where
  "crafting_right E carried target =
     (if IsEmpty carried then take_half target
      else if IsEmpty target then place_single carried
      else if SameItem E target carried \<and> Count target < 64 then merge_into 1 carried target
      else (carried, target))"

text \<open>The player's own slots respect the stack limit and the armour slots.\<close>

definition armorInventorySlot :: "item_env \<Rightarrow> string \<Rightarrow> int" where
  "armorInventorySlot E i =
     (case Lookup (registry E) i of
        None \<Rightarrow> -1
      | Some d \<Rightarrow> (case def_equipment d of
          None \<Rightarrow> -1
        | Some e \<Rightarrow> if eq_slot e = ''head'' then 5 else if eq_slot e = ''chest'' then 6
                    else if eq_slot e = ''legs'' then 7 else if eq_slot e = ''feet'' then 8 else -1))"

definition canPlaceInPlayerSlot :: "item_env \<Rightarrow> int \<Rightarrow> item_stack \<Rightarrow> bool" where
  "canPlaceInPlayerSlot E slot item =
     (if slot < 5 \<or> slot > 8 then True else armorInventorySlot E (ItemID item) = slot)"

definition player_left :: "item_env \<Rightarrow> int \<Rightarrow> item_stack \<Rightarrow> item_stack \<Rightarrow> item_stack \<times> item_stack" where
  "player_left E slot carried target =
     (if IsEmpty carried then (target, no_item)
      else if \<not> canPlaceInPlayerSlot E slot carried then (carried, target)
      else if IsEmpty target then (no_item, carried)
      else if SameItem E target carried then
        (let add = min (MaxStackSize E (ItemID target) - Count target) (Count carried)
         in if add > 0 then merge_into add carried target else (carried, target))
      else (target, carried))"

definition player_right :: "item_env \<Rightarrow> int \<Rightarrow> item_stack \<Rightarrow> item_stack \<Rightarrow> item_stack \<times> item_stack" where
  "player_right E slot carried target =
     (if IsEmpty carried then (if IsEmpty target then (carried, target) else take_half target)
      else if \<not> canPlaceInPlayerSlot E slot carried then (carried, target)
      else if IsEmpty target then place_single carried
      else if SameItem E target carried \<and> Count target < MaxStackSize E (ItemID target) then merge_into 1 carried target
      else (carried, target))"

text \<open>Taking the output of a furnace.\<close>

definition output_click :: "item_env \<Rightarrow> item_stack \<Rightarrow> item_stack \<Rightarrow> item_stack \<times> item_stack" where
  "output_click E carried target =
     (if IsEmpty target then (carried, target)
      else if IsEmpty carried then (target, no_item)
      else if SameItem E carried target \<and> Count carried + Count target \<le> MaxStackSize E (ItemID target)
        then (carried\<lparr>Count := Count carried + Count target\<rparr>, no_item)
      else (carried, target))"

subsection \<open>Each of them keeps every item\<close>

lemma take_half_ok:
  assumes "\<not> IsEmpty t" "take_half t = (c', t')"
  shows "slot_ok c' \<and> slot_ok t' \<and> amount E k c' + amount E k t' = amount E k t"
proof -
  have pos: "0 < Count t" using assms(1) by (simp add: IsEmpty_def)
  have "0 < (Count t + 1) div 2" "(Count t + 1) div 2 \<le> Count t" using pos by auto
  then show ?thesis
    using amount_split [OF assms(1), of "(Count t + 1) div 2" E k] assms(2) by (auto simp: take_half_def Let_def)
qed

lemma merge_into_ok:
  assumes "\<not> IsEmpty c" "\<not> IsEmpty t" "SameItem E t c" "0 \<le> n" "n \<le> Count c" "merge_into n c t = (c', t')"
  shows "slot_ok c' \<and> slot_ok t' \<and> amount E k c' + amount E k t' = amount E k c + amount E k t"
  using amount_transfer [OF assms(1-5), of k] assms(6) by (auto simp: merge_into_def)

lemma place_single_ok:
  assumes "\<not> IsEmpty c" "place_single c = (c', t')"
  shows "slot_ok c' \<and> slot_ok t' \<and> amount E k c' + amount E k t' = amount E k c"
proof -
  have "1 \<le> Count c" using assms(1) by (simp add: IsEmpty_def)
  then show ?thesis
    using amount_split [OF assms(1), of 1 E k] assms(2) by (auto simp: place_single_def)
qed

lemma Count_pos: "\<not> IsEmpty s \<Longrightarrow> 0 < Count s"
  by (simp add: IsEmpty_def)

lemma take_half_empty: "slot_ok t \<Longrightarrow> IsEmpty t \<Longrightarrow> take_half t = (no_item, no_item)"
  by (simp add: slot_ok_def take_half_def normalizeStack_def)

lemmas stack_moves = take_half_ok merge_into_ok place_single_ok

interpretation chest_left: slot_click "chest_left E" E for E
proof unfold_locales
  fix c t c' t' k
  assume ok: "slot_ok c" "slot_ok t" and run: "chest_left E c t = (c', t')"
  consider "IsEmpty c" | "\<not> IsEmpty c" "IsEmpty t" | "\<not> IsEmpty c" "\<not> IsEmpty t" "SameItem E t c" "Count t < 64"
    | "\<not> IsEmpty c" "\<not> IsEmpty t" "\<not> (SameItem E t c \<and> Count t < 64)" by blast
  then show "slot_ok c' \<and> slot_ok t' \<and> amount E k c' + amount E k t' = amount E k c + amount E k t"
  proof cases
    case 3
    then have "merge_into (min (64 - Count t) (Count c)) c t = (c', t')" using run by (simp add: chest_left_def)
    with 3 Count_pos [of c] show ?thesis by (intro merge_into_ok) auto
  qed (use run ok in \<open>auto simp: chest_left_def\<close>)
qed

interpretation chest_right: slot_click "chest_right E" E for E
proof unfold_locales
  fix c t c' t' k
  assume ok: "slot_ok c" "slot_ok t" and run: "chest_right E c t = (c', t')"
  consider "IsEmpty c" "IsEmpty t" | "IsEmpty c" "\<not> IsEmpty t" | "\<not> IsEmpty c" "IsEmpty t"
    | "\<not> IsEmpty c" "\<not> IsEmpty t" "SameItem E t c" "Count t < 64"
    | "\<not> IsEmpty c" "\<not> IsEmpty t" "\<not> (SameItem E t c \<and> Count t < 64)" by blast
  then show "slot_ok c' \<and> slot_ok t' \<and> amount E k c' + amount E k t' = amount E k c + amount E k t"
  proof cases
    case 2
    then have "take_half t = (c', t')" using run by (simp add: chest_right_def)
    from take_half_ok [OF 2(2) this, of E k] show ?thesis using 2(1) by simp
  next
    case 3
    then have "place_single c = (c', t')" using run by (simp add: chest_right_def)
    from place_single_ok [OF 3(1) this, of E k] show ?thesis using 3(2) by simp
  next
    case 4
    then have "merge_into 1 c t = (c', t')" using run by (simp add: chest_right_def)
    with 4 Count_pos [OF 4(1)] show ?thesis by (intro merge_into_ok) auto
  qed (use run ok in \<open>auto simp: chest_right_def\<close>)
qed

interpretation crafting_right: slot_click "crafting_right E" E for E
proof unfold_locales
  fix c t c' t' k
  assume ok: "slot_ok c" "slot_ok t" and run: "crafting_right E c t = (c', t')"
  show "slot_ok c' \<and> slot_ok t' \<and> amount E k c' + amount E k t' = amount E k c + amount E k t"
  proof (cases "IsEmpty c \<and> IsEmpty t")
    case True
    then have "c' = no_item" "t' = no_item" using run ok take_half_empty [of t] by (simp_all add: crafting_right_def)
    then show ?thesis using True by simp
  next
    case False
    then have "chest_right E c t = (c', t')" using run by (auto simp: crafting_right_def chest_right_def)
    then show ?thesis using chest_right.keeps ok by blast
  qed
qed

interpretation player_left: slot_click "player_left E slot" E for E slot
proof unfold_locales
  fix c t c' t' k
  assume ok: "slot_ok c" "slot_ok t" and run: "player_left E slot c t = (c', t')"
  let ?add = "min (MaxStackSize E (ItemID t) - Count t) (Count c)"
  consider "\<not> IsEmpty c" "canPlaceInPlayerSlot E slot c" "\<not> IsEmpty t" "SameItem E t c" "0 < ?add"
    | "IsEmpty c \<or> \<not> canPlaceInPlayerSlot E slot c \<or> IsEmpty t \<or> \<not> SameItem E t c \<or> \<not> 0 < ?add" by blast
  then show "slot_ok c' \<and> slot_ok t' \<and> amount E k c' + amount E k t' = amount E k c + amount E k t"
  proof cases
    case 1
    then have "merge_into ?add c t = (c', t')" using run by (simp add: player_left_def)
    with 1 show ?thesis by (intro merge_into_ok) auto
  qed (use run ok in \<open>auto simp: player_left_def Let_def split: if_splits\<close>)
qed

interpretation player_right: slot_click "player_right E slot" E for E slot
proof unfold_locales
  fix c t c' t' k
  assume ok: "slot_ok c" "slot_ok t" and run: "player_right E slot c t = (c', t')"
  consider "IsEmpty c" "\<not> IsEmpty t" | "\<not> IsEmpty c" "canPlaceInPlayerSlot E slot c" "IsEmpty t"
    | "\<not> IsEmpty c" "canPlaceInPlayerSlot E slot c" "\<not> IsEmpty t" "SameItem E t c" "Count t < MaxStackSize E (ItemID t)"
    | "(c', t') = (c, t)" using run by (auto simp: player_right_def split: if_splits)
  then show "slot_ok c' \<and> slot_ok t' \<and> amount E k c' + amount E k t' = amount E k c + amount E k t"
  proof cases
    case 1
    then have "take_half t = (c', t')" using run by (simp add: player_right_def)
    from take_half_ok [OF 1(2) this, of E k] show ?thesis using 1(1) by simp
  next
    case 2
    then have "place_single c = (c', t')" using run by (simp add: player_right_def)
    from place_single_ok [OF 2(1) this, of E k] show ?thesis using 2(3) by simp
  next
    case 3
    then have "merge_into 1 c t = (c', t')" using run by (simp add: player_right_def)
    with 3 Count_pos [OF 3(1)] show ?thesis by (intro merge_into_ok) auto
  qed (use ok in auto)
qed

interpretation output_click: slot_click "output_click E" E for E
proof unfold_locales
  fix c t c' t' k
  assume ok: "slot_ok c" "slot_ok t" and run: "output_click E c t = (c', t')"
  show "slot_ok c' \<and> slot_ok t' \<and> amount E k c' + amount E k t' = amount E k c + amount E k t"
  proof (cases "\<not> IsEmpty t \<and> \<not> IsEmpty c \<and> SameItem E c t \<and> Count c + Count t \<le> MaxStackSize E (ItemID t)")
    case True
    then have r: "c' = c\<lparr>Count := Count c + Count t\<rparr>" "t' = no_item" using run by (auto simp: output_click_def)
    have "0 < Count c" "0 < Count t" "ItemID c \<noteq> []" using True by (auto simp: IsEmpty_def)
    moreover have "item_key E c = item_key E t" using True by (simp add: SameItem_key)
    ultimately show ?thesis
      using True unfolding r by (simp add: amount_Count amount_nonempty slot_ok_def IsEmpty_Count)
  qed (use run ok in \<open>auto simp: output_click_def split: if_splits\<close>)
qed

section \<open>The handlers\<close>

definition refresh :: "player \<Rightarrow> player" where
  "refresh p = p\<lparr>ContainerStateID := ContainerStateID p + 1\<rparr>"

text \<open>A click outside the window: the cursor stack, or one item of it, is gone.\<close>

definition discard :: "player \<Rightarrow> byte \<Rightarrow> player" where
  "discard p button =
     (if button = 0 then p\<lparr>CarriedItem := no_item\<rparr>
      else if \<not> IsEmpty (CarriedItem p)
        then p\<lparr>CarriedItem := normalizeStack ((CarriedItem p)\<lparr>Count := Count (CarriedItem p) - 1\<rparr>)\<rparr>
      else p)"

subsection \<open>The player's inventory screen\<close>

definition clickPlayerInventorySlot :: "item_env \<Rightarrow> player \<Rightarrow> int \<Rightarrow> byte \<Rightarrow> player" where
  "clickPlayerInventorySlot E p slot button =
     (if slot = -999 then discard p button
      else if slot < 1 \<or> slot \<ge> int InventorySize then p
      else if button = 0 then on_slot p (InInventory (nat slot)) (player_left E slot)
      else if button \<noteq> 1 then p
      else on_slot p (InInventory (nat slot)) (player_right E slot))"

definition first_empty :: "item_stack list \<Rightarrow> nat list \<Rightarrow> nat option" where
  "first_empty slots is = List.find (\<lambda>i. IsEmpty (slots ! i)) is"

text \<open>Moving the stack of a slot into the inventory when all of it fits.\<close>

definition move_to_inventory :: "item_env \<Rightarrow> player \<Rightarrow> slot_ref \<Rightarrow> player" where
  "move_to_inventory E p r =
     (let (inventory, placed) = addStackToInventory E (Inventory p) (get_slot p r)
      in if placed then put_slot (p\<lparr>Inventory := inventory\<rparr>) r no_item else p)"

definition return_slot :: "item_env \<Rightarrow> player \<Rightarrow> nat \<Rightarrow> player" where
  "return_slot E p slot =
     (let item = Inventory p ! slot;
          (inventory, placed) = addStackToInventory E ((Inventory p)[slot := no_item]) item
      in if placed then p\<lparr>Inventory := inventory\<rparr> else p)"

definition swap_slots :: "player \<Rightarrow> nat \<Rightarrow> nat \<Rightarrow> player" where
  "swap_slots p dst src = p\<lparr>Inventory := ((Inventory p)[dst := Inventory p ! src])[src := no_item]\<rparr>"

definition shiftPlayerInventorySlot :: "item_env \<Rightarrow> player \<Rightarrow> int \<Rightarrow> player" where
  "shiftPlayerInventorySlot E p slot =
     (if slot < 1 \<or> slot \<ge> int InventorySize \<or> IsEmpty (Inventory p ! nat slot) then p
      else if slot \<le> 4 then return_slot E p (nat slot)
      else
        let armor = armorInventorySlot E (ItemID (Inventory p ! nat slot))
        in if slot \<ge> 9 \<and> armor \<ge> 5 \<and> IsEmpty (Inventory p ! nat armor) then swap_slots p (nat armor) (nat slot)
           else if slot \<ge> 5 \<and> slot \<le> 8 then return_slot E p (nat slot)
           else
             let range = (if slot \<ge> 36 \<and> slot < 45 then [9..<36] else [36..<45])
             in case first_empty (Inventory p) range of
                  None \<Rightarrow> p
                | Some i \<Rightarrow> swap_slots p i (nat slot))"

subsection \<open>The crafting table\<close>

definition craftingContainerSlot :: "int \<Rightarrow> slot_ref option" where
  "craftingContainerSlot slot =
     (if slot \<ge> 1 \<and> slot \<le> 9 then Some (InGrid (nat (slot - 1)))
      else if slot \<ge> 10 \<and> slot \<le> 36 then Some (InInventory (nat (slot - 1)))
      else if slot \<ge> 37 \<and> slot \<le> 45 then Some (InInventory (nat (int HotbarStart + slot - 37)))
      else None)"

definition clickCraftingSlot :: "item_env \<Rightarrow> player \<Rightarrow> int \<Rightarrow> byte \<Rightarrow> player" where
  "clickCraftingSlot E p slot button =
     (if slot = -999 then discard p button
      else case craftingContainerSlot slot of
        None \<Rightarrow> p
      | Some r \<Rightarrow> if button = 0 then on_slot p r (chest_left E) else on_slot p r (crafting_right E))"

definition shiftCraftingSlot :: "item_env \<Rightarrow> player \<Rightarrow> int \<Rightarrow> player" where
  "shiftCraftingSlot E p slot =
     (case craftingContainerSlot slot of
        None \<Rightarrow> p
      | Some r \<Rightarrow> if IsEmpty (get_slot p r) \<or> slot \<ge> 10 then p else move_to_inventory E p r)"

definition take_ingredient :: "item_stack \<Rightarrow> item_stack" where
  "take_ingredient s = (if IsEmpty s then s else normalizeStack (s\<lparr>Count := Count s - 1\<rparr>))"

definition consumeCraftingIngredients :: "player \<Rightarrow> player" where
  "consumeCraftingIngredients p = p\<lparr>CraftingGrid := map take_ingredient (CraftingGrid p)\<rparr>"

text \<open>Adding a result to the cursor: nothing, the result itself, or a bigger stack.\<close>

definition take_result :: "item_env \<Rightarrow> int \<Rightarrow> player \<Rightarrow> item_stack \<Rightarrow> player option" where
  "take_result E limit p result =
     (if IsEmpty result then None
      else if \<not> IsEmpty (CarriedItem p) \<and> \<not> SameItem E (CarriedItem p) result then None
      else if Count (CarriedItem p) + Count result > limit then None
      else Some (p\<lparr>CarriedItem := (if IsEmpty (CarriedItem p) then result
                   else (CarriedItem p)\<lparr>Count := Count (CarriedItem p) + Count result\<rparr>)\<rparr>))"

definition takeCraftingResult :: "item_env \<Rightarrow> player \<Rightarrow> player" where
  "takeCraftingResult E p =
     (case take_result E 64 p (CraftingResult p) of None \<Rightarrow> p | Some q \<Rightarrow> consumeCraftingIngredients q)"

text \<open>
  The shift click crafts until the grid has no result or the result does not fit. Every round
  takes an item from each filled cell, so the sum of the cell counts bounds the rounds.
\<close>

definition grid_size :: "player \<Rightarrow> nat" where
  "grid_size p = sum_list (map (\<lambda>s. nat (Count s)) (CraftingGrid p))"

lemma take_ingredient_count: "nat (Count (take_ingredient s)) \<le> nat (Count s)"
  "\<not> IsEmpty s \<Longrightarrow> nat (Count (take_ingredient s)) < nat (Count s)"
  by (auto simp: take_ingredient_def normalizeStack_def IsEmpty_def)

lemma consume_less:
  assumes "s \<in> set grid" "\<not> IsEmpty s"
  shows "sum_list (map (\<lambda>s. nat (Count (take_ingredient s))) grid) < sum_list (map (\<lambda>s. nat (Count s)) grid)"
  using assms
proof (induction grid)
  case (Cons a grid)
  have le: "sum_list (map (\<lambda>s. nat (Count (take_ingredient s))) grid) \<le> sum_list (map (\<lambda>s. nat (Count s)) grid)"
    by (intro sum_list_mono) (simp add: take_ingredient_count)
  show ?case
  proof (cases "a = s")
    case True
    have "nat (Count (take_ingredient s)) < nat (Count s)" using take_ingredient_count(2) [OF Cons.prems(2)] .
    then show ?thesis using le True by (simp only: list.map sum_list.Cons add_less_le_mono)
  next
    case False
    then show ?thesis using Cons take_ingredient_count(1) [of a] by simp
  qed
qed simp

lemma consume_grid_size:
  assumes "\<not> list_all IsEmpty (CraftingGrid p)" "CraftingGrid q = map take_ingredient (CraftingGrid p)"
  shows "grid_size q < grid_size p"
proof -
  obtain s where "s \<in> set (CraftingGrid p)" "\<not> IsEmpty s" using assms(1) by (auto simp: list_all_iff)
  then show ?thesis using consume_less [of s "CraftingGrid p"] assms(2) by (simp add: grid_size_def o_def)
qed

text \<open>The endless loops of the shift clicks; \<open>None\<close> would be a loop that never returns.\<close>

partial_function (option) shiftCraftingResult :: "item_env \<Rightarrow> item_tags \<Rightarrow> recipe list \<Rightarrow> player \<Rightarrow> player option" where
  "shiftCraftingResult E T rs p =
     (let result = findCraftingResultIn T rs (CraftingGrid p)
      in if IsEmpty result then Some (p\<lparr>CraftingResult := no_item\<rparr>)
         else let (inventory, placed) = addStackToInventory E (Inventory p) result
              in if \<not> placed then Some (p\<lparr>CraftingResult := result\<rparr>)
                 else shiftCraftingResult E T rs (consumeCraftingIngredients (p\<lparr>Inventory := inventory\<rparr>)))"

definition returnCraftingGrid_step :: "item_env \<Rightarrow> nat \<Rightarrow> item_stack list \<times> item_stack list \<Rightarrow> item_stack list \<times> item_stack list" where
  "returnCraftingGrid_step E i = (\<lambda>(inventory, grid).
     let (inventory', placed) = addStackToInventory E inventory (grid ! i)
     in (inventory', if placed then grid[i := no_item] else grid))"

definition returnCraftingGrid :: "item_env \<Rightarrow> player \<Rightarrow> player" where
  "returnCraftingGrid E p =
     (let (inventory, grid) = fold (returnCraftingGrid_step E) [0..<length (CraftingGrid p)] (Inventory p, CraftingGrid p)
      in p\<lparr>Inventory := inventory, CraftingGrid := grid, CraftingResult := no_item\<rparr>)"

subsection \<open>The 2x2 grid of the inventory screen\<close>

definition updatePersonalCraftingResult :: "item_tags \<Rightarrow> recipe list \<Rightarrow> player \<Rightarrow> player" where
  "updatePersonalCraftingResult T rs p =
     p\<lparr>Inventory := (Inventory p)[0 := FindPersonalCraftingResult T rs (map ((!) (Inventory p)) [1, 2, 3, 4])]\<rparr>"

definition consumePersonalCraftingIngredients :: "player \<Rightarrow> player" where
  "consumePersonalCraftingIngredients p =
     p\<lparr>Inventory := fold (\<lambda>i slots. slots[i := take_ingredient (slots ! i)]) [1, 2, 3, 4] (Inventory p)\<rparr>"

definition takePersonalCraftingResult :: "item_env \<Rightarrow> player \<Rightarrow> player" where
  "takePersonalCraftingResult E p =
     (let result = Inventory p ! 0
      in case take_result E (MaxStackSize E (ItemID result)) p result of
           None \<Rightarrow> p | Some q \<Rightarrow> consumePersonalCraftingIngredients q)"

partial_function (option) shiftPersonalCraftingResult :: "item_env \<Rightarrow> item_tags \<Rightarrow> recipe list \<Rightarrow> player \<Rightarrow> player option" where
  "shiftPersonalCraftingResult E T rs p =
     (let result = Inventory p ! 0
      in if IsEmpty result then Some p
         else let (inventory, placed) = addStackToInventory E (Inventory p) result
              in if \<not> placed then Some p
                 else shiftPersonalCraftingResult E T rs
                   (updatePersonalCraftingResult T rs (consumePersonalCraftingIngredients (p\<lparr>Inventory := inventory\<rparr>))))"

subsection \<open>Dragging\<close>

text \<open>The slots a drag may enter: the \<open>targetFor\<close> closures of the two screens.\<close>

definition inventory_target :: "item_env \<Rightarrow> player \<Rightarrow> int \<Rightarrow> slot_ref option" where
  "inventory_target E p slot =
     (if slot < 1 \<or> slot \<ge> int InventorySize \<or> \<not> canPlaceInPlayerSlot E slot (CarriedItem p) then None
      else Some (InInventory (nat slot)))"

definition crafting_target :: "player \<Rightarrow> int \<Rightarrow> slot_ref option" where
  "crafting_target p slot = craftingContainerSlot slot"

definition drag_amount :: "item_env \<Rightarrow> byte \<Rightarrow> item_stack \<Rightarrow> item_stack \<Rightarrow> int \<Rightarrow> int" where
  "drag_amount E dragButton carried target remainingSlots =
     (let amount = (if dragButton = 0 then max 1 (Count carried div remainingSlots) else 1);
          limit = MaxStackSize E (ItemID carried);
          space = (if IsEmpty target then limit else limit - Count target)
      in min amount (min space (Count carried)))"

text \<open>
  The distribution loop. \<open>remainingSlots\<close> starts as the number of slots and is decremented
  in every round, so the division is always by a positive number.
\<close>

fun drag_loop :: "item_env \<Rightarrow> (player \<Rightarrow> int \<Rightarrow> slot_ref option) \<Rightarrow> byte \<Rightarrow> int list \<Rightarrow> int \<Rightarrow> player \<Rightarrow> player" where
  "drag_loop E targetFor dragButton [] remainingSlots p = p"
| "drag_loop E targetFor dragButton (slot # slots) remainingSlots p =
     (case targetFor p slot of
        None \<Rightarrow> drag_loop E targetFor dragButton slots (remainingSlots - 1) p
      | Some r \<Rightarrow>
          let target = get_slot p r; carried = CarriedItem p
          in if \<not> IsEmpty target \<and> \<not> SameItem E target carried
               then drag_loop E targetFor dragButton slots (remainingSlots - 1) p
             else
               let amount = drag_amount E dragButton carried target remainingSlots;
                   q = (if amount > 0 then on_slot p r (\<lambda>c t.
                          (normalizeStack (c\<lparr>Count := Count c - amount\<rparr>),
                           if IsEmpty t then c\<lparr>Count := amount\<rparr> else t\<lparr>Count := Count t + amount\<rparr>))
                        else p)
               in if IsEmpty (CarriedItem q) then q
                  else drag_loop E targetFor dragButton slots (remainingSlots - 1) q)"

definition handleQuickCraft :: "item_env \<Rightarrow> (player \<Rightarrow> int \<Rightarrow> slot_ref option) \<Rightarrow> player \<Rightarrow> int \<Rightarrow> byte \<Rightarrow> player" where
  "handleQuickCraft E targetFor p slot button =
     (let stage = button mod 4; dragButton = button div 4
      in if stage = 0 then p\<lparr>QuickCraftButton := dragButton, QuickCraftSlots := []\<rparr>
         else if stage = 1 then
           (if IsEmpty (CarriedItem p) \<or> dragButton \<noteq> QuickCraftButton p \<or> targetFor p slot = None then p
            else if slot \<in> set (QuickCraftSlots p) then p
            else p\<lparr>QuickCraftSlots := QuickCraftSlots p @ [slot]\<rparr>)
         else if stage = 2 then
           (if dragButton \<noteq> QuickCraftButton p \<or> IsEmpty (CarriedItem p) \<or> QuickCraftSlots p = []
              then p\<lparr>QuickCraftSlots := []\<rparr>
            else (drag_loop E targetFor dragButton (QuickCraftSlots p) (int (length (QuickCraftSlots p))) p)
                   \<lparr>QuickCraftSlots := []\<rparr>)
         else p)"

subsection \<open>Chests and other storage blocks\<close>

definition chestContainerSlot :: "player \<Rightarrow> int \<Rightarrow> slot_ref option" where
  "chestContainerSlot p slot =
     (let n = int (length (ContainerSlots p))
      in if slot \<ge> 0 \<and> slot < n then Some (InContainer (nat slot))
         else if slot \<ge> n \<and> slot < n + 27 then Some (InInventory (nat (9 + slot - n)))
         else if slot \<ge> n + 27 \<and> slot < n + 36 then Some (InInventory (nat (int HotbarStart + slot - (n + 27))))
         else None)"

definition clickChestSlot :: "item_env \<Rightarrow> player \<Rightarrow> int \<Rightarrow> byte \<Rightarrow> player" where
  "clickChestSlot E p slot button =
     (if slot = -999 then discard p button
      else case chestContainerSlot p slot of
        None \<Rightarrow> p
      | Some r \<Rightarrow> if button = 0 then on_slot p r (chest_left E) else on_slot p r (chest_right E))"

definition shiftChestSlot :: "item_env \<Rightarrow> player \<Rightarrow> int \<Rightarrow> player" where
  "shiftChestSlot E p slot =
     (case chestContainerSlot p slot of
        None \<Rightarrow> p
      | Some r \<Rightarrow>
          if IsEmpty (get_slot p r) then p
          else if slot < int (length (ContainerSlots p)) then move_to_inventory E p r
          else let (slots, placed) = addStackToContainer E (ContainerSlots p) (get_slot p r)
               in if placed then put_slot (p\<lparr>ContainerSlots := slots\<rparr>) r no_item else p)"

definition applyChestClick :: "item_env \<Rightarrow> player \<Rightarrow> int \<Rightarrow> byte \<Rightarrow> i32 \<Rightarrow> player" where
  "applyChestClick E p slot button mode =
     (if mode = 0 then clickChestSlot E p slot button
      else if mode = 1 then shiftChestSlot E p slot
      else p)"

subsection \<open>Furnaces\<close>

definition FurnaceFuelDuration :: "item_env \<Rightarrow> string \<Rightarrow> int" where
  "FurnaceFuelDuration E i = (case Lookup (registry E) i of Some d \<Rightarrow> def_fuel_ticks d | None \<Rightarrow> 0)"

definition CanPlaceFurnaceFuelSlot :: "item_env \<Rightarrow> string \<Rightarrow> bool" where
  "CanPlaceFurnaceFuelSlot E i \<longleftrightarrow> i = ''minecraft:bucket'' \<or> FurnaceFuelDuration E i > 0"

definition canPlaceJavaFurnaceSlot :: "item_env \<Rightarrow> int \<Rightarrow> item_stack \<Rightarrow> bool" where
  "canPlaceJavaFurnaceSlot E slot s =
     (if IsEmpty s then True
      else if slot = 0 then True
      else if slot = 1 then CanPlaceFurnaceFuelSlot E (ItemID s)
      else if slot = 2 then False
      else True)"

definition furnaceContainerSlot :: "player \<Rightarrow> int \<Rightarrow> slot_ref option" where
  "furnaceContainerSlot p slot =
     (if length (ContainerSlots p) \<noteq> 3 then None
      else if slot \<ge> 0 \<and> slot < 3 then Some (InContainer (nat slot))
      else if slot \<ge> 3 \<and> slot < 30 then Some (InInventory (nat (9 + slot - 3)))
      else if slot \<ge> 30 \<and> slot < 39 then Some (InInventory (nat (int HotbarStart + slot - 30)))
      else None)"

definition clickFurnaceSlot :: "item_env \<Rightarrow> player \<Rightarrow> int \<Rightarrow> byte \<Rightarrow> player" where
  "clickFurnaceSlot E p slot button =
     (if slot < 0 \<or> slot \<ge> 39 then p
      else case furnaceContainerSlot p slot of
        None \<Rightarrow> p
      | Some r \<Rightarrow>
          if slot = 2 then on_slot p r (output_click E)
          else
            let q = clickChestSlot E p slot button
            in if slot < 2 \<and> \<not> canPlaceJavaFurnaceSlot E slot (get_slot q r)
                 then put_slot (q\<lparr>CarriedItem := CarriedItem p\<rparr>) r (get_slot p r)
               else q)"

definition shiftFurnaceSlot :: "item_env \<Rightarrow> player \<Rightarrow> int \<Rightarrow> player" where
  "shiftFurnaceSlot E p slot =
     (case furnaceContainerSlot p slot of
        None \<Rightarrow> p
      | Some r \<Rightarrow>
          if IsEmpty (get_slot p r) then p
          else if slot < 3 then move_to_inventory E p r
          else
            let dst = (if CanPlaceFurnaceFuelSlot E (ItemID (get_slot p r)) then 1 else 0);
                (stack, moved) = addStackToFurnaceSlot E (ContainerSlots p ! dst) (get_slot p r)
            in if moved then put_slot (put_slot p (InContainer dst) stack) r no_item else p)"

section \<open>No click creates or destroys items\<close>

text \<open>What every handler but the throw keeps.\<close>

definition kept :: "item_env \<Rightarrow> player \<Rightarrow> player \<Rightarrow> bool" where
  "kept E p q \<longleftrightarrow> player_ok q \<and> same_screen q p \<and> (\<forall>k. holdings E k q = holdings E k p)"

lemma kept_refl [simp]: "player_ok p \<Longrightarrow> kept E p p"
  by (simp add: kept_def)

lemma kept_trans: "kept E p q \<Longrightarrow> kept E q r \<Longrightarrow> kept E p r"
  by (auto simp: kept_def dest: same_screen_trans)

lemma chest_ref_valid: "player_ok p \<Longrightarrow> chestContainerSlot p slot = Some r \<Longrightarrow> valid_ref p r"
  by (auto simp: chestContainerSlot_def player_ok_def InventorySize_def HotbarStart_def Let_def split: if_splits)

lemma crafting_ref_valid: "player_ok p \<Longrightarrow> craftingContainerSlot slot = Some r \<Longrightarrow> valid_ref p r"
  by (auto simp: craftingContainerSlot_def player_ok_def InventorySize_def HotbarStart_def split: if_splits)

lemma furnace_ref_valid: "player_ok p \<Longrightarrow> furnaceContainerSlot p slot = Some r \<Longrightarrow> valid_ref p r"
  by (auto simp: furnaceContainerSlot_def player_ok_def InventorySize_def HotbarStart_def split: if_splits)

lemma furnace_is_chest_slot: "furnaceContainerSlot p slot = Some r \<Longrightarrow> chestContainerSlot p slot = Some r"
  by (auto simp: furnaceContainerSlot_def chestContainerSlot_def HotbarStart_def Let_def split: if_splits)

lemma player_shape: "env_ok E \<Longrightarrow> player_ok p \<Longrightarrow> inventory_shape E (Inventory p)"
  by (simp add: inventory_shape_def player_ok_def)

lemma clickChestSlot_kept:
  assumes "player_ok p" "slot \<noteq> -999"
  shows "kept E p (clickChestSlot E p slot button)"
  using assms chest_left.click_ok [of p _ E] chest_right.click_ok [of p _ E] chest_ref_valid [OF assms(1)]
  by (auto simp: clickChestSlot_def kept_def split: option.splits)

lemma clickCraftingSlot_kept:
  assumes "player_ok p" "slot \<noteq> -999"
  shows "kept E p (clickCraftingSlot E p slot button)"
  using assms chest_left.click_ok [of p _ E] crafting_right.click_ok [of p _ E] crafting_ref_valid [OF assms(1)]
  by (auto simp: clickCraftingSlot_def kept_def split: option.splits)

lemma clickPlayerInventorySlot_kept:
  assumes "player_ok p" "slot \<noteq> -999"
  shows "kept E p (clickPlayerInventorySlot E p slot button)"
proof -
  have "valid_ref p (InInventory (nat slot))" if "1 \<le> slot" "slot < int InventorySize"
    using that assms(1) by (auto simp: player_ok_def)
  then show ?thesis
    using assms player_left.click_ok [of p "InInventory (nat slot)" E slot]
      player_right.click_ok [of p "InInventory (nat slot)" E slot]
    by (auto simp: clickPlayerInventorySlot_def kept_def)
qed

lemma put_slot_same [simp]: "put_slot p r (get_slot p r) = p"
  by (cases r) simp_all

lemma move_to_inventory_kept:
  assumes "env_ok E" "player_ok p" "valid_ref p r" "\<And>i. r \<noteq> InInventory i"
  shows "kept E p (move_to_inventory E p r)"
proof (cases "snd (addStackToInventory E (Inventory p) (get_slot p r))")
  case False
  then show ?thesis using assms(2) by (auto simp: move_to_inventory_def split: prod.splits)
next
  case True
  then obtain inventory where a: "addStackToInventory E (Inventory p) (get_slot p r) = (inventory, True)"
    by (metis prod.collapse)
  have ok: "slot_ok (get_slot p r)" "slots_ok (Inventory p)" using assms(2,3) by (simp_all add: player_ok_get) (simp add: player_ok_def)
  note A = inv.add_ok [OF player_shape [OF assms(1,2)] ok(2,1) a] inv.add_total [OF player_shape [OF assms(1,2)] ok(2,1) a]
  have run: "move_to_inventory E p r = put_slot (p\<lparr>Inventory := inventory\<rparr>) r no_item"
    using a by (simp add: move_to_inventory_def)
  have g: "get_slot (p\<lparr>Inventory := inventory\<rparr>) r = get_slot p r" "valid_ref (p\<lparr>Inventory := inventory\<rparr>) r"
    using assms(3,4) by (cases r; simp)+
  have "player_ok (p\<lparr>Inventory := inventory\<rparr>)" using A(1) assms(2) by (simp add: player_ok_def)
  moreover have "same_screen (p\<lparr>Inventory := inventory\<rparr>) p" by (simp add: same_screen_def)
  moreover have "holdings E k (p\<lparr>Inventory := inventory\<rparr>) = holdings E k p + amount E k (get_slot p r)" for k
    using A(2) [of k] by (simp add: holdings_def)
  ultimately show ?thesis using g by (simp add: run kept_def player_ok_put holdings_put)
qed

lemma shiftCraftingSlot_kept:
  assumes "env_ok E" "player_ok p"
  shows "kept E p (shiftCraftingSlot E p slot)"
proof (cases "craftingContainerSlot slot")
  case None
  then show ?thesis using assms(2) by (simp add: shiftCraftingSlot_def)
next
  case (Some r)
  have "r \<noteq> InInventory i" if "slot < 10" for i
    using Some that by (auto simp: craftingContainerSlot_def split: if_splits)
  then show ?thesis
    using Some assms move_to_inventory_kept [OF assms crafting_ref_valid [OF assms(2) Some]]
    by (auto simp: shiftCraftingSlot_def)
qed

lemma shiftChestSlot_kept:
  assumes "env_ok E" "player_ok p"
  shows "kept E p (shiftChestSlot E p slot)"
proof (cases "chestContainerSlot p slot")
  case None
  then show ?thesis using assms(2) by (simp add: shiftChestSlot_def)
next
  case (Some r)
  have v: "valid_ref p r" using assms(2) Some by (rule chest_ref_valid)
  consider "IsEmpty (get_slot p r)" | "\<not> IsEmpty (get_slot p r)" "slot < int (length (ContainerSlots p))"
    | "\<not> IsEmpty (get_slot p r)" "\<not> slot < int (length (ContainerSlots p))" by blast
  then show ?thesis
  proof cases
    case 1
    then show ?thesis using Some assms(2) by (simp add: shiftChestSlot_def)
  next
    case 2
    then have "\<And>i. r \<noteq> InInventory i" using Some by (auto simp: chestContainerSlot_def Let_def split: if_splits)
    then show ?thesis using move_to_inventory_kept [OF assms v] Some 2 by (simp add: shiftChestSlot_def)
  next
    case 3
    then obtain i where r: "r = InInventory i" using Some by (auto simp: chestContainerSlot_def Let_def split: if_splits)
    have i: "i < length (Inventory p)" using v r by simp
    have ok: "slots_ok (ContainerSlots p)" "slots_ok (Inventory p)" using assms(2) by (simp_all add: player_ok_def)
    obtain slots d where a: "addStackToContainer E (ContainerSlots p) (Inventory p ! i) = (slots, d)" by fastforce
    show ?thesis
    proof (cases d)
      case False
      then show ?thesis using Some 3 a r assms(2) by (simp add: shiftChestSlot_def)
    next
      case True
      have run: "shiftChestSlot E p slot = put_slot (p\<lparr>ContainerSlots := slots\<rparr>) r no_item"
        using Some 3 a r True by (simp add: shiftChestSlot_def)
      have "addStackToContainer E (ContainerSlots p) (Inventory p ! i) = (slots, True)" using a True by simp
      note M = chest.move_across [OF TrueI ok i this]
      have "holdings E k (put_slot (p\<lparr>ContainerSlots := slots\<rparr>) r no_item) = holdings E k p" for k
        using M [of k] r by (simp add: holdings_def)
      then show ?thesis
        using M assms(2) r by (simp add: run kept_def player_ok_def same_screen_def)
    qed
  qed
qed

lemma applyChestClick_kept:
  assumes "env_ok E" "player_ok p" "slot \<noteq> -999"
  shows "kept E p (applyChestClick E p slot button mode)"
  using assms by (simp add: applyChestClick_def clickChestSlot_kept shiftChestSlot_kept)

lemma clickFurnaceSlot_kept:
  assumes "player_ok p"
  shows "kept E p (clickFurnaceSlot E p slot button)"
proof (cases "slot < 0 \<or> slot \<ge> 39 \<or> furnaceContainerSlot p slot = None")
  case True
  then show ?thesis using assms by (auto simp: clickFurnaceSlot_def)
next
  case False
  then obtain r where r: "furnaceContainerSlot p slot = Some r" and s: "0 \<le> slot" "slot < 39" by auto
  have v: "valid_ref p r" using assms r by (rule furnace_ref_valid)
  let ?q = "clickChestSlot E p slot button"
  have q: "kept E p ?q" using assms s by (intro clickChestSlot_kept) auto
  have "\<exists>f. ?q = on_slot p r f"
    using furnace_is_chest_slot [OF r] s by (cases "button = 0") (auto simp: clickChestSlot_def)
  then obtain f where f: "?q = on_slot p r f" ..
  have undo: "put_slot (?q\<lparr>CarriedItem := CarriedItem p\<rparr>) r (get_slot p r) = p"
    unfolding f by (cases r) (simp_all add: on_slot_def split: prod.splits)
  consider "slot = 2" | "slot \<noteq> 2" "slot < 2 \<and> \<not> canPlaceJavaFurnaceSlot E slot (get_slot ?q r)"
    | "slot \<noteq> 2" "\<not> (slot < 2 \<and> \<not> canPlaceJavaFurnaceSlot E slot (get_slot ?q r))" by blast
  then show ?thesis
  proof cases
    case 1
    then have "clickFurnaceSlot E p slot button = on_slot p r (output_click E)"
      using r by (simp add: clickFurnaceSlot_def)
    then show ?thesis using output_click.click_ok [OF assms v, of E] by (simp add: kept_def)
  next
    case 2
    then have "clickFurnaceSlot E p slot button = p"
      using r s by (simp add: clickFurnaceSlot_def Let_def undo)
    then show ?thesis using assms by simp
  next
    case 3
    then have "clickFurnaceSlot E p slot button = ?q"
      using r s by (auto simp: clickFurnaceSlot_def Let_def)
    then show ?thesis using q by simp
  qed
qed

lemma addStackToFurnaceSlot_ok:
  assumes "slot_ok d" "slot_ok s" "addStackToFurnaceSlot E d s = (d', True)"
  shows "slot_ok d' \<and> amount E k d' = amount E k d + amount E k s"
proof -
  consider "\<not> IsEmpty s" "IsEmpty d" "d' = s"
    | "\<not> IsEmpty s" "\<not> IsEmpty d" "SameItem E d s" "d' = d\<lparr>Count := Count d + Count s\<rparr>"
    using assms(3) by (auto simp: addStackToFurnaceSlot_def split: if_splits)
  then show ?thesis
  proof cases
    case 1
    then show ?thesis by simp
  next
    case 2
    then have "0 < Count d" "0 < Count s" "ItemID d \<noteq> []" by (auto simp: IsEmpty_def)
    moreover have "item_key E d = item_key E s" using 2 by (simp add: SameItem_key)
    ultimately show ?thesis
      using 2 by (simp add: amount_Count amount_nonempty slot_ok_def IsEmpty_Count)
  qed
qed

lemma shiftFurnaceSlot_kept:
  assumes "env_ok E" "player_ok p"
  shows "kept E p (shiftFurnaceSlot E p slot)"
proof (cases "furnaceContainerSlot p slot")
  case None
  then show ?thesis using assms(2) by (simp add: shiftFurnaceSlot_def)
next
  case (Some r)
  have v: "valid_ref p r" using assms(2) Some by (rule furnace_ref_valid)
  have len: "length (ContainerSlots p) = 3" using Some by (auto simp: furnaceContainerSlot_def split: if_splits)
  consider "IsEmpty (get_slot p r)" | "\<not> IsEmpty (get_slot p r)" "slot < 3" | "\<not> IsEmpty (get_slot p r)" "\<not> slot < 3" by blast
  then show ?thesis
  proof cases
    case 1
    then show ?thesis using Some assms(2) by (simp add: shiftFurnaceSlot_def)
  next
    case 2
    then have "\<And>i. r \<noteq> InInventory i" using Some by (auto simp: furnaceContainerSlot_def split: if_splits)
    then show ?thesis using move_to_inventory_kept [OF assms v] Some 2 by (simp add: shiftFurnaceSlot_def)
  next
    case 3
    let ?dst = "if CanPlaceFurnaceFuelSlot E (ItemID (get_slot p r)) then 1 else 0 :: nat"
    obtain stack moved where a: "addStackToFurnaceSlot E (ContainerSlots p ! ?dst) (get_slot p r) = (stack, moved)"
      by fastforce
    have run: "shiftFurnaceSlot E p slot =
        (if moved then put_slot (put_slot p (InContainer ?dst) stack) r no_item else p)"
      using Some 3 a by (simp only: shiftFurnaceSlot_def option.case Let_def prod.case if_False simp_thms)
    show ?thesis
    proof (cases moved)
      case False
      then show ?thesis using run assms(2) by simp
    next
      case True
      have dv: "valid_ref p (InContainer ?dst)" using len by simp
      have ok: "slot_ok (ContainerSlots p ! ?dst)" "slot_ok (get_slot p r)"
        using player_ok_get [OF assms(2) dv] player_ok_get [OF assms(2) v] by simp_all
      have "addStackToFurnaceSlot E (ContainerSlots p ! ?dst) (get_slot p r) = (stack, True)" using a True by (simp only:)
      note A = addStackToFurnaceSlot_ok [OF ok this]
      have "\<exists>i. r = InInventory i" using Some 3 by (auto simp: furnaceContainerSlot_def split: if_splits)
      then have ne: "r \<noteq> InContainer ?dst" by blast
      let ?q = "put_slot p (InContainer ?dst) stack"
      have "holdings E k ?q = holdings E k p + amount E k (get_slot p r)" for k
        using holdings_put [OF dv, of E k stack] A [of k] by simp
      moreover have "get_slot ?q r = get_slot p r" using ne by (intro get_put_other) simp
      moreover have "player_ok ?q" using assms(2) A by (intro player_ok_put) simp_all
      moreover have "same_screen ?q p" by (simp only: put_slot_screen same_screen_refl)
      moreover have "valid_ref ?q r" using v by (simp only: valid_put)
      ultimately have "kept E p (put_slot ?q r no_item)"
        by (simp only: kept_def player_ok_put slot_ok_no_item put_slot_screen holdings_put amount_no_item) simp
      then show ?thesis using run True by simp
    qed
  qed
qed

lemma return_slot_kept:
  assumes "env_ok E" "player_ok p" "i < InventorySize"
  shows "kept E p (return_slot E p i)"
proof -
  obtain inventory d where a: "addStackToInventory E ((Inventory p)[i := no_item]) (Inventory p ! i) = (inventory, d)" by fastforce
  show ?thesis
  proof (cases d)
    case False
    then show ?thesis using a assms(2) by (simp add: return_slot_def)
  next
    case True
    have "inventory_shape E ((Inventory p)[i := no_item])"
      using assms(1,2) by (simp add: inventory_shape_def player_ok_def)
    moreover have "slots_ok (Inventory p)" "i < length (Inventory p)" using assms(2,3) by (simp_all add: player_ok_def)
    ultimately show ?thesis
      using inv.move_within [of E "Inventory p" i inventory] a True assms(2)
      by (simp add: return_slot_def kept_def player_ok_def holdings_def same_screen_def)
  qed
qed

lemma swap_slots_kept:
  assumes "player_ok p" "i < InventorySize" "j < InventorySize" "IsEmpty (Inventory p ! j)" "\<not> IsEmpty (Inventory p ! i)"
  shows "kept E p (swap_slots p j i)"
proof -
  have ok: "slots_ok (Inventory p)" "length (Inventory p) = InventorySize" "slot_ok (Inventory p ! i)" "i \<noteq> j"
    using assms by (auto simp: player_ok_def intro: slots_ok_nth)
  let ?a = "(Inventory p)[j := Inventory p ! i]"
  have "total E k (?a[i := no_item]) = total E k (Inventory p)" for k
    using ok assms(2-4) by (simp add: total_update)
  moreover have "slots_ok (?a[i := no_item])" using ok by (intro slots_ok_update) auto
  ultimately show ?thesis
    using assms(1) ok by (simp add: swap_slots_def kept_def player_ok_def holdings_def same_screen_def)
qed

lemma first_empty_ok: "first_empty slots is = Some i \<Longrightarrow> IsEmpty (slots ! i) \<and> i \<in> set is"
  unfolding first_empty_def find_Some_iff by (metis nth_mem)

lemma armor_range: "armorInventorySlot E i \<ge> 5 \<Longrightarrow> armorInventorySlot E i \<le> 8"
  by (auto simp: armorInventorySlot_def split: option.splits if_splits)

lemma shift_player_cases:
  fixes E p slot
  defines "i \<equiv> nat slot" and "armor \<equiv> armorInventorySlot E (ItemID (Inventory p ! nat slot))"
    and "rng \<equiv> (if slot \<ge> 36 \<and> slot < 45 then [9..<36] else [36..<45])"
  obtains "shiftPlayerInventorySlot E p slot = p"
  | "shiftPlayerInventorySlot E p slot = return_slot E p i" "1 \<le> slot" "slot < int InventorySize"
  | "shiftPlayerInventorySlot E p slot = swap_slots p (nat armor) i" "1 \<le> slot" "slot < int InventorySize"
      "armor \<ge> 5" "IsEmpty (Inventory p ! nat armor)" "\<not> IsEmpty (Inventory p ! i)"
  | j where "shiftPlayerInventorySlot E p slot = swap_slots p j i" "1 \<le> slot" "slot < int InventorySize"
      "first_empty (Inventory p) rng = Some j" "\<not> IsEmpty (Inventory p ! i)"
proof -
  note d = shiftPlayerInventorySlot_def [of E p slot] i_def armor_def rng_def
  show thesis
  proof (cases "slot < 1 \<or> slot \<ge> int InventorySize \<or> IsEmpty (Inventory p ! i)")
    case True
    then have "shiftPlayerInventorySlot E p slot = p" unfolding d by (simp only: if_True)
    then show thesis by (rule that(1))
  next
    case False
    then have g: "1 \<le> slot" "slot < int InventorySize" "\<not> IsEmpty (Inventory p ! i)" by auto
    have run: "shiftPlayerInventorySlot E p slot =
      (if slot \<le> 4 then return_slot E p i
       else if slot \<ge> 9 \<and> armor \<ge> 5 \<and> IsEmpty (Inventory p ! nat armor) then swap_slots p (nat armor) i
       else if slot \<ge> 5 \<and> slot \<le> 8 then return_slot E p i
       else (case first_empty (Inventory p) rng of None \<Rightarrow> p | Some j \<Rightarrow> swap_slots p j i))"
      using False unfolding d Let_def by (simp only: if_False)
    show thesis
    proof (cases "slot \<ge> 9 \<and> armor \<ge> 5 \<and> IsEmpty (Inventory p ! nat armor)")
      case True
      then show thesis using run g by (intro that(3)) auto
    next
      case nope: False
      show thesis
      proof (cases "slot \<le> 8")
        case True
        then show thesis using run g nope by (intro that(2)) auto
      next
        case False
        then have r: "shiftPlayerInventorySlot E p slot =
            (case first_empty (Inventory p) rng of None \<Rightarrow> p | Some j \<Rightarrow> swap_slots p j i)"
          using run nope False by auto
        then show thesis using that(1) that(4) g by (cases "first_empty (Inventory p) rng") auto
      qed
    qed
  qed
qed

lemma shiftPlayerInventorySlot_kept:
  assumes "env_ok E" "player_ok p"
  shows "kept E p (shiftPlayerInventorySlot E p slot)"
proof -
  let ?i = "nat slot" and ?armor = "armorInventorySlot E (ItemID (Inventory p ! nat slot))"
  let ?range = "if slot \<ge> 36 \<and> slot < 45 then [9..<36] else [36..<45] :: nat list"
  consider (none) "shiftPlayerInventorySlot E p slot = p"
    | (return) "shiftPlayerInventorySlot E p slot = return_slot E p ?i" "1 \<le> slot" "slot < int InventorySize"
    | (armor) "shiftPlayerInventorySlot E p slot = swap_slots p (nat ?armor) ?i" "1 \<le> slot" "slot < int InventorySize"
        "?armor \<ge> 5" "IsEmpty (Inventory p ! nat ?armor)" "\<not> IsEmpty (Inventory p ! ?i)"
    | (move) j where "shiftPlayerInventorySlot E p slot = swap_slots p j ?i" "1 \<le> slot" "slot < int InventorySize"
        "first_empty (Inventory p) ?range = Some j" "\<not> IsEmpty (Inventory p ! ?i)"
    by (rule shift_player_cases [of E p slot])
  then show ?thesis
  proof cases
    case none
    then show ?thesis using assms(2) by simp
  next
    case return
    then show ?thesis using return_slot_kept [OF assms, of ?i] by (simp add: nat_less_iff)
  next
    case armor
    then show ?thesis
      using swap_slots_kept [OF assms(2), of ?i "nat ?armor" E] armor_range [OF armor(4)]
      by (simp add: nat_less_iff InventorySize_def)
  next
    case move
    have "j < InventorySize" using first_empty_ok [OF move(4)] by (auto simp: InventorySize_def split: if_splits)
    then show ?thesis
      using move swap_slots_kept [OF assms(2), of ?i j E] first_empty_ok [OF move(4)] by (simp add: nat_less_iff)
  qed
qed

lemma on_slot_kept:
  assumes "player_ok p" "valid_ref p r" "f (CarriedItem p) (get_slot p r) = (c', t')" "slot_ok c'" "slot_ok t'"
    and "\<And>k. amount E k c' + amount E k t' = amount E k (CarriedItem p) + amount E k (get_slot p r)"
  shows "kept E p (on_slot p r f)"
proof -
  have "on_slot p r f = put_slot (p\<lparr>CarriedItem := c'\<rparr>) r t'" using assms(3) by (simp add: on_slot_def)
  moreover have "holdings E k (put_slot (p\<lparr>CarriedItem := c'\<rparr>) r t') = holdings E k p" for k
    using assms(2) assms(6) [of k] by (simp add: holdings_put holdings_carried)
  ultimately show ?thesis using assms by (simp add: kept_def player_ok_put player_ok_carried)
qed

subsection \<open>Dragging\<close>

text \<open>One round of the distribution, where the drag places a positive amount.\<close>

lemma drag_round_kept:
  assumes "player_ok p" "valid_ref p r" "\<not> IsEmpty (CarriedItem p)"
    and "IsEmpty (get_slot p r) \<or> SameItem E (get_slot p r) (CarriedItem p)" "0 < n" "n \<le> Count (CarriedItem p)"
  shows "kept E p (on_slot p r (\<lambda>c t. (normalizeStack (c\<lparr>Count := Count c - n\<rparr>),
           if IsEmpty t then c\<lparr>Count := n\<rparr> else t\<lparr>Count := Count t + n\<rparr>)))"
proof (cases "IsEmpty (get_slot p r)")
  case True
  note A = amount_split [OF assms(3,5,6), of E]
  show ?thesis
    by (rule on_slot_kept [where c' = "normalizeStack ((CarriedItem p)\<lparr>Count := Count (CarriedItem p) - n\<rparr>)"
          and t' = "(CarriedItem p)\<lparr>Count := n\<rparr>", OF assms(1,2)]) (use A True in simp_all)
next
  case False
  have same: "SameItem E (get_slot p r) (CarriedItem p)" using assms(4) False by simp
  note A = amount_transfer [OF assms(3) False same _ assms(6)]
  show ?thesis
    by (rule on_slot_kept [where c' = "normalizeStack ((CarriedItem p)\<lparr>Count := Count (CarriedItem p) - n\<rparr>)"
          and t' = "(get_slot p r)\<lparr>Count := Count (get_slot p r) + n\<rparr>", OF assms(1,2)])
      (use A assms(5) False in simp_all)
qed

lemma drag_amount_le: "drag_amount E b c t n \<le> Count c"
  by (simp add: drag_amount_def Let_def)

lemma kept_ok: "kept E p q \<Longrightarrow> player_ok q"
  by (simp add: kept_def)

lemma drag_loop_kept:
  assumes "\<And>q s r. player_ok q \<Longrightarrow> targetFor q s = Some r \<Longrightarrow> valid_ref q r"
    and "player_ok p" "\<not> IsEmpty (CarriedItem p)"
  shows "kept E p (drag_loop E targetFor b slots n p)"
  using assms(2,3)
proof (induction slots arbitrary: n p)
  case Nil
  then show ?case by simp
next
  case (Cons slot slots)
  show ?case
  proof (cases "targetFor p slot")
    case None
    then show ?thesis using Cons by simp
  next
    case (Some r)
    have v: "valid_ref p r" using assms(1) Cons.prems(1) Some by blast
    show ?thesis
    proof (cases "\<not> IsEmpty (get_slot p r) \<and> \<not> SameItem E (get_slot p r) (CarriedItem p)")
      case True
      then show ?thesis using Cons Some by simp
    next
      case ok: False
      let ?n = "drag_amount E b (CarriedItem p) (get_slot p r) n"
      let ?q = "if ?n > 0 then on_slot p r (\<lambda>c t. (normalizeStack (c\<lparr>Count := Count c - ?n\<rparr>),
           if IsEmpty t then c\<lparr>Count := ?n\<rparr> else t\<lparr>Count := Count t + ?n\<rparr>)) else p"
      have q: "kept E p ?q"
        using drag_round_kept [OF Cons.prems(1) v Cons.prems(2), of E ?n] ok Cons.prems(1) drag_amount_le by auto
      have run: "drag_loop E targetFor b (slot # slots) n p =
          (if IsEmpty (CarriedItem ?q) then ?q else drag_loop E targetFor b slots (n - 1) ?q)"
        unfolding drag_loop.simps Let_def using Some ok by (simp only: option.case if_False simp_thms)
      show ?thesis
        unfolding run using q Cons.IH [OF kept_ok [OF q]] kept_trans [OF q] by auto
    qed
  qed
qed

text \<open>The counter of the loop is the number of slots left, so \<open>Count div remainingSlots\<close> divides by a positive number.\<close>

fun drag_rounds :: "int list \<Rightarrow> int \<Rightarrow> int list" where
  "drag_rounds [] n = []"
| "drag_rounds (s # ss) n = n # drag_rounds ss (n - 1)"

lemma drag_rounds_pos: "n = int (length slots) \<Longrightarrow> \<forall>m \<in> set (drag_rounds slots n). 0 < m"
  by (induction slots n rule: drag_rounds.induct) auto

lemma kept_quick [simp]:
  "kept E p (q\<lparr>QuickCraftSlots := x\<rparr>) = kept E p q" "kept E p (q\<lparr>QuickCraftButton := y\<rparr>) = kept E p q"
  by (simp_all add: kept_def player_ok_def same_screen_def holdings_def)

lemma handleQuickCraft_kept:
  assumes "\<And>q s r. player_ok q \<Longrightarrow> targetFor q s = Some r \<Longrightarrow> valid_ref q r" "player_ok p"
  shows "kept E p (handleQuickCraft E targetFor p slot button)"
proof -
  have "kept E p (drag_loop E targetFor b slots n p)" if "\<not> IsEmpty (CarriedItem p)" for b slots n
    using drag_loop_kept [of targetFor p] assms that by blast
  then show ?thesis using assms(2) by (simp add: handleQuickCraft_def Let_def)
qed

lemma inventory_target_valid: "player_ok q \<Longrightarrow> inventory_target E q s = Some r \<Longrightarrow> valid_ref q r"
  by (auto simp: inventory_target_def player_ok_def nat_less_iff split: if_splits)

lemma crafting_target_valid: "player_ok q \<Longrightarrow> crafting_target q s = Some r \<Longrightarrow> valid_ref q r"
  unfolding crafting_target_def by (rule crafting_ref_valid)

section \<open>The window handlers\<close>

text \<open>\<open>handleContainerClick\<close> for the inventory window and for the crafting table, after the packet is parsed.\<close>

definition inventory_window :: "item_env \<Rightarrow> item_tags \<Rightarrow> recipe list \<Rightarrow> player \<Rightarrow> int \<Rightarrow> byte \<Rightarrow> i32 \<Rightarrow> player option" where
  "inventory_window E T rs p slot button mode =
     map_option (\<lambda>q. refresh (updatePersonalCraftingResult T rs q))
       (if mode = 1 \<and> slot = 0 then shiftPersonalCraftingResult E T rs p
        else if mode = 0 \<and> slot = 0 then Some (takePersonalCraftingResult E p)
        else if mode = 1 then Some (shiftPlayerInventorySlot E p slot)
        else if mode = 0 then Some (clickPlayerInventorySlot E p slot button)
        else if mode = 5 then Some (handleQuickCraft E (inventory_target E) p slot button)
        else Some p)"

definition crafting_window :: "item_env \<Rightarrow> item_tags \<Rightarrow> recipe list \<Rightarrow> player \<Rightarrow> int \<Rightarrow> byte \<Rightarrow> i32 \<Rightarrow> player option" where
  "crafting_window E T rs p slot button mode =
     map_option (\<lambda>q. refresh (q\<lparr>CraftingResult := findCraftingResultIn T rs (CraftingGrid q)\<rparr>))
       (if mode = 1 \<and> slot = 0 then shiftCraftingResult E T rs p
        else if mode = 0 \<and> slot = 0 then Some (takeCraftingResult E p)
        else if mode = 1 then Some (shiftCraftingSlot E p slot)
        else if mode = 0 then Some (clickCraftingSlot E p slot button)
        else if mode = 5 then Some (handleQuickCraft E crafting_target p slot button)
        else Some p)"

lemma kept_refresh [simp]: "kept E p (refresh q) = kept E p q" "kept E p (q\<lparr>CraftingResult := x\<rparr>) = kept E p q"
  by (simp_all add: kept_def refresh_def player_ok_def same_screen_def holdings_def)


definition void_items :: item_env where
  "void_items = \<lparr>registry = \<lparr>reg_definitions = (\<lambda>_. None), reg_tags = (\<lambda>_. None)\<rparr>, norm_components = id\<rparr>"

lemma void_items_ok: "env_ok void_items"
  by (simp add: env_ok_def void_items_def registry_ok_def HasTag_def)


text \<open>C4: Every click on a chest screen inside the window, with any button and mode, keeps the slots
  well formed and the number of items of every kind the player and the screen hold together.\<close>

theorem chest_click_conserves:
  assumes "env_ok E" "player_ok p" "slot \<noteq> -999"
  shows "player_ok (applyChestClick E p slot button mode) \<and>
    (\<forall>k. holdings E k (applyChestClick E p slot button mode) = holdings E k p)"
  using applyChestClick_kept [OF assms] by (simp add: kept_def)

theorem chest_click_conserves_witness:
  "player_ok (applyChestClick void_items (new_player\<lparr>ContainerSlots := replicate 27 no_item\<rparr>) 3 1 0)"
proof -
  have "player_ok (new_player\<lparr>ContainerSlots := replicate 27 no_item\<rparr>)"
    using new_player_ok by (simp add: player_ok_def slots_ok_def list_all_iff)
  from chest_click_conserves [OF void_items_ok this, of 3 1 0] show ?thesis by simp
qed

section \<open>The shift click on the crafting result returns\<close>

text \<open>No recipe of the catalogue crafts something out of an empty grid.\<close>

definition no_free_result :: "item_tags \<Rightarrow> recipe list \<Rightarrow> bool" where
  "no_free_result T rs \<longleftrightarrow> (\<forall>grid. length grid = 9 \<longrightarrow> list_all IsEmpty grid \<longrightarrow> IsEmpty (findCraftingResultIn T rs grid))"

text \<open>C9: The endless loop behind a shift click on the crafting result returns for every grid, as long
  as no recipe makes something of an empty grid, and it stops only when the grid has no result any
  more or the result does not fit into the inventory.\<close>

theorem shift_crafting_returns:
  assumes "no_free_result T rs" "length (CraftingGrid p) = 9"
  shows "\<exists>q. shiftCraftingResult E T rs p = Some q \<and>
    (IsEmpty (findCraftingResultIn T rs (CraftingGrid q)) \<or>
     \<not> snd (addStackToInventory E (Inventory q) (findCraftingResultIn T rs (CraftingGrid q))))"
  using assms(2)
proof (induction "grid_size p" arbitrary: p rule: less_induct)
  case less
  let ?result = "findCraftingResultIn T rs (CraftingGrid p)"
  obtain inventory placed where a: "addStackToInventory E (Inventory p) ?result = (inventory, placed)" by fastforce
  consider "IsEmpty ?result" | "\<not> IsEmpty ?result" "\<not> placed" | "\<not> IsEmpty ?result" "placed" by blast
  then show ?case
  proof cases
    case 1
    then show ?thesis by (simp add: shiftCraftingResult.simps [of E T rs p])
  next
    case 2
    then have "shiftCraftingResult E T rs p = Some (p\<lparr>CraftingResult := ?result\<rparr>)"
      using a by (simp add: shiftCraftingResult.simps [of E T rs p])
    then show ?thesis using 2 a by simp
  next
    case 3
    let ?q = "consumeCraftingIngredients (p\<lparr>Inventory := inventory\<rparr>)"
    have run: "shiftCraftingResult E T rs p = shiftCraftingResult E T rs ?q"
      using 3 a by (simp add: shiftCraftingResult.simps [of E T rs p])
    have "\<not> list_all IsEmpty (CraftingGrid p)" using 3(1) assms(1) less.prems by (auto simp: no_free_result_def)
    then have "grid_size ?q < grid_size p"
      by (rule consume_grid_size) (simp add: consumeCraftingIngredients_def)
    moreover have "length (CraftingGrid ?q) = 9" using less.prems by (simp add: consumeCraftingIngredients_def)
    ultimately show ?thesis unfolding run by (rule less.hyps)
  qed
qed

lemma plank_no_free: "no_free_result (\<lambda>_. {}) [plank_recipe]"
  unfolding no_free_result_def
proof (intro allI impI)
  fix grid :: "item_stack list"
  assume len: "length grid = 9" and e: "list_all IsEmpty grid"
  show "IsEmpty (findCraftingResultIn (\<lambda>_. {}) [plank_recipe] grid)"
  proof (cases "shapedGridMatches (\<lambda>_. {}) plank_recipe grid")
    case False
    then show ?thesis by (simp add: plank_recipe_def)
  next
    case True
    then obtain y x m where y: "y < 3" "x < 3" "placed_at (\<lambda>_. {}) plank_recipe grid y x m"
      by (auto simp: shapedGridMatches_def list_ex_iff plank_recipe_def)
    then have "cell_matches (\<lambda>_. {}) plank_recipe grid y x m y x"
      by (simp add: placed_at_def list_all_iff)
    then have "\<not> IsEmpty (grid ! (y * 3 + x))" "ItemID (grid ! (y * 3 + x)) = ''minecraft:log''"
      by (auto simp: cell_matches_def plank_recipe_def Let_def split: if_splits)
    moreover have "y * 3 + x < length grid" using y(1,2) len by simp
    ultimately show ?thesis using e by (metis list_all_length)
  qed
qed

theorem shift_crafting_returns_witness:
  "\<exists>q. shiftCraftingResult void_items (\<lambda>_. {}) [plank_recipe] new_player = Some q"
  using shift_crafting_returns [OF plank_no_free, of new_player void_items] by (auto simp: new_player_def)

text \<open>
  Returning the crafting grid is not atomic: a stack that fits only in part is placed as far
  as it fits and stays in the grid as well, so a player with one almost full slot gains items.
\<close>

definition cobble :: "int \<Rightarrow> item_stack" where
  "cobble n = no_item\<lparr>ItemID := ''minecraft:cobblestone'', Count := n\<rparr>"

definition crowded_player :: player where
  "crowded_player = new_player\<lparr>Inventory := replicate 9 no_item @ replicate 35 (cobble 64) @ [cobble 60, no_item],
     CraftingGrid := cobble 10 # replicate 8 no_item\<rparr>"

lemma return_grid_duplicates:
  "total void_items (item_key void_items (cobble 1)) (Inventory crowded_player)
     + total void_items (item_key void_items (cobble 1)) (CraftingGrid crowded_player) = 35 * 64 + 60 + 10"
  "total void_items (item_key void_items (cobble 1)) (Inventory (returnCraftingGrid void_items crowded_player))
     + total void_items (item_key void_items (cobble 1)) (CraftingGrid (returnCraftingGrid void_items crowded_player))
     = 35 * 64 + 64 + 10"
  by code_simp+

end
