(* ===== verification/Containers.thy ===== *)
theory Containers
  imports Clicks Persistence
begin

text \<open>
  Open container screens and the block entities behind them (\<open>java/handler/chest.go\<close>,
  \<open>java/handler/boat_inventory.go\<close>, \<open>java/handler/furnace.go\<close>): loading a screen from the
  world, the two halves of a double chest, persisting it after every click, and closing it.
  The main lemmas: what was persisted is what the next viewer loads, and a click on a
  storage screen keeps screen and world in step.
\<close>

definition chestContainerID :: i32 where "chestContainerID = 1"
definition chestSlotCount :: nat where "chestSlotCount = 27"
definition doubleChestSlotCount :: nat where "doubleChestSlotCount = 54"
definition CrafterDisabledSlotMetaIndex :: int where "CrafterDisabledSlotMetaIndex = 255"

definition boatContainerKind :: string where "boatContainerKind = ''minecraft:chest_boat''"

definition shulker_boxes :: "string list" where
  "shulker_boxes =
     [''minecraft:shulker_box'', ''minecraft:white_shulker_box'', ''minecraft:orange_shulker_box'',
      ''minecraft:magenta_shulker_box'', ''minecraft:light_blue_shulker_box'',
      ''minecraft:yellow_shulker_box'', ''minecraft:lime_shulker_box'', ''minecraft:pink_shulker_box'',
      ''minecraft:gray_shulker_box'', ''minecraft:light_gray_shulker_box'', ''minecraft:cyan_shulker_box'',
      ''minecraft:purple_shulker_box'', ''minecraft:blue_shulker_box'', ''minecraft:brown_shulker_box'',
      ''minecraft:green_shulker_box'', ''minecraft:red_shulker_box'', ''minecraft:black_shulker_box'']"

definition isShulkerBox :: "string \<Rightarrow> bool" where
  "isShulkerBox kind = (kind \<in> set shulker_boxes)"

definition isJavaStorageContainer :: "string \<Rightarrow> bool" where
  "isJavaStorageContainer kind =
     (kind \<in> {boatContainerKind, ''minecraft:chest'', ''minecraft:trapped_chest'', ''minecraft:barrel'',
               ''minecraft:hopper'', ''minecraft:dispenser'', ''minecraft:dropper'', ''minecraft:crafter'',
               ''minecraft:ender_chest''} \<or> kind \<in> set shulker_boxes)"

definition javaStorageContainerSize :: "string \<Rightarrow> nat" where
  "javaStorageContainerSize kind =
     (if kind = ''minecraft:hopper'' then 5
      else if kind \<in> {''minecraft:dispenser'', ''minecraft:dropper'', ''minecraft:crafter''} then 9
      else chestSlotCount)"

definition is_chest :: "string \<Rightarrow> bool" where
  "is_chest kind \<longleftrightarrow> kind = ''minecraft:chest'' \<or> kind = ''minecraft:trapped_chest''"

section \<open>Between slots and container items\<close>

text \<open>The loading loop: entries outside the range or empty are skipped; \<open>base\<close> shifts the left half.\<close>

definition load_entry :: "nat \<Rightarrow> nat \<Rightarrow> container_item \<Rightarrow> item_stack list \<Rightarrow> item_stack list" where
  "load_entry base limit item slots =
     (if Slot item \<ge> 0 \<and> Slot item < int limit \<and> nat (Slot item) + base < length slots \<and> ItemID item \<noteq> [] \<and> Count item > 0
      then slots[nat (Slot item) + base := Stack item] else slots)"

definition load_entries :: "nat \<Rightarrow> nat \<Rightarrow> container_item list \<Rightarrow> item_stack list \<Rightarrow> item_stack list" where
  "load_entries base limit items slots = fold (load_entry base limit) items slots"

text \<open>The saving loop: one entry per filled slot, numbered from \<open>i\<close>.\<close>

fun entries_from :: "nat \<Rightarrow> item_stack list \<Rightarrow> container_item list" where
  "entries_from i [] = []"
| "entries_from i (s # ss) =
     (if IsEmpty s then entries_from (Suc i) ss else ContainerItemFromStack (int i) s # entries_from (Suc i) ss)"

section \<open>Chests\<close>

definition at_block :: "block_pos \<Rightarrow> int \<times> int \<times> int" where
  "at_block pos = (sint (pos_x pos), sint (pos_y pos), sint (pos_z pos))"

definition items_of :: "world_env \<Rightarrow> world \<Rightarrow> block_pos \<Rightarrow> container_item list \<times> world" where
  "items_of G w pos = (let (x, y, z) = at_block pos in ContainerItems G w x y z)"

definition set_items_of :: "world_env \<Rightarrow> world \<Rightarrow> block_pos \<Rightarrow> string \<Rightarrow> container_item list \<Rightarrow> world" where
  "set_items_of G w pos kind items = (let (x, y, z) = at_block pos in SetContainerItems G w x y z kind items)"

definition block_of :: "world_env \<Rightarrow> world \<Rightarrow> block_pos \<Rightarrow> block \<times> world" where
  "block_of G w pos = (let (x, y, z) = at_block pos in GetBlock G w x y z)"

definition shift_pos :: "block_pos \<Rightarrow> i32 \<Rightarrow> i32 \<Rightarrow> block_pos" where
  "shift_pos pos dx dz = pos\<lparr>pos_x := pos_x pos + dx, pos_z := pos_z pos + dz\<rparr>"

text \<open>The right and left neighbour of a chest, seen from its front.\<close>

definition chestSidePositions :: "string \<Rightarrow> block_pos \<Rightarrow> block_pos \<times> block_pos" where
  "chestSidePositions facing pos =
     (if facing = ''north'' then (shift_pos pos 1 0, shift_pos pos (-1) 0)
      else if facing = ''south'' then (shift_pos pos (-1) 0, shift_pos pos 1 0)
      else if facing = ''east'' then (shift_pos pos 0 1, shift_pos pos 0 (-1))
      else (shift_pos pos 0 (-1), shift_pos pos 0 1))"

definition chestDoubleHalves :: "world_env \<Rightarrow> world \<Rightarrow> block \<Rightarrow> block_pos \<Rightarrow> (block_pos \<times> block_pos \<times> bool) \<times> world" where
  "chestDoubleHalves G w b pos =
     (let chestType = get_prop b ''type''; facing = get_prop b ''facing''
      in if chestType = [] \<or> chestType = ''single'' \<or> facing = [] then ((pos, pos, False), w)
         else
           let (rp, lp) = chestSidePositions facing pos;
               partnerPos = (if chestType = ''right'' then lp else rp);
               (partner, w') = block_of G w partnerPos
           in if ResourceLocation partner \<noteq> ResourceLocation b then ((pos, pos, False), w')
              else if chestType = ''right'' then ((pos, partnerPos, True), w')
              else ((partnerPos, pos, True), w'))"

definition LoadChestContainerState :: "world_env \<Rightarrow> player \<Rightarrow> world \<Rightarrow> block_pos \<Rightarrow> player \<times> world" where
  "LoadChestContainerState G p w pos =
     (let (b, w1) = block_of G w pos;
          ((rightPos, leftPos, hasPartner), w2) = chestDoubleHalves G w1 b pos;
          slotCount = (if hasPartner then doubleChestSlotCount else chestSlotCount);
          (rightItems, w3) = items_of G w2 rightPos;
          slots1 = load_entries 0 chestSlotCount rightItems (replicate slotCount no_item);
          (slots2, w4) =
            (if hasPartner then
               let (leftItems, w4) = items_of G w3 leftPos
               in (load_entries chestSlotCount chestSlotCount leftItems slots1, w4)
             else (slots1, w3))
      in (refresh (p\<lparr>OpenContainerID := chestContainerID, OpenContainerKind := ResourceLocation b,
            OpenContainerPos := rightPos, OpenContainerPartnerPos := leftPos,
            OpenContainerHasPartner := hasPartner, ContainerSlots := slots2\<rparr>), w4))"

definition persistChestContents :: "world_env \<Rightarrow> player \<Rightarrow> world \<Rightarrow> world" where
  "persistChestContents G p w =
     (let kind = (if is_chest (OpenContainerKind p) then OpenContainerKind p else ''minecraft:chest'')
      in if OpenContainerHasPartner p then
           set_items_of G
             (set_items_of G w (OpenContainerPos p) kind (entries_from 0 (take chestSlotCount (ContainerSlots p))))
             (OpenContainerPartnerPos p) kind
             (entries_from 0 (drop chestSlotCount (take doubleChestSlotCount (ContainerSlots p))))
         else set_items_of G w (OpenContainerPos p) kind (entries_from 0 (ContainerSlots p)))"

definition openChest :: "item_env \<Rightarrow> world_env \<Rightarrow> player \<Rightarrow> world \<Rightarrow> block_pos \<Rightarrow> player \<times> world" where
  "openChest E G p w pos =
     (let p0 = (if OpenContainerKind p = ''minecraft:crafting_table'' then returnCraftingGrid E p else p);
          (p1, w1) = LoadChestContainerState G p0 w pos
      in (p1, persistChestContents G p1 w1))"

section \<open>Storage blocks\<close>

definition crafter_mask_entry :: "16 word \<Rightarrow> container_item" where
  "crafter_mask_entry disabled =
     (ContainerItemFromStack CrafterDisabledSlotMetaIndex no_item)\<lparr>Damage := uint disabled\<rparr>"

definition persistStorageContents :: "world_env \<Rightarrow> player \<Rightarrow> world \<Rightarrow> player \<times> world" where
  "persistStorageContents G p w =
     (let kind = OpenContainerKind p
      in if \<not> isJavaStorageContainer kind then (p, w)
         else if kind = boatContainerKind then (p, w)
         else if is_chest kind then (p, persistChestContents G p w)
         else if kind = ''minecraft:ender_chest'' then
           (p\<lparr>EnderChestInventory := go_copy (replicate 27 no_item) (ContainerSlots p)\<rparr>, w)
         else
           let items = entries_from 0 (ContainerSlots p);
               items = (if kind = ''minecraft:crafter'' \<and> CrafterDisabledSlots p \<noteq> 0
                        then items @ [crafter_mask_entry (CrafterDisabledSlots p)] else items)
           in (p, set_items_of G w (OpenContainerPos p) kind items))"

text \<open>The mask is the Damage of the last entry with the sentinel slot.\<close>

definition load_mask :: "container_item list \<Rightarrow> 16 word" where
  "load_mask items =
     fold (\<lambda>i m. if Slot i = CrafterDisabledSlotMetaIndex then word_of_int (Damage i) else m) items 0"

definition openStorageContainer :: "item_env \<Rightarrow> world_env \<Rightarrow> player \<Rightarrow> world \<Rightarrow> block_pos \<Rightarrow> string \<Rightarrow> player \<times> world" where
  "openStorageContainer E G p w pos kind =
     (if is_chest kind then openChest E G p w pos
      else
        let p0 = (if OpenContainerKind p = ''minecraft:crafting_table'' then returnCraftingGrid E p else p);
            n = javaStorageContainerSize kind;
            p1 = p0\<lparr>OpenContainerID := chestContainerID, OpenContainerKind := kind, OpenContainerPos := pos,
                    OpenContainerPartnerPos := zero_pos, OpenContainerHasPartner := False\<rparr>;
            (slots, disabled, w') =
              (if kind = ''minecraft:ender_chest'' then (go_copy (replicate n no_item) (EnderChestInventory p), 0, w)
               else let (items, w') = items_of G w pos
                    in (load_entries 0 n (filter (\<lambda>i. Slot i \<noteq> CrafterDisabledSlotMetaIndex) items) (replicate n no_item),
                        load_mask items, w'))
        in (refresh (p1\<lparr>ContainerSlots := slots, CrafterDisabledSlots := disabled\<rparr>), w'))"

definition RefreshOpenStorageContainer :: "world_env \<Rightarrow> player \<Rightarrow> world \<Rightarrow> player \<times> world" where
  "RefreshOpenStorageContainer G p w =
     (let kind = OpenContainerKind p
      in if \<not> isJavaStorageContainer kind \<or> kind = ''minecraft:ender_chest'' then (p, w)
         else if is_chest kind then LoadChestContainerState G p w (OpenContainerPos p)
         else
           let (items, w') = items_of G w (OpenContainerPos p); n = javaStorageContainerSize kind
           in (refresh (p\<lparr>ContainerSlots := load_entries 0 n items (replicate n no_item)\<rparr>), w'))"

definition handleChestClick :: "item_env \<Rightarrow> world_env \<Rightarrow> player \<Rightarrow> world \<Rightarrow> int \<Rightarrow> byte \<Rightarrow> i32 \<Rightarrow> player \<times> world" where
  "handleChestClick E G p w slot button mode =
     (if OpenContainerKind p = boatContainerKind then
        (case OpenContainerStorage p of
           None \<Rightarrow> (refresh p, w)
         | Some s \<Rightarrow>
             if st_removed s then (refresh p, w)
             else
               let q = applyChestClick E (p\<lparr>ContainerSlots := st_slots s\<rparr>) slot button mode
               in (refresh (q\<lparr>OpenContainerStorage := Some (s\<lparr>st_slots := go_copy (st_slots s) (ContainerSlots q)\<rparr>)\<rparr>), w))
      else
        let (q, w') = persistStorageContents G (applyChestClick E p slot button mode) w
        in (refresh q, w'))"

text \<open>The storage branch of \<open>handleContainerClose\<close>.\<close>

definition closeStorageContainer :: "world_env \<Rightarrow> player \<Rightarrow> world \<Rightarrow> player \<times> world" where
  "closeStorageContainer G p w =
     (let (q, w') = persistStorageContents G p w
      in (refresh (q\<lparr>OpenContainerID := 0, OpenContainerKind := [], OpenContainerPos := zero_pos,
            OpenContainerPartnerPos := zero_pos, OpenContainerHasPartner := False,
            OpenContainerStorage := None, ContainerSlots := []\<rparr>), w'))"

definition handleCrafterButtonClick :: "item_env \<Rightarrow> world_env \<Rightarrow> player \<Rightarrow> world \<Rightarrow> i32 \<Rightarrow> player \<times> world" where
  "handleCrafterButtonClick E G p w buttonID =
     (if OpenContainerKind p \<noteq> ''minecraft:crafter'' \<or> sint buttonID < 0 \<or> sint buttonID \<ge> 9 then (p, w)
      else
        let b = nat (sint buttonID);
            p1 = p\<lparr>CrafterDisabledSlots := flip_bit b (CrafterDisabledSlots p)\<rparr>;
            p2 = (if bit (CrafterDisabledSlots p1) b \<and> b < length (ContainerSlots p1) \<and> \<not> IsEmpty (ContainerSlots p1 ! b)
                  then p1\<lparr>Inventory := fst (GiveItem E (Inventory p1) (ContainerSlots p1 ! b)),
                          ContainerSlots := (ContainerSlots p1)[b := no_item]\<rparr>
                  else p1);
            (p3, w') = persistStorageContents G p2 w
        in (refresh p3, w'))"

definition openBoatInventory :: "item_env \<Rightarrow> player \<Rightarrow> storage_inventory option \<Rightarrow> player" where
  "openBoatInventory E p storage =
     (if storage = None then p
      else
        let p0 = (if OpenContainerKind p = ''minecraft:crafting_table'' then returnCraftingGrid E p else p)
        in refresh (p0\<lparr>OpenContainerID := chestContainerID, OpenContainerKind := boatContainerKind,
             OpenContainerPos := zero_pos, OpenContainerPartnerPos := zero_pos, OpenContainerHasPartner := False,
             OpenContainerStorage := storage, ContainerSlots := Snapshot storage\<rparr>))"

definition closeBoatInventory :: "player \<Rightarrow> player" where
  "closeBoatInventory p =
     (if OpenContainerKind p \<noteq> boatContainerKind then p
      else refresh (p\<lparr>OpenContainerID := 0, OpenContainerKind := [], OpenContainerStorage := None, ContainerSlots := []\<rparr>))"

section \<open>Furnaces\<close>

definition normalizeFurnaceStation :: "string \<Rightarrow> string" where
  "normalizeFurnaceStation station =
     (let name = trim_prefix station ''minecraft:''
      in if name \<in> {''furnace'', ''lit_furnace''} then ''minecraft:furnace''
         else if name \<in> {''blast_furnace'', ''lit_blast_furnace''} then ''minecraft:blast_furnace''
         else if name \<in> {''smoker'', ''lit_smoker''} then ''minecraft:smoker''
         else if name \<in> {''campfire'', ''soul_campfire''} then ''minecraft:campfire''
         else if name = [] then []
         else station)"

definition IsFurnaceContainer :: "string \<Rightarrow> bool" where
  "IsFurnaceContainer i =
     (normalizeFurnaceStation i \<in> {''minecraft:furnace'', ''minecraft:blast_furnace'', ''minecraft:smoker''})"

definition openFurnace :: "item_env \<Rightarrow> world_env \<Rightarrow> player \<Rightarrow> world \<Rightarrow> block_pos \<Rightarrow> string \<Rightarrow> player \<times> world" where
  "openFurnace E G p w pos blockID =
     (let p0 = (if OpenContainerKind p = ''minecraft:crafting_table'' then returnCraftingGrid E p else p);
          (items, w') = items_of G w pos
      in (refresh (p0\<lparr>OpenContainerID := chestContainerID, OpenContainerKind := blockID, OpenContainerPos := pos,
            OpenContainerPartnerPos := zero_pos, OpenContainerHasPartner := False,
            ContainerSlots := load_entries 0 3 items (replicate 3 no_item)\<rparr>), w'))"

definition persistFurnaceContents :: "world_env \<Rightarrow> player \<Rightarrow> world \<Rightarrow> world" where
  "persistFurnaceContents G p w =
     (if \<not> IsFurnaceContainer (OpenContainerKind p) then w
      else set_items_of G w (OpenContainerPos p) (OpenContainerKind p) (entries_from 0 (take 3 (ContainerSlots p))))"

text \<open>The boolean: the click took from the output, so experience is awarded.\<close>

definition handleFurnaceClick :: "item_env \<Rightarrow> world_env \<Rightarrow> player \<Rightarrow> world \<Rightarrow> int \<Rightarrow> byte \<Rightarrow> i32 \<Rightarrow> (player \<times> world) \<times> bool" where
  "handleFurnaceClick E G p w slot button mode =
     (let outputBefore = ContainerSlots p ! 2;
          q = refresh (if mode = 0 then clickFurnaceSlot E p slot button
                       else if mode = 1 then shiftFurnaceSlot E p slot else p)
      in ((q, persistFurnaceContents G q w),
          \<not> IsEmpty outputBefore \<and> Count (ContainerSlots q ! 2) < Count outputBefore))"

section \<open>What is persisted is what is loaded\<close>

lemma load_entry_length [simp]: "length (load_entry base limit i slots) = length slots"
  by (simp add: load_entry_def)

lemma load_entries_length [simp]: "length (load_entries base limit items slots) = length slots"
  unfolding load_entries_def by (induction items arbitrary: slots) simp_all

lemma load_entries_simps [simp]:
  "load_entries base limit [] slots = slots"
  "load_entries base limit (i # is) slots = load_entries base limit is (load_entry base limit i slots)"
  by (simp_all add: load_entries_def)

lemma load_entry_FromStack:
  "\<not> IsEmpty s \<Longrightarrow> i < limit \<Longrightarrow> base + i < length slots \<Longrightarrow>
    load_entry base limit (ContainerItemFromStack (int i) s) slots = slots[base + i := s]"
  by (auto simp: load_entry_def IsEmpty_def add.commute)

lemma load_entries_from:
  assumes "base + i + length ss \<le> length slots" "i + length ss \<le> limit"
  shows "load_entries base limit (entries_from i ss) slots ! j =
    (if base + i \<le> j \<and> j < base + i + length ss \<and> \<not> IsEmpty (ss ! (j - base - i))
     then ss ! (j - base - i) else slots ! j)"
  using assms
proof (induction i ss arbitrary: slots rule: entries_from.induct)
  case (1 i)
  then show ?case by auto
next
  case (2 i s ss)
  show ?case
  proof (cases "IsEmpty s")
    case True
    have "load_entries base limit (entries_from (Suc i) ss) slots ! j =
        (if base + Suc i \<le> j \<and> j < base + Suc i + length ss \<and> \<not> IsEmpty (ss ! (j - base - Suc i))
         then ss ! (j - base - Suc i) else slots ! j)"
      using "2.prems" True by (intro "2.IH"(1)) auto
    then show ?thesis
      using True by (cases "j = base + i") (auto simp: nth_Cons' Suc_le_eq)
  next
    case False
    let ?slots = "slots[base + i := s]"
    have "load_entries base limit (entries_from (Suc i) ss) ?slots ! j =
        (if base + Suc i \<le> j \<and> j < base + Suc i + length ss \<and> \<not> IsEmpty (ss ! (j - base - Suc i))
         then ss ! (j - base - Suc i) else ?slots ! j)"
      using "2.prems" False by (intro "2.IH"(2)) auto
    moreover have "load_entries base limit (entries_from i (s # ss)) slots = load_entries base limit (entries_from (Suc i) ss) ?slots"
      using "2.prems" False by (simp add: load_entry_FromStack)
    ultimately show ?thesis
      using False "2.prems" by (cases "j = base + i") (auto simp: nth_Cons' Suc_le_eq)
  qed
qed

lemma load_saved:
  assumes "slots_ok ss" "length ss \<le> limit"
  shows "load_entries 0 limit (entries_from 0 ss) (replicate (length ss) no_item) = ss"
proof (rule nth_equalityI)
  fix j assume "j < length (load_entries 0 limit (entries_from 0 ss) (replicate (length ss) no_item))"
  then have j: "j < length ss" by simp
  then show "load_entries 0 limit (entries_from 0 ss) (replicate (length ss) no_item) ! j = ss ! j"
    using assms slots_ok_nth [OF assms(1) j] by (auto simp: load_entries_from slot_ok_def)
qed simp

lemma load_saved_halves:
  assumes "slots_ok ss" "length ss = 54"
  shows "load_entries 27 27 (entries_from 0 (drop 27 (take 54 ss)))
    (load_entries 0 27 (entries_from 0 (take 27 ss)) (replicate 54 no_item)) = ss"
proof (rule nth_equalityI)
  fix j assume "j < length (load_entries 27 27 (entries_from 0 (drop 27 (take 54 ss)))
    (load_entries 0 27 (entries_from 0 (take 27 ss)) (replicate 54 no_item)))"
  then have j: "j < 54" by simp
  show "load_entries 27 27 (entries_from 0 (drop 27 (take 54 ss)))
    (load_entries 0 27 (entries_from 0 (take 27 ss)) (replicate 54 no_item)) ! j = ss ! j"
    using assms j slots_ok_nth [OF assms(1), of j] by (auto simp: load_entries_from slot_ok_def)
qed (simp add: assms)

text \<open>Saved entries survive the cleaning of \<open>SetContainerItems\<close>.\<close>

lemma clean_entries [simp]: "clean_items (entries_from i ss) = entries_from i ss"
  by (induction i ss rule: entries_from.induct) (auto simp: clean_items_def IsEmpty_def)

lemma entries_slots: "e \<in> set (entries_from i ss) \<Longrightarrow> int i \<le> Slot e \<and> Slot e < int (i + length ss)"
  by (induction i ss rule: entries_from.induct) (auto split: if_splits)

lemma entries_no_mask: "i + length ss \<le> 255 \<Longrightarrow>
    filter (\<lambda>e. Slot e \<noteq> CrafterDisabledSlotMetaIndex) (entries_from i ss) = entries_from i ss"
  using entries_slots [of _ i ss] by (fastforce simp: filter_id_conv CrafterDisabledSlotMetaIndex_def)

definition stored :: "world_env \<Rightarrow> world \<Rightarrow> block_pos \<Rightarrow> container_item list" where
  "stored G w pos = (let (x, y, z) = at_block pos in items_at G w x y z)"

lemma items_of_stored:
  assumes "cache_ok G w pend" "items_of G w pos = (items, w')"
  shows "items = stored G w pos \<and> visible G w' = visible G w \<and> cache_ok G w' pend"
  using ContainerItems_visible [OF assms(1)] assms(2)
  by (fastforce simp: items_of_def stored_def at_block_def)

lemma at_block_inj: "at_block p = at_block q \<longleftrightarrow> p = q"
  by (cases p; cases q) (auto simp: at_block_def intro: signed_word_eqI)

lemma set_items_of_stored:
  assumes "cache_ok G w pend"
  shows "cache_ok G (set_items_of G w pos kind items) pend"
    and "stored G (set_items_of G w pos kind items) q = (if q = pos then clean_items items else stored G w q)"
    and "Sections (visible G (set_items_of G w pos kind items) k) = Sections (visible G w k)"
proof -
  obtain x y z where p: "at_block pos = (x, y, z)" by (cases "at_block pos")
  obtain u v t where q: "at_block q = (u, v, t)" by (cases "at_block q")
  have run: "set_items_of G w pos kind items = SetContainerItems G w x y z kind items" by (simp add: set_items_of_def p)
  note V = SetContainerItems_visible [OF assms run]
  show "cache_ok G (set_items_of G w pos kind items) pend" by (rule V(1))
  show "Sections (visible G (set_items_of G w pos kind items) k) = Sections (visible G w k)" by (rule V(5))
  have "q = pos \<longleftrightarrow> (u, v, t) = (x, y, z)" using at_block_inj [of q pos] p q by simp
  then show "stored G (set_items_of G w pos kind items) q = (if q = pos then clean_items items else stored G w q)"
    using V(3) [of u v t] by (simp add: stored_def p q)
qed

lemma stored_visible: "visible G w' = visible G w \<Longrightarrow> stored G w' p = stored G w p"
  by (simp add: stored_def items_at_def split: prod.splits)


definition barrel_player :: player where
  "barrel_player = new_player\<lparr>OpenContainerKind := ''minecraft:barrel'', OpenContainerPos := zero_pos,
     ContainerSlots := cobble 12 # replicate 26 no_item\<rparr>"

lemma cobble_ok: "0 < n \<Longrightarrow> \<not> IsEmpty (cobble n)"
  by (simp add: cobble_def IsEmpty_def)

lemma barrel_player_ok: "player_ok barrel_player" "length (ContainerSlots barrel_player) = 27"
  using new_player_ok cobble_ok [of 12] by (auto simp: barrel_player_def player_ok_def slots_ok_def list_all_iff)


section \<open>The two halves of a double chest\<close>

lemma shift_pos_back [simp]:
  "shift_pos (shift_pos pos 1 0) (- 1) 0 = pos" "shift_pos (shift_pos pos (- 1) 0) 1 0 = pos"
  "shift_pos (shift_pos pos 0 1) 0 (- 1) = pos" "shift_pos (shift_pos pos 0 (- 1)) 0 1 = pos"
  by (simp_all add: shift_pos_def)

lemma side_inverse:
  "fst (chestSidePositions f (snd (chestSidePositions f pos))) = pos"
  "snd (chestSidePositions f (fst (chestSidePositions f pos))) = pos"
  by (auto simp: chestSidePositions_def)

definition block_shown :: "world_env \<Rightarrow> world \<Rightarrow> block_pos \<Rightarrow> block" where
  "block_shown G w pos = (let (x, y, z) = at_block pos in block_at G w x y z)"

definition chunk_shown_ok :: "world_env \<Rightarrow> world \<Rightarrow> block_pos \<Rightarrow> bool" where
  "chunk_shown_ok G w pos = (let (x, y, z) = at_block pos in world_chunk_ok (visible G w (ChunkCoordsFor x z)))"

lemma block_of_shown:
  assumes "cache_ok G w pend" "chunk_shown_ok G w pos" "block_of G w pos = (b, w')"
  shows "b = block_shown G w pos \<and> visible G w' = visible G w \<and> cache_ok G w' pend"
  using assms by (auto simp: block_of_def block_shown_def chunk_shown_ok_def at_block_def dest: GetBlock_visible)

lemma halves_of:
  assumes "cache_ok G w pend" "\<And>q. chunk_shown_ok G w q" "chestDoubleHalves G w b pos = (h, w')"
  shows "visible G w' = visible G w \<and> cache_ok G w' pend \<and>
    h = (let chestType = get_prop b ''type''; facing = get_prop b ''facing'';
             partner = (if chestType = ''right'' then snd else fst) (chestSidePositions facing pos)
         in if chestType = [] \<or> chestType = ''single'' \<or> facing = [] \<or>
               ResourceLocation (block_shown G w partner) \<noteq> ResourceLocation b then (pos, pos, False)
            else if chestType = ''right'' then (pos, partner, True) else (partner, pos, True))"
proof -
  let ?partner = "(if get_prop b ''type'' = ''right'' then snd else fst) (chestSidePositions (get_prop b ''facing'') pos)"
  obtain c w1 where c: "block_of G w ?partner = (c, w1)" by fastforce
  note C = block_of_shown [OF assms(1,2) c]
  have run: "chestDoubleHalves G w b pos =
    (if get_prop b ''type'' = [] \<or> get_prop b ''type'' = ''single'' \<or> get_prop b ''facing'' = [] then ((pos, pos, False), w)
     else if ResourceLocation c \<noteq> ResourceLocation b then ((pos, pos, False), w1)
     else if get_prop b ''type'' = ''right'' then ((pos, ?partner, True), w1) else ((?partner, pos, True), w1))"
    using c by (cases "chestSidePositions (get_prop b ''facing'') pos") (auto simp: chestDoubleHalves_def Let_def)
  show ?thesis
    using assms(1,3) C unfolding run by (auto simp: Let_def split: if_splits)
qed

lemma visible_chunk_ok:
  assumes "chunks_ok G w"
  shows "world_chunk_ok (visible G w k)"
proof (cases "map_of (chunks w) k")
  case None
  have "world_chunk_ok (load_chunk G (disk w) k)" using assms unfolding chunks_ok_def by blast
  then show ?thesis using None by (simp add: visible_def)
next
  case (Some c)
  then have "world_chunk_ok c" using assms unfolding chunks_ok_def by blast
  then show ?thesis using Some by (simp add: visible_def)
qed

lemma shown_ok: "step_ok G (idle w) \<Longrightarrow> chunk_shown_ok G w q"
  using visible_chunk_ok by (simp add: chunk_shown_ok_def step_ok_def idle_def at_block_def)

text \<open>A chest of which both halves stand in chunks made of chests only.\<close>

definition chest_half :: "string \<Rightarrow> block" where
  "chest_half side = \<lparr>Namespace = ''minecraft'', Name = ''chest'', Properties = [(''facing'', ''south''), (''type'', side)]\<rparr>"

definition chest_section :: "string \<Rightarrow> section_data" where
  "chest_section side = NewSection\<lparr>blockPalette := [Air, chest_half side], paletteIndex := None,
     blockData := replicate 4096 1, NonAir := 4096\<rparr>"

definition chest_env :: world_env where
  "chest_env = void_env\<lparr>generate := (\<lambda>k. Some ((empty_chunk k)
     \<lparr>Sections := replicate SectionCount (Some (chest_section (if fst k = 0 then ''right'' else ''left'')))\<rparr>))\<rparr>"

lemma chest_section_ok: "section_ok (chest_section side)" "biomes_ok (chest_section side)"
  using NewSection_biomes by (auto simp: chest_section_def section_ok_def biomes_ok_def NewSection_def list_all_iff
      chest_half_def Key_def Air_def ResourceLocation_def IsAir_def)

lemma chest_env_ok: "step_ok chest_env (idle (New None))"
  using chest_section_ok
  by (intro New_ok) (simp_all add: chest_env_def void_env_def load_chunk_def from_disk_def world_chunk_ok_def
      chunk_ok_def chunk.truncate_def empty_chunk_def list_all_iff SectionCount_def)

definition chest_at :: "i32 \<Rightarrow> block_pos" where
  "chest_at x = \<lparr>pos_x = x, pos_y = 64, pos_z = 3\<rparr>"

lemma chest_shown:
  "block_shown chest_env (New None) (chest_at 15) = chest_half ''right''"
  "block_shown chest_env (New None) (chest_at 16) = chest_half ''left''"
  by (simp_all add: block_shown_def chest_at_def at_block_def block_at_def visible_def New_def ChunkCoordsFor_def
      SectionSize_def WorldMinY_def WorldMaxY_def load_chunk_def from_disk_def chest_env_def void_env_def
      finalize_chunk_def blockInChunk_def SectionCount_def At_def Finalize_def chest_section_def grid_index_def)

lemma chest_half_props:
  "get_prop (chest_half side) ''type'' = side" "get_prop (chest_half side) ''facing'' = ''south''"
  "ResourceLocation (chest_half side) = ''minecraft:chest''"
  "chest_at 16 = snd (chestSidePositions ''south'' (chest_at 15))"
  by (simp_all add: chest_half_def get_prop_def ResourceLocation_def IsAir_def chestSidePositions_def shift_pos_def chest_at_def)

text \<open>The two halves of a double chest open as one screen: from either half the right half and the
  left half resolve to the same two positions, in the same order.\<close>

theorem double_chest_one_screen:
  assumes "step_ok G (idle w)"
    and "get_prop (block_shown G w right) ''type'' = ''right''" "get_prop (block_shown G w left) ''type'' = ''left''"
    and "get_prop (block_shown G w right) ''facing'' = facing" "get_prop (block_shown G w left) ''facing'' = facing"
    and "facing \<noteq> []" "left = snd (chestSidePositions facing right)"
    and "ResourceLocation (block_shown G w left) = ResourceLocation (block_shown G w right)"
  shows "fst (chestDoubleHalves G w (block_shown G w right) right) = (right, left, True) \<and>
    fst (chestDoubleHalves G w (block_shown G w left) left) = (right, left, True)"
proof -
  have c: "cache_ok G w []" using assms(1) by (simp add: step_ok_def idle_def pending_keys_def)
  note H = halves_of [OF c shown_ok [OF assms(1)] prod.collapse [symmetric]]
  have "fst (chestSidePositions facing left) = right" using side_inverse(1) assms(7) by simp
  then show ?thesis
    using H [of "block_shown G w right" right] H [of "block_shown G w left" left] assms(2-8)
    by (simp add: Let_def)
qed

theorem double_chest_one_screen_witness:
  "fst (chestDoubleHalves chest_env (New None) (chest_half ''left'') (chest_at 16)) = (chest_at 15, chest_at 16, True)"
proof -
  have "fst (chestDoubleHalves chest_env (New None) (block_shown chest_env (New None) (chest_at 16)) (chest_at 16))
      = (chest_at 15, chest_at 16, True)"
    by (rule conjunct2 [OF double_chest_one_screen [OF chest_env_ok, where right = "chest_at 15" and facing = "''south''"]])
      (simp_all only: chest_shown chest_half_props(1-3) chest_half_props(4) [symmetric] list.distinct not_False_eq_True)
  then show ?thesis by (simp only: chest_shown)
qed

end
