(* ===== verification/Furnaces.thy ===== *)
theory Furnaces
  imports Containers
begin

text \<open>
  The furnace simulation (\<open>server/furnace.go\<close>) and the index of cooking recipes
  (\<open>java/handler/furnace_recipes.go\<close>). A furnace is its three slots in the world (input, fuel,
  output) and the state the server keeps for it; the body of the loop of \<open>tickFurnaces\<close> is
  \<open>tickFurnace\<close>. The lemmas account for every item a furnace consumes and makes, and time
  the cooking of one item.
\<close>

section \<open>Cooking recipes\<close>

record recipe_description =
  rd_name :: string
  rd_kind :: string
  rd_station :: string
  rd_ingredients :: "string list list"
  rd_result :: item_stack
  rd_time :: i32
  rd_experience :: "32 word"

record cooking_recipe =
  ck_name :: string
  ck_station :: string
  ck_ingredients :: "string list"
  ck_result :: item_stack
  ck_time :: int
  ck_experience :: "32 word"

type_synonym recipe_index = "string \<Rightarrow> string \<Rightarrow> cooking_recipe option"

definition cooking_description :: "recipe_description \<Rightarrow> cooking_recipe option" where
  "cooking_description r =
     (if rd_kind r \<noteq> ''furnace'' \<or> length (rd_ingredients r) \<noteq> 1 \<or> IsEmpty (rd_result r) then None
      else Some \<lparr>ck_name = rd_name r, ck_station = rd_station r, ck_ingredients = rd_ingredients r ! 0,
                 ck_result = rd_result r, ck_time = sint (rd_time r), ck_experience = rd_experience r\<rparr>)"

definition index_recipe :: "recipe_index \<Rightarrow> recipe_description \<Rightarrow> recipe_index" where
  "index_recipe ix r =
     (case cooking_description r of
        None \<Rightarrow> ix
      | Some d \<Rightarrow> ix(rd_station r := fold (\<lambda>i m. m(i \<mapsto> d)) (ck_ingredients d) (ix (rd_station r))))"

definition buildCookingRecipeIndex :: "recipe_description list \<Rightarrow> recipe_index" where
  "buildCookingRecipeIndex catalog = foldl index_recipe (\<lambda>_. Map.empty) catalog"

definition FindCookingRecipe :: "recipe_index \<Rightarrow> string \<Rightarrow> string \<Rightarrow> cooking_recipe option" where
  "FindCookingRecipe ix station ingredient = ix (normalizeFurnaceStation station) ingredient"

definition FurnaceFuelRemainder :: "string \<Rightarrow> item_stack" where
  "FurnaceFuelRemainder i =
     (if i = ''minecraft:lava_bucket'' then no_item\<lparr>ItemID := ''minecraft:bucket'', Count := 1\<rparr> else no_item)"

section \<open>The state of a furnace\<close>

record recipe_use =
  use_count :: int
  use_experience :: "32 word"

record furnace_state =
  BurnTime :: int
  BurnDuration :: int
  CookTime :: int
  CookDuration :: int
  RecipesUsed :: "string \<Rightarrow> recipe_use option"

definition recordRecipe :: "furnace_state \<Rightarrow> cooking_recipe \<Rightarrow> furnace_state" where
  "recordRecipe st r =
     (let n = (case RecipesUsed st (ck_name r) of None \<Rightarrow> 0 | Some u \<Rightarrow> use_count u)
      in st\<lparr>RecipesUsed := (RecipesUsed st)(ck_name r \<mapsto> \<lparr>use_count = n + 1, use_experience = ck_experience r\<rparr>)\<rparr>)"

definition furnaceCanAccept :: "item_env \<Rightarrow> item_stack list \<Rightarrow> item_stack \<Rightarrow> bool" where
  "furnaceCanAccept E slots result =
     (if length slots < 3 \<or> IsEmpty result then False
      else let output = slots ! 2
           in if IsEmpty output then Count result \<le> MaxStackSize E (ItemID result)
              else ItemID output = ItemID result \<and> Damage output = Damage result \<and>
                   Count output + Count result \<le> MaxStackSize E (ItemID output))"

definition consumeFurnaceFuel :: "item_stack list \<Rightarrow> item_stack list" where
  "consumeFurnaceFuel slots =
     (if length slots < 3 \<or> IsEmpty (slots ! 1) then slots
      else
        let remainder = FurnaceFuelRemainder (ItemID (slots ! 1));
            fuel = (slots ! 1)\<lparr>Count := Count (slots ! 1) - 1\<rparr>
        in slots[1 := (if Count fuel \<le> 0 then remainder else fuel)])"

section \<open>One tick\<close>

definition fast_station :: "string \<Rightarrow> bool" where
  "fast_station station =
     (trim_prefix station ''minecraft:'' \<in> {''blast_furnace'', ''lit_blast_furnace'', ''smoker'', ''lit_smoker''})"

definition burn_duration :: "item_env \<Rightarrow> string \<Rightarrow> string \<Rightarrow> int" where
  "burn_duration E station fuel =
     (if fast_station station then FurnaceFuelDuration E fuel div 2 else FurnaceFuelDuration E fuel)"

text \<open>Burning down, then lighting the next piece of fuel.\<close>

definition burn_step :: "item_env \<Rightarrow> string \<Rightarrow> bool \<Rightarrow> furnace_state \<times> item_stack list \<Rightarrow> furnace_state \<times> item_stack list" where
  "burn_step E station canCook = (\<lambda>(st, slots).
     (if BurnTime st = 0 \<and> canCook \<and> 1 < length slots \<and> FurnaceFuelDuration E (ItemID (slots ! 1)) > 0
      then (st\<lparr>BurnTime := burn_duration E station (ItemID (slots ! 1)),
               BurnDuration := burn_duration E station (ItemID (slots ! 1))\<rparr>, consumeFurnaceFuel slots)
      else (st, slots)))"

text \<open>One input becomes one result.\<close>

definition craft_slots :: "cooking_recipe \<Rightarrow> item_stack list \<Rightarrow> item_stack list" where
  "craft_slots r slots =
     (let slots = (if ItemID (slots ! 0) = ''minecraft:wet_sponge'' \<and> ItemID (slots ! 1) = ''minecraft:bucket''
                   then slots[1 := no_item\<lparr>ItemID := ''minecraft:water_bucket'', Count := 1\<rparr>] else slots);
          slots = slots[0 := normalizeStack ((slots ! 0)\<lparr>Count := Count (slots ! 0) - 1\<rparr>)]
      in slots[2 := (if IsEmpty (slots ! 2) then ck_result r
                     else (slots ! 2)\<lparr>Count := Count (slots ! 2) + Count (ck_result r)\<rparr>)])"

definition cook_step :: "cooking_recipe option \<Rightarrow> bool \<Rightarrow> furnace_state \<times> item_stack list \<Rightarrow> furnace_state \<times> item_stack list" where
  "cook_step recipe canCook = (\<lambda>(st, slots).
     (case recipe of
        Some r \<Rightarrow>
          if BurnTime st > 0 \<and> canCook then
            let st = st\<lparr>CookDuration := (if ck_time r \<le> 0 then 200 else ck_time r), CookTime := CookTime st + 1\<rparr>
            in if CookTime st \<ge> CookDuration st
               then ((recordRecipe st r)\<lparr>CookTime := 0\<rparr>, craft_slots r slots)
               else (st, slots)
          else if CookTime st > 0 then (st\<lparr>CookTime := max 0 (CookTime st - 2)\<rparr>, slots)
          else (st, slots)
      | None \<Rightarrow>
          if CookTime st > 0 then (st\<lparr>CookTime := max 0 (CookTime st - 2)\<rparr>, slots) else (st, slots)))"

definition tick_slots :: "item_env \<Rightarrow> recipe_index \<Rightarrow> string \<Rightarrow> furnace_state \<times> item_stack list \<Rightarrow> furnace_state \<times> item_stack list" where
  "tick_slots E ix station = (\<lambda>(st, slots).
     (let st = (if BurnTime st > 0 then st\<lparr>BurnTime := BurnTime st - 1\<rparr> else st);
          recipe = FindCookingRecipe ix station (ItemID (slots ! 0));
          canCook = (case recipe of None \<Rightarrow> False | Some r \<Rightarrow> furnaceCanAccept E slots (ck_result r))
      in cook_step recipe canCook (burn_step E station canCook (st, slots))))"

section \<open>The loop body of \<open>tickFurnaces\<close>\<close>

definition loadFurnaceSlots :: "world_env \<Rightarrow> world \<Rightarrow> block_pos \<Rightarrow> item_stack list \<times> world" where
  "loadFurnaceSlots G w pos =
     (let (items, w') = items_of G w pos in (load_entries 0 3 items (replicate 3 no_item), w'))"

definition persistFurnaceSlots :: "world_env \<Rightarrow> world \<Rightarrow> block_pos \<Rightarrow> string \<Rightarrow> item_stack list \<Rightarrow> world" where
  "persistFurnaceSlots G w pos blockID slots = set_items_of G w pos blockID (entries_from 0 (take 3 slots))"

text \<open>\<open>None\<close>: the block is no furnace any more and its state is deleted.\<close>

definition tickFurnace :: "item_env \<Rightarrow> world_env \<Rightarrow> recipe_index \<Rightarrow> world \<Rightarrow> block_pos \<Rightarrow> furnace_state \<Rightarrow> furnace_state option \<times> world" where
  "tickFurnace E G ix w pos st =
     (let (b, w1) = block_of G w pos
      in if \<not> IsFurnaceContainer (ResourceLocation b) then (None, w1)
         else
           let station = ResourceLocation b;
               (slots, w2) = loadFurnaceSlots G w1 pos;
               (st', slots') = tick_slots E ix station (st, slots);
               w3 = (if slots \<noteq> slots' then persistFurnaceSlots G w2 pos station slots' else w2);
               lit = (BurnTime st' > 0);
               w4 = (if (get_prop b ''lit'' = ''true'') \<noteq> lit
                     then (let (x, y, z) = at_block pos
                           in SetBlock G w3 x y z (with_prop b ''lit'' (if lit then ''true'' else ''false'')))
                     else w3)
           in (Some st', w4))"

text \<open>What a viewer of the furnace sees after the tick.\<close>

definition sync_furnace_viewer :: "block_pos \<Rightarrow> bool \<Rightarrow> item_stack list \<Rightarrow> player \<Rightarrow> player" where
  "sync_furnace_viewer pos slotsChanged slots p =
     (if \<not> IsFurnaceContainer (OpenContainerKind p) \<or> OpenContainerPos p \<noteq> pos then p
      else (if slotsChanged then refresh p else p)\<lparr>ContainerSlots := slots\<rparr>)"

section \<open>What one tick does\<close>

abbreviation uses :: "furnace_state \<Rightarrow> string \<Rightarrow> int" where
  "uses st name \<equiv> (case RecipesUsed st name of None \<Rightarrow> 0 | Some u \<Rightarrow> use_count u)"

definition stacked :: "item_stack \<Rightarrow> item_stack \<Rightarrow> int \<Rightarrow> item_stack" where
  "stacked output result m =
     (if m = 0 then output
      else if IsEmpty output then result\<lparr>Count := m * Count result\<rparr>
      else output\<lparr>Count := Count output + m * Count result\<rparr>)"

definition crafted :: "item_env \<Rightarrow> cooking_recipe \<Rightarrow> furnace_state \<times> item_stack list \<Rightarrow> furnace_state \<times> item_stack list \<Rightarrow> bool" where
  "crafted E r = (\<lambda>(st, slots) (st', slots').
     furnaceCanAccept E slots (ck_result r) \<and>
     slots' ! 0 = normalizeStack ((slots ! 0)\<lparr>Count := Count (slots ! 0) - 1\<rparr>) \<and>
     slots' ! 2 = stacked (slots ! 2) (ck_result r) 1 \<and>
     RecipesUsed st' = RecipesUsed (recordRecipe st r))"

definition untouched :: "furnace_state \<times> item_stack list \<Rightarrow> furnace_state \<times> item_stack list \<Rightarrow> bool" where
  "untouched = (\<lambda>(st, slots) (st', slots').
     slots' ! 0 = slots ! 0 \<and> slots' ! 2 = slots ! 2 \<and> RecipesUsed st' = RecipesUsed st)"

lemma slot_ok_taken: "ItemID s \<noteq> [] \<Longrightarrow> slot_ok (normalizeStack (s\<lparr>Count := n\<rparr>))"
  by (simp add: normalizeStack_def slot_ok_def IsEmpty_def)

lemma burn_step_keeps:
  assumes "burn_step E station c (st, slots) = (st', slots')" "length slots = 3" "slots_ok slots"
  shows "length slots' = 3 \<and> slots_ok slots' \<and> untouched (st, slots) (st', slots')"
proof -
  have "slot_ok (FurnaceFuelRemainder i)" for i
    by (simp add: FurnaceFuelRemainder_def slot_ok_def IsEmpty_def)
  then have "slots_ok (consumeFurnaceFuel slots)"
    using assms(3) by (auto simp: consumeFurnaceFuel_def Let_def slots_ok_def IsEmpty_def slot_ok_def list_all_update)
  then show ?thesis
    using assms by (auto simp: burn_step_def consumeFurnaceFuel_def Let_def untouched_def split: if_splits)
qed

lemma furnaceCanAccept_cong: "length slots' = length slots \<Longrightarrow> slots' ! 2 = slots ! 2 \<Longrightarrow>
    furnaceCanAccept E slots' r = furnaceCanAccept E slots r"
  by (simp add: furnaceCanAccept_def)

lemma craft_slots_crafted:
  assumes "furnaceCanAccept E slots (ck_result r)" "slots_ok slots" "\<not> IsEmpty (slots ! 0)"
  shows "length (craft_slots r slots) = length slots \<and> slots_ok (craft_slots r slots) \<and>
    craft_slots r slots ! 0 = normalizeStack ((slots ! 0)\<lparr>Count := Count (slots ! 0) - 1\<rparr>) \<and>
    craft_slots r slots ! 2 = stacked (slots ! 2) (ck_result r) 1"
proof -
  have len: "2 < length slots" and r: "\<not> IsEmpty (ck_result r)"
    using assms(1) by (auto simp: furnaceCanAccept_def split: if_splits)
  have "ItemID (slots ! 0) \<noteq> []" using assms(3) by (simp add: IsEmpty_def)
  then have s0: "slot_ok (normalizeStack ((slots ! 0)\<lparr>Count := Count (slots ! 0) - 1\<rparr>))" by (rule slot_ok_taken)
  have s2: "slot_ok (stacked (slots ! 2) (ck_result r) 1)"
    using r slots_ok_nth [OF assms(2) len] by (auto simp: stacked_def slot_ok_def IsEmpty_def)
  have w: "slot_ok (no_item\<lparr>ItemID := ''minecraft:water_bucket'', Count := 1\<rparr>)" by (simp add: slot_ok_def IsEmpty_def)
  let ?a = "if ItemID (slots ! 0) = ''minecraft:wet_sponge'' \<and> ItemID (slots ! 1) = ''minecraft:bucket''
    then slots[1 := no_item\<lparr>ItemID := ''minecraft:water_bucket'', Count := 1\<rparr>] else slots"
  have a: "length ?a = length slots" "?a ! 0 = slots ! 0" "?a ! 2 = slots ! 2" "slots_ok ?a"
    using w assms(2) len by (simp_all add: slots_ok_update)
  have run: "craft_slots r slots = ?a[0 := normalizeStack ((slots ! 0)\<lparr>Count := Count (slots ! 0) - 1\<rparr>),
      2 := stacked (slots ! 2) (ck_result r) 1]"
    unfolding craft_slots_def Let_def using a by (simp only: nth_list_update_neq stacked_def) (simp add: stacked_def)
  obtain b where "length b = length slots" "slots_ok b"
    "craft_slots r slots = b[0 := normalizeStack ((slots ! 0)\<lparr>Count := Count (slots ! 0) - 1\<rparr>),
      2 := stacked (slots ! 2) (ck_result r) 1]" using a run by blast
  moreover have "0 < length b" using len calculation(1) by linarith
  ultimately show ?thesis using s0 s2 len by (simp add: slots_ok_update)
qed

text \<open>The two steps after each other: the recipe is looked up before the fuel burns.\<close>

lemma cook_step_cases:
  assumes "cook_step recipe c (st, slots) = (st', slots')"
    and "c \<Longrightarrow> \<exists>r. recipe = Some r \<and> furnaceCanAccept E slots (ck_result r)"
    and "length slots = 3" "slots_ok slots" "recipe \<noteq> None \<Longrightarrow> \<not> IsEmpty (slots ! 0)"
  shows "length slots' = 3 \<and> slots_ok slots' \<and>
    (untouched (st, slots) (st', slots') \<or> (\<exists>r. recipe = Some r \<and> crafted E r (st, slots) (st', slots')))"
proof (cases recipe)
  case None
  then show ?thesis using assms(1,3,4) by (auto simp: cook_step_def untouched_def split: if_splits)
next
  case (Some r)
  let ?st = "st\<lparr>CookDuration := (if ck_time r \<le> 0 then 200 else ck_time r), CookTime := CookTime st + 1\<rparr>"
  show ?thesis
  proof (cases "0 < BurnTime st \<and> c \<and> CookDuration ?st \<le> CookTime ?st")
    case False
    then show ?thesis using assms(1,3,4) Some by (auto simp: cook_step_def untouched_def Let_def split: if_splits)
  next
    case True
    then have a: "furnaceCanAccept E slots (ck_result r)" using assms(2) Some by auto
    have run: "st' = (recordRecipe ?st r)\<lparr>CookTime := 0\<rparr>" "slots' = craft_slots r slots"
      using assms(1) True Some by (auto simp: cook_step_def Let_def)
    have "RecipesUsed st' = RecipesUsed (recordRecipe st r)" by (simp add: run recordRecipe_def)
    then show ?thesis
      using craft_slots_crafted [OF a assms(4)] assms(3,5) Some a unfolding run(2) by (simp add: crafted_def)
  qed
qed

lemma tick_cases:
  assumes "tick_slots E ix station (st, slots) = (st', slots')" "length slots = 3" "slots_ok slots"
    and "FindCookingRecipe ix station [] = None"
  shows "length slots' = 3 \<and> slots_ok slots' \<and>
    (untouched (st, slots) (st', slots') \<or>
     (\<exists>r. FindCookingRecipe ix station (ItemID (slots ! 0)) = Some r \<and> crafted E r (st, slots) (st', slots')))"
proof -
  let ?st = "if BurnTime st > 0 then st\<lparr>BurnTime := BurnTime st - 1\<rparr> else st"
  let ?recipe = "FindCookingRecipe ix station (ItemID (slots ! 0))"
  let ?c = "case ?recipe of None \<Rightarrow> False | Some r \<Rightarrow> furnaceCanAccept E slots (ck_result r)"
  obtain st1 slots1 where b: "burn_step E station ?c (?st, slots) = (st1, slots1)" by fastforce
  have run: "cook_step ?recipe ?c (st1, slots1) = (st', slots')"
    using assms(1) b by (simp add: tick_slots_def Let_def)
  note B = burn_step_keeps [OF b assms(2,3)]
  have u: "RecipesUsed ?st = RecipesUsed st" by simp
  have same: "furnaceCanAccept E slots1 x = furnaceCanAccept E slots x" for x
    using B assms(2) by (intro furnaceCanAccept_cong) (auto simp: untouched_def)
  have "slot_ok (slots ! 0)" using assms(2,3) by (simp add: slots_ok_nth)
  then have full: "?recipe \<noteq> None \<Longrightarrow> \<not> IsEmpty (slots1 ! 0)"
    using B assms(4) by (auto simp: untouched_def slot_ok_def)
  have "length slots' = 3 \<and> slots_ok slots' \<and>
      (untouched (st1, slots1) (st', slots') \<or> (\<exists>r. ?recipe = Some r \<and> crafted E r (st1, slots1) (st', slots')))"
    by (rule cook_step_cases [OF run]) (use B same full in \<open>auto split: option.splits\<close>)
  then show ?thesis
    using B same u by (auto simp: untouched_def crafted_def recordRecipe_def)
qed

section \<open>A furnace over many ticks\<close>

definition furnace_ticks :: "item_env \<Rightarrow> recipe_index \<Rightarrow> string \<Rightarrow> nat \<Rightarrow> furnace_state \<times> item_stack list \<Rightarrow> furnace_state \<times> item_stack list" where
  "furnace_ticks E ix station n = tick_slots E ix station ^^ n"

definition input_left :: "item_stack \<Rightarrow> int \<Rightarrow> item_stack" where
  "input_left input m = (if m = 0 then input else normalizeStack (input\<lparr>Count := Count input - m\<rparr>))"

text \<open>After \<open>m\<close> crafts of the recipe.\<close>

definition crafted_times :: "item_env \<Rightarrow> cooking_recipe \<Rightarrow> furnace_state \<times> item_stack list \<Rightarrow> int \<Rightarrow> furnace_state \<times> item_stack list \<Rightarrow> bool" where
  "crafted_times E r = (\<lambda>(st, slots) m (st', slots').
     slots' ! 0 = input_left (slots ! 0) m \<and> slots' ! 2 = stacked (slots ! 2) (ck_result r) m \<and>
     uses st' (ck_name r) = uses st (ck_name r) + m \<and>
     (m = 0 \<or> Count (slots' ! 2) \<le> MaxStackSize E (ItemID (slots' ! 2))))"

lemma stacked_step:
  assumes "0 \<le> m" "\<not> IsEmpty result"
  shows "stacked (stacked output result m) result 1 = stacked output result (m + 1)"
proof -
  have "0 < m \<Longrightarrow> \<not> IsEmpty (result\<lparr>Count := m * Count result\<rparr>)"
    using assms(2) by (auto simp: IsEmpty_def not_le)
  moreover have "0 < m \<Longrightarrow> \<not> IsEmpty output \<Longrightarrow> \<not> IsEmpty (output\<lparr>Count := Count output + m * Count result\<rparr>)"
    using assms(2) by (auto simp: IsEmpty_def not_le intro: add_pos_nonneg)
  ultimately show ?thesis
    using assms(1) by (auto simp: stacked_def algebra_simps)
qed

lemma input_left_step:
  assumes "0 \<le> m" "m < Count input"
  shows "normalizeStack ((input_left input m)\<lparr>Count := Count (input_left input m) - 1\<rparr>) = input_left input (m + 1)"
  using assms by (auto simp: input_left_def normalizeStack_def algebra_simps)

lemma crafted_bound:
  assumes "crafted E r (st, slots) (st', slots')"
  shows "Count (slots' ! 2) \<le> MaxStackSize E (ItemID (slots' ! 2))"
  using assms by (auto simp: crafted_def furnaceCanAccept_def stacked_def Let_def split: if_splits)

lemma crafted_times_step:
  assumes "crafted_times E r (sti, slotsi) m (st, slots)" "0 \<le> m" "m < Count (slotsi ! 0)"
    and "crafted E r (st, slots) (st', slots')"
  shows "crafted_times E r (sti, slotsi) (m + 1) (st', slots')"
proof -
  have res: "\<not> IsEmpty (ck_result r)"
    using assms(4) by (auto simp: crafted_def furnaceCanAccept_def split: if_splits)
  have "uses st' (ck_name r) = uses st (ck_name r) + 1"
    using assms(4) by (simp add: crafted_def recordRecipe_def Let_def)
  moreover have "slots' ! 2 = stacked (slotsi ! 2) (ck_result r) (m + 1)"
    using assms(1,4) stacked_step [OF assms(2) res] by (simp add: crafted_times_def crafted_def)
  moreover have "slots' ! 0 = input_left (slotsi ! 0) (m + 1)"
    using assms(1,4) input_left_step [OF assms(2,3)] by (simp add: crafted_times_def crafted_def)
  ultimately show ?thesis
    using assms(1) crafted_bound [OF assms(4)] by (simp add: crafted_times_def)
qed

lemma furnace_accounts:
  assumes "length slotsi = 3" "slots_ok slotsi" "FindCookingRecipe ix station [] = None"
    and "\<not> IsEmpty (slotsi ! 0)" "FindCookingRecipe ix station (ItemID (slotsi ! 0)) = Some r"
    and "furnace_ticks E ix station n (sti, slotsi) = (st, slots)"
  shows "length slots = 3 \<and> slots_ok slots \<and>
    (\<exists>m. 0 \<le> m \<and> m \<le> Count (slotsi ! 0) \<and> m \<le> int n \<and> crafted_times E r (sti, slotsi) m (st, slots))"
  using assms(6)
proof (induction n arbitrary: st slots)
  case 0
  have "0 < Count (slotsi ! 0)" using assms(4) by (simp add: IsEmpty_def)
  then show ?case
    using 0 assms(1,2) by (auto intro!: exI [of _ 0] simp: furnace_ticks_def crafted_times_def input_left_def stacked_def)
next
  case (Suc n)
  obtain st1 slots1 where one: "furnace_ticks E ix station n (sti, slotsi) = (st1, slots1)" by fastforce
  have run: "tick_slots E ix station (st1, slots1) = (st, slots)"
    using Suc.prems one by (simp add: furnace_ticks_def)
  obtain m where m: "0 \<le> m" "m \<le> Count (slotsi ! 0)" "m \<le> int n" "crafted_times E r (sti, slotsi) m (st1, slots1)"
    and ok: "length slots1 = 3" "slots_ok slots1" using Suc.IH [OF one] by blast
  note T = tick_cases [OF run ok assms(3)]
  have i: "slots1 ! 0 = input_left (slotsi ! 0) m" using m(4) by (simp add: crafted_times_def)
  show ?case
  proof (cases "untouched (st1, slots1) (st, slots)")
    case True
    then have "crafted_times E r (sti, slotsi) m (st, slots)"
      using m(4) by (auto simp: crafted_times_def untouched_def)
    then show ?thesis using T m by (intro conjI exI [of _ m]) auto
  next
    case False
    then obtain r' where r': "FindCookingRecipe ix station (ItemID (slots1 ! 0)) = Some r'" "crafted E r' (st1, slots1) (st, slots)"
      using T by blast
    have lt: "m < Count (slotsi ! 0)"
      using r'(1) i assms(3) m(2) Count_pos [OF assms(4)] by (cases "m = Count (slotsi ! 0)") (auto simp: input_left_def normalizeStack_def)
    then have "ItemID (slots1 ! 0) = ItemID (slotsi ! 0)" using i by (simp add: input_left_def normalizeStack_def)
    then have "r' = r" using r'(1) assms(5) by simp
    then have "crafted_times E r (sti, slotsi) (m + 1) (st, slots)"
      using crafted_times_step [OF m(4,1) lt] r'(2) by simp
    then show ?thesis using T m lt by (intro conjI exI [of _ "m + 1"]) auto
  qed
qed

section \<open>How long one item takes\<close>

definition cook_duration :: "cooking_recipe \<Rightarrow> int" where
  "cook_duration r = (if ck_time r \<le> 0 then 200 else ck_time r)"

definition cooking :: "furnace_state \<Rightarrow> cooking_recipe \<Rightarrow> nat \<Rightarrow> furnace_state" where
  "cooking st r i = st\<lparr>BurnTime := BurnTime st - int i, CookTime := int i,
     CookDuration := (if i = 0 then CookDuration st else cook_duration r)\<rparr>"

lemma tick_cooking:
  assumes "FindCookingRecipe ix station (ItemID (slots ! 0)) = Some r" "furnaceCanAccept E slots (ck_result r)"
    and "int i < cook_duration r" "cook_duration r < BurnTime st"
  shows "tick_slots E ix station (cooking st r i, slots) =
    (if int (Suc i) = cook_duration r then ((recordRecipe (cooking st r (Suc i)) r)\<lparr>CookTime := 0\<rparr>, craft_slots r slots)
     else (cooking st r (Suc i), slots))"
proof -
  have b: "0 < BurnTime st - int i" "0 < BurnTime st - int (Suc i)" using assms(3,4) by simp_all
  show ?thesis
    using assms b by (auto simp: tick_slots_def burn_step_def cook_step_def Let_def cooking_def cook_duration_def [symmetric] recordRecipe_def algebra_simps)
qed

lemma cooking_progress:
  assumes "FindCookingRecipe ix station (ItemID (slots ! 0)) = Some r" "furnaceCanAccept E slots (ck_result r)"
    and "CookTime st = 0" "cook_duration r < BurnTime st" "int i < cook_duration r"
  shows "furnace_ticks E ix station i (st, slots) = (cooking st r i, slots)"
  using assms(5)
proof (induction i)
  case 0
  have "cooking st r 0 = st" using assms(3) by (simp add: cooking_def)
  then show ?case by (simp add: furnace_ticks_def)
next
  case (Suc i)
  have i: "int i < cook_duration r" "int (Suc i) \<noteq> cook_duration r" using Suc.prems by simp_all
  have "furnace_ticks E ix station (Suc i) (st, slots) = tick_slots E ix station (furnace_ticks E ix station i (st, slots))"
    by (simp add: furnace_ticks_def)
  then show ?case
    using Suc.IH [OF i(1)] tick_cooking [OF assms(1,2) i(1) assms(4)] i(2) by (simp del: of_nat_Suc)
qed

section \<open>Properties\<close>


definition iron_recipe :: cooking_recipe where
  "iron_recipe = \<lparr>ck_name = ''iron'', ck_station = ''minecraft:furnace'', ck_ingredients = [''minecraft:raw_iron''],
     ck_result = no_item\<lparr>ItemID := ''minecraft:iron_ingot'', Count := 1\<rparr>, ck_time = 2, ck_experience = 0\<rparr>"

definition iron_index :: recipe_index where
  "iron_index = (\<lambda>_. [''minecraft:raw_iron'' \<mapsto> iron_recipe])"

definition burning :: "int \<Rightarrow> furnace_state" where
  "burning n = \<lparr>BurnTime = n, BurnDuration = n, CookTime = 0, CookDuration = 0, RecipesUsed = (\<lambda>_. None)\<rparr>"

definition iron_slots :: "int \<Rightarrow> item_stack list" where
  "iron_slots n = [no_item\<lparr>ItemID := ''minecraft:raw_iron'', Count := n\<rparr>, no_item, no_item]"

lemma iron_facts:
  "length (iron_slots n) = 3" "0 < n \<Longrightarrow> slots_ok (iron_slots n)" "FindCookingRecipe iron_index s [] = None"
  "0 < n \<Longrightarrow> \<not> IsEmpty (iron_slots n ! 0)" "FindCookingRecipe iron_index s (ItemID (iron_slots n ! 0)) = Some iron_recipe"
  by (auto simp: iron_slots_def iron_index_def slots_ok_def slot_ok_def IsEmpty_def FindCookingRecipe_def)


text \<open>A furnace that burns long enough, with an input that has a recipe and room for the result, crafts
  exactly one item in exactly the duration of the recipe (200 ticks when the recipe names none), and
  then starts over.\<close>

theorem furnace_cooks_on_time:
  assumes "FindCookingRecipe ix station (ItemID (slots ! 0)) = Some r" "furnaceCanAccept E slots (ck_result r)"
    and "CookTime st = 0" "cook_duration r < BurnTime st"
  shows "furnace_ticks E ix station (nat (cook_duration r)) (st, slots) =
    ((recordRecipe (cooking st r (nat (cook_duration r))) r)\<lparr>CookTime := 0\<rparr>, craft_slots r slots)"
proof -
  obtain i where d: "cook_duration r = int (Suc i)"
    by (metis cook_duration_def gr0_conv_Suc not_le pos_int_cases zero_less_numeral)
  then have i: "int i < cook_duration r" by simp
  have "furnace_ticks E ix station (Suc i) (st, slots) = tick_slots E ix station (furnace_ticks E ix station i (st, slots))"
    by (simp add: furnace_ticks_def)
  then show ?thesis
    using cooking_progress [OF assms i] tick_cooking [OF assms(1,2) i assms(4)] d by (simp del: of_nat_Suc)
qed

theorem furnace_cooks_on_time_witness:
  "snd (furnace_ticks void_items iron_index ''minecraft:furnace'' 2 (burning 50, iron_slots 3)) =
    craft_slots iron_recipe (iron_slots 3)"
proof -
  have "furnaceCanAccept void_items (iron_slots 3) (ck_result iron_recipe)"
    by (simp add: furnaceCanAccept_def iron_slots_def iron_recipe_def IsEmpty_def MaxStackSize_def Lookup_def void_items_def)
  moreover have "cook_duration iron_recipe = 2" by (simp add: cook_duration_def iron_recipe_def)
  ultimately show ?thesis
    using furnace_cooks_on_time [OF iron_facts(5), where E = void_items and st = "burning 50"] by (simp add: burning_def)
qed

end
