(* ===== verification/Hoppers.thy ===== *)
theory Hoppers
  imports Containers
begin

text \<open>
  Container automation (\<open>server/container_automation.go\<close>): hoppers moving one item at a time,
  droppers feeding containers, and the crafter. Positions are triples of integers. The dropped
  items lying in a world are a list; whether one lies within reach of a hopper is a
  floating-point test and a function of the item here. The power of the redstone engine is a
  parameter of the hopper tick.
\<close>

type_synonym position3 = "int \<times> int \<times> int"

section \<open>Containers seen by automation\<close>

definition is_furnace :: "string \<Rightarrow> bool" where
  "is_furnace kind \<longleftrightarrow> kind \<in> {''minecraft:furnace'', ''minecraft:blast_furnace'', ''minecraft:smoker''}"

definition automationContainerSize :: "string \<Rightarrow> nat" where
  "automationContainerSize kind =
     (if kind = ''minecraft:hopper'' then 5
      else if kind \<in> {''minecraft:dispenser'', ''minecraft:dropper'', ''minecraft:crafter''} then 9
      else if is_furnace kind then 3
      else if kind = ''minecraft:brewing_stand'' then 5
      else if kind = ''minecraft:decorated_pot'' then 1
      else if kind \<in> {''minecraft:chest'', ''minecraft:trapped_chest'', ''minecraft:barrel''} then 27
      else if has_suffix kind ''_shulker_box'' \<or> kind = ''minecraft:shulker_box'' then 27
      else 0)"

definition loadAutomationContainer :: "world_env \<Rightarrow> world \<Rightarrow> position3 \<Rightarrow> (string \<times> item_stack list) option \<times> world" where
  "loadAutomationContainer G w = (\<lambda>(x, y, z).
     (let (b, w1) = GetBlock G w x y z; kind = ResourceLocation b; n = automationContainerSize kind
      in if n = 0 then (None, w1)
         else let (items, w2) = ContainerItems G w1 x y z
              in (Some (kind, load_entries 0 n items (replicate n no_item)), w2)))"

definition saveAutomationContainer :: "world_env \<Rightarrow> world \<Rightarrow> position3 \<Rightarrow> string \<Rightarrow> item_stack list \<Rightarrow> world" where
  "saveAutomationContainer G w = (\<lambda>(x, y, z) kind stacks. SetContainerItems G w x y z kind (entries_from 0 stacks))"

section \<open>Inserting\<close>

text \<open>The slots an item may enter; \<open>None\<close> is the early refusal of a furnace.\<close>

definition insertion_slots :: "item_env \<Rightarrow> string \<Rightarrow> nat \<Rightarrow> item_stack \<Rightarrow> int \<Rightarrow> int \<Rightarrow> nat list option" where
  "insertion_slots E kind n item destinationY sourceY =
     (if is_furnace kind then
        (if destinationY < sourceY then Some [0]
         else if CanPlaceFurnaceFuelSlot E (ItemID item) then Some [1]
         else None)
      else Some [0..<n])"

definition insertOneAutomationItem :: "item_env \<Rightarrow> string \<Rightarrow> item_stack list \<Rightarrow> item_stack \<Rightarrow> int \<Rightarrow> int \<Rightarrow> item_stack list \<times> bool" where
  "insertOneAutomationItem E kind destination item destinationY sourceY =
     (case insertion_slots E kind (length destination) item destinationY sourceY of
        None \<Rightarrow> (destination, False)
      | Some slots \<Rightarrow>
          (case List.find (\<lambda>i. SameItem E (destination ! i) item \<and> Count (destination ! i) < MaxStackSize E (ItemID item)) slots of
             Some i \<Rightarrow> (destination[i := (destination ! i)\<lparr>Count := Count (destination ! i) + 1\<rparr>], True)
           | None \<Rightarrow>
               (case List.find (\<lambda>i. IsEmpty (destination ! i)) slots of
                  Some i \<Rightarrow> (destination[i := item\<lparr>Count := 1\<rparr>], True)
                | None \<Rightarrow> (destination, False))))"

fun insert_times :: "item_env \<Rightarrow> string \<Rightarrow> nat \<Rightarrow> item_stack list \<Rightarrow> item_stack \<Rightarrow> int \<Rightarrow> int \<Rightarrow> item_stack list option" where
  "insert_times E kind 0 updated item destinationY sourceY = Some updated"
| "insert_times E kind (Suc n) updated item destinationY sourceY =
     (case insertOneAutomationItem E kind updated item destinationY sourceY of
        (updated', placed) \<Rightarrow> if placed then insert_times E kind n updated' item destinationY sourceY else None)"

definition insertAutomationStack :: "item_env \<Rightarrow> string \<Rightarrow> item_stack list \<Rightarrow> item_stack \<Rightarrow> int \<Rightarrow> int \<Rightarrow> item_stack list \<times> bool" where
  "insertAutomationStack E kind destination item destinationY sourceY =
     (if IsEmpty item then (destination, False)
      else case insert_times E kind (nat (Count item)) destination item destinationY sourceY of
             None \<Rightarrow> (destination, False)
           | Some updated \<Rightarrow> (updated, True))"

section \<open>Moving one item\<close>

definition automationExtractionSlots :: "string \<Rightarrow> nat \<Rightarrow> nat list" where
  "automationExtractionSlots kind n = (if is_furnace kind then [2] else [0..<n])"

definition take_single :: "item_stack list \<Rightarrow> nat \<Rightarrow> item_stack list" where
  "take_single stacks i = stacks[i := normalizeStack ((stacks ! i)\<lparr>Count := Count (stacks ! i) - 1\<rparr>)]"

text \<open>The loop over the source slots: the first item the destination accepts moves.\<close>

fun move_first :: "item_env \<Rightarrow> string \<Rightarrow> int \<Rightarrow> int \<Rightarrow> nat list \<Rightarrow> item_stack list \<Rightarrow> item_stack list \<Rightarrow> (item_stack list \<times> item_stack list) option" where
  "move_first E kind destinationY sourceY [] source destination = None"
| "move_first E kind destinationY sourceY (i # is) source destination =
     (if length source \<le> i \<or> IsEmpty (source ! i) then move_first E kind destinationY sourceY is source destination
      else case insertOneAutomationItem E kind destination (source ! i) destinationY sourceY of
             (destination', placed) \<Rightarrow>
               if placed then Some (take_single source i, destination')
               else move_first E kind destinationY sourceY is source destination)"

definition transferOneContainerItem :: "item_env \<Rightarrow> world_env \<Rightarrow> world \<Rightarrow> position3 \<Rightarrow> position3 \<Rightarrow> bool \<times> world" where
  "transferOneContainerItem E G w sourcePosition destinationPosition =
     (let (source, w1) = loadAutomationContainer G w sourcePosition;
          (destination, w2) = loadAutomationContainer G w1 destinationPosition
      in case (source, destination) of
           (Some (sourceKind, src), Some (destinationKind, dst)) \<Rightarrow>
             (case move_first E destinationKind (fst (snd destinationPosition)) (fst (snd sourcePosition))
                     (automationExtractionSlots sourceKind (length src)) src dst of
                None \<Rightarrow> (False, w2)
              | Some (src', dst') \<Rightarrow>
                  (True, saveAutomationContainer G (saveAutomationContainer G w2 sourcePosition sourceKind src')
                           destinationPosition destinationKind dst'))
         | _ \<Rightarrow> (False, w2))"

section \<open>The hopper tick\<close>

definition containerFacingOffset :: "string \<Rightarrow> int \<times> int \<times> int" where
  "containerFacingOffset facing =
     (if facing = ''up'' then (0, 1, 0)
      else if facing = ''north'' then (0, 0, -1)
      else if facing = ''south'' then (0, 0, 1)
      else if facing = ''west'' then (-1, 0, 0)
      else if facing = ''east'' then (1, 0, 0)
      else (0, -1, 0))"

definition offset_by :: "position3 \<Rightarrow> int \<times> int \<times> int \<Rightarrow> position3" where
  "offset_by = (\<lambda>(x, y, z) (dx, dy, dz). (x + dx, y + dy, z + dz))"

definition block_of3 :: "world_env \<Rightarrow> world \<Rightarrow> position3 \<Rightarrow> block \<times> world" where
  "block_of3 G w = (\<lambda>(x, y, z). GetBlock G w x y z)"

definition setHopperEnabled :: "world_env \<Rightarrow> world \<Rightarrow> position3 \<Rightarrow> block \<Rightarrow> bool \<Rightarrow> world" where
  "setHopperEnabled G w = (\<lambda>(x, y, z) b enabled.
     (if (get_prop b ''enabled'' \<noteq> ''false'') = enabled then w
      else SetBlock G w x y z (with_prop b ''enabled'' (if enabled then ''true'' else ''false''))))"

text \<open>A dropped item: its stack, and the hoppers it lies above.\<close>

record ground_item =
  gr_dead :: bool
  gr_stack :: item_stack
  gr_reach :: "position3 \<Rightarrow> bool"

fun collect_first :: "item_env \<Rightarrow> position3 \<Rightarrow> ground_item list \<Rightarrow> item_stack list \<Rightarrow> (ground_item list \<times> item_stack list) option" where
  "collect_first E pos [] stacks = None"
| "collect_first E pos (g # gs) stacks =
     (let again = map_option (\<lambda>(gs', stacks'). (g # gs', stacks')) (collect_first E pos gs stacks)
      in if gr_dead g \<or> IsEmpty (gr_stack g) \<or> \<not> gr_reach g pos then again
         else case insertOneAutomationItem E ''minecraft:hopper'' stacks ((gr_stack g)\<lparr>Count := 1\<rparr>)
                     (fst (snd pos)) (fst (snd pos) + 1) of
                (stacks', placed) \<Rightarrow>
                  if \<not> placed then again
                  else let s = (gr_stack g)\<lparr>Count := Count (gr_stack g) - 1\<rparr>
                       in Some (if Count s \<le> 0 then gs else g\<lparr>gr_stack := s\<rparr> # gs, stacks'))"

definition collectDroppedItemIntoHopper :: "item_env \<Rightarrow> world_env \<Rightarrow> world \<Rightarrow> ground_item list \<Rightarrow> position3 \<Rightarrow> bool \<times> world \<times> ground_item list" where
  "collectDroppedItemIntoHopper E G w ground pos =
     (let (loaded, w1) = loadAutomationContainer G w pos
      in case loaded of
           None \<Rightarrow> (False, w1, ground)
         | Some (kind, stacks) \<Rightarrow>
             (if kind \<noteq> ''minecraft:hopper'' then (False, w1, ground)
              else case collect_first E pos ground stacks of
                     None \<Rightarrow> (False, w1, ground)
                   | Some (ground', stacks') \<Rightarrow> (True, saveAutomationContainer G w1 pos kind stacks', ground')))"

record hopper_tick =
  ht_world :: world
  ht_ground :: "ground_item list"
  ht_received :: "position3 set"

definition tick_hopper :: "item_env \<Rightarrow> world_env \<Rightarrow> (world \<Rightarrow> position3 \<Rightarrow> bool) \<Rightarrow> position3 \<Rightarrow> hopper_tick \<Rightarrow> hopper_tick" where
  "tick_hopper E G powered pos t =
     (let (b, w1) = block_of3 G (ht_world t) pos
      in if ResourceLocation b \<noteq> ''minecraft:hopper'' then t\<lparr>ht_world := w1\<rparr>
         else
           let w2 = setHopperEnabled G w1 pos b (\<not> powered w1 pos)
           in if powered w1 pos \<or> pos \<in> ht_received t then t\<lparr>ht_world := w2\<rparr>
              else
                let destination = offset_by pos (containerFacingOffset (get_prop b ''facing''));
                    (moved, w3) = transferOneContainerItem E G w2 pos destination
                in if moved then
                     (let (d, w4) = block_of3 G w3 destination
                      in t\<lparr>ht_world := w4, ht_received :=
                           (if ResourceLocation d = ''minecraft:hopper'' then insert destination (ht_received t) else ht_received t)\<rparr>)
                   else
                     let (pulled, w4) = transferOneContainerItem E G w3 (offset_by pos (0, 1, 0)) pos
                     in if pulled then t\<lparr>ht_world := w4, ht_received := insert pos (ht_received t)\<rparr>
                        else
                          let (collected, w5, ground) = collectDroppedItemIntoHopper E G w4 (ht_ground t) pos
                          in t\<lparr>ht_world := w5, ht_ground := ground,
                               ht_received := (if collected then insert pos (ht_received t) else ht_received t)\<rparr>)"

definition LoadedBlockEntities :: "world \<Rightarrow> block_entity list" where
  "LoadedBlockEntities w = concat (map (\<lambda>(_, c). BlockEntities c) (chunks w))"

definition entity_position :: "block_entity \<Rightarrow> position3" where
  "entity_position e = (EntityX e, EntityY e, EntityZ e)"

text \<open>Lowest first, so an item moves down one hopper per tick.\<close>

definition hopper_order :: "block_entity list \<Rightarrow> block_entity list" where
  "hopper_order es = sort_key (\<lambda>e. [EntityY e, EntityX e, EntityZ e]) es"

definition tickHoppers :: "item_env \<Rightarrow> world_env \<Rightarrow> (world \<Rightarrow> position3 \<Rightarrow> bool) \<Rightarrow> world \<Rightarrow> ground_item list \<Rightarrow> hopper_tick" where
  "tickHoppers E G powered w ground =
     fold (\<lambda>e. tick_hopper E G powered (entity_position e)) (hopper_order (LoadedBlockEntities w))
       \<lparr>ht_world = w, ht_ground = ground, ht_received = {}\<rparr>"

section \<open>Inserting keeps and adds exactly the item\<close>

definition sink_ok :: "string \<Rightarrow> item_stack list \<Rightarrow> bool" where
  "sink_ok kind slots \<longleftrightarrow> is_furnace kind \<longrightarrow> 2 \<le> length slots"

lemma insertion_slots_bound:
  assumes "sink_ok kind slots" "insertion_slots E kind (length slots) item dy sy = Some is" "i \<in> set is"
  shows "i < length slots"
  using assms by (auto simp: insertion_slots_def sink_ok_def split: if_splits)

lemma add_one:
  assumes "slots_ok slots" "i < length slots" "ItemID item \<noteq> []" "SameItem E (slots ! i) item"
  shows "slots_ok (slots[i := (slots ! i)\<lparr>Count := Count (slots ! i) + 1\<rparr>]) \<and>
    total E k (slots[i := (slots ! i)\<lparr>Count := Count (slots ! i) + 1\<rparr>]) = total E k slots + (if item_key E item = k then 1 else 0)"
proof -
  have "ItemID (slots ! i) = ItemID item" using assms(4) by (simp add: SameItem_def)
  then have same: "item_key E (slots ! i) = item_key E item" "ItemID (slots ! i) \<noteq> []"
    using assms(3,4) by (simp_all add: SameItem_key)
  then have ne: "\<not> IsEmpty (slots ! i)" using slots_ok_nth [OF assms(1,2)] by (auto simp: slot_ok_def)
  then have pos: "0 < Count (slots ! i)" by (simp add: IsEmpty_def)
  have "slot_ok ((slots ! i)\<lparr>Count := Count (slots ! i) + 1\<rparr>)" using pos same(2) by (simp add: slot_ok_def IsEmpty_def)
  then show ?thesis
    using assms(1,2) same ne pos by (simp add: slots_ok_update total_update amount_Count amount_nonempty)
qed

lemma place_one:
  assumes "slots_ok slots" "i < length slots" "ItemID item \<noteq> []" "IsEmpty (slots ! i)"
  shows "slots_ok (slots[i := item\<lparr>Count := 1\<rparr>]) \<and>
    total E k (slots[i := item\<lparr>Count := 1\<rparr>]) = total E k slots + (if item_key E item = k then 1 else 0)"
proof -
  have "slot_ok (item\<lparr>Count := 1\<rparr>)" using assms(3) by (simp add: slot_ok_def IsEmpty_def)
  then show ?thesis using assms by (simp add: slots_ok_update total_update amount_Count)
qed

lemma find_in: "List.find P xs = Some x \<Longrightarrow> x \<in> set xs \<and> P x"
  by (auto simp: find_Some_iff)

lemma insertOne_ok:
  assumes "sink_ok kind slots" "slots_ok slots" "ItemID item \<noteq> []"
    and "insertOneAutomationItem E kind slots item dy sy = (slots', d)"
  shows "slots_ok slots' \<and> length slots' = length slots \<and>
    (if d then total E k slots' = total E k slots + (if item_key E item = k then 1 else 0) else slots' = slots)"
proof (cases "insertion_slots E kind (length slots) item dy sy")
  case None
  then show ?thesis using assms by (simp add: insertOneAutomationItem_def)
next
  case (Some js)
  note B = insertion_slots_bound [OF assms(1) Some]
  let ?merge = "List.find (\<lambda>i. SameItem E (slots ! i) item \<and> Count (slots ! i) < MaxStackSize E (ItemID item)) js"
  let ?empty = "List.find (\<lambda>i. IsEmpty (slots ! i)) js"
  show ?thesis
  proof (cases ?merge)
    case m: (Some i)
    then have i: "i < length slots" "SameItem E (slots ! i) item" using find_in [OF m] B by auto
    have "slots' = slots[i := (slots ! i)\<lparr>Count := Count (slots ! i) + 1\<rparr>]" "d"
      using assms(4) Some m by (simp_all add: insertOneAutomationItem_def)
    then show ?thesis using add_one [OF assms(2) i(1) assms(3) i(2)] by simp
  next
    case none: None
    show ?thesis
    proof (cases ?empty)
      case e: (Some i)
      then have i: "i < length slots" "IsEmpty (slots ! i)" using find_in [OF e] B by auto
      have "slots' = slots[i := item\<lparr>Count := 1\<rparr>]" "d"
        using assms(4) Some none e by (simp_all add: insertOneAutomationItem_def)
      then show ?thesis using place_one [OF assms(2) i(1) assms(3) i(2)] by simp
    next
      case None
      then show ?thesis using assms Some none by (simp add: insertOneAutomationItem_def)
    qed
  qed
qed

lemma sink_ok_length: "length slots' = length slots \<Longrightarrow> sink_ok kind slots' = sink_ok kind slots"
  by (simp add: sink_ok_def)

lemma insert_times_ok:
  assumes "sink_ok kind slots" "slots_ok slots" "ItemID item \<noteq> []"
    and "insert_times E kind n slots item dy sy = Some slots'"
  shows "slots_ok slots' \<and> length slots' = length slots \<and>
    total E k slots' = total E k slots + (if item_key E item = k then int n else 0)"
  using assms
proof (induction n arbitrary: slots)
  case (Suc n)
  obtain slots1 d where one: "insertOneAutomationItem E kind slots item dy sy = (slots1, d)" by fastforce
  then have d: "d" and more: "insert_times E kind n slots1 item dy sy = Some slots'"
    using Suc.prems(4) by (auto split: if_splits)
  note I = insertOne_ok [OF Suc.prems(1-3) one, of k]
  have "slots_ok slots' \<and> length slots' = length slots1 \<and>
      total E k slots' = total E k slots1 + (if item_key E item = k then int n else 0)"
    by (rule Suc.IH [OF _ _ Suc.prems(3) more]) (use I Suc.prems(1) sink_ok_length [of slots1 slots kind] in simp_all)
  then show ?case using I d by simp
qed simp

interpretation automation: atomic_sink "\<lambda>slots item. insertAutomationStack E kind slots item dy sy" E "sink_ok kind"
  for E kind dy sy
proof unfold_locales
  fix slots item slots' d
  assume ok: "sink_ok kind slots" "slots_ok slots" and run: "insertAutomationStack E kind slots item dy sy = (slots', d)"
  show "slots_ok slots' \<and> length slots' = length slots"
  proof (cases "d")
    case False
    then show ?thesis using run ok by (auto simp: insertAutomationStack_def split: if_splits option.splits)
  next
    case True
    then have id: "ItemID item \<noteq> []" and eq: "insert_times E kind (nat (Count item)) slots item dy sy = Some slots'"
      using run by (auto simp: insertAutomationStack_def IsEmpty_def split: if_splits option.splits)
    show ?thesis using insert_times_ok [OF ok id eq, of undefined] by (elim conjE) (rule conjI; assumption)
  qed
next
  fix slots item slots' k
  assume ok: "sink_ok kind slots" "slots_ok slots" and run: "insertAutomationStack E kind slots item dy sy = (slots', True)"
  then have i: "\<not> IsEmpty item" "insert_times E kind (nat (Count item)) slots item dy sy = Some slots'"
    by (auto simp: insertAutomationStack_def split: if_splits option.splits)
  then have "ItemID item \<noteq> []" "0 \<le> Count item" by (simp_all add: IsEmpty_def)
  then show "total E k slots' = total E k slots + amount E k item"
    using insert_times_ok [OF ok _ i(2), of k] i(1) by (auto simp: amount_nonempty)
next
  fix slots item slots'
  assume "insertAutomationStack E kind slots item dy sy = (slots', False)"
  then show "slots' = slots" by (auto simp: insertAutomationStack_def split: if_splits option.splits)
qed

section \<open>Moving one item\<close>

lemma take_single_ok:
  assumes "slots_ok slots" "i < length slots" "\<not> IsEmpty (slots ! i)"
  shows "slots_ok (take_single slots i) \<and> length (take_single slots i) = length slots \<and>
    total E k (take_single slots i) = total E k slots - (if item_key E (slots ! i) = k then 1 else 0)"
proof -
  have s: "ItemID (slots ! i) \<noteq> []" "0 < Count (slots ! i)" using assms(3) by (simp_all add: IsEmpty_def)
  then have "slot_ok (normalizeStack ((slots ! i)\<lparr>Count := Count (slots ! i) - 1\<rparr>))"
    by (simp add: normalizeStack_def slot_ok_def IsEmpty_def)
  then show ?thesis
    using assms s by (simp add: take_single_def slots_ok_update total_update amount_normalize amount_nonempty)
qed

lemma move_first_ok:
  assumes "sink_ok kind dst" "slots_ok src" "slots_ok dst" "move_first E kind dy sy is src dst = Some (src', dst')"
  shows "\<exists>i < length src. \<not> IsEmpty (src ! i) \<and> slots_ok src' \<and> slots_ok dst' \<and> length src' = length src \<and> length dst' = length dst \<and>
    (\<forall>k. total E k src' = total E k src - (if item_key E (src ! i) = k then 1 else 0)) \<and>
    (\<forall>k. total E k dst' = total E k dst + (if item_key E (src ! i) = k then 1 else 0))"
  using assms(4)
proof (induction "is")
  case (Cons i "is")
  obtain dst1 d where one: "insertOneAutomationItem E kind dst (src ! i) dy sy = (dst1, d)" by fastforce
  show ?case
  proof (cases "length src \<le> i \<or> IsEmpty (src ! i) \<or> \<not> d")
    case True
    then have "move_first E kind dy sy is src dst = Some (src', dst')" using Cons.prems one by (auto split: if_splits)
    then show ?thesis by (rule Cons.IH)
  next
    case False
    then have i: "i < length src" "\<not> IsEmpty (src ! i)" "d" and r: "src' = take_single src i" "dst' = dst1"
      using Cons.prems one by simp_all
    then have id: "ItemID (src ! i) \<noteq> []" by (simp add: IsEmpty_def)
    show ?thesis
      using take_single_ok [OF assms(2) i(1,2)] insertOne_ok [OF assms(1,3) id one] i r by (intro exI [of _ i]) auto
  qed
qed simp

section \<open>Containers of the world\<close>

definition world_ok :: "world_env \<Rightarrow> world \<Rightarrow> bool" where
  "world_ok G w \<longleftrightarrow> cache_ok G w [] \<and> chunks_ok G w"

definition kind_at :: "world_env \<Rightarrow> world \<Rightarrow> position3 \<Rightarrow> string" where
  "kind_at G w = (\<lambda>(x, y, z). ResourceLocation (block_at G w x y z))"

definition contents :: "world_env \<Rightarrow> world \<Rightarrow> position3 \<Rightarrow> item_stack list" where
  "contents G w = (\<lambda>(x, y, z).
     let n = automationContainerSize (kind_at G w (x, y, z))
     in load_entries 0 n (items_at G w x y z) (replicate n no_item))"

lemma load_entry_ok: "slots_ok slots \<Longrightarrow> slots_ok (load_entry base limit i slots)"
  by (auto simp: load_entry_def slots_ok_update slot_ok_def Stack_def IsEmpty_def)

lemma load_entries_ok: "slots_ok slots \<Longrightarrow> slots_ok (load_entries base limit items slots)"
  by (induction items arbitrary: slots) (simp_all add: load_entry_ok)

lemma contents_ok: "slots_ok (contents G w p)" "length (contents G w p) = automationContainerSize (kind_at G w p)"
proof -
  have "slots_ok (replicate n no_item)" for n by (simp add: slots_ok_def list_all_iff slot_ok_def)
  then show "slots_ok (contents G w p)"
    by (auto simp: contents_def Let_def intro!: load_entries_ok split: prod.splits)
qed (simp add: contents_def Let_def split: prod.splits)

lemma contents_cong:
  "visible G w' = visible G w \<Longrightarrow> contents G w' = contents G w"
  "visible G w' = visible G w \<Longrightarrow> kind_at G w' = kind_at G w"
  by (simp_all only: contents_def kind_at_def items_at_def block_at_def cong: if_cong)

lemma sink_contents: "kind = kind_at G w p \<Longrightarrow> sink_ok kind (contents G w p)"
  by (auto simp: sink_ok_def contents_ok is_furnace_def automationContainerSize_def)

lemma load_at:
  assumes "world_ok G w" "loadAutomationContainer G w p = (r, w')"
  shows "world_ok G w' \<and> visible G w' = visible G w \<and>
    r = (if automationContainerSize (kind_at G w p) = 0 then None else Some (kind_at G w p, contents G w p))"
proof -
  obtain x y z where p: "p = (x, y, z)" by (cases p)
  obtain b w1 where b: "GetBlock G w x y z = (b, w1)" by fastforce
  obtain items w2 where i: "ContainerItems G w1 x y z = (items, w2)" by fastforce
  have ok: "cache_ok G w []" "chunks_ok G w" using assms(1) by (simp_all add: world_ok_def)
  note B = GetBlock_visible [OF ok(1) visible_chunk_ok [OF ok(2)] b]
  then have "cache_ok G w1 []" by simp
  note I = ContainerItems_visible [OF this i]
  have w1: "chunks_ok G w1" using b ok(2) by (auto simp: GetBlock_def dest: Chunk_wf split: prod.splits if_splits)
  have w2: "chunks_ok G w2" using i w1 by (auto simp: ContainerItems_def dest: Chunk_wf split: prod.splits)
  have k: "ResourceLocation b = kind_at G w p" using B by (simp add: kind_at_def p)
  have items: "items = items_at G w x y z" using I B by (simp add: items_at_def)
  show ?thesis
    using assms(2) B I w1 w2 k items by (auto simp: loadAutomationContainer_def contents_def p b i world_ok_def Let_def)
qed

lemma block_at_sections:
  "Sections (visible G w' (ChunkCoordsFor x z)) = Sections (visible G w (ChunkCoordsFor x z)) \<Longrightarrow> block_at G w' x y z = block_at G w x y z"
  by (simp add: block_at_def blockInChunk_def Let_def)

lemma save_at:
  assumes "world_ok G w" "slots_ok ss" "length ss = automationContainerSize (kind_at G w p)"
  shows "world_ok G (saveAutomationContainer G w p kind ss)"
    and "kind_at G (saveAutomationContainer G w p kind ss) q = kind_at G w q"
    and "contents G (saveAutomationContainer G w p kind ss) q = (if q = p then ss else contents G w q)"
proof -
  obtain x y z where p: "p = (x, y, z)" by (cases p)
  obtain u v t where q: "q = (u, v, t)" by (cases q)
  let ?w = "saveAutomationContainer G w p kind ss"
  have run: "?w = SetContainerItems G w x y z kind (entries_from 0 ss)" by (simp add: saveAutomationContainer_def p)
  have ok: "cache_ok G w []" "chunks_ok G w" using assms(1) by (simp_all add: world_ok_def)
  note V = SetContainerItems_visible [OF ok(1) run]
  show "world_ok G ?w" using V(1) SetContainerItems_ok(1) [OF ok] run by (simp add: world_ok_def)
  show k: "kind_at G ?w q = kind_at G w q"
    by (simp add: kind_at_def q block_at_sections [OF V(5)])
  show "contents G ?w q = (if q = p then ss else contents G w q)"
    using k V(3) [of u v t] load_saved [OF assms(2) order_refl] assms(3) by (auto simp: contents_def p q Let_def)
qed

lemma extraction_bound: "i \<in> set (automationExtractionSlots (kind_at G w p) (length (contents G w p))) \<Longrightarrow> i < length (contents G w p)"
  by (auto simp: automationExtractionSlots_def contents_ok is_furnace_def automationContainerSize_def split: if_splits)

lemma move_first_slot:
  "move_first E kind dy sy js src dst = Some r \<Longrightarrow> \<exists>i \<in> set js. i < length src"
  by (induction js) (auto split: if_splits prod.splits)

section \<open>Properties\<close>

text \<open>C15: Moving one item between two containers of the world is exact. When it reports success the
  source shows one item less and the destination one more of the same kind, and every other
  container, and every block, is as before; when it reports failure nothing changed. The
  store's invariant holds afterwards.\<close>

theorem transfer_moves_one_item:
  assumes "world_ok G w" "p \<noteq> q" "transferOneContainerItem E G w p q = (moved, w')"
  shows "world_ok G w' \<and> kind_at G w' = kind_at G w \<and> (\<forall>r. r \<noteq> p \<longrightarrow> r \<noteq> q \<longrightarrow> contents G w' r = contents G w r) \<and>
    (if moved then \<exists>i < length (contents G w p). \<not> IsEmpty (contents G w p ! i) \<and>
       (\<forall>k. total E k (contents G w' p) = total E k (contents G w p) - (if item_key E (contents G w p ! i) = k then 1 else 0)) \<and>
       (\<forall>k. total E k (contents G w' q) = total E k (contents G w q) + (if item_key E (contents G w p ! i) = k then 1 else 0))
     else contents G w' = contents G w)"
proof -
  obtain src w1 where s: "loadAutomationContainer G w p = (src, w1)" by fastforce
  obtain dst w2 where d: "loadAutomationContainer G w1 q = (dst, w2)" by fastforce
  note S = load_at [OF assms(1) s]
  then have "world_ok G w1" by simp
  note D = load_at [OF this d]
  have v: "visible G w2 = visible G w" "world_ok G w2" using S D by simp_all
  note c = contents_cong [OF v(1)]
  have dst: "dst = (if automationContainerSize (kind_at G w q) = 0 then None else Some (kind_at G w q, contents G w q))"
    using D S contents_cong [of G w1 w] by simp
  let ?move = "move_first E (kind_at G w q) (fst (snd q)) (fst (snd p))
    (automationExtractionSlots (kind_at G w p) (length (contents G w p))) (contents G w p) (contents G w q)"
  show ?thesis
  proof (cases "src = None \<or> dst = None \<or> ?move = None")
    case True
    then have "(moved, w') = (False, w2)"
      using assms(3) s d S dst by (auto simp: transferOneContainerItem_def split: if_splits)
    then show ?thesis using v c by simp
  next
    case False
    then obtain src' dst' where m: "?move = Some (src', dst')" by fastforce
    have srcd: "src = Some (kind_at G w p, contents G w p)" "dst = Some (kind_at G w q, contents G w q)"
      using False S dst by (auto split: if_splits)
    let ?w3 = "saveAutomationContainer G w2 p (kind_at G w p) src'"
    have run: "moved" "w' = saveAutomationContainer G ?w3 q (kind_at G w q) dst'"
      using assms(3) s d srcd m by (simp_all add: transferOneContainerItem_def)
    from move_first_ok [OF sink_contents [OF refl] contents_ok(1) contents_ok(1) m]
    obtain i where i: "i < length (contents G w p)" "\<not> IsEmpty (contents G w p ! i)" "slots_ok src'" "slots_ok dst'"
      "length src' = length (contents G w p)" "length dst' = length (contents G w q)"
      and t: "\<forall>k. total E k src' = total E k (contents G w p) - (if item_key E (contents G w p ! i) = k then 1 else 0)"
        "\<forall>k. total E k dst' = total E k (contents G w q) + (if item_key E (contents G w p ! i) = k then 1 else 0)"
      by (elim exE conjE) 
    have "length src' = automationContainerSize (kind_at G w2 p)" using i(5) c contents_ok(2) by simp
    note P = save_at [OF v(2) i(3) this, of "kind_at G w p"]
    have "length dst' = automationContainerSize (kind_at G ?w3 q)" using i(6) c P(2) contents_ok(2) by simp
    note Q = save_at [OF P(1) i(4) this, of "kind_at G w q", folded run(2)]
    have shown: "contents G w' p = src'" "contents G w' q = dst'"
      "\<forall>r. r \<noteq> p \<longrightarrow> r \<noteq> q \<longrightarrow> contents G w' r = contents G w r"
      using Q(3) P(3) assms(2) c by simp_all
    have kinds: "kind_at G w' = kind_at G w" using Q(2) P(2) c by (simp add: fun_eq_iff del: split_paired_All)
    have "\<exists>i < length (contents G w p). \<not> IsEmpty (contents G w p ! i) \<and>
       (\<forall>k. total E k (contents G w' p) = total E k (contents G w p) - (if item_key E (contents G w p ! i) = k then 1 else 0)) \<and>
       (\<forall>k. total E k (contents G w' q) = total E k (contents G w q) + (if item_key E (contents G w p ! i) = k then 1 else 0))"
      unfolding shown using i(1,2) t by blast
    then show ?thesis using Q(1) kinds shown(3) run(1) by (simp del: split_paired_All)
  qed
qed

definition stocked_chests :: world where
  "stocked_chests = saveAutomationContainer chest_env (New None) (0, 64, 0) ''minecraft:chest'' (cobble 2 # replicate 26 no_item)"

lemma chest_contents:
  "world_ok chest_env (New None)" "kind_at chest_env (New None) (0, 64, 0) = ''minecraft:chest''"
  "kind_at chest_env (New None) (1, 64, 0) = ''minecraft:chest''" "contents chest_env (New None) (1, 64, 0) = replicate 27 no_item"
proof -
  show "world_ok chest_env (New None)"
    using chest_env_ok by (simp add: world_ok_def step_ok_def idle_def pending_keys_def)
  have v: "block_at chest_env (New None) x 64 0 = chest_half ''right''" if "x = 0 \<or> x = 1" for x
    using that by (auto simp: block_at_def visible_def New_def ChunkCoordsFor_def SectionSize_def WorldMinY_def WorldMaxY_def
      load_chunk_def from_disk_def chest_env_def void_env_def finalize_chunk_def blockInChunk_def SectionCount_def At_def
      Finalize_def chest_section_def grid_index_def)
  show k: "kind_at chest_env (New None) (0, 64, 0) = ''minecraft:chest''" "kind_at chest_env (New None) (1, 64, 0) = ''minecraft:chest''"
    using v chest_half_props(3) by (simp_all add: kind_at_def)
  have "items_at chest_env (New None) 1 64 0 = []"
    by (simp add: items_at_def visible_def New_def find_entity_def load_chunk_def from_disk_def chest_env_def void_env_def empty_chunk_def finalize_chunk_def)
  then show "contents chest_env (New None) (1, 64, 0) = replicate 27 no_item"
    using k(2) by (simp add: contents_def automationContainerSize_def is_furnace_def)
qed

theorem transfer_moves_one_item_witness:
  "let w' = snd (transferOneContainerItem void_items chest_env stocked_chests (0, 64, 0) (1, 64, 0));
       k = item_key void_items (cobble 2)
   in total void_items k (contents chest_env w' (0, 64, 0)) + total void_items k (contents chest_env w' (1, 64, 0)) = 2"
proof -
  let ?ss = "cobble 2 # replicate 26 no_item"
  let ?run = "transferOneContainerItem void_items chest_env stocked_chests (0, 64, 0) (1, 64, 0)"
  let ?k = "item_key void_items (cobble 2)"
  have "slots_ok ?ss" using cobble_ok [of 2] by (simp add: slots_ok_def list_all_iff slot_ok_def)
  moreover have "length ?ss = automationContainerSize (kind_at chest_env (New None) (0, 64, 0))"
    by (simp add: chest_contents automationContainerSize_def is_furnace_def)
  ultimately have S: "world_ok chest_env stocked_chests" "contents chest_env stocked_chests (0, 64, 0) = ?ss"
      "contents chest_env stocked_chests (1, 64, 0) = replicate 27 no_item"
    unfolding stocked_chests_def using save_at [OF chest_contents(1)] chest_contents(4) by simp_all
  have empty: "total void_items k (replicate n no_item) = 0" for k n by (induction n) (simp_all add: total_def)
  have "total void_items ?k ?ss = amount void_items ?k (cobble 2) + total void_items ?k (replicate 26 no_item)"
    by (simp only: total_def list.map sum_list.Cons)
  moreover have "amount void_items ?k (cobble 2) = 2" using cobble_ok [of 2] by (simp add: amount_nonempty) (simp add: cobble_def)
  ultimately have held: "total void_items ?k ?ss = 2" by (simp add: empty)
  have apart: "(0, 64, 0) \<noteq> (1 :: int, 64 :: int, 0 :: int)" by simp
  have T: "if fst ?run then \<exists>i < length ?ss. \<not> IsEmpty (?ss ! i) \<and>
       (\<forall>k. total void_items k (contents chest_env (snd ?run) (0, 64, 0)) = total void_items k ?ss - (if item_key void_items (?ss ! i) = k then 1 else 0)) \<and>
       (\<forall>k. total void_items k (contents chest_env (snd ?run) (1, 64, 0)) = total void_items k (replicate 27 no_item) + (if item_key void_items (?ss ! i) = k then 1 else 0))
     else contents chest_env (snd ?run) = contents chest_env stocked_chests"
    using transfer_moves_one_item [OF S(1) apart prod.collapse [symmetric], of void_items, THEN conjunct2, THEN conjunct2, THEN conjunct2]
    unfolding S(2,3) .
  show ?thesis
  proof (cases "fst ?run")
    case True
    with T obtain i where
      "\<forall>k. total void_items k (contents chest_env (snd ?run) (0, 64, 0)) = total void_items k ?ss - (if item_key void_items (?ss ! i) = k then 1 else 0)"
      "\<forall>k. total void_items k (contents chest_env (snd ?run) (1, 64, 0)) = total void_items k (replicate 27 no_item) + (if item_key void_items (?ss ! i) = k then 1 else 0)"
      by (simp only: if_True) (elim exE conjE)
    from this(1) [THEN spec, of ?k] this(2) [THEN spec, of ?k] show ?thesis by (simp add: Let_def held empty)
  next
    case False
    then have "contents chest_env (snd ?run) = contents chest_env stocked_chests" using T by (simp only: if_False)
    then show ?thesis by (simp add: Let_def S held empty)
  qed
qed

end
