(* ===== verification/Cipher.thy ===== *)
theory Cipher
  imports Wire
begin

text \<open>
  Connection encryption: AES in CFB8 mode (\<open>java/auth/cfb8.go\<close>) and the encrypted halves of a
  connection (\<open>java/network/conn.go\<close>). The AES block function is a parameter: \<open>aes key block\<close>.
  \<open>XORKeyStream\<close> works on two slices that may lie in one buffer, so its model is a memory with
  two offsets. The socket is the list of the bytes in flight; how many of them one \<open>Read\<close> of it
  returns is an argument.
\<close>

section \<open>The cipher stream (cfb8.go)\<close>

record cfb8Stream =
  block :: "byte list \<Rightarrow> byte list"
  sr :: "byte list"
  ks :: "byte list"
  encrypts :: bool

datatype cipher_error = KeySizeError nat | IVLength nat nat

definition BlockSize :: nat where "BlockSize = 16"

definition NewCipher :: "(byte list \<Rightarrow> byte list \<Rightarrow> byte list) \<Rightarrow> byte list \<Rightarrow> cipher_error + (byte list \<Rightarrow> byte list)" where
  "NewCipher aes key = (if length key \<in> {16, 24, 32} then Inr (aes key) else Inl (KeySizeError (length key)))"

definition newCFB8 :: "(byte list \<Rightarrow> byte list \<Rightarrow> byte list) \<Rightarrow> byte list \<Rightarrow> byte list \<Rightarrow> bool \<Rightarrow> cipher_error + cfb8Stream" where
  "newCFB8 aes key iv enc =
     (case NewCipher aes key of
        Inl err \<Rightarrow> Inl err
      | Inr b \<Rightarrow>
          if length iv \<noteq> BlockSize then Inl (IVLength (length iv) BlockSize)
          else Inr \<lparr>block = b, sr = iv, ks = replicate BlockSize 0, encrypts = enc\<rparr>)"

definition NewCFB8Encrypter :: "(byte list \<Rightarrow> byte list \<Rightarrow> byte list) \<Rightarrow> byte list \<Rightarrow> byte list \<Rightarrow> cipher_error + cfb8Stream" where
  "NewCFB8Encrypter aes key iv = newCFB8 aes key iv True"

definition NewCFB8Decrypter :: "(byte list \<Rightarrow> byte list \<Rightarrow> byte list) \<Rightarrow> byte list \<Rightarrow> byte list \<Rightarrow> cipher_error + cfb8Stream" where
  "NewCFB8Decrypter aes key iv = newCFB8 aes key iv False"

text \<open>One round of the loop: \<open>dst\<close> and \<open>src\<close> are offsets into the memory.\<close>

definition xor_round :: "nat \<Rightarrow> nat \<Rightarrow> cfb8Stream \<times> byte list \<Rightarrow> cfb8Stream \<times> byte list" where
  "xor_round dst src = (\<lambda>(s, mem).
     let keystream = block s (sr s);
         ct = mem ! src;
         mem' = mem[dst := mem ! src XOR keystream ! 0];
         ct' = (if encrypts s then mem' ! dst else ct)
     in (s\<lparr>ks := keystream, sr := tl (sr s) @ [ct']\<rparr>, mem'))"

fun xor_rounds :: "nat \<Rightarrow> nat \<Rightarrow> nat \<Rightarrow> cfb8Stream \<times> byte list \<Rightarrow> cfb8Stream \<times> byte list" where
  "xor_rounds 0 dst src st = st"
| "xor_rounds (Suc n) dst src st = xor_rounds n (Suc dst) (Suc src) (xor_round dst src st)"

text \<open>\<open>None\<close> is the panic of a short output buffer.\<close>

definition XORKeyStream :: "cfb8Stream \<Rightarrow> byte list \<Rightarrow> nat \<Rightarrow> nat \<Rightarrow> nat \<Rightarrow> nat \<Rightarrow> (cfb8Stream \<times> byte list) option" where
  "XORKeyStream s mem dst dst_len src src_len =
     (if dst_len < src_len then None else Some (xor_rounds src_len dst src (s, mem)))"

section \<open>The two halves of a connection (conn.go)\<close>

record encryptedReader =
  rd_stream :: cfb8Stream
  rd_pending :: "byte list"

text \<open>\<open>Read\<close> into a buffer \<open>p\<close>: the bytes it delivers, and the bytes left in the socket. \<open>k\<close> bounds how
  many bytes the socket hands over at once.\<close>

definition reader_Read :: "encryptedReader \<Rightarrow> byte list \<Rightarrow> byte list \<Rightarrow> nat \<Rightarrow> (byte list \<times> encryptedReader \<times> byte list) option" where
  "reader_Read r socket p k =
     (if rd_pending r \<noteq> [] then
        (let n = min (length p) (length (rd_pending r)); filled = take n (rd_pending r) @ drop n p
         in case XORKeyStream (rd_stream r) filled 0 n 0 n of
              None \<Rightarrow> None
            | Some (s, mem) \<Rightarrow> Some (take n mem, r\<lparr>rd_stream := s, rd_pending := drop n (rd_pending r)\<rparr>, socket))
      else
        (let n = min k (min (length p) (length socket)); filled = take n socket @ drop n p
         in if n = 0 then Some ([], r, socket)
            else case XORKeyStream (rd_stream r) filled 0 n 0 n of
                   None \<Rightarrow> None
                 | Some (s, mem) \<Rightarrow> Some (take n mem, r\<lparr>rd_stream := s\<rparr>, drop n socket)))"

text \<open>\<open>Write\<close> encrypts into a buffer of its own, laid out before the caller's bytes in the memory.\<close>

definition writer_Write :: "cfb8Stream \<Rightarrow> byte list \<Rightarrow> (cfb8Stream \<times> byte list) option" where
  "writer_Write s p =
     (case XORKeyStream s (replicate (length p) 0 @ p) 0 (length p) (length p) (length p) of
        None \<Rightarrow> None
      | Some (s', mem) \<Rightarrow> Some (s', take (length p) mem))"

text \<open>\<open>EnableEncryption\<close>: the bytes already buffered go through the decrypter first.\<close>

definition EnableEncryption :: "(byte list \<Rightarrow> byte list \<Rightarrow> byte list) \<Rightarrow> byte list \<Rightarrow> byte list \<Rightarrow> cipher_error + (encryptedReader \<times> cfb8Stream)" where
  "EnableEncryption aes sharedSecret buffered =
     (case NewCFB8Encrypter aes sharedSecret sharedSecret of
        Inl err \<Rightarrow> Inl err
      | Inr enc \<Rightarrow>
          (case NewCFB8Decrypter aes sharedSecret sharedSecret of
             Inl err \<Rightarrow> Inl err
           | Inr dec \<Rightarrow> Inr (\<lparr>rd_stream = dec, rd_pending = buffered\<rparr>, enc)))"

text \<open>A sequence of writes, and a sequence of reads with their buffers.\<close>

fun write_all :: "cfb8Stream \<Rightarrow> byte list list \<Rightarrow> (cfb8Stream \<times> byte list) option" where
  "write_all s [] = Some (s, [])"
| "write_all s (p # ps) =
     (case writer_Write s p of
        None \<Rightarrow> None
      | Some (s', c) \<Rightarrow> map_option (\<lambda>(s'', cs). (s'', c @ cs)) (write_all s' ps))"

fun read_all :: "encryptedReader \<Rightarrow> byte list \<Rightarrow> (byte list \<times> nat) list \<Rightarrow> (byte list \<times> encryptedReader \<times> byte list) option" where
  "read_all r socket [] = Some ([], r, socket)"
| "read_all r socket ((p, k) # reads) =
     (case reader_Read r socket p k of
        None \<Rightarrow> None
      | Some (out, r', socket') \<Rightarrow> map_option (\<lambda>(outs, r'', s''). (out @ outs, r'', s'')) (read_all r' socket' reads))"

section \<open>The stream the memory operations implement\<close>

text \<open>The cipher as a function of the bytes alone, with the shift register as its state.\<close>

fun cfb_bytes :: "bool \<Rightarrow> (byte list \<Rightarrow> byte list) \<Rightarrow> byte list \<Rightarrow> byte list \<Rightarrow> byte list \<times> byte list" where
  "cfb_bytes enc b reg [] = (reg, [])"
| "cfb_bytes enc b reg (x # xs) =
     (let y = x XOR b reg ! 0; (reg', ys) = cfb_bytes enc b (tl reg @ [if enc then y else x]) xs
      in (reg', y # ys))"

lemma cfb_bytes_length [simp]: "length (snd (cfb_bytes enc b reg xs)) = length xs"
  by (induction xs arbitrary: reg) (simp_all add: Let_def split: prod.splits, metis snd_conv)

lemma cfb_bytes_append:
  "cfb_bytes enc b reg (xs @ ys) =
    (let (reg', us) = cfb_bytes enc b reg xs; (reg'', vs) = cfb_bytes enc b reg' ys in (reg'', us @ vs))"
  by (induction xs arbitrary: reg) (simp_all add: Let_def split: prod.splits)

lemma cfb_inverse:
  "cfb_bytes True b reg xs = (reg', ys) \<Longrightarrow> cfb_bytes False b reg ys = (reg', xs)"
proof (induction xs arbitrary: reg reg' ys)
  case (Cons x xs)
  let ?y = "x XOR b reg ! 0"
  obtain reg1 zs where r: "cfb_bytes True b (tl reg @ [?y]) xs = (reg1, zs)" by fastforce
  then have "reg' = reg1" "ys = ?y # zs" using Cons.prems by (simp_all add: Let_def)
  then show ?case using Cons.IH [OF r] by (simp add: Let_def xor.assoc)
qed simp

text \<open>The state a stream is left in: everything but its scratch buffer.\<close>

definition left_in :: "cfb8Stream \<Rightarrow> byte list \<Rightarrow> cfb8Stream \<Rightarrow> bool" where
  "left_in s reg s' \<longleftrightarrow> block s' = block s \<and> encrypts s' = encrypts s \<and> sr s' = reg"

lemma xor_round_in_place:
  "xor_round (length pre) (length pre) (s, pre @ x # rest) =
    (let y = x XOR block s (sr s) ! 0
     in (s\<lparr>ks := block s (sr s), sr := tl (sr s) @ [if encrypts s then y else x]\<rparr>, (pre @ [y]) @ rest))"
  by (simp add: xor_round_def Let_def nth_append list_update_append)

lemma xor_rounds_in_place:
  assumes "cfb_bytes (encrypts s) (block s) (sr s) xs = (reg, ys)"
  shows "\<exists>s'. xor_rounds (length xs) (length pre) (length pre) (s, pre @ xs @ post) = (s', pre @ ys @ post) \<and> left_in s reg s'"
  using assms
proof (induction xs arbitrary: s pre ys)
  case Nil
  then show ?case by (simp add: left_in_def)
next
  case (Cons x xs)
  let ?y = "x XOR block s (sr s) ! 0"
  let ?s = "s\<lparr>ks := block s (sr s), sr := tl (sr s) @ [if encrypts s then ?y else x]\<rparr>"
  obtain reg' zs where r: "cfb_bytes (encrypts s) (block s) (tl (sr s) @ [if encrypts s then ?y else x]) xs = (reg', zs)" by fastforce
  then have e: "reg = reg'" "ys = ?y # zs" using Cons.prems by (simp_all add: Let_def)
  have "cfb_bytes (encrypts ?s) (block ?s) (sr ?s) xs = (reg, zs)" using r e(1) by simp
  from Cons.IH [OF this, of "pre @ [?y]"] obtain s' where
    "xor_rounds (length xs) (Suc (length pre)) (Suc (length pre)) (?s, (pre @ [?y]) @ xs @ post) = (s', (pre @ [?y]) @ zs @ post)"
    "left_in ?s reg s'" by (auto simp del: append_assoc)
  then show ?case
    using e(2) xor_round_in_place [of pre s x "xs @ post"] by (intro exI [of _ s']) (simp add: Let_def left_in_def)
qed

lemma xor_round_apart:
  "xor_round (length pre) (length pre + length (z # zs) + length mid) (s, pre @ z # zs @ mid @ x # rest) =
    (let y = x XOR block s (sr s) ! 0
     in (s\<lparr>ks := block s (sr s), sr := tl (sr s) @ [if encrypts s then y else x]\<rparr>, (pre @ [y]) @ zs @ (mid @ [x]) @ rest))"
  by (simp add: xor_round_def Let_def nth_append list_update_append)

lemma xor_rounds_apart:
  assumes "cfb_bytes (encrypts s) (block s) (sr s) xs = (reg, ys)" "length zs = length xs"
  shows "\<exists>s'. xor_rounds (length xs) (length pre) (length pre + length zs + length mid) (s, pre @ zs @ mid @ xs @ post)
      = (s', pre @ ys @ mid @ xs @ post) \<and> left_in s reg s'"
  using assms
proof (induction xs arbitrary: s pre ys zs mid)
  case Nil
  then show ?case by (simp add: left_in_def)
next
  case (Cons x xs)
  obtain z zs' where z: "zs = z # zs'" "length zs' = length xs" using Cons.prems(2) by (cases zs) auto
  let ?y = "x XOR block s (sr s) ! 0"
  let ?s = "s\<lparr>ks := block s (sr s), sr := tl (sr s) @ [if encrypts s then ?y else x]\<rparr>"
  obtain reg' us where r: "cfb_bytes (encrypts s) (block s) (tl (sr s) @ [if encrypts s then ?y else x]) xs = (reg', us)" by fastforce
  then have e: "reg = reg'" "ys = ?y # us" using Cons.prems by (simp_all add: Let_def)
  have "cfb_bytes (encrypts ?s) (block ?s) (sr ?s) xs = (reg, us)" using r e(1) by simp
  from Cons.IH [OF this z(2), of "pre @ [?y]" "mid @ [x]"] obtain s' where
    "xor_rounds (length xs) (Suc (length pre)) (Suc (length pre + length zs' + Suc (length mid)))
       (?s, (pre @ [?y]) @ zs' @ (mid @ [x]) @ xs @ post) = (s', (pre @ [?y]) @ us @ (mid @ [x]) @ xs @ post)"
    "left_in ?s reg s'" by (auto simp del: append_assoc)
  then show ?case
    using e(2) z(1) xor_round_apart [of pre z zs' mid s x "xs @ post"] by (intro exI [of _ s']) (simp add: Let_def left_in_def)
qed

text \<open>What one read and one write do, in terms of the bytes in flight.\<close>

lemma writer_Write_bytes:
  assumes "cfb_bytes (encrypts s) (block s) (sr s) p = (reg, ys)"
  shows "\<exists>s'. writer_Write s p = Some (s', ys) \<and> left_in s reg s'"
proof -
  obtain s' where "xor_rounds (length p) 0 (length p) (s, replicate (length p) 0 @ p) = (s', ys @ p)" "left_in s reg s'"
    using xor_rounds_apart [OF assms, of "replicate (length p) 0" "[]" "[]" "[]"] by auto
  moreover have "length ys = length p" using cfb_bytes_length assms by (metis snd_conv)
  ultimately show ?thesis by (simp add: writer_Write_def XORKeyStream_def)
qed

lemma reader_Read_bytes:
  assumes "reader_Read r socket p k = Some (out, r', socket')" "\<not> encrypts (rd_stream r)"
  shows "\<exists>n. rd_pending r' @ socket' = drop n (rd_pending r @ socket) \<and>
    (let (reg, ys) = cfb_bytes False (block (rd_stream r)) (sr (rd_stream r)) (take n (rd_pending r @ socket))
     in out = ys \<and> left_in (rd_stream r) reg (rd_stream r'))"
proof (cases "rd_pending r = []")
  case False
  let ?n = "min (length p) (length (rd_pending r))"
  let ?xs = "take ?n (rd_pending r)"
  obtain reg ys where c: "cfb_bytes False (block (rd_stream r)) (sr (rd_stream r)) ?xs = (reg, ys)" by fastforce
  have len: "length ?xs = ?n" "length ys = ?n" using cfb_bytes_length c by (force, metis length_take min.commute min.left_idem snd_conv)
  obtain s' where "xor_rounds ?n 0 0 (rd_stream r, ?xs @ drop ?n p) = (s', ys @ drop ?n p)" "left_in (rd_stream r) reg s'"
    using xor_rounds_in_place [of "rd_stream r" ?xs reg ys "[]" "drop ?n p"] c assms(2) len by auto
  then show ?thesis
    using assms(1) False c len by (intro exI [of _ ?n]) (auto simp: reader_Read_def XORKeyStream_def Let_def)
next
  case True
  let ?n = "min k (min (length p) (length socket))"
  let ?xs = "take ?n socket"
  obtain reg ys where c: "cfb_bytes False (block (rd_stream r)) (sr (rd_stream r)) ?xs = (reg, ys)" by fastforce
  have len: "length ?xs = ?n" "length ys = ?n"
    using cfb_bytes_length [of False "block (rd_stream r)" "sr (rd_stream r)" ?xs] c by simp_all
  obtain s' where "xor_rounds ?n 0 0 (rd_stream r, ?xs @ drop ?n p) = (s', ys @ drop ?n p)" "left_in (rd_stream r) reg s'"
    using xor_rounds_in_place [of "rd_stream r" ?xs reg ys "[]" "drop ?n p"] c assms(2) len by auto
  then show ?thesis
    using assms(1) True c len
    by (intro exI [of _ ?n]) (auto simp: reader_Read_def XORKeyStream_def Let_def left_in_def split: if_splits)
qed

lemma write_all_bytes:
  assumes "encrypts s" "cfb_bytes True (block s) (sr s) (concat ps) = (reg, ys)"
  shows "\<exists>s'. write_all s ps = Some (s', ys) \<and> left_in s reg s'"
  using assms
proof (induction ps arbitrary: s ys)
  case Nil
  then show ?case by (simp add: left_in_def)
next
  case (Cons p ps)
  obtain reg1 us where p: "cfb_bytes True (block s) (sr s) p = (reg1, us)" by fastforce
  obtain s1 where s1: "writer_Write s p = Some (s1, us)" "left_in s reg1 s1"
    using writer_Write_bytes [of s p reg1 us] p Cons.prems(1) by auto
  obtain vs where q: "cfb_bytes True (block s) reg1 (concat ps) = (reg, vs)" "ys = us @ vs"
    using Cons.prems(2) p by (auto simp: cfb_bytes_append Let_def split: prod.splits)
  then have "cfb_bytes True (block s1) (sr s1) (concat ps) = (reg, vs)" "encrypts s1"
    using s1(2) Cons.prems(1) by (simp_all add: left_in_def)
  from Cons.IH [OF this(2,1)] obtain s' where "write_all s1 ps = Some (s', vs)" "left_in s1 reg s'" by blast
  then show ?case using s1 q(2) by (auto simp: left_in_def)
qed

lemma reader_Read_total: "reader_Read r socket p k \<noteq> None"
  by (simp add: reader_Read_def XORKeyStream_def Let_def split: prod.splits)

text \<open>The invariant of a sequence of reads: the plaintext so far, and the ciphertext still to come.\<close>

lemma read_all_bytes:
  assumes "\<not> encrypts (rd_stream r)"
    and "cfb_bytes False (block (rd_stream r)) (sr (rd_stream r)) (rd_pending r @ socket) = (reg, plain)"
  shows "\<exists>out r' socket' rest. read_all r socket reads = Some (out, r', socket') \<and> plain = out @ rest \<and>
    length rest = length (rd_pending r' @ socket')"
  using assms
proof (induction reads arbitrary: r socket plain)
  case Nil
  then show ?case
    using cfb_bytes_length [of False "block (rd_stream r)" "sr (rd_stream r)" "rd_pending r @ socket"] by simp
next
  case (Cons read reads)
  obtain p k where read: "read = (p, k)" by (cases read)
  obtain out1 r1 socket1 where one: "reader_Read r socket p k = Some (out1, r1, socket1)"
    using reader_Read_total [of r socket p k] by (cases "reader_Read r socket p k") auto
  let ?flight = "rd_pending r @ socket"
  from reader_Read_bytes [OF one Cons.prems(1)] obtain n where
    n: "rd_pending r1 @ socket1 = drop n ?flight" and
    q: "let (reg, ys) = cfb_bytes False (block (rd_stream r)) (sr (rd_stream r)) (take n ?flight)
        in out1 = ys \<and> left_in (rd_stream r) reg (rd_stream r1)" by blast
  obtain reg1 ys where "cfb_bytes False (block (rd_stream r)) (sr (rd_stream r)) (take n ?flight) = (reg1, ys)" by fastforce
  with q have c: "cfb_bytes False (block (rd_stream r)) (sr (rd_stream r)) (take n ?flight) = (reg1, out1)" and
    l: "left_in (rd_stream r) reg1 (rd_stream r1)" by (simp_all del: take_append drop_append)
  obtain reg2 more where d: "cfb_bytes False (block (rd_stream r)) reg1 (drop n ?flight) = (reg2, more)" by fastforce
  have "cfb_bytes False (block (rd_stream r)) (sr (rd_stream r)) (take n ?flight @ drop n ?flight) = (reg, plain)"
    using Cons.prems(2) by (simp only: append_take_drop_id)
  then have e: "reg2 = reg" "plain = out1 @ more"
    using c d by (simp_all add: cfb_bytes_append Let_def del: append_take_drop_id take_append drop_append)
  have "cfb_bytes False (block (rd_stream r1)) (sr (rd_stream r1)) (rd_pending r1 @ socket1) = (reg, more)"
    "\<not> encrypts (rd_stream r1)"
    using d e(1) n l Cons.prems(1) by (simp_all add: left_in_def)
  from Cons.IH [OF this(2,1)] obtain out r' socket' rest where
    "read_all r1 socket1 reads = Some (out, r', socket')" "more = out @ rest" "length rest = length (rd_pending r' @ socket')"
    by blast
  then show ?case using one read e(2) by auto
qed

lemma EnableEncryption_cases:
  assumes "EnableEncryption aes secret buffered = Inr (r, w)"
  shows "w = \<lparr>block = aes secret, sr = secret, ks = replicate BlockSize 0, encrypts = True\<rparr>"
    "r = \<lparr>rd_stream = \<lparr>block = aes secret, sr = secret, ks = replicate BlockSize 0, encrypts = False\<rparr>, rd_pending = buffered\<rparr>"
  using assms
  by (auto simp: EnableEncryption_def NewCFB8Encrypter_def NewCFB8Decrypter_def newCFB8_def NewCipher_def
      split: sum.splits if_splits)

lemma EnableEncryption_any:
  "EnableEncryption aes secret buffered = Inr (r, w) \<Longrightarrow> \<exists>r' w'. EnableEncryption aes secret buffered' = Inr (r', w')"
  by (auto simp: EnableEncryption_def split: sum.splits)

section \<open>Properties\<close>

text \<open>C19: An encrypted connection is transparent. Whatever is written at one end, in whatever pieces, and
  however the other end reads it (the buffer of every read, how many bytes the socket hands over
  each time, how many ciphertext bytes were already buffered when encryption was switched on),
  the bytes read are the bytes written, in order, and those missing are exactly as many as are
  still in flight. No call panics. This holds for every block function.\<close>

theorem encrypted_channel_transparent:
  assumes "EnableEncryption aes secret own_buffered = Inr (own_reader, w)"
  shows "\<exists>w' cs. write_all w ps = Some (w', cs) \<and>
    (\<forall>buffered socket reads. cs = buffered @ socket \<longrightarrow>
      (\<exists>r own_writer out r' socket' rest.
         EnableEncryption aes secret buffered = Inr (r, own_writer) \<and>
         read_all r socket reads = Some (out, r', socket') \<and>
         concat ps = out @ rest \<and> length rest = length (rd_pending r' @ socket')))"
proof -
  note w = EnableEncryption_cases(1) [OF assms]
  obtain reg cs where c: "cfb_bytes True (aes secret) secret (concat ps) = (reg, cs)" by fastforce
  then obtain w' where w': "write_all w ps = Some (w', cs)"
    using write_all_bytes [of w ps reg cs] w by auto
  moreover have "\<exists>r own_writer out r' socket' rest.
         EnableEncryption aes secret buffered = Inr (r, own_writer) \<and>
         read_all r socket reads = Some (out, r', socket') \<and>
         concat ps = out @ rest \<and> length rest = length (rd_pending r' @ socket')"
    if "cs = buffered @ socket" for buffered socket reads
  proof -
    obtain r ow where r: "EnableEncryption aes secret buffered = Inr (r, ow)" using EnableEncryption_any [OF assms] by blast
    note E = EnableEncryption_cases(2) [OF r]
    then have "cfb_bytes False (block (rd_stream r)) (sr (rd_stream r)) (rd_pending r @ socket) = (reg, concat ps)"
      using cfb_inverse [OF c] that by simp
    moreover have "\<not> encrypts (rd_stream r)" using E by simp
    ultimately show ?thesis using read_all_bytes r by blast
  qed
  ultimately show ?thesis by blast
qed

theorem encrypted_channel_transparent_witness:
  "let key = replicate 16 7; aes = (\<lambda>k b. map2 (+) k (rev b))
   in \<exists>r w w' cs. EnableEncryption aes key [] = Inr (r, w) \<and> write_all w [[1, 2], [3]] = Some (w', cs)"
proof -
  let ?key = "replicate 16 7 :: byte list" and ?aes = "\<lambda>(k :: byte list) b. map2 (+) k (rev b)"
  obtain r w where e: "EnableEncryption ?aes ?key [] = Inr (r, w)"
    by (simp add: EnableEncryption_def NewCFB8Encrypter_def NewCFB8Decrypter_def newCFB8_def NewCipher_def BlockSize_def)
  from encrypted_channel_transparent [OF e, of "[[1, 2], [3]]"] e show ?thesis by (auto simp: Let_def)
qed

end
