(* ===== verification/Experience.thy ===== *)
theory Experience
  imports Wire
begin

text \<open>
  Experience points (\<open>core/player/experience.go\<close>), the orbs they are dropped as
  (\<open>core/experience/orb.go\<close>) and the experience command (\<open>java/handler/experience_command.go\<close>).
  Points and levels are \<open>int32\<close>, read signed; the \<open>int64\<close> intermediates never leave its range
  and are integers. The progress bar, a quotient of two \<open>int32\<close>, is kept as its numerator
  and denominator.
\<close>

definition max_int32 :: int where "max_int32 = 2147483647"

section \<open>Levels and points\<close>

definition ExperienceForLevel :: "i32 \<Rightarrow> i32" where
  "ExperienceForLevel level =
     (let l = sint level
      in if l \<le> 0 then 0
         else if l > 21863 then word_of_int max_int32
         else let t =
                (if l \<le> 16 then l * l + 6 * l
                 else if l \<le> 31 then (5 * l * l - 81 * l) div 2 + 360
                 else (9 * l * l - 325 * l) div 2 + 2220)
              in if t > max_int32 then word_of_int max_int32 else word_of_int t)"

definition ExperienceToNextLevel :: "i32 \<Rightarrow> i32" where
  "ExperienceToNextLevel level =
     (if sint level \<ge> 30 then 9 * level - 158
      else if sint level \<ge> 15 then 5 * level - 38
      else 2 * level + 7)"

function level_search :: "i32 \<Rightarrow> int \<Rightarrow> int \<Rightarrow> int" where
  "level_search pts low high =
     (if low + 1 < high then
        let middle = low + (high - low) div 2
        in if sint (ExperienceForLevel (word_of_int middle)) \<le> sint pts then level_search pts middle high
           else level_search pts low middle
      else low)"
  by pat_completeness auto
termination
  by (relation "measure (\<lambda>(pts, low, high). nat (high - low))") auto

declare level_search.simps [simp del]

definition levelForExperience :: "i32 \<Rightarrow> i32" where
  "levelForExperience pts = word_of_int (level_search pts 0 21864)"

record experience =
  ExperienceTotal :: i32
  ExperienceLevel :: i32
  ProgressWithin :: i32
  ProgressOf :: i32
  experiencePickupTick :: i64

definition set_total :: "i32 \<Rightarrow> experience \<Rightarrow> experience" where
  "set_total pts p =
     (let level = levelForExperience pts
      in p\<lparr>ExperienceTotal := pts, ExperienceLevel := level,
           ProgressWithin := pts - ExperienceForLevel level, ProgressOf := ExperienceToNextLevel level\<rparr>)"

definition SetTotalExperience :: "i32 \<Rightarrow> experience \<Rightarrow> experience" where
  "SetTotalExperience pts p = set_total (if sint pts < 0 then 0 else pts) p"

definition SetExperienceLevel :: "i32 \<Rightarrow> experience \<Rightarrow> experience" where
  "SetExperienceLevel level p =
     (let level' = (if sint level < 0 then 0 else if sint level > 21863 then 21863 else level)
      in SetTotalExperience (ExperienceForLevel level') p)"

definition AddExperience :: "i32 \<Rightarrow> experience \<Rightarrow> experience" where
  "AddExperience points p =
     (let updated = sint (ExperienceTotal p) + sint points
      in SetTotalExperience (word_of_int (if updated > max_int32 then max_int32 else if updated < 0 then 0 else updated)) p)"

definition TryPickupExperience :: "i32 \<Rightarrow> i64 \<Rightarrow> experience \<Rightarrow> experience \<times> bool" where
  "TryPickupExperience points tick p =
     (if sint points \<le> 0 then (p, False)
      else if experiencePickupTick p \<noteq> 0 \<and> sint (tick - experiencePickupTick p) < 2 then (p, False)
      else let updated = sint (ExperienceTotal p) + sint points
           in ((set_total (word_of_int (if updated > max_int32 then max_int32 else updated)) p)\<lparr>experiencePickupTick := tick\<rparr>, True))"

section \<open>The experience command\<close>

datatype xp_action = Query bool | Add i32 bool | SetTo i32 bool

text \<open>After parsing: the action with its amount and whether its unit is levels. \<open>None\<close> is the refusal.\<close>

definition cmdExperience :: "xp_action \<Rightarrow> experience \<Rightarrow> experience option" where
  "cmdExperience action p =
     (case action of
        Query levels \<Rightarrow> Some p
      | Add amount levels \<Rightarrow>
          Some (if \<not> levels then AddExperience amount p else SetExperienceLevel (ExperienceLevel p + amount) p)
      | SetTo amount levels \<Rightarrow>
          (if sint amount < 0 then None
           else if levels then Some (SetExperienceLevel amount p)
           else if sint amount \<ge> sint (ExperienceToNextLevel (ExperienceLevel p)) then None
           else Some (SetTotalExperience (ExperienceForLevel (ExperienceLevel p) + amount) p)))"

section \<open>Orbs\<close>

definition RoundToOrbSize :: "int \<Rightarrow> int" where
  "RoundToOrbSize v =
     (if v \<ge> 2477 then 2477 else if v \<ge> 1237 then 1237 else if v \<ge> 617 then 617
      else if v \<ge> 307 then 307 else if v \<ge> 149 then 149 else if v \<ge> 73 then 73
      else if v \<ge> 37 then 37 else if v \<ge> 17 then 17 else if v \<ge> 7 then 7
      else if v \<ge> 3 then 3 else if v > 0 then 1 else 0)"

definition orbUUID :: "i32 \<Rightarrow> byte list" where
  "orbUUID i = (replicate 12 0 @ be_put 4 i)[6 := 0x40, 8 := 0x80]"

record orb =
  orb_id :: i32
  orb_uuid :: "byte list"
  orb_amount :: int

text \<open>Entity ids come from a counter of the game, here \<open>next\<close>.\<close>

function SpawnOrbs :: "i32 \<Rightarrow> int \<Rightarrow> orb list \<times> i32" where
  "SpawnOrbs fresh points =
     (if points > 0 then
        let amount = RoundToOrbSize points;
            (orbs, fresh') = SpawnOrbs (fresh + 1) (points - amount)
        in (\<lparr>orb_id = fresh, orb_uuid = orbUUID fresh, orb_amount = amount\<rparr> # orbs, fresh')
      else ([], fresh))"
  by pat_completeness auto
termination
  by (relation "measure (\<lambda>(fresh, points). nat points)") (auto simp: RoundToOrbSize_def)

declare SpawnOrbs.simps [simp del]

section \<open>The curve\<close>

text \<open>The same curve on integers, and the step from a level to the next.\<close>

definition xp_at :: "int \<Rightarrow> int" where
  "xp_at l = (if l \<le> 0 then 0 else if l \<le> 16 then l * l + 6 * l
     else if l \<le> 31 then (5 * l * l - 81 * l) div 2 + 360 else (9 * l * l - 325 * l) div 2 + 2220)"

definition xp_step :: "int \<Rightarrow> int" where
  "xp_step l = (if l \<ge> 30 then 9 * l - 158 else if l \<ge> 15 then 5 * l - 38 else 2 * l + 7)"

lemma half_even: "even (a :: int) \<Longrightarrow> even b \<Longrightarrow> b div 2 - a div 2 = (b - a) div 2"
  by (auto elim!: evenE)

lemma xp_at_Suc:
  assumes "0 \<le> l"
  shows "xp_at (l + 1) = xp_at l + xp_step l"
proof -
  consider "l = 0" | "1 \<le> l" "l \<le> 14" | "l = 15" | "l = 16" | "17 \<le> l" "l \<le> 29" | "l = 30" | "l = 31" | "32 \<le> l"
    using assms by linarith
  then show ?thesis
  proof cases
    case 5
    have "even (5 * l * l - 81 * l)" by auto
    moreover have "even (5 * (l + 1) * (l + 1) - 81 * (l + 1))" by auto
    ultimately have "(5 * (l + 1) * (l + 1) - 81 * (l + 1)) div 2 - (5 * l * l - 81 * l) div 2
        = ((5 * (l + 1) * (l + 1) - 81 * (l + 1)) - (5 * l * l - 81 * l)) div 2" by (rule half_even)
    also have "(5 * (l + 1) * (l + 1) - 81 * (l + 1)) - (5 * l * l - 81 * l) = 2 * (5 * l - 38)" by (simp add: algebra_simps)
    finally show ?thesis using 5 by (simp add: xp_at_def xp_step_def)
  next
    case 8
    have "even (9 * l * l - 325 * l)" by auto
    moreover have "even (9 * (l + 1) * (l + 1) - 325 * (l + 1))" by auto
    ultimately have "(9 * (l + 1) * (l + 1) - 325 * (l + 1)) div 2 - (9 * l * l - 325 * l) div 2
        = ((9 * (l + 1) * (l + 1) - 325 * (l + 1)) - (9 * l * l - 325 * l)) div 2" by (rule half_even)
    also have "(9 * (l + 1) * (l + 1) - 325 * (l + 1)) - (9 * l * l - 325 * l) = 2 * (9 * l - 158)" by (simp add: algebra_simps)
    finally show ?thesis using 8 by (simp add: xp_at_def xp_step_def)
  qed (simp_all add: xp_at_def xp_step_def algebra_simps)
qed

lemma xp_step_pos: "0 \<le> l \<Longrightarrow> 0 < xp_step l"
  by (simp add: xp_step_def)

lemma xp_at_mono:
  assumes "0 \<le> a" "a \<le> b"
  shows "xp_at a \<le> xp_at b"
  using assms(2)
proof (induction b rule: int_ge_induct)
  case (step b)
  then show ?case using xp_at_Suc [of b] xp_step_pos [of b] assms(1) by simp
qed simp

lemma xp_at_bounds: "0 \<le> l \<Longrightarrow> l \<le> 21863 \<Longrightarrow> 0 \<le> xp_at l \<and> xp_at l \<le> 2147407943"
  using xp_at_mono [of 0 l] xp_at_mono [of l 21863] by (simp add: xp_at_def)

lemma sint_ForLevel:
  "sint (ExperienceForLevel level) = (if sint level > 21863 then max_int32 else xp_at (sint level))"
proof -
  consider "sint level \<le> 0" | "sint level > 21863" | "0 < sint level" "sint level \<le> 21863" by linarith
  then show ?thesis
  proof cases
    case 3
    note B = xp_at_bounds [of "sint level"]
    have "ExperienceForLevel level = word_of_int (xp_at (sint level))"
      using 3 B by (auto simp: ExperienceForLevel_def Let_def xp_at_def max_int32_def)
    then show ?thesis using 3 B by (simp add: sint_small)
  qed (simp_all add: ExperienceForLevel_def Let_def xp_at_def sint_small max_int32_def)
qed

lemma sint_ToNext:
  assumes "0 \<le> sint level" "sint level \<le> 21863"
  shows "sint (ExperienceToNextLevel level) = xp_step (sint level)"
  using assms sint_small [of "9 * sint level - 158"] sint_small [of "5 * sint level - 38"] sint_small [of "2 * sint level + 7"]
  by (simp add: ExperienceToNextLevel_def xp_step_def)

lemma level_search_ok:
  assumes "0 \<le> low" "low < high" "high \<le> 21864" "xp_at low \<le> sint pts" "high = 21864 \<or> sint pts < xp_at high"
  shows "0 \<le> level_search pts low high \<and> level_search pts low high \<le> 21863 \<and> xp_at (level_search pts low high) \<le> sint pts \<and>
    (level_search pts low high = 21863 \<or> sint pts < xp_at (level_search pts low high + 1))"
  using assms
proof (induction pts low high rule: level_search.induct)
  case (1 pts low high)
  let ?m = "low + (high - low) div 2"
  show ?case
  proof (cases "low + 1 < high")
    case False
    then have "high = low + 1" using "1.prems"(2) by simp
    moreover from False have "level_search pts low high = low" by (simp add: level_search.simps [of pts low high])
    ultimately show ?thesis using "1.prems" by auto
  next
    case True
    then have m: "low < ?m" "?m < high" by simp_all
    have s: "sint (word_of_int ?m :: i32) = ?m" by (rule sint_small) (use m "1.prems"(1,3) in simp_all)
    have xp: "sint (ExperienceForLevel (word_of_int ?m)) = xp_at ?m"
      using m "1.prems"(3) unfolding sint_ForLevel s by simp
    show ?thesis
    proof (cases "xp_at ?m \<le> sint pts")
      case le: True
      then have c: "sint (ExperienceForLevel (word_of_int ?m)) \<le> sint pts" by (simp only: xp)
      have "level_search pts low high = level_search pts ?m high"
        by (subst level_search.simps) (simp only: Let_def True c if_True)
      then show ?thesis using "1.IH"(1) [OF True refl c _ m(2) "1.prems"(3) le "1.prems"(5)] m(1) "1.prems"(1) by simp
    next
      case gt: False
      then have c: "\<not> sint (ExperienceForLevel (word_of_int ?m)) \<le> sint pts" by (simp only: xp not_False_eq_True)
      have "level_search pts low high = level_search pts low ?m"
        by (subst level_search.simps) (simp only: Let_def True c if_True if_False)
      then show ?thesis using "1.IH"(2) [OF True refl c "1.prems"(1) m(1) _ "1.prems"(4)] gt m(2) "1.prems"(3) by simp
    qed
  qed
qed

lemma levelFor_ok:
  assumes "0 \<le> sint pts"
  shows "0 \<le> sint (levelForExperience pts) \<and> sint (levelForExperience pts) \<le> 21863 \<and>
    xp_at (sint (levelForExperience pts)) \<le> sint pts \<and> sint pts < xp_at (sint (levelForExperience pts) + 1)"
proof -
  have "xp_at 0 = 0" "xp_at 21864 = 2147604552" by (simp_all add: xp_at_def)
  moreover from this have "0 \<le> level_search pts 0 21864 \<and> level_search pts 0 21864 \<le> 21863 \<and> xp_at (level_search pts 0 21864) \<le> sint pts \<and>
    (level_search pts 0 21864 = 21863 \<or> sint pts < xp_at (level_search pts 0 21864 + 1))"
    using assms by (intro level_search_ok) simp_all
  moreover from this have "sint (levelForExperience pts) = level_search pts 0 21864" by (simp add: levelForExperience_def sint_small)
  ultimately show ?thesis using sint_i32 [of pts] by auto
qed

text \<open>The level is the only one whose span contains the points.\<close>

lemma level_unique:
  assumes "0 \<le> a" "0 \<le> b" "xp_at a \<le> n" "n < xp_at (a + 1)" "xp_at b \<le> n" "n < xp_at (b + 1)"
  shows "a = b"
  using assms xp_at_mono [of "a + 1" b] xp_at_mono [of "b + 1" a] by linarith

definition level_fits :: "int \<Rightarrow> int \<Rightarrow> bool" where
  "level_fits l n \<longleftrightarrow> xp_at l \<le> n \<and> n < xp_at (l + 1)"

section \<open>Properties\<close>


text \<open>A level set is the level shown: setting a level between 0 and 21863 gives exactly that level
  with no points within it, and other values are clamped to that range first.\<close>

theorem set_level_shows_level:
  "sint (ExperienceLevel (SetExperienceLevel level p)) = max 0 (min 21863 (sint level)) \<and>
   ProgressWithin (SetExperienceLevel level p) = 0"
proof -
  obtain l where l: "l = (if sint level < 0 then 0 else if sint level > 21863 then 21863 else level)" by simp
  then have b: "0 \<le> sint l" "sint l \<le> 21863" "sint l = max 0 (min 21863 (sint level))" by auto
  have f: "sint (ExperienceForLevel l) = xp_at (sint l)" using b(1,2) by (simp add: sint_ForLevel)
  have pos: "0 \<le> sint (ExperienceForLevel l)" using f xp_at_bounds [OF b(1,2)] by simp
  note L = levelFor_ok [OF pos]
  have "xp_at (sint l) < xp_at (sint l + 1)" using xp_at_Suc xp_step_pos b(1) by simp
  then have "sint (levelForExperience (ExperienceForLevel l)) = sint l"
    using L f b level_unique [of _ "sint l" "xp_at (sint l)"] by simp
  then have e: "levelForExperience (ExperienceForLevel l) = l" by (rule signed_word_eqI)
  show ?thesis
    using b pos by (simp add: SetExperienceLevel_def SetTotalExperience_def set_total_def Let_def l [symmetric] e)
qed

definition no_experience :: experience where
  "no_experience = \<lparr>ExperienceTotal = 0, ExperienceLevel = 0, ProgressWithin = 0, ProgressOf = 7, experiencePickupTick = 0\<rparr>"


section \<open>Orbs add up\<close>

lemma RoundToOrbSize_bounds: "0 < n \<Longrightarrow> 0 < RoundToOrbSize n \<and> RoundToOrbSize n \<le> n"
  by (simp add: RoundToOrbSize_def)

lemma RoundToOrbSize_idem: "RoundToOrbSize (RoundToOrbSize n) = RoundToOrbSize n"
  by (simp add: RoundToOrbSize_def)

lemma SpawnOrbs_ok:
  assumes "0 \<le> points" "SpawnOrbs fresh points = (orbs, fresh')"
  shows "sum_list (map orb_amount orbs) = points \<and> int (length orbs) \<le> points \<and>
    (\<forall>ob \<in> set orbs. 0 < orb_amount ob \<and> RoundToOrbSize (orb_amount ob) = orb_amount ob) \<and>
    map orb_id orbs = map (\<lambda>i. fresh + word_of_nat i) [0..<length orbs] \<and>
    (\<forall>ob \<in> set orbs. orb_uuid ob = orbUUID (orb_id ob))"
  using assms
proof (induction fresh points arbitrary: orbs fresh' rule: SpawnOrbs.induct)
  case (1 fresh points)
  show ?case
  proof (cases "points > 0")
    case False
    then have "orbs = []" using "1.prems"(2) by (simp add: SpawnOrbs.simps [of fresh points])
    then show ?thesis using "1.prems"(1) False by simp
  next
    case True
    note R = RoundToOrbSize_bounds [OF True] RoundToOrbSize_idem [of points]
    obtain others final where m: "SpawnOrbs (fresh + 1) (points - RoundToOrbSize points) = (others, final)" by fastforce
    then have orbs: "orbs = \<lparr>orb_id = fresh, orb_uuid = orbUUID fresh, orb_amount = RoundToOrbSize points\<rparr> # others"
      using "1.prems"(2) True by (simp add: SpawnOrbs.simps [of fresh points] Let_def)
    have "0 \<le> points - RoundToOrbSize points" using R by simp
    note I = "1.IH" [OF True refl this m]
    have "map (\<lambda>i. fresh + word_of_nat i) [0..<length orbs] = fresh # map (\<lambda>i. (fresh + 1) + word_of_nat i) [0..<length others]"
      unfolding orbs list.size by (subst upt_conv_Cons) (simp_all add: map_Suc_upt [symmetric] add.assoc del: upt_Suc)
    then show ?thesis using I R unfolding orbs by (simp del: upt_Suc)
  qed
qed

lemma orbUUID_inj: "orbUUID i = orbUUID j \<Longrightarrow> i = j"
proof -
  assume "orbUUID i = orbUUID j"
  then have "drop 12 (orbUUID i) = drop 12 (orbUUID j)" by simp
  then have "be_put 4 i = be_put 4 j" by (simp add: orbUUID_def drop_update_cancel)
  then have "be_get (be_put 4 i) = (be_get (be_put 4 j) :: i32)" by simp
  then show "i = j" by (simp add: be_get_put)
qed

text \<open>Dropped experience is neither lost nor made: the orbs of any number of points carry exactly
  those points, each orb has one of the orb sizes, and no two orbs share an entity id or a UUID.\<close>

theorem orbs_carry_points:
  assumes "0 \<le> points" "points \<le> max_int32" "SpawnOrbs fresh points = (orbs, fresh')"
  shows "sum_list (map orb_amount orbs) = points \<and>
    (\<forall>ob \<in> set orbs. 0 < orb_amount ob \<and> RoundToOrbSize (orb_amount ob) = orb_amount ob) \<and>
    distinct (map orb_id orbs) \<and> distinct (map orb_uuid orbs)"
proof -
  note S = SpawnOrbs_ok [OF assms(1,3)]
  have "i = j" if "i < length orbs" "j < length orbs" "fresh + word_of_nat i = fresh + word_of_nat j" for i j
  proof -
    have "(word_of_nat i :: i32) = word_of_nat j" using that(3) by simp
    moreover have "i < 2 ^ 32" "j < 2 ^ 32" using that(1,2) S assms(2) by (simp_all add: max_int32_def)
    ultimately show "i = j" by (simp add: word_of_nat_eq_iff take_bit_nat_eq_self)
  qed
  then have d: "distinct (map orb_id orbs)"
    using S by (auto simp: distinct_conv_nth)
  moreover from this have "distinct (map orbUUID (map orb_id orbs))"
    by (subst distinct_map) (auto intro: inj_onI dest: orbUUID_inj)
  moreover have "map orbUUID (map orb_id orbs) = map orb_uuid orbs" using S [THEN conjunct2, THEN conjunct2, THEN conjunct2, THEN conjunct2] by simp
  ultimately show ?thesis using S by metis
qed

theorem orbs_carry_points_witness:
  "map orb_amount (fst (SpawnOrbs 7 2500)) = [2477, 17, 3, 3] \<and> sum_list (map orb_amount (fst (SpawnOrbs 7 2500))) = 2500"
proof -
  have "map orb_amount (fst (SpawnOrbs 7 2500)) = [2477, 17, 3, 3]"
    by (simp add: SpawnOrbs.simps RoundToOrbSize_def Let_def split: prod.splits)
  moreover have "sum_list (map orb_amount (fst (SpawnOrbs 7 2500))) = 2500"
    using orbs_carry_points [of 2500 7 "fst (SpawnOrbs 7 2500)" "snd (SpawnOrbs 7 2500)"] by (simp add: max_int32_def)
  ultimately show ?thesis by simp
qed

end
