(* ===== verification/Effects.thy ===== *)
theory Effects
  imports GoStrings Complex_Main
begin

text \<open>
  Status effects (\<open>core/player/status_effect.go\<close>, \<open>status_effect_state.go\<close>, \<open>status_effect_tick.go\<close>)
  and breathing (\<open>core/player/player.go\<close>). Amplifiers and durations are \<open>int32\<close>, read signed. The
  absorption hearts are a \<open>float32\<close>; \<open>f32\<close> is the conversion from \<open>int32\<close>. The health, which
  damage changes in floating point elsewhere, enters the tick through the two comparisons the
  code makes: \<open>hurt n\<close> says that the health with \<open>n\<close> added is below the maximum, \<open>alive n\<close> that the
  health with \<open>n\<close> taken off is above one. Exhaustion is counted in units of 0.005.
\<close>

section \<open>Effects\<close>

record status_effect =
  eff_ID :: string
  Amplifier :: i32
  Duration :: i32
  Ambient :: bool
  ShowParticles :: bool
  ShowIcon :: bool

record effect_state =
  StatusEffects :: "status_effect list"
  Absorption :: real

definition minecraft_colon :: string where "minecraft_colon = ''minecraft:''"

definition normalizeStatusEffect :: "status_effect \<Rightarrow> status_effect option" where
  "normalizeStatusEffect e =
     (let i = trim_space (eff_ID e);
          i' = (if i \<noteq> [] \<and> \<not> contains_char i (CHR '':'') then minecraft_colon @ i else i)
      in if i' = [] \<or> sint (Duration e) \<le> 0 then None
         else Some (e\<lparr>eff_ID := i', Amplifier := (if sint (Amplifier e) < 0 then 0 else Amplifier e)\<rparr>))"

fun index_from_id :: "nat \<Rightarrow> status_effect list \<Rightarrow> string \<Rightarrow> nat option" where
  "index_from_id n [] i = None"
| "index_from_id n (e # es) i = (if eff_ID e = i then Some n else index_from_id (Suc n) es i)"

definition full_id :: "string \<Rightarrow> string" where
  "full_id i = (if \<not> contains_char i (CHR '':'') then minecraft_colon @ i else i)"

definition statusEffectIndex :: "status_effect list \<Rightarrow> string \<Rightarrow> nat option" where
  "statusEffectIndex es i = index_from_id 0 es (full_id i)"

definition AddStatusEffect :: "(i32 \<Rightarrow> real) \<Rightarrow> status_effect \<Rightarrow> effect_state \<Rightarrow> (status_effect option \<times> bool) \<times> effect_state" where
  "AddStatusEffect f32 effect p =
     (case normalizeStatusEffect effect of
        None \<Rightarrow> ((None, False), p)
      | Some e \<Rightarrow>
          (let absorb = (\<lambda>q. if eff_ID e = ''minecraft:absorption''
                             then q\<lparr>Absorption := max (Absorption q) (f32 (4 * (Amplifier e + 1)))\<rparr> else q)
           in case statusEffectIndex (StatusEffects p) (eff_ID e) of
                Some k \<Rightarrow>
                  (let current = StatusEffects p ! k
                   in if sint (Amplifier current) > sint (Amplifier e) \<or>
                         Amplifier current = Amplifier e \<and> sint (Duration current) \<ge> sint (Duration e)
                      then ((Some current, False), p)
                      else ((Some e, True), absorb (p\<lparr>StatusEffects := (StatusEffects p)[k := e]\<rparr>)))
              | None \<Rightarrow> ((Some e, True), absorb (p\<lparr>StatusEffects := StatusEffects p @ [e]\<rparr>))))"

definition RemoveStatusEffect :: "string \<Rightarrow> effect_state \<Rightarrow> status_effect option \<times> effect_state" where
  "RemoveStatusEffect i p =
     (case statusEffectIndex (StatusEffects p) i of
        None \<Rightarrow> (None, p)
      | Some k \<Rightarrow>
          (let removed = StatusEffects p ! k;
               q = p\<lparr>StatusEffects := take k (StatusEffects p) @ drop (Suc k) (StatusEffects p)\<rparr>
           in (Some removed, if eff_ID removed = ''minecraft:absorption'' then q\<lparr>Absorption := 0\<rparr> else q)))"

definition ClearStatusEffects :: "effect_state \<Rightarrow> status_effect list \<times> effect_state" where
  "ClearStatusEffects p = (StatusEffects p, p\<lparr>StatusEffects := [], Absorption := 0\<rparr>)"

definition StatusEffect :: "string \<Rightarrow> effect_state \<Rightarrow> status_effect option" where
  "StatusEffect i p = map_option (\<lambda>k. StatusEffects p ! k) (statusEffectIndex (StatusEffects p) i)"

section \<open>One tick\<close>

text \<open>A negative shift panics in Go; amplifiers are never negative here (\<open>effect_ok\<close> below).\<close>

definition shiftedEffectInterval :: "int \<Rightarrow> i32 \<Rightarrow> int" where
  "shiftedEffectInterval base amplifier =
     (if sint amplifier \<ge> 31 then 1
      else let interval = base div 2 ^ nat (sint amplifier) in if interval < 1 then 1 else interval)"

record effect_tick =
  Expired :: "status_effect list"
  HealAmount :: nat
  DamageAmount :: nat
  ExhaustionUnits :: int
  CanKill :: bool

definition periodic :: "(nat \<Rightarrow> bool) \<Rightarrow> (nat \<Rightarrow> bool) \<Rightarrow> status_effect \<Rightarrow> effect_tick \<Rightarrow> effect_tick" where
  "periodic hurt alive e r =
     (let due = (\<lambda>base. sint (Duration e) mod shiftedEffectInterval base (Amplifier e) = 0)
      in if eff_ID e = ''minecraft:regeneration'' then
           (if due 50 \<and> hurt (HealAmount r) then r\<lparr>HealAmount := HealAmount r + 1\<rparr> else r)
         else if eff_ID e = ''minecraft:poison'' then
           (if due 25 \<and> alive (DamageAmount r) then r\<lparr>DamageAmount := DamageAmount r + 1\<rparr> else r)
         else if eff_ID e = ''minecraft:wither'' then
           (if due 40 then r\<lparr>DamageAmount := DamageAmount r + 1, CanKill := True\<rparr> else r)
         else if eff_ID e = ''minecraft:hunger'' then
           r\<lparr>ExhaustionUnits := ExhaustionUnits r + sint (Amplifier e + 1)\<rparr>
         else r)"

fun tick_effects :: "(nat \<Rightarrow> bool) \<Rightarrow> (nat \<Rightarrow> bool) \<Rightarrow> status_effect list \<Rightarrow> effect_tick \<times> real \<Rightarrow> (effect_tick \<times> real) \<times> status_effect list" where
  "tick_effects hurt alive [] st = (st, [])"
| "tick_effects hurt alive (e # es) (r, absorption) =
     (let r' = periodic hurt alive e r; e' = e\<lparr>Duration := Duration e - 1\<rparr>
      in if sint (Duration e') \<le> 0 then
           tick_effects hurt alive es
             (r'\<lparr>Expired := Expired r' @ [e']\<rparr>, if eff_ID e' = ''minecraft:absorption'' then 0 else absorption)
         else let (st, kept) = tick_effects hurt alive es (r', absorption) in (st, e' # kept))"

definition TickStatusEffects :: "(nat \<Rightarrow> bool) \<Rightarrow> (nat \<Rightarrow> bool) \<Rightarrow> effect_state \<Rightarrow> effect_tick \<times> effect_state" where
  "TickStatusEffects hurt alive p =
     (let ((r, absorption), kept) = tick_effects hurt alive (StatusEffects p)
            (\<lparr>Expired = [], HealAmount = 0, DamageAmount = 0, ExhaustionUnits = 0, CanKill = False\<rparr>, Absorption p)
      in (r, p\<lparr>StatusEffects := kept, Absorption := absorption\<rparr>))"

section \<open>Breathing\<close>

datatype GameMode = Survival | Creative | Adventure | Spectator

definition MaxAirSupply :: int where "MaxAirSupply = 300"

record breath =
  Dead :: bool
  Mode :: GameMode
  AirSupply :: int
  DrowningTicks :: int

text \<open>The new state, whether the air supply changed, and whether the player takes drowning damage.\<close>

definition TickBreathing :: "bool \<Rightarrow> breath \<Rightarrow> breath \<times> bool \<times> bool" where
  "TickBreathing underwater p =
     (if Dead p \<or> Mode p = Creative \<or> Mode p = Spectator then
        (p\<lparr>AirSupply := MaxAirSupply, DrowningTicks := 0\<rparr>, AirSupply p \<noteq> MaxAirSupply, False)
      else if underwater then
        (let changed = AirSupply p > 0;
             p1 = (if changed then p\<lparr>AirSupply := AirSupply p - 1\<rparr> else p)
         in if AirSupply p1 = 0 then
              (let ticks = DrowningTicks p1 + 1
               in if ticks \<ge> 20 then (p1\<lparr>DrowningTicks := 0\<rparr>, changed, True)
                  else (p1\<lparr>DrowningTicks := ticks\<rparr>, changed, False))
            else (p1, changed, False))
      else
        (let p1 = p\<lparr>DrowningTicks := 0\<rparr>
         in if AirSupply p1 < MaxAirSupply then (p1\<lparr>AirSupply := min MaxAirSupply (AirSupply p1 + 4)\<rparr>, True, False)
            else (p1, False, False)))"

section \<open>The invariant of the effect list\<close>

definition effect_ok :: "status_effect \<Rightarrow> bool" where
  "effect_ok e \<longleftrightarrow> contains_char (eff_ID e) (CHR '':'') \<and> 0 < sint (Duration e) \<and> 0 \<le> sint (Amplifier e)"

definition effects_ok :: "effect_state \<Rightarrow> bool" where
  "effects_ok p \<longleftrightarrow> distinct (map eff_ID (StatusEffects p)) \<and> list_all effect_ok (StatusEffects p) \<and>
     (''minecraft:absorption'' \<notin> eff_ID ` set (StatusEffects p) \<longrightarrow> Absorption p = 0)"

lemma colon_minecraft: "contains_char (minecraft_colon @ i) (CHR '':'')"
  by (simp add: contains_char_def minecraft_colon_def)

lemma normalize_ok: "normalizeStatusEffect e = Some e' \<Longrightarrow> effect_ok e'"
  using colon_minecraft
  by (auto simp: normalizeStatusEffect_def effect_ok_def Let_def split: if_splits)

lemma full_id_colon [simp]: "contains_char i (CHR '':'') \<Longrightarrow> full_id i = i"
  by (simp add: full_id_def)

lemma index_from_id_shift: "index_from_id n es i = map_option (\<lambda>k. n + k) (index_from_id 0 es i)"
proof (induction es arbitrary: n)
  case (Cons e es)
  show ?case using Cons [of "Suc n"] Cons [of "Suc 0"] by (simp add: option.map_comp o_def)
qed simp

lemma index_None: "index_from_id n es i = None \<longleftrightarrow> i \<notin> eff_ID ` set es"
  by (induction es arbitrary: n) auto

lemma index_Some:
  "index_from_id 0 es i = Some k \<Longrightarrow> k < length es \<and> eff_ID (es ! k) = i"
proof (induction es arbitrary: k)
  case (Cons e es)
  show ?case
  proof (cases "eff_ID e = i")
    case False
    then obtain j where "index_from_id 0 es i = Some j" "k = Suc j"
      using Cons.prems index_from_id_shift [of "Suc 0" es i] by (cases "index_from_id 0 es i") auto
    then show ?thesis using Cons.IH by simp
  qed (use Cons.prems in simp)
qed simp

lemma index_unique:
  "distinct (map eff_ID es) \<Longrightarrow> k < length es \<Longrightarrow> index_from_id 0 es (eff_ID (es ! k)) = Some k"
proof (cases "index_from_id 0 es (eff_ID (es ! k))")
  case None
  assume "k < length es"
  then show ?thesis using None by (auto simp: index_None)
next
  case (Some j)
  assume "distinct (map eff_ID es)" "k < length es"
  then show ?thesis using index_Some [OF Some] Some by (auto simp: distinct_conv_nth)
qed

text \<open>\<open>StatusEffect\<close> reads the list as a map from full ids.\<close>

definition effect_of :: "effect_state \<Rightarrow> string \<Rightarrow> status_effect option" where
  "effect_of p i = List.find (\<lambda>e. eff_ID e = i) (StatusEffects p)"

lemma find_index: "List.find (\<lambda>e. eff_ID e = i) es = map_option (\<lambda>k. es ! k) (index_from_id 0 es i)"
proof (induction es)
  case (Cons e es)
  then show ?case using index_from_id_shift [of "Suc 0" es i] by (simp add: option.map_comp o_def)
qed simp

lemma StatusEffect_of: "StatusEffect i p = effect_of p (full_id i)"
  by (simp add: StatusEffect_def effect_of_def statusEffectIndex_def find_index)

lemma find_update_same:
  "distinct (map eff_ID es) \<Longrightarrow> k < length es \<Longrightarrow> eff_ID (es ! k) = eff_ID e \<Longrightarrow>
    List.find (\<lambda>x. eff_ID x = i) (es[k := e]) = (if i = eff_ID e then Some e else List.find (\<lambda>x. eff_ID x = i) es)"
proof (induction es arbitrary: k)
  case (Cons a es)
  then show ?case by (cases k) (auto, metis image_eqI nth_mem)
qed simp

lemma ids_update: "k < length es \<Longrightarrow> eff_ID (es ! k) = eff_ID e \<Longrightarrow> map eff_ID (es[k := e]) = map eff_ID es"
  by (rule nth_equalityI) (auto simp: nth_list_update)

text \<open>The stronger of two effects of one kind: by amplifier, then by duration, the old one on a tie.\<close>

definition stronger :: "status_effect option \<Rightarrow> status_effect \<Rightarrow> status_effect" where
  "stronger old e =
     (case old of None \<Rightarrow> e
      | Some c \<Rightarrow> if sint (Amplifier c) > sint (Amplifier e) \<or> Amplifier c = Amplifier e \<and> sint (Duration c) \<ge> sint (Duration e)
                  then c else e)"

lemma Add_effect:
  assumes "effects_ok p" "normalizeStatusEffect effect = Some e" "AddStatusEffect f32 effect p = ((st, added), q)"
  shows "effects_ok q \<and> st = Some (stronger (effect_of p (eff_ID e)) e) \<and>
    effect_of q = (effect_of p)(eff_ID e := st)"
proof -
  note e = normalize_ok [OF assms(2)]
  then have id: "full_id (eff_ID e) = eff_ID e" by (simp add: effect_ok_def)
  have d: "distinct (map eff_ID (StatusEffects p))" "list_all effect_ok (StatusEffects p)" using assms(1) by (simp_all add: effects_ok_def)
  show ?thesis
  proof (cases "index_from_id 0 (StatusEffects p) (eff_ID e)")
    case None
    then have new: "eff_ID e \<notin> eff_ID ` set (StatusEffects p)" by (simp add: index_None)
    have q: "StatusEffects q = StatusEffects p @ [e]" "st = Some e"
      "Absorption q = (if eff_ID e = ''minecraft:absorption'' then max (Absorption p) (f32 (4 * (Amplifier e + 1))) else Absorption p)"
      using assms(2,3) None by (auto simp: AddStatusEffect_def statusEffectIndex_def id Let_def)
    have f: "effect_of p (eff_ID e) = None" using None by (simp add: effect_of_def find_index)
    have "effect_of q i = ((effect_of p)(eff_ID e := Some e)) i" for i
    proof -
      have "List.find (\<lambda>x. eff_ID x = i) (es @ [e]) =
          (case List.find (\<lambda>x. eff_ID x = i) es of Some y \<Rightarrow> Some y | None \<Rightarrow> if eff_ID e = i then Some e else None)" for es
        by (induction es) auto
      then show ?thesis using f by (auto simp: effect_of_def q split: option.splits)
    qed
    then have "effect_of q = (effect_of p)(eff_ID e := Some e)" by (rule ext)
    then show ?thesis
      using q e new d f assms(1) by (auto simp: effects_ok_def stronger_def)
  next
    case (Some k)
    note k = index_Some [OF Some]
    let ?c = "StatusEffects p ! k"
    let ?keep = "sint (Amplifier ?c) > sint (Amplifier e) \<or> Amplifier ?c = Amplifier e \<and> sint (Duration ?c) \<ge> sint (Duration e)"
    have f: "effect_of p (eff_ID e) = Some ?c" using Some by (simp add: effect_of_def find_index)
    show ?thesis
    proof (cases ?keep)
      case True
      then have "q = p" "st = Some ?c"
        using assms(2,3) Some by (auto simp: AddStatusEffect_def statusEffectIndex_def id Let_def)
      then show ?thesis using f True assms(1) by (auto simp: stronger_def)
    next
      case False
      have q: "StatusEffects q = (StatusEffects p)[k := e]" "st = Some e"
        "Absorption q = (if eff_ID e = ''minecraft:absorption'' then max (Absorption p) (f32 (4 * (Amplifier e + 1))) else Absorption p)"
        using assms(2,3) Some False by (auto simp: AddStatusEffect_def statusEffectIndex_def id Let_def)
      have "effect_of q = (effect_of p)(eff_ID e := Some e)"
        using find_update_same [OF d(1)] k by (auto simp: effect_of_def q)
      moreover have ids: "map eff_ID (StatusEffects q) = map eff_ID (StatusEffects p)" using ids_update [of k "StatusEffects p" e] k q(1) by simp
      moreover have img: "eff_ID ` set (StatusEffects q) = eff_ID ` set (StatusEffects p)" using ids by (metis list.set_map)
      moreover have mem: "eff_ID e \<in> eff_ID ` set (StatusEffects p)" using k by (metis image_eqI nth_mem)
      have "effects_ok q"
        unfolding effects_ok_def using ids img d e q mem assms(1) [unfolded effects_ok_def]
        by (cases "eff_ID e = ''minecraft:absorption''") (simp_all add: list_all_update)
      moreover have "st = Some (stronger (effect_of p (eff_ID e)) e)" using q(2) f False by (auto simp: stronger_def)
      ultimately show ?thesis using q(2) by simp
    qed
  qed
qed

lemma find_removed:
  "distinct (map eff_ID es) \<Longrightarrow> index_from_id 0 es j = Some k \<Longrightarrow>
    List.find (\<lambda>x. eff_ID x = i) (take k es @ drop (Suc k) es) = (if i = j then None else List.find (\<lambda>x. eff_ID x = i) es)"
proof (induction es arbitrary: k)
  case (Cons e es)
  show ?case
  proof (cases "eff_ID e = j")
    case True
    then have "k = 0" "List.find (\<lambda>x. eff_ID x = j) es = None" using Cons.prems by (auto simp: find_None_iff image_iff)
    then show ?thesis using True by auto
  next
    case False
    then obtain m where "index_from_id 0 es j = Some m" "k = Suc m"
      using Cons.prems(2) index_from_id_shift [of "Suc 0" es j] by (cases "index_from_id 0 es j") auto
    then show ?thesis using Cons.IH [of m] Cons.prems(1) False by auto
  qed
qed simp

lemma Remove_effect:
  assumes "effects_ok p" "RemoveStatusEffect i p = (removed, q)"
  shows "effects_ok q \<and> removed = effect_of p (full_id i) \<and> effect_of q = (effect_of p)(full_id i := None)"
proof (cases "index_from_id 0 (StatusEffects p) (full_id i)")
  case None
  then have "effect_of p (full_id i) = None" by (simp add: effect_of_def find_index)
  then show ?thesis using None assms by (auto simp: RemoveStatusEffect_def statusEffectIndex_def)
next
  case (Some k)
  note k = index_Some [OF Some]
  obtain xs c ys where s: "StatusEffects p = xs @ c # ys" "length xs = k"
    using id_take_nth_drop [of k "StatusEffects p"] k by (metis length_take less_imp_le_nat min.absorb2)
  then have c: "StatusEffects p ! k = c" "eff_ID c = full_id i" using k by auto
  have q: "StatusEffects q = xs @ ys" "removed = Some c"
    "Absorption q = (if full_id i = ''minecraft:absorption'' then 0 else Absorption p)"
    using assms(2) Some c s by (auto simp: RemoveStatusEffect_def statusEffectIndex_def Let_def)
  have d: "distinct (map eff_ID (xs @ c # ys))" "list_all effect_ok (xs @ c # ys)" using assms(1) s by (simp_all add: effects_ok_def)
  then have "distinct (map eff_ID (xs @ ys))" "list_all effect_ok (xs @ ys)" by auto
  moreover have "''minecraft:absorption'' \<notin> eff_ID ` set (xs @ ys) \<Longrightarrow> Absorption q = 0"
    using assms(1) q(3) c s unfolding effects_ok_def by auto
  ultimately have "effects_ok q" unfolding effects_ok_def q(1) by blast
  moreover have "effect_of p (full_id i) = removed" using Some q c by (simp add: effect_of_def find_index)
  moreover have "effect_of q = (effect_of p)(full_id i := None)"
    using find_removed [OF _ Some] d(1) s by (auto simp: effect_of_def q)
  ultimately show ?thesis by simp
qed

definition dec_by :: "nat \<Rightarrow> status_effect \<Rightarrow> status_effect" where
  "dec_by n e = e\<lparr>Duration := Duration e - word_of_nat n\<rparr>"

lemma periodic_keeps [simp]: "Expired (periodic hurt alive e r) = Expired r"
  by (simp add: periodic_def Let_def)

definition stays :: "status_effect \<Rightarrow> bool" where
  "stays e \<longleftrightarrow> 1 < sint (Duration e)"

lemma tick_effects_spec:
  assumes "tick_effects hurt alive es (r, a) = ((r', a'), kept)" "list_all effect_ok es"
  shows "kept = map (dec_by 1) (filter stays es) \<and>
    Expired r' = Expired r @ map (dec_by 1) (filter (\<lambda>e. \<not> stays e) es) \<and>
    a' = (if \<exists>e \<in> set es. eff_ID e = ''minecraft:absorption'' \<and> \<not> stays e then 0 else a)"
  using assms
proof (induction es arbitrary: r a kept)
  case (Cons e es)
  let ?r = "periodic hurt alive e r"
  have ok: "effect_ok e" "list_all effect_ok es" using Cons.prems(2) by simp_all
  then have e: "0 < sint (Duration e)" "list_all effect_ok es" by (simp_all only: effect_ok_def)
  then have "sint (Duration e - 1) = sint (Duration e) - 1" using sint_minus_small [of "Duration e" 1] by simp
  then have gone: "sint (Duration (dec_by (Suc 0) e)) \<le> 0 \<longleftrightarrow> \<not> stays e" by (auto simp: stays_def dec_by_def)
  have dec: "e\<lparr>Duration := Duration e - 1\<rparr> = dec_by 1 e" "eff_ID (dec_by (Suc 0) e) = eff_ID e" by (simp_all add: dec_by_def)
  show ?case
  proof (cases "stays e")
    case False
    then have "tick_effects hurt alive es (?r\<lparr>Expired := Expired ?r @ [dec_by 1 e]\<rparr>,
        if eff_ID e = ''minecraft:absorption'' then 0 else a) = ((r', a'), kept)"
      using Cons.prems(1) gone by (simp add: Let_def dec)
    from Cons.IH [OF this e(2)] show ?thesis using False by auto
  next
    case True
    then obtain kept' where "tick_effects hurt alive es (?r, a) = ((r', a'), kept')" "kept = dec_by 1 e # kept'"
      using Cons.prems(1) gone by (auto simp: Let_def dec split: prod.splits)
    with Cons.IH [OF this(1) e(2)] show ?thesis using True by auto
  qed
qed simp

lemma Tick_effects:
  assumes "effects_ok p" "TickStatusEffects hurt alive p = (r, q)"
  shows "effects_ok q \<and> StatusEffects q = map (dec_by 1) (filter stays (StatusEffects p)) \<and>
    Expired r = map (dec_by 1) (filter (\<lambda>e. \<not> stays e) (StatusEffects p))"
proof -
  obtain a' kept where t: "tick_effects hurt alive (StatusEffects p)
      (\<lparr>Expired = [], HealAmount = 0, DamageAmount = 0, ExhaustionUnits = 0, CanKill = False\<rparr>, Absorption p) = ((r, a'), kept)"
    and q: "q = p\<lparr>StatusEffects := kept, Absorption := a'\<rparr>"
    using assms(2) by (auto simp: TickStatusEffects_def split: prod.splits)
  have d: "distinct (map eff_ID (StatusEffects p))" "list_all effect_ok (StatusEffects p)" using assms(1) by (simp_all add: effects_ok_def)
  note T = tick_effects_spec [OF t d(2)]
  have "effect_ok (dec_by 1 e)" if "e \<in> set (StatusEffects p)" "stays e" for e
    using that d(2) sint_minus_small [of "Duration e" 1] by (auto simp: list_all_iff effect_ok_def dec_by_def stays_def)
  then have "list_all effect_ok kept" using T by (auto simp: list_all_iff)
  moreover have ids: "map eff_ID kept = map eff_ID (filter stays (StatusEffects p))" using T by (simp add: dec_by_def)
  moreover have "distinct (map eff_ID kept)" unfolding ids using d(1) by (rule distinct_map_filter)
  moreover have "''minecraft:absorption'' \<notin> eff_ID ` set kept \<Longrightarrow> a' = 0"
  proof (cases "\<exists>e \<in> set (StatusEffects p). eff_ID e = ''minecraft:absorption'' \<and> \<not> stays e")
    case False
    assume no: "''minecraft:absorption'' \<notin> eff_ID ` set kept"
    have "eff_ID ` set kept = eff_ID ` set (filter stays (StatusEffects p))" using ids by (metis list.set_map)
    then have "''minecraft:absorption'' \<notin> eff_ID ` set (StatusEffects p)" using no False by fastforce
    then have "Absorption p = 0" using assms(1) by (simp add: effects_ok_def)
    then show "a' = 0" using T False by (simp only: if_False)
  qed (use T in simp)
  ultimately show ?thesis using T q by (simp add: effects_ok_def)
qed

section \<open>The list refines a map from ids\<close>

datatype effect_op = AddOp status_effect | RemoveOp string | ClearOp | TickOp "nat \<Rightarrow> bool" "nat \<Rightarrow> bool"

fun apply_op :: "(i32 \<Rightarrow> real) \<Rightarrow> effect_op \<Rightarrow> effect_state \<Rightarrow> effect_state" where
  "apply_op f32 (AddOp e) p = snd (AddStatusEffect f32 e p)"
| "apply_op f32 (RemoveOp i) p = snd (RemoveStatusEffect i p)"
| "apply_op f32 ClearOp p = snd (ClearStatusEffects p)"
| "apply_op f32 (TickOp hurt alive) p = snd (TickStatusEffects hurt alive p)"

fun spec_op :: "effect_op \<Rightarrow> (string \<rightharpoonup> status_effect) \<Rightarrow> (string \<rightharpoonup> status_effect)" where
  "spec_op (AddOp e) m = (case normalizeStatusEffect e of None \<Rightarrow> m | Some e' \<Rightarrow> m(eff_ID e' \<mapsto> stronger (m (eff_ID e')) e'))"
| "spec_op (RemoveOp i) m = m(full_id i := None)"
| "spec_op ClearOp m = Map.empty"
| "spec_op (TickOp hurt alive) m =
     (\<lambda>i. case m i of None \<Rightarrow> None | Some e \<Rightarrow> if stays e then Some (dec_by 1 e) else None)"

lemma dec_by_ID [simp]: "eff_ID (dec_by n e) = eff_ID e"
  by (simp add: dec_by_def)

lemma find_ticked:
  "distinct (map eff_ID es) \<Longrightarrow> List.find (\<lambda>x. eff_ID x = i) (map (dec_by n) (filter P es)) =
    (case List.find (\<lambda>x. eff_ID x = i) es of None \<Rightarrow> None | Some e \<Rightarrow> if P e then Some (dec_by n e) else None)"
proof (induction es)
  case (Cons a es)
  have "List.find (\<lambda>x. eff_ID x = eff_ID a) es = None" using Cons.prems by (auto simp: find_None_iff image_iff)
  then show ?case using Cons by auto
qed simp

lemma apply_op_refines:
  assumes "effects_ok p"
  shows "effects_ok (apply_op f32 ev p) \<and> effect_of (apply_op f32 ev p) = spec_op ev (effect_of p)"
proof (cases ev)
  case (AddOp e)
  obtain st added q where run: "AddStatusEffect f32 e p = ((st, added), q)" by (metis prod.exhaust)
  show ?thesis
  proof (cases "normalizeStatusEffect e")
    case None
    then show ?thesis using assms AddOp by (simp add: AddStatusEffect_def)
  next
    case (Some e')
    then show ?thesis using Add_effect [OF assms Some run] run AddOp by simp
  qed
next
  case (RemoveOp i)
  then show ?thesis using Remove_effect [OF assms prod.collapse [symmetric], of i] by simp
next
  case ClearOp
  have "effect_of (snd (ClearStatusEffects p)) = Map.empty" by (rule ext) (simp add: effect_of_def ClearStatusEffects_def)
  then show ?thesis using ClearOp by (simp add: effects_ok_def ClearStatusEffects_def)
next
  case (TickOp hurt alive)
  note T = Tick_effects [OF assms prod.collapse [symmetric], of hurt alive]
  have "distinct (map eff_ID (StatusEffects p))" using assms by (simp add: effects_ok_def)
  then have "effect_of (snd (TickStatusEffects hurt alive p)) i = spec_op ev (effect_of p) i" for i
    using T find_ticked by (simp add: effect_of_def TickOp del: One_nat_def)
  then show ?thesis using T TickOp by (simp add: fun_eq_iff)
qed

lemma ticks_spec:
  assumes "\<forall>e. m i = Some e \<longrightarrow> 0 < sint (Duration e)"
  shows "fold (\<lambda>(hurt, alive). spec_op (TickOp hurt alive)) ts m i =
    (case m i of None \<Rightarrow> None
     | Some e \<Rightarrow> if int (length ts) < sint (Duration e) then Some (dec_by (length ts) e) else None)"
  using assms
proof (induction ts arbitrary: m)
  case Nil
  then show ?case by (auto simp: dec_by_def split: option.splits)
next
  case (Cons t ts)
  let ?m = "(\<lambda>(hurt, alive). spec_op (TickOp hurt alive)) t m"
  have step: "?m i = (case m i of None \<Rightarrow> None | Some e \<Rightarrow> if stays e then Some (dec_by 1 e) else None)"
    by (cases t) simp
  have dur: "sint (Duration (dec_by 1 e)) = sint (Duration e) - 1" if "m i = Some e" for e
    using sint_minus_small [of "Duration e" 1] Cons.prems that by (simp add: dec_by_def)
  have pos: "\<forall>e. ?m i = Some e \<longrightarrow> 0 < sint (Duration e)"
    using dur by (auto simp: step stays_def split: option.splits if_splits)
  have add: "dec_by n (dec_by 1 e) = dec_by (Suc n) e" for n e by (simp add: dec_by_def)
  have "fold (\<lambda>(hurt, alive). spec_op (TickOp hurt alive)) (t # ts) m i = fold (\<lambda>(hurt, alive). spec_op (TickOp hurt alive)) ts ?m i"
    by (simp only: fold_simps)
  also have "\<dots> = (case ?m i of None \<Rightarrow> None
     | Some e \<Rightarrow> if int (length ts) < sint (Duration e) then Some (dec_by (length ts) e) else None)"
    by (rule Cons.IH [where m = "?m", OF pos])
  finally have run: "fold (\<lambda>(hurt, alive). spec_op (TickOp hurt alive)) (t # ts) m i = (case ?m i of None \<Rightarrow> None
     | Some e \<Rightarrow> if int (length ts) < sint (Duration e) then Some (dec_by (length ts) e) else None)" .
  show ?case
    unfolding run step using dur add Cons.prems by (auto simp: stays_def simp del: One_nat_def split: option.splits)
qed

section \<open>Properties\<close>

text \<open>C16: The list of status effects behaves as a map from effect ids: over any sequence of additions,
  removals, clears and ticks, at most one effect of each kind is active, an added effect replaces a
  weaker or shorter one of its kind and leaves the others alone, durations stay positive, and the
  absorption hearts are gone when their effect is.\<close>

theorem effects_refine_map:
  assumes "effects_ok p"
  shows "effects_ok (fold (apply_op f32) ops p) \<and> effect_of (fold (apply_op f32) ops p) = fold spec_op ops (effect_of p)"
  using assms
proof (induction ops arbitrary: p)
  case (Cons ev ops)
  note A = apply_op_refines [OF Cons.prems, of f32 ev]
  from Cons.IH [OF conjunct1 [OF A]] show ?case using A by simp
qed simp

definition no_effects :: effect_state where
  "no_effects = \<lparr>StatusEffects = [], Absorption = 0\<rparr>"

definition poison :: status_effect where
  "poison = \<lparr>eff_ID = ''poison'', Amplifier = 1, Duration = 40, Ambient = False, ShowParticles = True, ShowIcon = True\<rparr>"

lemma normalize_poison: "normalizeStatusEffect poison = Some (poison\<lparr>eff_ID := ''minecraft:poison''\<rparr>)"
  by (simp add: normalizeStatusEffect_def poison_def trim_space_def is_space_def contains_char_def minecraft_colon_def)

theorem effects_refine_map_witness:
  "effect_of (fold (apply_op (\<lambda>_. 0)) [AddOp poison] no_effects) ''minecraft:poison'' = Some (poison\<lparr>eff_ID := ''minecraft:poison''\<rparr>)"
proof -
  have "effects_ok no_effects" by (simp add: effects_ok_def no_effects_def)
  from effects_refine_map [OF this, of "\<lambda>_. 0" "[AddOp poison]"] show ?thesis
    by (simp add: normalize_poison stronger_def effect_of_def no_effects_def)
qed

text \<open>An effect lasts exactly its duration: after any number of ticks it is still active if and only if
  fewer ticks have passed than its duration, and then exactly the remaining ticks are left.\<close>

theorem effect_lasts_its_duration:
  assumes "effects_ok p" "StatusEffect i p = Some e"
  shows "StatusEffect i (fold (\<lambda>(hurt, alive) q. snd (TickStatusEffects hurt alive q)) ts p) =
    (if int (length ts) < sint (Duration e) then Some (dec_by (length ts) e) else None)"
proof -
  let ?run = "fold (\<lambda>(hurt, alive) q. snd (TickStatusEffects hurt alive q)) ts p"
  have run: "effects_ok (fold (\<lambda>(hurt, alive) q. snd (TickStatusEffects hurt alive q)) us q) \<and>
    effect_of (fold (\<lambda>(hurt, alive) q. snd (TickStatusEffects hurt alive q)) us q)
      = fold (\<lambda>(hurt, alive). spec_op (TickOp hurt alive)) us (effect_of q)" if "effects_ok q" for us q
    using that
  proof (induction us arbitrary: q)
    case (Cons u us)
    obtain hurt alive where u: "u = (hurt, alive)" by (cases u)
    note A = apply_op_refines [OF Cons.prems, of undefined "TickOp hurt alive"]
    from Cons.IH [of "snd (TickStatusEffects hurt alive q)"] A show ?case by (simp add: u)
  qed simp
  have e: "effect_of p (full_id i) = Some e" using assms(2) by (simp add: StatusEffect_of)
  then have "e \<in> set (StatusEffects p)" by (auto simp: effect_of_def find_Some_iff)
  then have "0 < sint (Duration e)" using assms(1) by (auto simp: effects_ok_def list_all_iff effect_ok_def)
  then show ?thesis
    using ticks_spec [of "effect_of p" "full_id i" ts] e run [OF assms(1), of ts] by (simp add: StatusEffect_of)
qed

theorem effect_lasts_its_duration_witness:
  "let p = \<lparr>StatusEffects = [poison\<lparr>eff_ID := ''minecraft:poison''\<rparr>], Absorption = 0\<rparr>; tick = (\<lambda>_ :: nat. True, \<lambda>_ :: nat. True)
   in StatusEffect ''poison'' (fold (\<lambda>(hurt, alive) q. snd (TickStatusEffects hurt alive q)) (replicate 40 tick) p) = None"
proof -
  let ?p = "\<lparr>StatusEffects = [poison\<lparr>eff_ID := ''minecraft:poison''\<rparr>], Absorption = 0\<rparr>"
  have "effects_ok ?p" "StatusEffect ''poison'' ?p = Some (poison\<lparr>eff_ID := ''minecraft:poison''\<rparr>)"
    by (simp_all add: effects_ok_def effect_ok_def poison_def contains_char_def StatusEffect_def statusEffectIndex_def
        full_id_def minecraft_colon_def)
  from effect_lasts_its_duration [OF this, of "replicate 40 (\<lambda>_. True, \<lambda>_. True)"] show ?thesis
    by (simp add: Let_def poison_def)
qed

section \<open>Under water\<close>

definition breathes :: "breath \<Rightarrow> bool" where
  "breathes p \<longleftrightarrow> \<not> Dead p \<and> Mode p \<noteq> Creative \<and> Mode p \<noteq> Spectator"

definition dive :: "nat \<Rightarrow> breath \<Rightarrow> breath" where
  "dive n p = ((\<lambda>q. fst (TickBreathing True q)) ^^ n) p"

definition drown_count :: "int \<Rightarrow> nat \<Rightarrow> int" where
  "drown_count a n = (if int n < a then 0 else (int n - a + 1) mod 20)"

lemma mod20_Suc: "0 \<le> (k :: int) \<Longrightarrow> (k + 1) mod 20 = (if k mod 20 + 1 \<ge> 20 then 0 else k mod 20 + 1)"
proof -
  have m: "(k + 1) mod 20 = (k mod 20 + 1) mod 20" by (simp add: mod_simps)
  have r: "0 \<le> k mod 20" "k mod 20 < 20" by simp_all
  show ?thesis
  proof (cases "k mod 20 + 1 \<ge> 20")
    case True
    then have "k mod 20 = 19" using r by linarith
    then show ?thesis unfolding m by simp
  next
    case False
    then have "(k mod 20 + 1) mod 20 = k mod 20 + 1" using r by (intro mod_pos_pos_trivial) linarith+
    then show ?thesis unfolding m using False by simp
  qed
qed

lemma dive_state:
  assumes "breathes p" "0 < AirSupply p" "DrowningTicks p = 0"
  shows "breathes (dive n p) \<and> AirSupply (dive n p) = max 0 (AirSupply p - int n) \<and>
    DrowningTicks (dive n p) = drown_count (AirSupply p) n"
proof (induction n)
  case 0
  then show ?case using assms by (simp add: dive_def drown_count_def)
next
  case (Suc n)
  let ?q = "dive n p" and ?a = "AirSupply p"
  have step: "dive (Suc n) p = fst (TickBreathing True ?q)" by (simp add: dive_def)
  have m: "(int n - ?a + 1) mod 20 < 20" "0 \<le> (int n - ?a + 1) mod 20" by simp_all
  consider (air) "int n + 1 < ?a" | (last) "int n + 1 = ?a" | (out) "?a \<le> int n" by linarith
  then show ?case
  proof cases
    case out
    have "(int (Suc n) - ?a + 1) mod 20 = (if (int n - ?a + 1) mod 20 + 1 \<ge> 20 then 0 else (int n - ?a + 1) mod 20 + 1)"
      using mod20_Suc [of "int n - ?a + 1"] out by (simp add: algebra_simps)
    then show ?thesis
      using Suc out unfolding step by (auto simp: TickBreathing_def Let_def breathes_def drown_count_def)
  qed (use Suc in \<open>auto simp: step TickBreathing_def Let_def breathes_def drown_count_def\<close>)
qed

text \<open>A diving player loses one unit of air per tick until none is left, takes no drowning damage before
  that, and from then on takes it in every twentieth tick, the first of them counting the tick that
  used up the air.\<close>

theorem drowning_schedule:
  assumes "breathes p" "0 < AirSupply p" "DrowningTicks p = 0"
  shows "AirSupply (dive n p) = max 0 (AirSupply p - int n) \<and>
    (snd (snd (TickBreathing True (dive n p))) \<longleftrightarrow>
      AirSupply p \<le> int (Suc n) \<and> (int (Suc n) - AirSupply p + 1) mod 20 = 0)"
proof -
  note D = dive_state [OF assms, of n]
  let ?a = "AirSupply p"
  consider (air) "int n + 1 < ?a" | (last) "int n + 1 = ?a" | (out) "?a \<le> int n" by linarith
  then show ?thesis
  proof cases
    case out
    have "(int (Suc n) - ?a + 1) mod 20 = (if (int n - ?a + 1) mod 20 + 1 \<ge> 20 then 0 else (int n - ?a + 1) mod 20 + 1)"
      using mod20_Suc [of "int n - ?a + 1"] out by (simp add: algebra_simps)
    moreover have "0 \<le> (int n - ?a + 1) mod 20" by simp
    ultimately show ?thesis
      using D out by (auto simp: TickBreathing_def Let_def breathes_def drown_count_def)
  qed (use D in \<open>auto simp: TickBreathing_def Let_def breathes_def drown_count_def\<close>)
qed

theorem drowning_schedule_witness:
  "let p = \<lparr>Dead = False, Mode = Survival, AirSupply = MaxAirSupply, DrowningTicks = 0\<rparr>
   in snd (snd (TickBreathing True (dive 318 p))) \<and> \<not> snd (snd (TickBreathing True (dive 317 p)))"
proof -
  let ?p = "\<lparr>Dead = False, Mode = Survival, AirSupply = MaxAirSupply, DrowningTicks = 0\<rparr>"
  have "breathes ?p" "0 < AirSupply ?p" "DrowningTicks ?p = 0" by (simp_all add: breathes_def MaxAirSupply_def)
  from drowning_schedule [OF this, of 318] drowning_schedule [OF this, of 317] show ?thesis
    by (simp add: Let_def MaxAirSupply_def)
qed

end
