(* ===== verification/Permissions.thy ===== *)
theory Permissions
  imports GoStrings
begin

text \<open>
  Permission documents and their resolution (\<open>core/permission\<close>): groups with parents, wildcard
  rules, the validation with its search for inheritance cycles, and the manager over a store.
  Go maps are association lists in the order of iteration. The store (file or database) is a
  pair of functions; \<open>cloneDocument\<close>, a JSON round trip, is the identity on documents.
\<close>

type_synonym rules = "(string \<times> bool) list"

record group =
  Weight :: int
  Prefix :: string
  Parents :: "string list"
  Permissions :: rules

record user =
  Groups :: "string list"
  UserPermissions :: rules

record document =
  Version :: int
  GroupMap :: "(string \<times> group) list"
  UserMap :: "(string \<times> user) list"

datatype perm_error =
    UnsupportedVersion int
  | DefaultRequired
  | BadGroupName string
  | UnknownParent string string
  | BadGroupNode string string
  | BadUserName string
  | UnknownGroup string string
  | BadUserNode string string
  | InheritanceCycle string
  | StoreError string

definition DocumentVersion :: int where "DocumentVersion = 1"

definition zero_group :: group where
  "zero_group = \<lparr>Weight = 0, Prefix = [], Parents = [], Permissions = []\<rparr>"

definition DefaultDocument :: document where
  "DefaultDocument =
     \<lparr>Version = DocumentVersion,
      GroupMap = [(''default'', zero_group),
                  (''admin'', zero_group\<lparr>Parents := [''default''], Permissions := [(''*'', True)]\<rparr>)],
      UserMap = []\<rparr>"

definition Normalize :: "string \<Rightarrow> string" where
  "Normalize v = to_lower (trim_space v)"

section \<open>Validation\<close>

definition has_blank :: "string \<Rightarrow> bool" where
  "has_blank s \<longleftrightarrow> (\<exists>c \<in> set s. of_char c \<in> {9, 10, 13, 32 :: nat})"

definition bad_node :: "string \<Rightarrow> bool" where
  "bad_node node \<longleftrightarrow> node = [] \<or> node \<noteq> Normalize node \<or> has_blank node"

definition validateNodes :: "rules \<Rightarrow> string option" where
  "validateNodes nodes = List.find bad_node (map fst nodes)"

definition known_group :: "document \<Rightarrow> string \<Rightarrow> bool" where
  "known_group d name \<longleftrightarrow> map_of (GroupMap d) (Normalize name) \<noteq> None"

definition group_error :: "document \<Rightarrow> string \<times> group \<Rightarrow> perm_error option" where
  "group_error d = (\<lambda>(name, g).
     if name = [] \<or> name \<noteq> Normalize name \<or> has_blank name then Some (BadGroupName name)
     else case List.find (\<lambda>p. \<not> known_group d p) (Parents g) of
            Some p \<Rightarrow> Some (UnknownParent name p)
          | None \<Rightarrow> map_option (BadGroupNode name) (validateNodes (Permissions g)))"

definition user_error :: "document \<Rightarrow> string \<times> user \<Rightarrow> perm_error option" where
  "user_error d = (\<lambda>(name, u).
     if name = [] \<or> name \<noteq> Normalize name then Some (BadUserName name)
     else case List.find (\<lambda>g. \<not> known_group d g) (Groups u) of
            Some g \<Rightarrow> Some (UnknownGroup name g)
          | None \<Rightarrow> map_option (BadUserNode name) (validateNodes (UserPermissions u)))"

fun first_error :: "('a \<Rightarrow> perm_error option) \<Rightarrow> 'a list \<Rightarrow> perm_error option" where
  "first_error f [] = None"
| "first_error f (x # xs) = (case f x of Some err \<Rightarrow> Some err | None \<Rightarrow> first_error f xs)"

definition Validate :: "document \<Rightarrow> perm_error option" where
  "Validate d =
     (if Version d \<noteq> DocumentVersion then Some (UnsupportedVersion (Version d))
      else if map_of (GroupMap d) ''default'' = None then Some DefaultRequired
      else case first_error (group_error d) (GroupMap d) of
             Some err \<Rightarrow> Some err
           | None \<Rightarrow> first_error (user_error d) (UserMap d))"

text \<open>The parents of a group; a name that is no group has none.\<close>

definition parents_of :: "document \<Rightarrow> string \<Rightarrow> string list" where
  "parents_of d name = (case map_of (GroupMap d) name of None \<Rightarrow> [] | Some g \<Rightarrow> map Normalize (Parents g))"

definition group_names :: "document \<Rightarrow> string set" where
  "group_names d = fst ` set (GroupMap d)"

lemma finite_names [simp]: "finite (group_names d)"
  by (simp add: group_names_def)

lemma no_parents: "name \<notin> group_names d \<Longrightarrow> parents_of d name = []"
  by (auto simp: parents_of_def group_names_def dest!: map_of_SomeD split: option.splits intro: rev_image_eqI)

lemma names_shrink: "name \<in> group_names d \<Longrightarrow> name \<notin> visiting \<Longrightarrow>
    card (group_names d - insert name visiting) < card (group_names d - visiting)"
  by (rule psubset_card_mono) auto

lemma names_keep: "name \<notin> group_names d \<Longrightarrow> group_names d - insert name visiting = group_names d - visiting"
  by auto

text \<open>The depth-first search for a cycle: \<open>Inl\<close> names the group on it, \<open>Inr\<close> gives the visited set.\<close>

function visit :: "document \<Rightarrow> string set \<Rightarrow> string set \<Rightarrow> string \<Rightarrow> string + string set"
  and visit_parents :: "document \<Rightarrow> string set \<Rightarrow> string set \<Rightarrow> string list \<Rightarrow> string + string set" where
  "visit d visiting visited name =
     (if name \<in> visiting then Inl name
      else if name \<in> visited then Inr visited
      else case visit_parents d (insert name visiting) visited (parents_of d name) of
             Inl err \<Rightarrow> Inl err
           | Inr visited' \<Rightarrow> Inr (insert name visited'))"
| "visit_parents d visiting visited [] = Inr visited"
| "visit_parents d visiting visited (p # ps) =
     (case visit d visiting visited p of
        Inl err \<Rightarrow> Inl err
      | Inr visited' \<Rightarrow> visit_parents d visiting visited' ps)"
  by pat_completeness auto
termination
proof (relation "measures [\<lambda>x. case x of Inl (d, visiting, _, _) \<Rightarrow> card (group_names d - visiting)
                                      | Inr (d, visiting, _, _) \<Rightarrow> card (group_names d - visiting),
                           \<lambda>x. case x of Inl _ \<Rightarrow> 1 | Inr (_, _, _, ps) \<Rightarrow> 2 * length ps]", goal_cases)
  case (2 d visiting visited name)
  then show ?case by (cases "name \<in> group_names d") (simp_all add: names_shrink names_keep no_parents del: card_Diff_insert)
qed simp_all

declare visit.simps [simp del]

fun visit_all :: "document \<Rightarrow> string set \<Rightarrow> string list \<Rightarrow> perm_error option" where
  "visit_all d visited [] = None"
| "visit_all d visited (name # names) =
     (case visit d {} visited name of
        Inl err \<Rightarrow> Some (InheritanceCycle err)
      | Inr visited' \<Rightarrow> visit_all d visited' names)"

definition validateDocument :: "document \<Rightarrow> perm_error option" where
  "validateDocument d =
     (case Validate d of
        Some err \<Rightarrow> Some err
      | None \<Rightarrow> visit_all d {} (map fst (GroupMap d)))"

section \<open>Resolution\<close>

type_synonym decision = "bool \<times> int \<times> bool"

definition permissionMatch :: "string \<Rightarrow> string \<Rightarrow> int \<times> bool" where
  "permissionMatch pattern node =
     (if pattern = node then (1000 + int (length pattern), True)
      else if pattern = ''*'' then (1, True)
      else if has_suffix pattern ''.*'' then
        (let prefix = trim_suffix pattern ''.*''
         in if node = prefix \<or> has_prefix node (prefix @ ''.'') then (2 + int (length prefix), True) else (0, False))
      else (0, False))"

text \<open>A candidate replaces the best so far when it scores higher, or as high and denies.\<close>

definition take_better :: "decision \<Rightarrow> decision \<Rightarrow> decision" where
  "take_better best cand =
     (case (best, cand) of ((bv, bs, bf), (v, s, f)) \<Rightarrow>
        if f \<and> (s > bs \<or> s = bs \<and> \<not> v) then (v, s, True) else (bv, bs, bf))"

definition permissionDecision :: "rules \<Rightarrow> string \<Rightarrow> decision" where
  "permissionDecision rs node =
     foldl (\<lambda>best (pattern, v). let (s, m) = permissionMatch (Normalize pattern) node in take_better best (v, s, m))
       (False, - 1, False) rs"

function groupDecision :: "document \<Rightarrow> string \<Rightarrow> string \<Rightarrow> int \<Rightarrow> string set \<Rightarrow> decision"
  and parents_decision :: "document \<Rightarrow> string list \<Rightarrow> string \<Rightarrow> int \<Rightarrow> string set \<Rightarrow> decision \<Rightarrow> decision" where
  "groupDecision d name node depth visiting =
     (if name \<in> visiting then (False, 0, False)
      else case map_of (GroupMap d) name of
             None \<Rightarrow> (False, 0, False)
           | Some g \<Rightarrow>
               (let (bv, bs, bf) = permissionDecision (Permissions g) node;
                    own = (bv, if bf then bs * 100 + max depth 0 else bs, bf)
                in parents_decision d (map Normalize (Parents g)) node depth (insert name visiting) own))"
| "parents_decision d [] node depth visiting best = best"
| "parents_decision d (p # ps) node depth visiting best =
     parents_decision d ps node depth visiting (take_better best (groupDecision d p node (depth - 1) visiting))"
  by pat_completeness auto
termination
proof (relation "measures [\<lambda>x. case x of Inl (d, _, _, _, visiting) \<Rightarrow> card (group_names d - visiting)
                                      | Inr (d, _, _, _, visiting, _) \<Rightarrow> card (group_names d - visiting),
                           \<lambda>x. case x of Inl _ \<Rightarrow> 1 | Inr (_, ps, _, _, _, _) \<Rightarrow> 2 * length ps]", goal_cases)
  case (2 d name node depth visiting g)
  then have "name \<in> group_names d" by (auto simp: group_names_def dest!: map_of_SomeD intro: rev_image_eqI)
  with 2 show ?case by (simp add: names_shrink del: card_Diff_insert)
qed simp_all

declare groupDecision.simps [simp del]

definition Allowed :: "document \<Rightarrow> string \<Rightarrow> string \<Rightarrow> bool \<Rightarrow> bool \<Rightarrow> bool" where
  "Allowed d username node operator defaultAllowed =
     (if operator then True
      else
        let name = Normalize username; node' = Normalize node;
            u = map_of (UserMap d) name;
            (value, _, found) = permissionDecision (case u of None \<Rightarrow> [] | Some u \<Rightarrow> UserPermissions u) node'
        in if u \<noteq> None \<and> found then value
           else
             let groups = ''default'' # (case u of None \<Rightarrow> [] | Some u \<Rightarrow> Groups u);
                 (bv, _, bf) = foldl (\<lambda>best g. take_better best (groupDecision d (Normalize g) node' 50 {}))
                                 (False, - 1, False) groups
             in if bf then bv else defaultAllowed)"

definition GroupPrefix :: "document \<Rightarrow> string \<Rightarrow> string" where
  "GroupPrefix d username =
     (let groups = ''default'' # (case map_of (UserMap d) (Normalize username) of None \<Rightarrow> [] | Some u \<Rightarrow> Groups u)
      in fst (foldl (\<lambda>(best, weight) name.
           case map_of (GroupMap d) (Normalize name) of
             None \<Rightarrow> (best, weight)
           | Some g \<Rightarrow> if Prefix g \<noteq> [] \<and> Weight g > weight then (Prefix g, Weight g) else (best, weight))
           ([], - 1) groups))"

section \<open>The manager\<close>

text \<open>A store answers a load with a document or an error, and accepts or refuses a save.\<close>

record 's store_ops =
  Load :: "'s \<Rightarrow> (perm_error + document) \<times> 's"
  Save :: "document \<Rightarrow> 's \<Rightarrow> perm_error option \<times> 's"

record 's manager =
  backend :: 's
  doc :: document

definition Open :: "'s store_ops \<Rightarrow> 's \<Rightarrow> (perm_error + 's manager) \<times> 's" where
  "Open S s =
     (case Load S s of
        (Inl err, s') \<Rightarrow> (Inl err, s')
      | (Inr d, s') \<Rightarrow>
          (case validateDocument d of
             Some err \<Rightarrow> (Inl err, s')
           | None \<Rightarrow> (Inr \<lparr>backend = s', doc = d\<rparr>, s')))"

definition Replace :: "'s store_ops \<Rightarrow> document \<Rightarrow> 's manager \<Rightarrow> perm_error option \<times> 's manager" where
  "Replace S d m =
     (case validateDocument d of
        Some err \<Rightarrow> (Some err, m)
      | None \<Rightarrow>
          (case Save S d (backend m) of
             (Some err, s) \<Rightarrow> (Some err, m\<lparr>backend := s\<rparr>)
           | (None, s) \<Rightarrow> (None, m\<lparr>backend := s, doc := d\<rparr>)))"

definition Reload :: "'s store_ops \<Rightarrow> 's manager \<Rightarrow> perm_error option \<times> 's manager" where
  "Reload S m =
     (case Load S (backend m) of
        (Inl err, s) \<Rightarrow> (Some err, m\<lparr>backend := s\<rparr>)
      | (Inr d, s) \<Rightarrow>
          (case validateDocument d of
             Some err \<Rightarrow> (Some err, m\<lparr>backend := s\<rparr>)
           | None \<Rightarrow> (None, m\<lparr>backend := s, doc := d\<rparr>)))"

definition noopStore :: "unit store_ops" where
  "noopStore = \<lparr>Load = (\<lambda>s. (Inr DefaultDocument, s)), Save = (\<lambda>d s. (None, s))\<rparr>"

definition NewMemory :: "unit manager" where
  "NewMemory = \<lparr>backend = (), doc = DefaultDocument\<rparr>"

section \<open>The search for cycles decides acyclicity\<close>

definition inherits :: "document \<Rightarrow> (string \<times> string) set" where
  "inherits d = {(a, b). b \<in> set (parents_of d a)}"

lemma parent_edge: "b \<in> set (parents_of d a) \<Longrightarrow> (a, b) \<in> inherits d"
  by (simp add: inherits_def)

definition grounded :: "document \<Rightarrow> string set" where
  "grounded d = Wellfounded.acc ((inherits d)\<inverse>)"

lemma groundedI: "set (parents_of d name) \<subseteq> grounded d \<Longrightarrow> name \<in> grounded d"
  unfolding grounded_def by (rule accI) (auto simp: inherits_def)

text \<open>Success: every visited name has only finite chains of ancestors.\<close>

lemma visit_well_founded:
  "visit d visiting visited name = Inr visited' \<Longrightarrow> visited \<subseteq> grounded d \<Longrightarrow>
    visited \<subseteq> visited' \<and> name \<in> visited' \<and> visited' \<subseteq> grounded d"
  "visit_parents d visiting visited ps = Inr visited' \<Longrightarrow> visited \<subseteq> grounded d \<Longrightarrow>
    visited \<subseteq> visited' \<and> set ps \<subseteq> visited' \<and> visited' \<subseteq> grounded d"
proof (induction d visiting visited name and d visiting visited ps arbitrary: visited' and visited'
    rule: visit_visit_parents.induct)
  case (1 d visiting visited name)
  show ?case
  proof (cases "name \<in> visiting \<or> name \<in> visited")
    case True
    then show ?thesis using "1.prems" by (auto simp: visit.simps [of d visiting visited name] split: if_splits)
  next
    case False
    then obtain v where v: "visit_parents d (insert name visiting) visited (parents_of d name) = Inr v" "visited' = insert name v"
      using "1.prems"(1) by (auto simp: visit.simps [of d visiting visited name] split: sum.splits)
    have "visited \<subseteq> v \<and> set (parents_of d name) \<subseteq> v \<and> v \<subseteq> grounded d"
      using False v(1) "1.prems"(2) by (intro "1.IH") auto
    moreover from this have "name \<in> grounded d" by (intro groundedI) auto
    ultimately show ?thesis using v(2) by auto
  qed
next
  case (3 d visiting visited p ps)
  then obtain v where v: "visit d visiting visited p = Inr v" "visit_parents d visiting v ps = Inr visited'"
    by (auto split: sum.splits)
  show ?case using "3.IH"(1) [OF v(1) "3.prems"(2)] "3.IH"(2) [OF v(1) v(2)] by auto
qed simp

text \<open>Failure: every group on the current path is an ancestor-or-self of the group visited.\<close>

lemma visit_cycle:
  "visit d visiting visited name = Inl m \<Longrightarrow> \<forall>x \<in> visiting. (x, name) \<in> (inherits d)\<^sup>+ \<Longrightarrow> \<exists>x. (x, x) \<in> (inherits d)\<^sup>+"
  "visit_parents d visiting visited ps = Inl m \<Longrightarrow> \<forall>x \<in> visiting. \<forall>p \<in> set ps. (x, p) \<in> (inherits d)\<^sup>+ \<Longrightarrow> \<exists>x. (x, x) \<in> (inherits d)\<^sup>+"
proof (induction d visiting visited name and d visiting visited ps rule: visit_visit_parents.induct)
  case (1 d visiting visited name)
  show ?case
  proof (cases "name \<in> visiting")
    case True
    then show ?thesis using "1.prems"(2) by blast
  next
    case False
    then have v: "name \<notin> visited" "visit_parents d (insert name visiting) visited (parents_of d name) = Inl m"
      using "1.prems"(1) by (auto simp: visit.simps [of d visiting visited name] split: sum.splits if_splits)
    have "\<forall>x \<in> insert name visiting. \<forall>p \<in> set (parents_of d name). (x, p) \<in> (inherits d)\<^sup>+"
      using "1.prems"(2) parent_edge by (auto intro: trancl_into_trancl)
    then show ?thesis using False v by (intro "1.IH") auto
  qed
next
  case (3 d visiting visited p ps)
  show ?case
  proof (cases "visit d visiting visited p")
    case (Inl err)
    then show ?thesis using 3 by auto
  next
    case (Inr v)
    then have "visit_parents d visiting v ps = Inl m" using "3.prems"(1) by simp
    then show ?thesis using "3.IH"(2) [OF Inr] "3.prems"(2) by auto
  qed
qed simp

lemma visit_all_ok:
  "visit_all d visited names = None \<Longrightarrow> visited \<subseteq> grounded d \<Longrightarrow> set names \<subseteq> grounded d"
proof (induction names arbitrary: visited)
  case (Cons name names)
  then obtain v where "visit d {} visited name = Inr v" "visit_all d v names = None"
    by (auto split: sum.splits)
  with visit_well_founded(1) [OF this(1) Cons.prems(2)] Cons.IH [of v] show ?case by auto
qed simp

lemma visit_all_err: "visit_all d visited names \<noteq> None \<Longrightarrow> \<exists>x. (x, x) \<in> (inherits d)\<^sup>+"
proof (induction names arbitrary: visited)
  case (Cons name names)
  then show ?case using visit_cycle(1) by (fastforce split: sum.splits)
qed simp

lemma visit_all_iff: "visit_all d {} (map fst (GroupMap d)) = None \<longleftrightarrow> acyclic (inherits d)"
proof
  assume "visit_all d {} (map fst (GroupMap d)) = None"
  then have groups: "group_names d \<subseteq> grounded d"
    using visit_all_ok [of d "{}" "map fst (GroupMap d)"] by (simp add: group_names_def)
  have "x \<in> grounded d" for x
  proof (cases "x \<in> group_names d")
    case False
    then show ?thesis using no_parents [OF False] by (intro groundedI) simp
  qed (use groups in auto)
  then have "wf ((inherits d)\<inverse>)" by (simp add: wf_iff_acc grounded_def)
  then show "acyclic (inherits d)" using wf_acyclic acyclic_converse by blast
next
  assume "acyclic (inherits d)"
  then show "visit_all d {} (map fst (GroupMap d)) = None"
    using visit_all_err by (fastforce simp: acyclic_def)
qed

section \<open>Decisions are the best candidates\<close>

text \<open>A set of candidates (score and value) and the decision it calls for: the highest score, and among
  candidates of that score a denial.\<close>

type_synonym candidates = "(int \<times> bool) set"

definition best_of :: "candidates \<Rightarrow> decision \<Rightarrow> bool" where
  "best_of C = (\<lambda>(v, s, f). (f \<longleftrightarrow> C \<noteq> {}) \<and>
     (f \<longrightarrow> (s, v) \<in> C \<and> (\<forall>s' v'. (s', v') \<in> C \<longrightarrow> s' < s \<or> s' = s \<and> (v \<longrightarrow> v'))))"

definition fresh_start :: "decision \<Rightarrow> bool" where
  "fresh_start = (\<lambda>(v, s, f). \<not> f \<longrightarrow> s = - 1)"

definition allows :: "candidates \<Rightarrow> bool" where
  "allows C \<longleftrightarrow> (\<exists>s. (s, True) \<in> C \<and> (\<forall>s' v'. (s', v') \<in> C \<longrightarrow> s' < s \<or> s' = s \<and> v'))"

lemma best_ofI:
  "(s, v) \<in> C \<Longrightarrow> (\<And>s' v'. (s', v') \<in> C \<Longrightarrow> s' < s \<or> s' = s \<and> (v \<longrightarrow> v')) \<Longrightarrow> best_of C (v, s, True)"
  by (auto simp: best_of_def)

lemma best_ofD: "best_of C (v, s, f) \<Longrightarrow> (s', v') \<in> C \<Longrightarrow> f \<and> (s' < s \<or> s' = s \<and> (v \<longrightarrow> v'))"
  unfolding best_of_def by blast

lemma best_of_mem: "best_of C (v, s, True) \<Longrightarrow> (s, v) \<in> C"
  by (simp add: best_of_def)

lemma best_of_none: "best_of C (v, s, False) \<longleftrightarrow> C = {}"
  by (simp add: best_of_def)

lemma best_allows:
  assumes "best_of C (v, s, True)"
  shows "v \<longleftrightarrow> allows C"
proof (cases v)
  case True
  have "allows C"
    unfolding allows_def
  proof (intro exI conjI allI impI)
    show "(s, True) \<in> C" using best_of_mem [OF assms] True by simp
    show "s' < s \<or> s' = s \<and> v'" if "(s', v') \<in> C" for s' v' using best_ofD [OF assms that] True by simp
  qed
  then show ?thesis using True by simp
next
  case False
  have "\<not> allows C"
  proof
    assume "allows C"
    then obtain t where t: "(t, True) \<in> C" "\<And>s' v'. (s', v') \<in> C \<Longrightarrow> s' < t \<or> s' = t \<and> v'" unfolding allows_def by blast
    from t(2) [OF best_of_mem [OF assms]] False have "s < t" by simp
    with best_ofD [OF assms t(1)] show False by auto
  qed
  then show ?thesis using False by simp
qed

lemma best_empty [simp]: "best_of {} (v, s, False)" "fresh_start (v, - 1, f)"
  by (simp_all add: best_of_def fresh_start_def)

lemma take_better_best:
  assumes "best_of A a" "fresh_start a" "best_of B b" "\<forall>s v. (s, v) \<in> B \<longrightarrow> 0 \<le> s"
  shows "best_of (A \<union> B) (take_better a b) \<and> fresh_start (take_better a b)"
proof -
  obtain av sa fa bv sb fb where a: "a = (av, sa, fa)" "b = (bv, sb, fb)" by (metis prod.exhaust)
  note A = assms(1) [unfolded a] and B = assms(3) [unfolded a]
  show ?thesis
  proof (cases "fb \<and> (sb > sa \<or> sb = sa \<and> \<not> bv)")
    case True
    then have t: "take_better a b = (bv, sb, True)" and fb: fb using a by (simp_all add: take_better_def)
    have "best_of (A \<union> B) (bv, sb, True)"
    proof (rule best_ofI)
      show "(sb, bv) \<in> A \<union> B" using best_of_mem B fb by auto
      show "s' < sb \<or> s' = sb \<and> (bv \<longrightarrow> v')" if "(s', v') \<in> A \<union> B" for s' v'
        using that best_ofD [OF A, of s' v'] best_ofD [OF B, of s' v'] True by auto
    qed
    then show ?thesis by (simp add: t fresh_start_def)
  next
    case False
    then have t: "take_better a b = (av, sa, fa)" using a by (auto simp: take_better_def)
    show ?thesis
    proof (cases fb)
      case fb: True
      have "(sb, bv) \<in> B" using best_of_mem B fb by simp
      then have "0 \<le> sb" using assms(4) by blast
      then have fa: fa using assms(2) a False fb by (auto simp: fresh_start_def)
      have "best_of (A \<union> B) (av, sa, True)"
      proof (rule best_ofI)
        show "(sa, av) \<in> A \<union> B" using best_of_mem A fa by auto
        show "s' < sa \<or> s' = sa \<and> (av \<longrightarrow> v')" if "(s', v') \<in> A \<union> B" for s' v'
          using that best_ofD [OF A, of s' v'] best_ofD [OF B, of s' v'] False fb by auto
      qed
      then show ?thesis using t fa by (simp add: fresh_start_def)
    next
      case nb: False
      then have "B = {}" using B by (simp add: best_of_none)
      then show ?thesis using assms(1,2) a t by simp
    qed
  qed
qed

section \<open>The candidates of a request\<close>

definition rule_candidates :: "rules \<Rightarrow> string \<Rightarrow> candidates" where
  "rule_candidates rs node = {(s, v). \<exists>p. (p, v) \<in> set rs \<and> permissionMatch (Normalize p) node = (s, True)}"

lemma match_score: "permissionMatch p node = (s, True) \<Longrightarrow> 1 \<le> s"
  by (auto simp: permissionMatch_def Let_def split: if_splits)

lemma rule_candidate_score: "(s, v) \<in> rule_candidates rs node \<Longrightarrow> 1 \<le> s"
  using match_score by (auto simp: rule_candidates_def)

lemma rule_candidates_Cons:
  "rule_candidates ((p, v) # rs) node =
    (if snd (permissionMatch (Normalize p) node) then {(fst (permissionMatch (Normalize p) node), v)} else {}) \<union> rule_candidates rs node"
  by (cases "permissionMatch (Normalize p) node") (auto simp: rule_candidates_def)

lemma rules_best_from:
  assumes "best_of A best" "fresh_start best"
  shows "best_of (A \<union> rule_candidates rs node)
      (foldl (\<lambda>best (pattern, v). let (s, m) = permissionMatch (Normalize pattern) node in take_better best (v, s, m)) best rs) \<and>
    fresh_start (foldl (\<lambda>best (pattern, v). let (s, m) = permissionMatch (Normalize pattern) node in take_better best (v, s, m)) best rs)"
  using assms
proof (induction rs arbitrary: A best)
  case Nil
  then show ?case by (simp add: rule_candidates_def)
next
  case (Cons r rs)
  obtain p v where r: "r = (p, v)" by (cases r)
  obtain s m where m: "permissionMatch (Normalize p) node = (s, m)" by fastforce
  let ?B = "if m then {(s, v)} else {} :: candidates"
  have "best_of ?B (v, s, m)" by (auto simp: best_of_def)
  moreover have "\<forall>s' v'. (s', v') \<in> ?B \<longrightarrow> 0 \<le> s'" using match_score [of "Normalize p" node s] m by (auto split: if_splits)
  ultimately have "best_of (A \<union> ?B) (take_better best (v, s, m)) \<and> fresh_start (take_better best (v, s, m))"
    by (rule take_better_best [OF Cons.prems])
  from Cons.IH [OF conjunct1 [OF this] conjunct2 [OF this]] show ?case
    by (cases m) (simp_all add: r m rule_candidates_Cons)
qed

lemma permissionDecision_best:
  "best_of (rule_candidates rs node) (permissionDecision rs node) \<and> fresh_start (permissionDecision rs node)"
  using rules_best_from [of "{}" "(False, - 1, False)" rs node] by (simp add: permissionDecision_def)

text \<open>What a group contributes: its own best rule at its distance from the group asked for, and what its
  parents contribute one step further.\<close>

inductive candidate :: "document \<Rightarrow> string \<Rightarrow> string \<Rightarrow> int \<Rightarrow> int \<Rightarrow> bool \<Rightarrow> bool" for d node where
  own: "map_of (GroupMap d) name = Some g \<Longrightarrow> permissionDecision (Permissions g) node = (v, s, True) \<Longrightarrow>
    candidate d node name depth (s * 100 + max depth 0) v"
| inherited: "p \<in> set (parents_of d name) \<Longrightarrow> candidate d node p (depth - 1) s v \<Longrightarrow> candidate d node name depth s v"

inductive_cases candidateE: "candidate d node name depth s v"

definition group_candidates :: "document \<Rightarrow> string \<Rightarrow> string \<Rightarrow> int \<Rightarrow> candidates" where
  "group_candidates d node name depth = {(s, v). candidate d node name depth s v}"

lemma group_candidate_score: "candidate d node name depth s v \<Longrightarrow> 0 \<le> s"
proof (induction rule: candidate.induct)
  case (own name g v s depth)
  have "best_of (rule_candidates (Permissions g) node) (v, s, True)" using permissionDecision_best [of "Permissions g" node] own(2) by simp
  from rule_candidate_score [OF best_of_mem [OF this]] show ?case by simp
qed

lemma group_candidates_split:
  "group_candidates d node name depth =
    (case map_of (GroupMap d) name of None \<Rightarrow> {}
     | Some g \<Rightarrow> {(s * 100 + max depth 0, v) | s v. permissionDecision (Permissions g) node = (v, s, True)}) \<union>
    (\<Union>p \<in> set (parents_of d name). group_candidates d node p (depth - 1))"
proof -
  have "candidate d node name depth s v \<longleftrightarrow>
      (\<exists>g t. map_of (GroupMap d) name = Some g \<and> permissionDecision (Permissions g) node = (v, t, True) \<and> s = t * 100 + max depth 0) \<or>
      (\<exists>p \<in> set (parents_of d name). candidate d node p (depth - 1) s v)" for s v
    by (subst candidate.simps) auto
  then show ?thesis unfolding group_candidates_def by (cases "map_of (GroupMap d) name") auto
qed

lemma best_scale:
  assumes "permissionDecision rs node = (v, s, f)" "0 \<le> (k :: int)"
  shows "best_of {(s' * 100 + k, v') | s' v'. permissionDecision rs node = (v', s', True)} (v, if f then s * 100 + k else s, f) \<and>
    fresh_start (v, if f then s * 100 + k else s, f)"
  using assms permissionDecision_best [of rs node] by (cases f) (auto simp: best_of_def fresh_start_def)

lemma group_decision_best:
  "acyclic (inherits d) \<Longrightarrow> \<forall>x \<in> visiting. (x, name) \<in> (inherits d)\<^sup>+ \<Longrightarrow>
    best_of (group_candidates d node name depth) (groupDecision d name node depth visiting)"
  "acyclic (inherits d) \<Longrightarrow> \<forall>x \<in> visiting. \<forall>p \<in> set ps. (x, p) \<in> (inherits d)\<^sup>+ \<Longrightarrow> best_of A best \<Longrightarrow> fresh_start best \<Longrightarrow>
    best_of (A \<union> (\<Union>p \<in> set ps. group_candidates d node p (depth - 1))) (parents_decision d ps node depth visiting best)"
proof (induction d name node depth visiting and d ps node depth visiting best arbitrary: and A
    rule: groupDecision_parents_decision.induct)
  case (1 d name node depth visiting)
  have fresh: "name \<notin> visiting" using "1.prems" by (auto simp: acyclic_def)
  show ?case
  proof (cases "map_of (GroupMap d) name")
    case None
    then have "group_candidates d node name depth = {}"
      by (subst group_candidates_split) (simp add: parents_of_def)
    then show ?thesis using None fresh by (simp add: groupDecision.simps [of d name])
  next
    case (Some g)
    obtain v s f where own: "permissionDecision (Permissions g) node = (v, s, f)" by (metis prod.exhaust)
    let ?own = "(v, if f then s * 100 + max depth 0 else s, f)"
    let ?A = "{(s' * 100 + max depth 0, v') | s' v'. permissionDecision (Permissions g) node = (v', s', True)}"
    have par: "parents_of d name = map Normalize (Parents g)" using Some by (simp add: parents_of_def)
    have run: "groupDecision d name node depth visiting =
        parents_decision d (map Normalize (Parents g)) node depth (insert name visiting) ?own"
      using Some fresh own by (simp add: groupDecision.simps [of d name])
    have "best_of ?A ?own \<and> fresh_start ?own" by (rule best_scale [OF own]) simp
    moreover have "\<forall>x \<in> insert name visiting. \<forall>p \<in> set (map Normalize (Parents g)). (x, p) \<in> (inherits d)\<^sup>+"
      unfolding par [symmetric] using "1.prems"(2) parent_edge by (auto intro: trancl_into_trancl)
    ultimately have "best_of (?A \<union> (\<Union>p \<in> set (map Normalize (Parents g)). group_candidates d node p (depth - 1)))
        (parents_decision d (map Normalize (Parents g)) node depth (insert name visiting) ?own)"
      using "1.IH" [OF fresh Some refl, of v "(s, f)" s f ?own] own "1.prems"(1) by simp
    then show ?thesis unfolding run by (subst group_candidates_split) (simp add: Some par)
  qed
next
  case (3 d p ps node depth visiting best)
  have "best_of (group_candidates d node p (depth - 1)) (groupDecision d p node (depth - 1) visiting)"
    using 3 by simp
  moreover have "\<forall>s v. (s, v) \<in> group_candidates d node p (depth - 1) \<longrightarrow> 0 \<le> s"
    using group_candidate_score by (auto simp: group_candidates_def)
  ultimately have "best_of (A \<union> group_candidates d node p (depth - 1)) (take_better best (groupDecision d p node (depth - 1) visiting)) \<and>
      fresh_start (take_better best (groupDecision d p node (depth - 1) visiting))"
    by (rule take_better_best [OF "3.prems"(3,4)])
  from "3.IH"(2) [OF "3.prems"(1) _ conjunct1 [OF this] conjunct2 [OF this]] "3.prems"(2) show ?case
    by (simp add: Un_assoc)
qed simp

lemma acyclic_validated: "validateDocument d = None \<Longrightarrow> acyclic (inherits d)"
  by (auto simp: validateDocument_def visit_all_iff split: option.splits)

lemma groups_best_from:
  assumes "acyclic (inherits d)" "best_of A best" "fresh_start best"
  shows "best_of (A \<union> (\<Union>g \<in> set gs. group_candidates d node (Normalize g) 50))
      (foldl (\<lambda>best g. take_better best (groupDecision d (Normalize g) node 50 {})) best gs)"
  using assms(2,3)
proof (induction gs arbitrary: A best)
  case (Cons g gs)
  have "best_of (group_candidates d node (Normalize g) 50) (groupDecision d (Normalize g) node 50 {})"
    using group_decision_best(1) [OF assms(1)] by simp
  moreover have "\<forall>s v. (s, v) \<in> group_candidates d node (Normalize g) 50 \<longrightarrow> 0 \<le> s"
    using group_candidate_score by (auto simp: group_candidates_def)
  ultimately have "best_of (A \<union> group_candidates d node (Normalize g) 50) (take_better best (groupDecision d (Normalize g) node 50 {})) \<and>
      fresh_start (take_better best (groupDecision d (Normalize g) node 50 {}))"
    by (rule take_better_best [OF Cons.prems])
  from Cons.IH [OF conjunct1 [OF this] conjunct2 [OF this]] show ?case by (simp add: Un_assoc)
qed simp

definition user_candidates :: "document \<Rightarrow> string \<Rightarrow> string \<Rightarrow> candidates" where
  "user_candidates d username node =
     (case map_of (UserMap d) (Normalize username) of None \<Rightarrow> {} | Some u \<Rightarrow> rule_candidates (UserPermissions u) (Normalize node))"

definition membership :: "document \<Rightarrow> string \<Rightarrow> string list" where
  "membership d username = ''default'' # (case map_of (UserMap d) (Normalize username) of None \<Rightarrow> [] | Some u \<Rightarrow> Groups u)"

definition inherited_candidates :: "document \<Rightarrow> string \<Rightarrow> string \<Rightarrow> candidates" where
  "inherited_candidates d username node = (\<Union>g \<in> set (membership d username). group_candidates d (Normalize node) (Normalize g) 50)"

lemma best_value: "best_of C (v, s, f) \<Longrightarrow> (f \<longleftrightarrow> C \<noteq> {}) \<and> (f \<longrightarrow> v = allows C)"
  using best_allows [of C v s] by (cases f) (auto simp: best_of_def)

lemma Allowed_candidates:
  assumes "validateDocument d = None"
  shows "Allowed d username node False def =
    (if user_candidates d username node \<noteq> {} then allows (user_candidates d username node)
     else if inherited_candidates d username node \<noteq> {} then allows (inherited_candidates d username node)
     else def)"
proof -
  let ?u = "map_of (UserMap d) (Normalize username)" and ?n = "Normalize node"
  let ?rs = "case ?u of None \<Rightarrow> [] | Some u \<Rightarrow> UserPermissions u"
  obtain v s f where r: "permissionDecision ?rs ?n = (v, s, f)" by (metis prod.exhaust)
  have "best_of (rule_candidates ?rs ?n) (v, s, f)" using permissionDecision_best [of ?rs ?n] r by simp
  moreover have "rule_candidates ?rs ?n = user_candidates d username node"
    by (auto simp: user_candidates_def rule_candidates_def split: option.splits)
  ultimately have R: "(f \<longleftrightarrow> user_candidates d username node \<noteq> {}) \<and> (f \<longrightarrow> v = allows (user_candidates d username node))"
    using best_value by simp
  have no_user: "?u = None \<Longrightarrow> \<not> f" using R by (simp add: user_candidates_def)
  obtain gv gs gf where g: "foldl (\<lambda>best g. take_better best (groupDecision d (Normalize g) ?n 50 {})) (False, - 1, False)
      (membership d username) = (gv, gs, gf)" by (metis prod.exhaust)
  have "best_of (inherited_candidates d username node) (gv, gs, gf)"
    using groups_best_from [OF acyclic_validated [OF assms], of "{}" "(False, - 1, False)" ?n "membership d username"] g
    by (simp add: inherited_candidates_def)
  note G = best_value [OF this]
  have "Allowed d username node False def = (if f then v else if gf then gv else def)"
    using r g no_user by (auto simp: Allowed_def membership_def Let_def)
  then show ?thesis using R G by auto
qed

section \<open>Exact rules\<close>

lemma first_error_None: "first_error f xs = None \<longleftrightarrow> (\<forall>x \<in> set xs. f x = None)"
  by (induction xs) (auto split: option.splits)

lemma user_rules_normalized:
  assumes "validateDocument d = None" "map_of (UserMap d) name = Some u" "(p, v) \<in> set (UserPermissions u)"
  shows "Normalize p = p"
proof -
  have "(name, u) \<in> set (UserMap d)" using assms(2) by (rule map_of_SomeD)
  moreover have "first_error (user_error d) (UserMap d) = None"
    using assms(1) by (auto simp: validateDocument_def Validate_def split: option.splits if_splits)
  ultimately have "user_error d (name, u) = None" by (simp add: first_error_None)
  then have "validateNodes (UserPermissions u) = None" by (auto simp: user_error_def split: if_splits option.splits)
  then have "\<not> bad_node p" using assms(3) by (force simp: validateNodes_def find_None_iff)
  then show ?thesis by (simp add: bad_node_def)
qed

lemma suffix_prefix: "has_suffix p ''.*'' \<Longrightarrow> length (trim_suffix p ''.*'') = length p - 2"
  by (simp add: trim_suffix_def has_suffix_def)

lemma inexact_score:
  assumes "permissionMatch p node = (s, True)" "p \<noteq> node"
  shows "s < 1000 + int (length node)"
proof -
  consider (star) "s = 1" | (wild) prefix where "s = 2 + int (length prefix)" "node = prefix \<or> has_prefix node (prefix @ ''.'')"
    using assms by (auto simp: permissionMatch_def Let_def split: if_splits)
  then show ?thesis
  proof cases
    case wild
    then have "length prefix \<le> length node" by (auto simp: has_prefix_iff)
    then show ?thesis using wild by simp
  qed simp
qed

section \<open>Properties\<close>

text \<open>C18: Validation accepts a document exactly when its names and rules are well formed and its groups
  inherit without cycles: the search reports an error precisely if some group is among its own
  ancestors.\<close>

theorem validation_rejects_cycles:
  "validateDocument d = None \<longleftrightarrow> Validate d = None \<and> acyclic (inherits d)"
  by (simp add: validateDocument_def visit_all_iff split: option.split)


lemma default_valid: "validateDocument DefaultDocument = None"
proof -
  have n: "Normalize ''default'' = ''default''" "Normalize ''admin'' = ''admin''" "Normalize ''*'' = ''*''"
    by (simp_all add: Normalize_def to_lower_def trim_space_def is_space_def lower_char_def)
  have p: "parents_of DefaultDocument ''default'' = []" "parents_of DefaultDocument ''admin'' = [''default'']"
    by (simp_all add: parents_of_def DefaultDocument_def zero_group_def n)
  have "visit_all DefaultDocument {} [''default'', ''admin''] = None"
    by (simp add: visit.simps p)
  moreover have "Validate DefaultDocument = None"
    by (simp add: Validate_def DefaultDocument_def zero_group_def DocumentVersion_def group_error_def known_group_def
        validateNodes_def bad_node_def has_blank_def n)
  moreover have "map fst (GroupMap DefaultDocument) = [''default'', ''admin'']" by (simp add: DefaultDocument_def)
  ultimately show ?thesis by (simp only: validateDocument_def option.case)
qed


text \<open>A rule given to a user for exactly the node asked for decides, whatever wildcards the user or the
  user's groups have.\<close>

theorem exact_user_rule_decides:
  assumes "validateDocument d = None" "map_of (UserMap d) (Normalize username) = Some u"
    and "distinct (map fst (UserPermissions u))" "(Normalize node, v) \<in> set (UserPermissions u)"
  shows "Allowed d username node False def = v"
proof -
  let ?n = "Normalize node" and ?C = "user_candidates d username node"
  let ?top = "1000 + int (length ?n)"
  have C: "?C = rule_candidates (UserPermissions u) ?n" using assms(2) by (simp add: user_candidates_def)
  have norm: "Normalize p = p" if "(p, w) \<in> set (UserPermissions u)" for p w
    using user_rules_normalized [OF assms(1,2) that] .
  have top: "(?top, v) \<in> ?C"
    using assms(4) norm [OF assms(4)] by (auto simp: C rule_candidates_def permissionMatch_def intro!: exI [of _ ?n])
  have other: "s < ?top \<or> s = ?top \<and> w = v" if mem: "(s, w) \<in> ?C" for s w
  proof -
    obtain p where p: "(p, w) \<in> set (UserPermissions u)" "permissionMatch (Normalize p) ?n = (s, True)"
      using mem by (auto simp: C rule_candidates_def)
    then have p: "(p, w) \<in> set (UserPermissions u)" "permissionMatch p ?n = (s, True)" using norm by simp_all
    show ?thesis
    proof (cases "p = ?n")
      case True
      then have "w = v" using p(1) assms(3,4) by (metis eq_key_imp_eq_value)
      then show ?thesis using p(2) True by (simp add: permissionMatch_def)
    next
      case False
      then show ?thesis using inexact_score [OF p(2)] by simp
    qed
  qed
  have "best_of ?C (v, ?top, True)" by (rule best_ofI [OF top]) (use other in fastforce)
  then have "allows ?C = v" using best_allows by simp
  then show ?thesis using Allowed_candidates [OF assms(1), of username node def] top by auto
qed

definition alex_document :: document where
  "alex_document = DefaultDocument\<lparr>UserMap :=
     [(''alex'', \<lparr>Groups = [''admin''], UserPermissions = [(''stop'', False), (''*'', True)]\<rparr>)]\<rparr>"

lemma alex_names:
  "Normalize ''default'' = ''default''" "Normalize ''admin'' = ''admin''" "Normalize ''*'' = ''*''"
  "Normalize ''alex'' = ''alex''" "Normalize '' Alex'' = ''alex''" "Normalize ''STOP'' = ''stop''" "Normalize ''stop'' = ''stop''"
  by code_simp+

lemma alex_valid: "validateDocument alex_document = None"
proof -
  have "GroupMap alex_document = GroupMap DefaultDocument" by (simp add: alex_document_def)
  then have "inherits alex_document = inherits DefaultDocument" by (simp add: inherits_def parents_of_def)
  moreover have "Validate alex_document = None"
    by (simp add: Validate_def alex_document_def DefaultDocument_def zero_group_def DocumentVersion_def group_error_def
        user_error_def known_group_def validateNodes_def bad_node_def has_blank_def alex_names)
  ultimately show ?thesis
    using default_valid by (simp add: validateDocument_def visit_all_iff split: option.splits)
qed

theorem exact_user_rule_decides_witness:
  "\<not> Allowed alex_document '' Alex'' ''STOP'' False True"
  using exact_user_rule_decides [OF alex_valid, of "'' Alex''" _ "''STOP''" False True]
  by (simp add: alex_names) (simp add: alex_document_def)

text \<open>The manager never holds a document that validation would refuse, whatever its store answers: what
  opening, replacing and reloading install has been validated, and an operation that reports an
  error leaves the document in force as it was.\<close>

theorem manager_holds_valid_document:
  "(\<forall>S s m s'. Open S s = (Inr m, s') \<longrightarrow> validateDocument (doc m) = None) \<and>
   (\<forall>S d m. validateDocument (doc m) = None \<longrightarrow>
      validateDocument (doc (snd (Replace S d m))) = None \<and>
      doc (snd (Replace S d m)) = (if fst (Replace S d m) = None then d else doc m)) \<and>
   (\<forall>S m. validateDocument (doc m) = None \<longrightarrow>
      validateDocument (doc (snd (Reload S m))) = None \<and>
      (fst (Reload S m) \<noteq> None \<longrightarrow> doc (snd (Reload S m)) = doc m))"
  by (auto simp: Open_def Replace_def Reload_def split: prod.splits option.splits sum.splits)

theorem manager_holds_valid_document_witness:
  "fst (Replace noopStore alex_document NewMemory) = None \<and> doc (snd (Reload noopStore NewMemory)) = DefaultDocument \<and>
   doc (snd (Replace noopStore (DefaultDocument\<lparr>Version := 7\<rparr>) NewMemory)) = DefaultDocument"
proof -
  have "fst (Replace noopStore (DefaultDocument\<lparr>Version := 7\<rparr>) NewMemory) \<noteq> None"
    by (simp add: Replace_def validateDocument_def Validate_def DocumentVersion_def)
  moreover have "doc NewMemory = DefaultDocument" by (simp add: NewMemory_def)
  ultimately have "doc (snd (Replace noopStore (DefaultDocument\<lparr>Version := 7\<rparr>) NewMemory)) = DefaultDocument"
    using manager_holds_valid_document default_valid by (metis (no_types))
  moreover have "fst (Replace noopStore alex_document NewMemory) = None"
    using alex_valid by (simp add: Replace_def noopStore_def)
  moreover have "doc (snd (Reload noopStore NewMemory)) = DefaultDocument"
    using default_valid by (simp add: Reload_def noopStore_def NewMemory_def)
  ultimately show ?thesis by simp
qed

end
