(* ===== verification/Nbt.thy ===== *)
theory Nbt
  imports Wire "HOL-Library.List_Lexorder"
begin

text \<open>
  The NBT tree format of the saved worlds (\<open>java/world/anvil/nbt.go\<close>). A Go \<open>Tag\<close> is a value of
  the datatype \<open>tag\<close>, with one constructor per tag type; floating-point payloads are their bits.
  A compound, a Go map, is its list of entries in the order of the keys, without duplicates.
  The reader takes a fuel: the nesting and the entries of one compound each use one unit, and
  the root passes more than any input of its length can use.
\<close>

datatype tag =
    TagEnd
  | TagByte byte
  | TagShort "16 word"
  | TagInt i32
  | TagLong i64
  | TagFloat i32
  | TagDouble i64
  | TagByteArr "byte list"
  | TagString "byte list"
  | TagList byte "tag list"
  | TagCompound "(byte list \<times> tag) list"
  | TagIntArr "i32 list"
  | TagLongArr "i64 list"

fun tag_type :: "tag \<Rightarrow> byte" where
  "tag_type TagEnd = 0"
| "tag_type (TagByte _) = 1"
| "tag_type (TagShort _) = 2"
| "tag_type (TagInt _) = 3"
| "tag_type (TagLong _) = 4"
| "tag_type (TagFloat _) = 5"
| "tag_type (TagDouble _) = 6"
| "tag_type (TagByteArr _) = 7"
| "tag_type (TagString _) = 8"
| "tag_type (TagList _ _) = 9"
| "tag_type (TagCompound _) = 10"
| "tag_type (TagIntArr _) = 11"
| "tag_type (TagLongArr _) = 12"

datatype nbt_error =
    Io wire_error
  | NegativeCount int
  | UnknownTag byte
  | NotCompound byte
  | Within string nbt_error
  | Element nat nbt_error
  | OutOfFuel

type_synonym 'a nbt_reader = "byte list \<Rightarrow> nbt_error + 'a \<times> byte list"

definition then_read :: "(nbt_error \<Rightarrow> nbt_error) \<Rightarrow> nbt_error + 'a \<times> byte list \<Rightarrow> ('a \<Rightarrow> 'b nbt_reader) \<Rightarrow> nbt_error + 'b \<times> byte list" where
  "then_read wrap r f = (case r of Inl err \<Rightarrow> Inl (wrap err) | Inr (a, rest) \<Rightarrow> f a rest)"

definition io_full :: "nat \<Rightarrow> byte list nbt_reader" where
  "io_full n bs = (case read_full n bs of Inl err \<Rightarrow> Inl (Io err) | Inr r \<Rightarrow> Inr r)"

section \<open>Writing\<close>

definition writeMUTF8 :: "byte list \<Rightarrow> byte list" where
  "writeMUTF8 s = be_put 2 (word_of_nat (length s) :: 16 word) @ s"

definition writeNamedHeader :: "byte \<Rightarrow> byte list \<Rightarrow> byte list" where
  "writeNamedHeader typ name = typ # writeMUTF8 name"

definition put_count :: "nat \<Rightarrow> byte list" where
  "put_count n = be_put 4 (word_of_nat n :: i32)"

fun writePayload :: "tag \<Rightarrow> byte list"
  and write_elems :: "tag list \<Rightarrow> byte list"
  and writeCompoundPayload :: "(byte list \<times> tag) list \<Rightarrow> byte list" where
  "writePayload TagEnd = []"
| "writePayload (TagByte v) = [v]"
| "writePayload (TagShort v) = be_put 2 v"
| "writePayload (TagInt v) = be_put 4 v"
| "writePayload (TagLong v) = be_put 8 v"
| "writePayload (TagFloat v) = be_put 4 v"
| "writePayload (TagDouble v) = be_put 8 v"
| "writePayload (TagByteArr bs) = put_count (length bs) @ bs"
| "writePayload (TagString s) = writeMUTF8 s"
| "writePayload (TagList elem ts) = elem # put_count (length ts) @ write_elems ts"
| "writePayload (TagCompound es) = writeCompoundPayload es"
| "writePayload (TagIntArr vs) = put_count (length vs) @ concat (map (be_put 4) vs)"
| "writePayload (TagLongArr vs) = put_count (length vs) @ concat (map (be_put 8) vs)"
| "write_elems [] = []"
| "write_elems (t # ts) = writePayload t @ write_elems ts"
| "writeCompoundPayload [] = [0]"
| "writeCompoundPayload ((key, entry) # es) =
     (if tag_type entry = 0 then writeCompoundPayload es
      else writeNamedHeader (tag_type entry) key @ writePayload entry @ writeCompoundPayload es)"

definition WriteRootCompound :: "(byte list \<times> tag) list \<Rightarrow> byte list" where
  "WriteRootCompound root = 10 # writeMUTF8 [] @ writeCompoundPayload root"

text \<open>The one-tag writers the chunk encoder uses.\<close>

definition writeTagByte :: "byte list \<Rightarrow> byte \<Rightarrow> byte list" where
  "writeTagByte name v = writeNamedHeader 1 name @ [v]"

definition writeTagInt :: "byte list \<Rightarrow> i32 \<Rightarrow> byte list" where
  "writeTagInt name v = writeNamedHeader 3 name @ be_put 4 v"

definition writeTagString :: "byte list \<Rightarrow> byte list \<Rightarrow> byte list" where
  "writeTagString name v = writeNamedHeader 8 name @ writeMUTF8 v"

definition writeListHeader :: "byte list \<Rightarrow> byte \<Rightarrow> nat \<Rightarrow> byte list" where
  "writeListHeader name elem n = writeNamedHeader 9 name @ elem # put_count n"

definition writeTagLongArray :: "byte list \<Rightarrow> i64 list \<Rightarrow> byte list" where
  "writeTagLongArray name vs = writeNamedHeader 12 name @ put_count (length vs) @ concat (map (be_put 8) vs)"

section \<open>Reading\<close>

definition read_word :: "nat \<Rightarrow> 'a::len word nbt_reader" where
  "read_word n bs = then_read id (io_full n bs) (\<lambda>buf rest. Inr (be_get buf, rest))"

definition readMUTF8 :: "byte list nbt_reader" where
  "readMUTF8 bs =
     then_read (Within ''reading string length'') (read_word 2 bs) (\<lambda>len rest.
       if (len :: 16 word) = 0 then Inr ([], rest)
       else then_read (Within ''reading string body'') (io_full (unat len) rest) (\<lambda>b rest'. Inr (b, rest')))"

text \<open>A length prefix: an \<open>int32\<close>, refused when negative.\<close>

definition read_count :: "string \<Rightarrow> nat nbt_reader" where
  "read_count ctx bs =
     then_read (Within ctx) (read_word 4 bs) (\<lambda>n rest.
       if sint (n :: i32) < 0 then Inl (NegativeCount (sint n)) else Inr (nat (sint n), rest))"

fun read_words :: "nat \<Rightarrow> nat \<Rightarrow> nat \<Rightarrow> 'a::len word list nbt_reader" where
  "read_words w i 0 bs = Inr ([], bs)"
| "read_words w i (Suc n) bs =
     then_read (Element i) (read_word w bs) (\<lambda>v rest.
       then_read id (read_words w (Suc i) n rest) (\<lambda>vs rest'. Inr (v # vs, rest')))"

text \<open>Storing an entry in a compound: a later entry of the same name replaces an earlier one.\<close>

fun put_entry :: "byte list \<Rightarrow> tag \<Rightarrow> (byte list \<times> tag) list \<Rightarrow> (byte list \<times> tag) list" where
  "put_entry name t [] = [(name, t)]"
| "put_entry name t ((k, u) # es) =
     (if name < k then (name, t) # (k, u) # es
      else if name = k then (name, t) # es
      else (k, u) # put_entry name t es)"

function (sequential) readPayload :: "nat \<Rightarrow> byte \<Rightarrow> tag nbt_reader"
  and read_elems :: "nat \<Rightarrow> byte \<Rightarrow> nat \<Rightarrow> nat \<Rightarrow> tag list nbt_reader"
  and read_entries :: "nat \<Rightarrow> (byte list \<times> tag) list \<Rightarrow> (byte list \<times> tag) list nbt_reader"
  and readNamed :: "nat \<Rightarrow> (byte list \<times> tag) nbt_reader" where
  "readPayload 0 typ bs = Inl OutOfFuel"
| "readPayload (Suc f) typ bs =
     (if typ = 1 then then_read (Within ''TAG_Byte'') (read_word 1 bs) (\<lambda>v rest. Inr (TagByte v, rest))
      else if typ = 2 then then_read (Within ''TAG_Short'') (read_word 2 bs) (\<lambda>v rest. Inr (TagShort v, rest))
      else if typ = 3 then then_read (Within ''TAG_Int'') (read_word 4 bs) (\<lambda>v rest. Inr (TagInt v, rest))
      else if typ = 4 then then_read (Within ''TAG_Long'') (read_word 8 bs) (\<lambda>v rest. Inr (TagLong v, rest))
      else if typ = 5 then then_read (Within ''TAG_Float'') (read_word 4 bs) (\<lambda>v rest. Inr (TagFloat v, rest))
      else if typ = 6 then then_read (Within ''TAG_Double'') (read_word 8 bs) (\<lambda>v rest. Inr (TagDouble v, rest))
      else if typ = 7 then
        then_read id (read_count ''TAG_Byte_Array length'' bs) (\<lambda>n rest.
          then_read (Within ''TAG_Byte_Array data'') (io_full n rest) (\<lambda>b rest'. Inr (TagByteArr b, rest')))
      else if typ = 8 then then_read (Within ''TAG_String'') (readMUTF8 bs) (\<lambda>s rest. Inr (TagString s, rest))
      else if typ = 9 then
        then_read (Within ''TAG_List element type'') (read_word 1 bs) (\<lambda>elem rest.
          then_read id (read_count ''TAG_List length'' rest) (\<lambda>n rest'.
            then_read id (read_elems f elem 0 n rest') (\<lambda>ts rest''. Inr (TagList elem ts, rest''))))
      else if typ = 10 then then_read id (read_entries f [] bs) (\<lambda>es rest. Inr (TagCompound es, rest))
      else if typ = 11 then
        then_read id (read_count ''TAG_Int_Array length'' bs) (\<lambda>n rest.
          then_read (Within ''TAG_Int_Array'') (read_words 4 0 n rest) (\<lambda>vs rest'. Inr (TagIntArr vs, rest')))
      else if typ = 12 then
        then_read id (read_count ''TAG_Long_Array length'' bs) (\<lambda>n rest.
          then_read (Within ''TAG_Long_Array'') (read_words 8 0 n rest) (\<lambda>vs rest'. Inr (TagLongArr vs, rest')))
      else Inl (UnknownTag typ))"
| "read_elems f elem i 0 bs = Inr ([], bs)"
| "read_elems f elem i (Suc n) bs =
     then_read (Element i) (readPayload f elem bs) (\<lambda>t rest.
       then_read id (read_elems f elem (Suc i) n rest) (\<lambda>ts rest'. Inr (t # ts, rest')))"
| "read_entries 0 es bs = Inl OutOfFuel"
| "read_entries (Suc f) es bs =
     then_read (Within ''TAG_Compound entry'') (readNamed f bs) (\<lambda>(name, t) rest.
       if tag_type t = 0 then Inr (es, rest) else read_entries f (put_entry name t es) rest)"
| "readNamed f bs =
     then_read (Within ''reading tag type'') (read_word 1 bs) (\<lambda>typ rest.
       if typ = 0 then Inr (([], TagEnd), rest)
       else then_read (Within ''reading tag name'') (readMUTF8 rest) (\<lambda>name rest'.
         then_read id (readPayload f typ rest') (\<lambda>t rest''. Inr ((name, t), rest''))))"
  by pat_completeness auto
termination
  by (relation "measures [\<lambda>x. case x of
        Inl (Inl (f, _)) \<Rightarrow> f | Inl (Inr (f, _)) \<Rightarrow> f | Inr (Inl (f, _)) \<Rightarrow> f | Inr (Inr (f, _)) \<Rightarrow> f,
      \<lambda>x. case x of
        Inl (Inl _) \<Rightarrow> 0 | Inl (Inr (_, _, _, n, _)) \<Rightarrow> Suc n | Inr (Inl _) \<Rightarrow> 0 | Inr (Inr _) \<Rightarrow> 1]") auto

definition ReadRootCompound :: "byte list \<Rightarrow> nbt_error + (byte list \<times> tag) list" where
  "ReadRootCompound bs =
     (case readNamed (2 * length bs + 2) bs of
        Inl err \<Rightarrow> Inl err
      | Inr ((name, t), rest) \<Rightarrow>
          (case t of TagCompound es \<Rightarrow> Inr es | _ \<Rightarrow> Inl (NotCompound (tag_type t))))"

section \<open>Reading back what was written\<close>

lemma then_read_simps [simp]:
  "then_read wrap (Inl err) f = Inl (wrap err)"
  "then_read wrap (Inr (a, rest)) f = f a rest"
  by (simp_all add: then_read_def)

lemma io_full_append: "n = length xs \<Longrightarrow> io_full n (xs @ ys) = Inr (xs, ys)"
  by (simp add: io_full_def read_full_append)

lemma read_word_put: "LENGTH('a::len) \<le> 8 * n \<Longrightarrow> read_word n (be_put n w @ rest) = Inr (w :: 'a word, rest)"
  by (simp add: read_word_def io_full_append be_get_put)

lemma read_byte: "read_word (Suc 0) (v # rest) = Inr (v :: byte, rest)"
  using read_word_put [of 1 v rest] by simp

lemma readMUTF8_write:
  assumes "length s < 65536"
  shows "readMUTF8 (writeMUTF8 s @ rest) = Inr (s, rest)"
proof -
  have u: "unat (word_of_nat (length s) :: 16 word) = length s" using assms by (simp add: unat_of_nat take_bit_nat_eq_self)
  show ?thesis
  proof (cases "s = []")
    case True
    then show ?thesis using read_word_put [of 2 "0 :: 16 word" rest] by (simp add: readMUTF8_def writeMUTF8_def)
  next
    case False
    then have "(word_of_nat (length s) :: 16 word) \<noteq> 0" using u by (metis length_0_conv unat_0)
    then show ?thesis
      using read_word_put [of 2 "word_of_nat (length s) :: 16 word" "s @ rest"] u
      by (simp add: readMUTF8_def writeMUTF8_def io_full_append)
  qed
qed

lemma read_count_put: "n < 2 ^ 31 \<Longrightarrow> read_count ctx (put_count n @ rest) = Inr (n, rest)"
  using read_word_put [of 4 "word_of_nat n :: i32" rest] sint_word_of_nat [of n] by (simp add: read_count_def put_count_def)

lemma read_words_put:
  "LENGTH('a::len) \<le> 8 * w \<Longrightarrow> read_words w i (length vs) (concat (map (be_put w) vs) @ rest) = Inr (vs :: 'a word list, rest)"
  by (induction vs arbitrary: i) (simp_all add: read_word_put)

text \<open>The trees the format can carry: names and strings below 64 KiB, lengths below \<open>2 ^ 31\<close>, list
  elements of the list's element type, and the entries of a compound in key order.\<close>

fun tag_wf :: "tag \<Rightarrow> bool" and elems_wf :: "byte \<Rightarrow> tag list \<Rightarrow> bool" and entries_wf :: "(byte list \<times> tag) list \<Rightarrow> bool" where
  "tag_wf (TagByteArr bs) = (length bs < 2 ^ 31)"
| "tag_wf (TagString s) = (length s < 65536)"
| "tag_wf (TagList elem ts) = (length ts < 2 ^ 31 \<and> elems_wf elem ts)"
| "tag_wf (TagCompound es) = (entries_wf es \<and> sorted_wrt (<) (map fst es))"
| "tag_wf (TagIntArr vs) = (length vs < 2 ^ 31)"
| "tag_wf (TagLongArr vs) = (length vs < 2 ^ 31)"
| "tag_wf TagEnd = False"
| "tag_wf _ = True"
| "elems_wf elem [] = True"
| "elems_wf elem (t # ts) = (tag_type t = elem \<and> tag_wf t \<and> elems_wf elem ts)"
| "entries_wf [] = True"
| "entries_wf ((key, entry) # es) = (length key < 65536 \<and> tag_wf entry \<and> entries_wf es)"

lemma put_entry_last: "\<forall>k \<in> fst ` set es. k < name \<Longrightarrow> put_entry name t es = es @ [(name, t)]"
  by (induction es) auto

lemma tag_type_wf: "tag_wf t \<Longrightarrow> tag_type t \<noteq> 0"
  by (cases t) simp_all

lemma readNamed_write:
  assumes "length key < 65536" "tag_type t \<noteq> 0"
  shows "readNamed f (writeNamedHeader (tag_type t) key @ payload) =
    then_read id (readPayload f (tag_type t) payload) (\<lambda>t' rest. Inr ((key, t'), rest))"
  using assms by (simp add: writeNamedHeader_def read_byte readMUTF8_write)

lemma enough_fuel: "(numeral k :: nat) \<le> f \<Longrightarrow> \<exists>g. f = Suc g"
  by (cases f) simp_all

text \<open>What the reader makes of a tree: the entries of every compound in key order, a later entry of the
  same name replacing an earlier one. \<open>tag_fits\<close> are the trees the lengths of the format can carry.\<close>

fun canonical :: "tag \<Rightarrow> tag" and canonical_list :: "tag list \<Rightarrow> tag list"
  and canonical_into :: "(byte list \<times> tag) list \<Rightarrow> (byte list \<times> tag) list \<Rightarrow> (byte list \<times> tag) list" where
  "canonical (TagList elem ts) = TagList elem (canonical_list ts)"
| "canonical (TagCompound es) = TagCompound (canonical_into [] es)"
| "canonical t = t"
| "canonical_list [] = []"
| "canonical_list (t # ts) = canonical t # canonical_list ts"
| "canonical_into acc [] = acc"
| "canonical_into acc ((key, entry) # es) = canonical_into (put_entry key (canonical entry) acc) es"

fun tag_fits :: "tag \<Rightarrow> bool" and elems_fit :: "byte \<Rightarrow> tag list \<Rightarrow> bool" and entries_fit :: "(byte list \<times> tag) list \<Rightarrow> bool" where
  "tag_fits (TagByteArr bs) = (length bs < 2 ^ 31)"
| "tag_fits (TagString s) = (length s < 65536)"
| "tag_fits (TagList elem ts) = (length ts < 2 ^ 31 \<and> elems_fit elem ts)"
| "tag_fits (TagCompound es) = entries_fit es"
| "tag_fits (TagIntArr vs) = (length vs < 2 ^ 31)"
| "tag_fits (TagLongArr vs) = (length vs < 2 ^ 31)"
| "tag_fits TagEnd = False"
| "tag_fits _ = True"
| "elems_fit elem [] = True"
| "elems_fit elem (t # ts) = (tag_type t = elem \<and> tag_fits t \<and> elems_fit elem ts)"
| "entries_fit [] = True"
| "entries_fit ((key, entry) # es) = (length key < 65536 \<and> tag_fits entry \<and> entries_fit es)"

lemma tag_type_fits: "tag_fits t \<Longrightarrow> tag_type t \<noteq> 0"
  by (cases t) simp_all

lemma tag_type_canonical [simp]: "tag_type (canonical t) = tag_type t"
  by (cases t) simp_all

lemma read_write:
  "tag_fits t \<Longrightarrow> 2 * length (writePayload t) + 2 \<le> f \<Longrightarrow>
    readPayload f (tag_type t) (writePayload t @ rest) = Inr (canonical t, rest)"
  "elems_fit elem ts \<Longrightarrow> 2 * length (write_elems ts) + 2 \<le> f \<Longrightarrow>
    read_elems f elem i (length ts) (write_elems ts @ rest) = Inr (canonical_list ts, rest)"
  "entries_fit es \<Longrightarrow> 2 * length (writeCompoundPayload es) + 1 \<le> f \<Longrightarrow>
    read_entries f acc (writeCompoundPayload es @ rest) = Inr (canonical_into acc es, rest)"
proof (induction t and ts and es arbitrary: f rest and f rest elem i and f rest acc
    rule: writePayload_write_elems_writeCompoundPayload.induct)
  case (17 key entry es)
  then obtain g where f: "f = Suc g" by (cases f) auto
  have ty: "tag_type entry \<noteq> 0" using 17 tag_type_fits by simp
  let ?rest = "writeCompoundPayload es @ rest"
  have len: "length (writeCompoundPayload ((key, entry) # es)) = 3 + length key + length (writePayload entry) + length (writeCompoundPayload es)"
    using ty by (simp add: writeNamedHeader_def writeMUTF8_def)
  have "readPayload g (tag_type entry) (writePayload entry @ ?rest) = Inr (canonical entry, ?rest)"
    using 17 ty len f by (intro "17.IH"(2)) simp_all
  then have "readNamed g (writeNamedHeader (tag_type entry) key @ writePayload entry @ ?rest) = Inr ((key, canonical entry), ?rest)"
    using readNamed_write [OF _ ty, of key g "writePayload entry @ ?rest"] 17 by simp
  moreover have "read_entries g (put_entry key (canonical entry) acc) ?rest = Inr (canonical_into (put_entry key (canonical entry) acc) es, rest)"
    using 17 ty len f by (intro "17.IH"(3)) simp_all
  ultimately show ?case using ty f by simp
next
  case (16)
  then obtain g where f: "f = Suc g" by (cases f) auto
  then show ?case by (simp add: read_byte)
next
  case (15 t ts)
  then have "readPayload f elem (writePayload t @ write_elems ts @ rest) = Inr (canonical t, write_elems ts @ rest)"
    using "15.IH"(1) [of f "write_elems ts @ rest"] by auto
  then show ?case using 15 by simp
next
  case (10 elem ts)
  then obtain g where f: "f = Suc g" by (cases f) auto
  have "read_elems g elem 0 (length ts) (write_elems ts @ rest) = Inr (canonical_list ts, rest)" using 10 f by (simp add: put_count_def)
  then show ?case using 10 f by (simp add: read_byte read_count_put)
next
  case (11 es)
  then obtain g where f: "f = Suc g" by (cases f) auto
  have "read_entries g [] (writeCompoundPayload es @ rest) = Inr (canonical_into [] es, rest)" using 11 f by (intro "11.IH") auto
  then show ?case using f by simp
qed (auto simp: read_byte read_word_put read_count_put readMUTF8_write read_words_put io_full_append dest!: Suc_le_D enough_fuel)

lemma wf_canonical:
  "tag_wf t \<Longrightarrow> tag_fits t \<and> canonical t = t"
  "elems_wf elem ts \<Longrightarrow> elems_fit elem ts \<and> canonical_list ts = ts"
  "entries_wf es \<Longrightarrow> entries_fit es \<and>
    (\<forall>acc. sorted_wrt (<) (map fst es) \<longrightarrow> (\<forall>k \<in> fst ` set acc. \<forall>e \<in> fst ` set es. k < e) \<longrightarrow> canonical_into acc es = acc @ es)"
  by (induction t and elem ts and es rule: tag_wf_elems_wf_entries_wf.induct) (auto simp: put_entry_last ball_Un)

text \<open>Reading back a whole document, whatever the order of its entries.\<close>

lemma root_read_any:
  assumes "entries_fit root"
  shows "ReadRootCompound (WriteRootCompound root @ junk) = Inr (canonical_into [] root)"
proof -
  let ?t = "TagCompound root"
  have w: "WriteRootCompound root @ junk = writeNamedHeader (tag_type ?t) [] @ writePayload ?t @ junk"
    by (simp add: WriteRootCompound_def writeNamedHeader_def)
  have p: "readPayload (2 * length (WriteRootCompound root @ junk) + 2) (tag_type ?t) (writePayload ?t @ junk) = Inr (canonical ?t, junk)"
    by (rule read_write(1)) (use assms in \<open>simp_all add: WriteRootCompound_def\<close>)
  have "readNamed (2 * length (WriteRootCompound root @ junk) + 2) (WriteRootCompound root @ junk) = Inr (([], canonical ?t), junk)"
    unfolding w by (subst readNamed_write) (use p [unfolded w] in simp_all)
  then show ?thesis by (simp add: ReadRootCompound_def)
qed

section \<open>What any input gives\<close>

fun out_of_fuel :: "nbt_error \<Rightarrow> bool" where
  "out_of_fuel OutOfFuel = True"
| "out_of_fuel (Within _ err) = out_of_fuel err"
| "out_of_fuel (Element _ err) = out_of_fuel err"
| "out_of_fuel _ = False"

text \<open>The shape of a read: a harmless error, or a value with a rest that is \<open>k\<close> bytes shorter at least.\<close>

definition reads :: "nat \<Rightarrow> ('a \<Rightarrow> bool) \<Rightarrow> bool \<Rightarrow> byte list \<Rightarrow> nbt_error + 'a \<times> byte list \<Rightarrow> bool" where
  "reads k P enough bs r = (case r of Inl err \<Rightarrow> enough \<longrightarrow> \<not> out_of_fuel err | Inr (a, rest) \<Rightarrow> P a \<and> length rest + k \<le> length bs)"

lemma reads_simps [simp]:
  "reads k P enough bs (Inl err) = (enough \<longrightarrow> \<not> out_of_fuel err)"
  "reads k P enough bs (Inr (a, rest)) = (P a \<and> length rest + k \<le> length bs)"
  by (simp_all add: reads_def)

lemma reads_then:
  assumes "reads k P (enough \<and> room) bs r" "\<And>err. out_of_fuel (wrap err) = out_of_fuel err" "enough \<Longrightarrow> room"
    and "\<And>a rest. P a \<Longrightarrow> length rest + k \<le> length bs \<Longrightarrow> reads m Q enough bs (f a rest)"
  shows "reads m Q enough bs (then_read wrap r f)"
proof (cases r)
  case (Inl err)
  then show ?thesis using assms(1-3) by auto
next
  case (Inr ar)
  then show ?thesis using assms(1,4) by (cases ar) auto
qed

lemma reads_bind:
  assumes "reads k P True bs r" "\<And>err. out_of_fuel (wrap err) = out_of_fuel err"
    and "\<And>a rest. P a \<Longrightarrow> length rest + k \<le> length bs \<Longrightarrow> reads m Q enough bs (f a rest)"
  shows "reads m Q enough bs (then_read wrap r f)"
proof -
  have "reads k P (enough \<and> True) bs r" using assms(1) by (auto simp: reads_def split: sum.splits)
  from reads_then [OF this assms(2) _ assms(3)] show ?thesis by simp
qed

lemma reads_shift: "reads k P enough rest r \<Longrightarrow> length rest + j \<le> length bs \<Longrightarrow> m \<le> k + j \<Longrightarrow> reads m P enough bs r"
  by (auto simp: reads_def split: sum.splits)

lemma reads_within: "reads k P True rest r \<Longrightarrow> length rest + j \<le> length bs \<Longrightarrow> reads (k + j) P True bs r"
  by (rule reads_shift [OF _ _ order_refl])

lemma reads_full: "reads n (\<lambda>b. length b = n) True bs (io_full n bs)"
  by (simp add: io_full_def read_full_def)

lemma reads_word: "reads n (\<lambda>_. True) True bs (read_word n bs)"
  unfolding read_word_def by (rule reads_bind [OF reads_full]) auto

lemma reads_MUTF8: "reads 2 (\<lambda>s. length s < 65536) True bs (readMUTF8 bs)"
  unfolding readMUTF8_def
proof (rule reads_bind [OF reads_word])
  fix len :: "16 word" and rest :: "byte list"
  assume l: "length rest + 2 \<le> length bs"
  have u: "unat len < 65536" using unsigned_less [of len, where ?'a = nat] by simp
  have "reads 2 (\<lambda>s. length s < 65536) True bs (then_read (Within ''reading string body'') (io_full (unat len) rest) (\<lambda>b rest'. Inr (b, rest')))"
    by (rule reads_bind [OF reads_within [OF reads_full l]]) (use u in auto)
  then show "reads 2 (\<lambda>s. length s < 65536) True bs
      (if len = 0 then Inr ([], rest) else then_read (Within ''reading string body'') (io_full (unat len) rest) (\<lambda>b rest'. Inr (b, rest')))"
    using l by simp
qed simp

lemma reads_count: "reads 4 (\<lambda>n. n < 2 ^ 31) True bs (read_count ctx bs)"
  unfolding read_count_def
proof (rule reads_bind [OF reads_word])
  fix n :: i32 and rest :: "byte list"
  assume "length rest + 4 \<le> length bs"
  then show "reads 4 (\<lambda>n. n < 2 ^ 31) True bs (if sint n < 0 then Inl (NegativeCount (sint n)) else Inr (nat (sint n), rest))"
    using sint_i32 [of n] by auto
qed simp

lemma reads_words: "reads 0 (\<lambda>vs. length vs = n) True bs (read_words w i n bs)"
proof (induction n arbitrary: i bs)
  case (Suc n)
  show ?case
    unfolding read_words.simps
  proof (rule reads_bind [OF reads_word])
    fix v :: "'a word" and rest :: "byte list"
    assume l: "length rest + w \<le> length bs"
    show "reads 0 (\<lambda>vs. length vs = Suc n) True bs (then_read id (read_words w (Suc i) n rest) (\<lambda>vs rest'. Inr (v # vs, rest')))"
      by (rule reads_bind [OF reads_within [OF Suc.IH l]]) auto
  qed simp
qed simp

lemma reads_leaf:
  assumes "reads k P True bs r" "\<And>err. out_of_fuel (wrap err) = out_of_fuel err" "\<And>a. P a \<Longrightarrow> Q (C a)"
  shows "reads 0 Q enough bs (then_read wrap r (\<lambda>a rest. Inr (C a, rest)))"
  by (rule reads_bind [OF assms(1,2)]) (use assms(3) in auto)

lemma reads_counted:
  fixes r :: "nat \<Rightarrow> 'b list nbt_reader"
  assumes "\<And>(n :: nat) (rest :: byte list). n < 2 ^ 31 \<Longrightarrow> length rest + 4 \<le> length bs \<Longrightarrow> reads 0 (\<lambda>vs. length vs = n) True rest (r n rest)"
    and "\<And>err. out_of_fuel (wrap err) = out_of_fuel err" "\<And>vs. length vs < 2 ^ 31 \<Longrightarrow> Q (C vs)"
  shows "reads 0 Q enough bs (then_read id (read_count ctx bs) (\<lambda>n rest. then_read wrap (r n rest) (\<lambda>vs rest'. Inr (C vs, rest'))))"
proof (rule reads_bind [OF reads_count])
  fix n :: nat and rest :: "byte list"
  assume n: "n < 2 ^ 31" and l: "length rest + 4 \<le> length bs"
  show "reads 0 Q enough bs (then_read wrap (r n rest) (\<lambda>vs rest'. Inr (C vs, rest')))"
    by (rule reads_shift [OF reads_leaf [OF assms(1) [OF n l] assms(2)] l]) (use assms(3) n in auto)
qed simp

lemma reads_full_weak: "reads 0 (\<lambda>b. length b = n) True bs (io_full n bs)"
  by (rule reads_shift [OF reads_full, where j = 0]) simp_all

lemma fst_put_entry: "fst ` set (put_entry name t es) = insert name (fst ` set es)"
  by (induction name t es rule: put_entry.induct) auto

lemma put_entry_sorted: "sorted_wrt (<) (map fst es) \<Longrightarrow> sorted_wrt (<) (map fst (put_entry name t es))"
proof (induction name t es rule: put_entry.induct)
  case (2 name t k u es)
  have s: "\<forall>x \<in> fst ` set es. k < x" "sorted_wrt (<) (map fst es)" using "2.prems" by auto
  show ?case
  proof (cases "name < k \<or> name = k")
    case True
    then show ?thesis using s by (auto dest: less_trans)
  next
    case False
    then have "k < name" by auto
    moreover have "\<forall>x \<in> fst ` set (put_entry name t es). k < x" using s(1) \<open>k < name\<close> unfolding fst_put_entry by auto
    ultimately show ?thesis using "2.IH" False s by auto
  qed
qed simp

lemma put_entry_wf: "entries_wf es \<Longrightarrow> length name < 65536 \<Longrightarrow> tag_wf t \<Longrightarrow> entries_wf (put_entry name t es)"
  by (induction name t es rule: put_entry.induct) auto

text \<open>With two units of fuel per byte the readers never run out, and what they return is a tree the
  writer can write.\<close>

lemma reads_tree:
  "reads 0 (\<lambda>t. tag_wf t \<and> tag_type t = typ) (2 * length bs + 2 \<le> f) bs (readPayload f typ bs)"
  "reads 0 (\<lambda>ts. elems_wf elem ts \<and> length ts = n) (2 * length bs + 2 \<le> f) bs (read_elems f elem i n bs)"
  "entries_wf acc \<Longrightarrow> sorted_wrt (<) (map fst acc) \<Longrightarrow>
    reads 0 (\<lambda>es. entries_wf es \<and> sorted_wrt (<) (map fst es)) (2 * length bs + 1 \<le> f) bs (read_entries f acc bs)"
  "reads 1 (\<lambda>(name, t). tag_type t = 0 \<or> tag_wf t \<and> length name < 65536) (2 * length bs \<le> f) bs (readNamed f bs)"
proof (induction f "typ" bs and f elem i n bs and f acc bs and f bs rule: readPayload_read_elems_read_entries_readNamed.induct)
  case (2 f "typ" bs)
  have list: "reads 0 (\<lambda>t. tag_wf t \<and> tag_type t = 9) (2 * length bs + 2 \<le> Suc f) bs
      (then_read (Within ''TAG_List element type'') (read_word 1 bs) (\<lambda>elem rest.
        then_read id (read_count ''TAG_List length'' rest) (\<lambda>n rest'.
          then_read id (read_elems f elem 0 n rest') (\<lambda>ts rest''. Inr (TagList elem ts, rest'')))))" if ty: "typ = 9"
  proof (rule reads_bind [OF reads_word])
    fix elem :: byte and rest :: "byte list"
    assume l: "length rest + 1 \<le> length bs"
    show "reads 0 (\<lambda>t. tag_wf t \<and> tag_type t = 9) (2 * length bs + 2 \<le> Suc f) bs
        (then_read id (read_count ''TAG_List length'' rest) (\<lambda>n rest'.
          then_read id (read_elems f elem 0 n rest') (\<lambda>ts rest''. Inr (TagList elem ts, rest''))))"
    proof (rule reads_bind [OF reads_within [OF reads_count l]])
      fix n :: nat and rest' :: "byte list"
      assume n: "n < 2 ^ 31" and l': "length rest' + (4 + 1) \<le> length bs"
      have "reads 0 (\<lambda>ts. elems_wf elem ts \<and> length ts = n) (2 * length rest' + 2 \<le> f) rest' (read_elems f elem 0 n rest')"
        using "2.IH"(1) ty by simp
      then have "reads 0 (\<lambda>ts. elems_wf elem ts \<and> length ts = n) (2 * length bs + 2 \<le> Suc f) bs (read_elems f elem 0 n rest')"
        using l' by (auto simp: reads_def split: sum.splits)
      then show "reads 0 (\<lambda>t. tag_wf t \<and> tag_type t = 9) (2 * length bs + 2 \<le> Suc f) bs
          (then_read id (read_elems f elem 0 n rest') (\<lambda>ts rest''. Inr (TagList elem ts, rest'')))"
        using n by (auto simp: reads_def split: sum.splits)
    qed simp
  qed simp
  have compound: "reads 0 (\<lambda>t. tag_wf t \<and> tag_type t = 10) (2 * length bs + 2 \<le> Suc f) bs
      (then_read id (read_entries f [] bs) (\<lambda>es rest. Inr (TagCompound es, rest)))" if ty: "typ = 10"
  proof -
    have "reads 0 (\<lambda>es. entries_wf es \<and> sorted_wrt (<) (map fst es)) (2 * length bs + 1 \<le> f) bs (read_entries f [] bs)"
      using "2.IH"(2) ty by simp
    then show ?thesis by (auto simp: reads_def split: sum.splits)
  qed
  show ?case
    unfolding readPayload.simps
    using list compound
    by (auto intro: reads_leaf [OF reads_word] reads_leaf [OF reads_MUTF8] reads_counted [OF reads_full_weak] reads_counted [OF reads_words])
next
  case (4 f elem i n bs)
  show ?case
    unfolding read_elems.simps
  proof (rule reads_then [where k = 0])
    show "reads 0 (\<lambda>t. tag_wf t \<and> tag_type t = elem) ((2 * length bs + 2 \<le> f) \<and> True) bs (readPayload f elem bs)"
      using "4.IH"(1) by simp
    fix t :: tag and rest :: "byte list"
    assume t: "tag_wf t \<and> tag_type t = elem" and l: "length rest + 0 \<le> length bs"
    have "reads 0 (\<lambda>ts. elems_wf elem ts \<and> length ts = n) (2 * length rest + 2 \<le> f) rest (read_elems f elem (Suc i) n rest)"
      using "4.IH"(2) by blast
    then show "reads 0 (\<lambda>ts. elems_wf elem ts \<and> length ts = Suc n) (2 * length bs + 2 \<le> f) bs
        (then_read id (read_elems f elem (Suc i) n rest) (\<lambda>ts rest'. Inr (t # ts, rest')))"
      using l t by (auto simp: reads_def split: sum.splits)
  qed simp_all
next
  case (6 f es bs)
  show ?case
    unfolding read_entries.simps
  proof (rule reads_then)
    show "reads 1 (\<lambda>(name, t). tag_type t = 0 \<or> tag_wf t \<and> length name < 65536) ((2 * length bs + 1 \<le> Suc f) \<and> True) bs (readNamed f bs)"
      using "6.IH"(1) by simp
    fix nt :: "byte list \<times> tag" and rest :: "byte list"
    assume nt: "case nt of (name, t) \<Rightarrow> tag_type t = 0 \<or> tag_wf t \<and> length name < 65536" and l: "length rest + 1 \<le> length bs"
    obtain name t where eq: "nt = (name, t)" by force
    show "reads 0 (\<lambda>es. entries_wf es \<and> sorted_wrt (<) (map fst es)) (2 * length bs + 1 \<le> Suc f) bs
        ((case nt of (name, t) \<Rightarrow> \<lambda>rest. if tag_type t = 0 then Inr (es, rest) else read_entries f (put_entry name t es) rest) rest)"
    proof (cases "tag_type t = 0")
      case False
      then have w: "entries_wf (put_entry name t es)" "sorted_wrt (<) (map fst (put_entry name t es))"
        using nt eq "6.prems" by (auto intro: put_entry_wf put_entry_sorted)
      have "reads 0 (\<lambda>es. entries_wf es \<and> sorted_wrt (<) (map fst es)) (2 * length rest + 1 \<le> f) rest (read_entries f (put_entry name t es) rest)"
        using "6.IH"(2) w False by blast
      then show ?thesis using l False eq by (auto simp: reads_def split: sum.splits)
    qed (use 6 l eq in auto)
  qed simp_all
next
  case (7 f bs)
  show ?case
    unfolding readNamed.simps
  proof (rule reads_bind [OF reads_word])
    fix "typ" :: byte and rest :: "byte list"
    assume l: "length rest + 1 \<le> length bs"
    show "reads 1 (\<lambda>(name, t). tag_type t = 0 \<or> tag_wf t \<and> length name < 65536) (2 * length bs \<le> f) bs
        (if typ = 0 then Inr (([], TagEnd), rest)
         else then_read (Within ''reading tag name'') (readMUTF8 rest) (\<lambda>name rest'.
           then_read id (readPayload f typ rest') (\<lambda>t rest''. Inr ((name, t), rest''))))"
    proof (cases "typ = 0")
      case False
      have "reads 1 (\<lambda>(name, t). tag_type t = 0 \<or> tag_wf t \<and> length name < 65536) (2 * length bs \<le> f) bs
        (then_read (Within ''reading tag name'') (readMUTF8 rest) (\<lambda>name rest'.
           then_read id (readPayload f typ rest') (\<lambda>t rest''. Inr ((name, t), rest''))))"
      proof (rule reads_bind [OF reads_within [OF reads_MUTF8 l]])
        fix name rest' :: "byte list"
        assume n: "length name < 65536" and l': "length rest' + (2 + 1) \<le> length bs"
        have "reads 0 (\<lambda>t. tag_wf t \<and> tag_type t = typ) (2 * length rest' + 2 \<le> f) rest' (readPayload f typ rest')"
          using "7.IH" False by blast
        then show "reads 1 (\<lambda>(name, t). tag_type t = 0 \<or> tag_wf t \<and> length name < 65536) (2 * length bs \<le> f) bs
            (then_read id (readPayload f typ rest') (\<lambda>t rest''. Inr ((name, t), rest'')))"
          using l' n by (auto simp: reads_def split: sum.splits)
      qed simp
      then show ?thesis using False by simp
    qed (use l in auto)
  qed simp
qed simp_all

lemma root_read_back:
  assumes "entries_wf root" "sorted_wrt (<) (map fst root)"
  shows "ReadRootCompound (WriteRootCompound root @ junk) = Inr root"
  using root_read_any [of root junk] wf_canonical(3) [OF assms(1)] assms(2) by simp

text \<open>C20: a saved tree is read back unchanged, whatever follows it in the file: every compound whose
  names and strings are below 64 KiB, whose lengths are below \<open>2 ^ 31\<close> and whose lists are of one
  type, at any depth.\<close>

theorem nbt_root_roundtrip:
  assumes "entries_wf root" "sorted_wrt (<) (map fst root)"
  shows "ReadRootCompound (WriteRootCompound root @ junk) = Inr root"
  by (rule root_read_back [OF assms])

theorem nbt_root_roundtrip_witness:
  "ReadRootCompound (WriteRootCompound
      [([68, 97], TagInt (-5)), ([76], TagList 10 [TagCompound [([97], TagString [98])], TagCompound []]), ([122], TagLongArr [1, 2])] @ [7, 7]) =
    Inr [([68, 97], TagInt (-5)), ([76], TagList 10 [TagCompound [([97], TagString [98])], TagCompound []]), ([122], TagLongArr [1, 2])]"
  by (rule nbt_root_roundtrip) simp_all

text \<open>C21: the reader returns on every input: its fuel is enough (the error of a missing unit never
  comes out), and the tree of an accepted input is one that the writer and the reader reproduce.\<close>

theorem nbt_reader_total:
  "case ReadRootCompound bs of
     Inl err \<Rightarrow> \<not> out_of_fuel err
   | Inr root \<Rightarrow> entries_wf root \<and> sorted_wrt (<) (map fst root) \<and> ReadRootCompound (WriteRootCompound root) = Inr root"
proof -
  let ?r = "readNamed (2 * length bs + 2) bs"
  have r: "reads 1 (\<lambda>(name, t). tag_type t = 0 \<or> tag_wf t \<and> length name < 65536) (2 * length bs \<le> 2 * length bs + 2) bs ?r"
    by (rule reads_tree(4))
  show ?thesis
  proof (cases ?r)
    case (Inl err)
    then show ?thesis using r by (simp add: ReadRootCompound_def)
  next
    case (Inr ar)
    then obtain name t rest where eq: "?r = Inr ((name, t), rest)" by (cases ar) force
    show ?thesis
    proof (cases "\<exists>es. t = TagCompound es")
      case True
      then obtain es where "t = TagCompound es" by blast
      then show ?thesis using r eq root_read_back [of es "[]"] by (simp add: ReadRootCompound_def)
    next
      case False
      then show ?thesis using eq by (cases t) (simp_all add: ReadRootCompound_def)
    qed
  qed
qed

end
