(* ===== verification/Physics.thy ===== *)
theory Physics
  imports Worlds
begin

text \<open>
  Scheduled block updates and the classification of blocks (\<open>core/world/block_physics.go\<close>, with
  \<open>isRedstonePowerConductor\<close> of \<open>vanilla_interaction.go\<close>). The engine keeps one pending update
  per position. Its Go map is an association list in the order of iteration; world ages and
  delays, \<open>int64\<close> counters of ticks, are integers.
\<close>

type_synonym cell = "int \<times> int \<times> int"

section \<open>Scheduled updates\<close>

datatype blockUpdateKind =
    UpdateFall | UpdateFluid | UpdateLeafDecay | UpdateFire | UpdateIce | UpdateButton
  | UpdateComposter | UpdatePressurePlate | UpdateSculkSensor | UpdateObserver | UpdateCoralDeath

record PendingBlockUpdate =
  UpdateAt :: cell
  UpdateKind :: blockUpdateKind
  DueTick :: int

type_synonym pending_updates = "(cell \<times> PendingBlockUpdate) list"

definition schedule :: "cell \<Rightarrow> blockUpdateKind \<Rightarrow> int \<Rightarrow> int \<Rightarrow> pending_updates \<Rightarrow> pending_updates" where
  "schedule p kind worldAge delayTicks pending =
     (let due = worldAge + delayTicks
      in case map_of pending p of
           Some existing \<Rightarrow>
             if due < DueTick existing
             then AList.update p \<lparr>UpdateAt = p, UpdateKind = kind, DueTick = due\<rparr> pending
             else pending
         | None \<Rightarrow> AList.update p \<lparr>UpdateAt = p, UpdateKind = kind, DueTick = due\<rparr> pending)"

definition ScheduleFall :: "cell \<Rightarrow> int \<Rightarrow> int \<Rightarrow> pending_updates \<Rightarrow> pending_updates" where
  "ScheduleFall p = schedule p UpdateFall"

definition ScheduleFluid :: "cell \<Rightarrow> int \<Rightarrow> int \<Rightarrow> pending_updates \<Rightarrow> pending_updates" where
  "ScheduleFluid p = schedule p UpdateFluid"

definition ScheduleLeafDecay :: "cell \<Rightarrow> int \<Rightarrow> int \<Rightarrow> pending_updates \<Rightarrow> pending_updates" where
  "ScheduleLeafDecay p = schedule p UpdateLeafDecay"

definition ScheduleFire :: "cell \<Rightarrow> int \<Rightarrow> int \<Rightarrow> pending_updates \<Rightarrow> pending_updates" where
  "ScheduleFire p = schedule p UpdateFire"

definition ScheduleIce :: "cell \<Rightarrow> int \<Rightarrow> int \<Rightarrow> pending_updates \<Rightarrow> pending_updates" where
  "ScheduleIce p = schedule p UpdateIce"

definition ScheduleButton :: "cell \<Rightarrow> int \<Rightarrow> int \<Rightarrow> pending_updates \<Rightarrow> pending_updates" where
  "ScheduleButton p = schedule p UpdateButton"

definition ScheduleComposter :: "cell \<Rightarrow> int \<Rightarrow> int \<Rightarrow> pending_updates \<Rightarrow> pending_updates" where
  "ScheduleComposter p = schedule p UpdateComposter"

definition SchedulePressurePlate :: "cell \<Rightarrow> int \<Rightarrow> int \<Rightarrow> pending_updates \<Rightarrow> pending_updates" where
  "SchedulePressurePlate p = schedule p UpdatePressurePlate"

definition ScheduleSculkSensor :: "cell \<Rightarrow> int \<Rightarrow> int \<Rightarrow> pending_updates \<Rightarrow> pending_updates" where
  "ScheduleSculkSensor p = schedule p UpdateSculkSensor"

definition ScheduleObserver :: "cell \<Rightarrow> int \<Rightarrow> int \<Rightarrow> pending_updates \<Rightarrow> pending_updates" where
  "ScheduleObserver p = schedule p UpdateObserver"

definition ScheduleCoralDeath :: "cell \<Rightarrow> int \<Rightarrow> int \<Rightarrow> pending_updates \<Rightarrow> pending_updates" where
  "ScheduleCoralDeath p = schedule p UpdateCoralDeath"

definition DrainDue :: "int \<Rightarrow> pending_updates \<Rightarrow> PendingBlockUpdate list \<times> pending_updates" where
  "DrainDue worldAge pending =
     (map snd (filter (\<lambda>(p, u). DueTick u \<le> worldAge) pending),
      filter (\<lambda>(p, u). \<not> DueTick u \<le> worldAge) pending)"

section \<open>Kinds of blocks\<close>

definition IsGravityBlock :: "string \<Rightarrow> bool" where
  "IsGravityBlock name \<longleftrightarrow>
     name \<in> {''minecraft:sand'', ''minecraft:red_sand'', ''minecraft:gravel'',
             ''minecraft:anvil'', ''minecraft:chipped_anvil'', ''minecraft:damaged_anvil'',
             ''minecraft:suspicious_sand'', ''minecraft:suspicious_gravel'',
             ''minecraft:pointed_dripstone'', ''minecraft:dragon_egg''} \<or>
     has_suffix name ''_concrete_powder''"

definition IsFluidBlock :: "string \<Rightarrow> bool" where
  "IsFluidBlock name \<longleftrightarrow> name = ''minecraft:water'' \<or> name = ''minecraft:lava''"

definition IsFluidPassable :: "string \<Rightarrow> bool" where
  "IsFluidPassable name \<longleftrightarrow>
     name \<in> {'''', ''minecraft:air'', ''minecraft:cave_air'', ''minecraft:void_air'',
             ''minecraft:water'', ''minecraft:lava'',
             ''minecraft:short_grass'', ''minecraft:grass'', ''minecraft:tall_grass'',
             ''minecraft:fern'', ''minecraft:large_fern'',
             ''minecraft:dandelion'', ''minecraft:poppy'', ''minecraft:blue_orchid'',
             ''minecraft:allium'', ''minecraft:azure_bluet'', ''minecraft:red_tulip'',
             ''minecraft:orange_tulip'', ''minecraft:white_tulip'', ''minecraft:pink_tulip'',
             ''minecraft:oxeye_daisy'', ''minecraft:cornflower'', ''minecraft:lily_of_the_valley'',
             ''minecraft:wheat'', ''minecraft:carrots'', ''minecraft:potatoes'',
             ''minecraft:beetroots'', ''minecraft:sugar_cane''}"

definition IsSolidLandingSurface :: "string \<Rightarrow> bool" where
  "IsSolidLandingSurface name =
     (if name = '''' \<or> name = ''minecraft:air'' \<or> name = ''minecraft:cave_air'' \<or> name = ''minecraft:void_air''
      then False
      else if IsFluidBlock name \<or> IsFluidPassable name then False
      else True)"

text \<open>\<open>FluidLevel\<close> is \<open>-1\<close> for a block that is no fluid.\<close>

definition FluidLevel :: "block \<Rightarrow> int" where
  "FluidLevel b =
     (if \<not> IsFluidBlock (ResourceLocation b) then - 1
      else let s = get_prop b ''level''
           in if s = [] then 0 else case Atoi s of None \<Rightarrow> 0 | Some v \<Rightarrow> v)"

definition MakeFluid :: "string \<Rightarrow> int \<Rightarrow> block" where
  "MakeFluid name level =
     \<lparr>Namespace = ''minecraft'', Name = trim_prefix name ''minecraft:'', Properties = [(''level'', Itoa level)]\<rparr>"

definition IsLeafBlock :: "string \<Rightarrow> bool" where
  "IsLeafBlock name \<longleftrightarrow> has_suffix name ''_leaves''"

definition IsLogBlock :: "string \<Rightarrow> bool" where
  "IsLogBlock name \<longleftrightarrow>
     has_suffix name ''_log'' \<or> has_suffix name ''_wood'' \<or> has_suffix name ''_stem'' \<or>
     has_suffix name ''_hyphae'' \<or> name = ''minecraft:mushroom_stem''"

definition IsFireBlock :: "string \<Rightarrow> bool" where
  "IsFireBlock name \<longleftrightarrow> name = ''minecraft:fire'' \<or> name = ''minecraft:soul_fire''"

definition FlammabilityScore :: "string \<Rightarrow> int" where
  "FlammabilityScore name =
     (if name = ''minecraft:tnt'' then 100
      else if name = ''minecraft:bookshelf'' then 30
      else if name = ''minecraft:hay_block'' then 60
      else if name = ''minecraft:target'' then 15
      else if has_suffix name ''_leaves'' then 30
      else if has_suffix name ''_planks'' \<or>
              has_suffix name ''_slab'' \<and> contains_str name ''wood'' \<or>
              has_suffix name ''_stairs'' \<and> contains_str name ''wood'' \<or>
              has_suffix name ''_fence'' \<or> has_suffix name ''_fence_gate'' \<or>
              has_suffix name ''_log'' \<or> has_suffix name ''_wood'' then 20
      else if has_suffix name ''_wool'' \<or> has_suffix name ''_carpet'' then 30
      else if contains_str name ''bamboo'' then 20
      else 0)"

definition IsFlammable :: "string \<Rightarrow> bool" where
  "IsFlammable name \<longleftrightarrow> FlammabilityScore name > 0"

definition IsNetherrack :: "string \<Rightarrow> bool" where
  "IsNetherrack name \<longleftrightarrow> name \<in> {''minecraft:netherrack'', ''minecraft:soul_sand'', ''minecraft:soul_soil''}"

definition IsIceBlock :: "string \<Rightarrow> bool" where
  "IsIceBlock name \<longleftrightarrow> name = ''minecraft:ice'' \<or> name = ''minecraft:frosted_ice''"

text \<open>The parts of redstone circuits.\<close>

definition IsRedstoneConductor :: "string \<Rightarrow> bool" where
  "IsRedstoneConductor name \<longleftrightarrow>
     name \<in> {''minecraft:redstone_wire'', ''minecraft:repeater'', ''minecraft:comparator'', ''minecraft:redstone_block''}"

definition IsRedstoneSource :: "string \<Rightarrow> bool" where
  "IsRedstoneSource name \<longleftrightarrow>
     has_suffix name ''_button'' \<or> has_suffix name ''_pressure_plate'' \<or>
     name \<in> {''minecraft:lever'', ''minecraft:redstone_torch'',
             ''minecraft:redstone_wall_torch'', ''minecraft:redstone_block'',
             ''minecraft:daylight_detector'', ''minecraft:inverted_daylight_detector'', ''minecraft:observer'',
             ''minecraft:detector_rail'', ''minecraft:target'', ''minecraft:lightning_rod'',
             ''minecraft:tripwire_hook'', ''minecraft:lectern''}"

definition IsRedstoneLoad :: "string \<Rightarrow> bool" where
  "IsRedstoneLoad name \<longleftrightarrow>
     name = ''minecraft:trapdoor'' \<or> has_suffix name ''_trapdoor'' \<or>
     has_suffix name ''_door'' \<or> has_suffix name ''_fence_gate'' \<or> has_suffix name ''_copper_bulb'' \<or>
     name \<in> {''minecraft:piston'', ''minecraft:sticky_piston'',
             ''minecraft:dispenser'', ''minecraft:dropper'',
             ''minecraft:crafter'',
             ''minecraft:note_block'', ''minecraft:redstone_lamp'',
             ''minecraft:tnt'',
             ''minecraft:powered_rail'', ''minecraft:activator_rail'',
             ''minecraft:hopper'', ''minecraft:bell''}"

definition isRedstonePowerConductor :: "block \<Rightarrow> bool" where
  "isRedstonePowerConductor b =
     (let name = ResourceLocation b
      in if IsRedstoneConductor name then True
         else if IsAir b \<or> IsFluidBlock name \<or> IsRedstoneSource name \<or> IsRedstoneLoad name \<or>
                 has_suffix name ''_slab'' \<or> has_suffix name ''_stairs'' \<or>
                 has_suffix name ''_fence'' \<or> has_suffix name ''_fence_gate'' \<or>
                 has_suffix name ''_wall'' \<or> has_suffix name ''_door'' \<or>
                 has_suffix name ''_trapdoor'' \<or> has_suffix name ''_button'' \<or>
                 has_suffix name ''_pressure_plate'' \<or> contains_str name ''torch'' \<or>
                 contains_str name ''rail'' \<or> has_suffix name ''_leaves'' \<or>
                 contains_str name ''glass'' then False
         else IsSolidLandingSurface name)"

section \<open>The scheduler keeps the earliest due tick\<close>

text \<open>The abstract scheduler: the due tick of every position that has one.\<close>

datatype sched_op = Sched cell blockUpdateKind int int | Drain int

fun sched_run :: "sched_op \<Rightarrow> pending_updates \<Rightarrow> PendingBlockUpdate list \<times> pending_updates" where
  "sched_run (Sched p kind age delay) pending = ([], schedule p kind age delay pending)"
| "sched_run (Drain age) pending = DrainDue age pending"

fun sched_spec :: "sched_op \<Rightarrow> (cell \<Rightarrow> int option) \<Rightarrow> (cell \<Rightarrow> int option) \<times> (cell \<Rightarrow> int option)" where
  "sched_spec (Sched p kind age delay) due =
     ((\<lambda>_. None), due(p := Some (case due p of None \<Rightarrow> age + delay | Some d \<Rightarrow> min d (age + delay))))"
| "sched_spec (Drain age) due =
     ((\<lambda>p. case due p of Some d \<Rightarrow> if d \<le> age then Some d else None | None \<Rightarrow> None),
      (\<lambda>p. case due p of Some d \<Rightarrow> if d \<le> age then None else Some d | None \<Rightarrow> None))"

definition due_of :: "pending_updates \<Rightarrow> cell \<Rightarrow> int option" where
  "due_of pending p = map_option DueTick (map_of pending p)"

definition fired_of :: "PendingBlockUpdate list \<Rightarrow> cell \<Rightarrow> int option" where
  "fired_of us p = map_of (map (\<lambda>u. (UpdateAt u, DueTick u)) us) p"

definition pending_ok :: "pending_updates \<Rightarrow> bool" where
  "pending_ok pending \<longleftrightarrow> distinct (map fst pending) \<and> list_all (\<lambda>(p, u). UpdateAt u = p) pending"

fun sched_trace :: "sched_op list \<Rightarrow> pending_updates \<Rightarrow> PendingBlockUpdate list list \<times> pending_updates" where
  "sched_trace [] pending = ([], pending)"
| "sched_trace (op # ops) pending =
     (let (fired, pending') = sched_run op pending; (rest, final) = sched_trace ops pending' in (fired # rest, final))"

fun spec_trace :: "sched_op list \<Rightarrow> (cell \<Rightarrow> int option) \<Rightarrow> (cell \<Rightarrow> int option) list \<times> (cell \<Rightarrow> int option)" where
  "spec_trace [] due = ([], due)"
| "spec_trace (op # ops) due =
     (let (fired, due') = sched_spec op due; (rest, final) = spec_trace ops due' in (fired # rest, final))"

lemma schedule_due: "due_of (schedule p kind age delay pending) =
    (due_of pending)(p := Some (case due_of pending p of None \<Rightarrow> age + delay | Some d \<Rightarrow> min d (age + delay)))"
  by (auto simp: due_of_def schedule_def Let_def update_conv' fun_eq_iff split: option.splits)

lemma update_mem: "list_all P xs \<Longrightarrow> P (k, v) \<Longrightarrow> list_all P (AList.update k v xs)"
  by (induction xs) auto

lemma schedule_ok: "pending_ok pending \<Longrightarrow> pending_ok (schedule p kind age delay pending)"
  by (auto simp: pending_ok_def schedule_def Let_def distinct_update intro: update_mem split: option.splits)

lemma drain_ok: "pending_ok pending \<Longrightarrow> pending_ok (snd (DrainDue age pending))"
  by (auto simp: pending_ok_def DrainDue_def distinct_map_filter list_all_iff)

lemma drain_due:
  assumes "pending_ok pending"
  shows "due_of (snd (DrainDue age pending)) p = snd (sched_spec (Drain age) (due_of pending)) p \<and>
    fired_of (fst (DrainDue age pending)) p = fst (sched_spec (Drain age) (due_of pending)) p"
  using assms
proof (induction pending)
  case (Cons a pending)
  obtain q u where a: "a = (q, u)" by (rule prod.exhaust)
  have "map_of pending q = None" using Cons.prems by (auto simp: a pending_ok_def map_of_eq_None_iff)
  moreover have "pending_ok pending" "UpdateAt u = q" using Cons.prems by (simp_all add: a pending_ok_def)
  ultimately show ?case using Cons.IH
    by (cases "p = q") (auto simp: a due_of_def fired_of_def DrainDue_def)
qed (simp add: due_of_def fired_of_def DrainDue_def)

lemma drained_distinct: "pending_ok pending \<Longrightarrow> distinct (map UpdateAt (fst (DrainDue age pending)))"
  by (induction pending) (auto simp: DrainDue_def pending_ok_def list_all_iff rev_image_eqI)

lemma sched_run_spec:
  assumes "pending_ok pending" "sched_run op pending = (fired, pending')"
  shows "pending_ok pending' \<and> distinct (map UpdateAt fired) \<and>
    fired_of fired = fst (sched_spec op (due_of pending)) \<and> due_of pending' = snd (sched_spec op (due_of pending))"
proof (cases op)
  case (Sched p kind age delay)
  then have "fired = []" "pending' = schedule p kind age delay pending" using assms(2) by auto
  then show ?thesis using Sched assms(1) by (simp add: schedule_ok schedule_due fired_of_def fun_eq_iff)
next
  case (Drain age)
  then have "DrainDue age pending = (fired, pending')" using assms(2) by simp
  then show ?thesis
    using Drain drain_ok [OF assms(1), of age] drained_distinct [OF assms(1), of age] drain_due [OF assms(1), of age]
    by (simp add: fun_eq_iff)
qed

lemma sched_trace_spec:
  "pending_ok pending \<Longrightarrow> sched_trace ops pending = (fired, pending') \<Longrightarrow>
    map fired_of fired = fst (spec_trace ops (due_of pending)) \<and> due_of pending' = snd (spec_trace ops (due_of pending)) \<and>
    list_all (\<lambda>us. distinct (map UpdateAt us)) fired"
proof (induction ops arbitrary: pending fired pending')
  case (Cons op ops)
  obtain f p1 where r: "sched_run op pending = (f, p1)" by (rule prod.exhaust)
  obtain fs p2 where t: "sched_trace ops p1 = (fs, p2)" by (rule prod.exhaust)
  obtain d m where s: "sched_spec op (due_of pending) = (d, m)" by (rule prod.exhaust)
  have "pending_ok p1" "distinct (map UpdateAt f)" "fired_of f = d" "due_of p1 = m"
    using sched_run_spec [OF Cons.prems(1) r] s by auto
  then show ?case using Cons.IH [OF _ t] Cons.prems(2) r t s by (auto simp: split_beta)
qed simp


text \<open>The entry does not depend on the kind of the update: an update of one kind displaces a later one
  of another kind at the same position.\<close>

lemma other_kind_displaced:
  assumes "due < DueTick u" "map_of pending p = Some u"
  shows "map_of (schedule p kind 0 due pending) p = Some \<lparr>UpdateAt = p, UpdateKind = kind, DueTick = due\<rparr>"
  using assms by (simp add: schedule_def Let_def update_conv')

end
