(* ===== verification/Redstone.thy ===== *)
theory Redstone
  imports Physics "HOL-Library.Monad_Syntax"
begin

text \<open>
  The redstone engine (\<open>core/world/redstone.go\<close>). The engine reads the world position by position and
  writes through \<open>setBlockNoPhysics\<close>; its view of the world is the record \<open>engine\<close>: the block and
  the block entity at every position (what the store answers is the subject of \<open>Worlds\<close>), the computed
  powers and the positions to re-evaluate, a Go map listed in the order of iteration.

  The power of a torch depends on the torches next to the block it sits on, by a recursion
  that the code does not bound. Its functions take a fuel here and \<open>None\<close> means that the fuel ran
  out; \<open>torches_return\<close> and \<open>torch_pair_never_returns\<close> say when it suffices and when none does.
\<close>

record engine =
  Cells :: "cell \<Rightarrow> block"
  Entities :: "cell \<Rightarrow> block_entity"
  Power :: "cell \<Rightarrow> int option"
  Dirty :: "cell list"

section \<open>Reading the world\<close>

definition in_height :: "cell \<Rightarrow> bool" where
  "in_height = (\<lambda>(x, y, z). WorldMinY \<le> y \<and> y \<le> WorldMaxY)"

definition block_of :: "engine \<Rightarrow> cell \<Rightarrow> block" where
  "block_of e p = (if in_height p then Cells e p else Air)"

definition set_cell :: "cell \<Rightarrow> block \<Rightarrow> engine \<Rightarrow> engine" where
  "set_cell p b e = (if in_height p then e\<lparr>Cells := (Cells e)(p := b)\<rparr> else e)"

definition neighbors6 :: "cell \<Rightarrow> cell list" where
  "neighbors6 = (\<lambda>(x, y, z).
     [(x + 1, y, z), (x - 1, y, z), (x, y + 1, z), (x, y - 1, z), (x, y, z + 1), (x, y, z - 1)])"

definition NotifyChange :: "cell \<Rightarrow> engine \<Rightarrow> engine" where
  "NotifyChange p e =
     e\<lparr>Dirty := foldl (\<lambda>ds d. if d \<in> set ds then ds else ds @ [d]) (Dirty e) (neighbors6 p @ [p])\<rparr>"

definition PowerAt :: "engine \<Rightarrow> cell \<Rightarrow> int" where
  "PowerAt e p = (case Power e p of None \<Rightarrow> 0 | Some v \<Rightarrow> v)"

definition boolStr :: "bool \<Rightarrow> string" where
  "boolStr b = (if b then ''true'' else ''false'')"

definition itoa :: "int \<Rightarrow> string" where
  "itoa i = (if i = 0 then ''0'' else if i < 0 then [] else nat_digits (nat i))"

text \<open>The engine's own \<open>atoi\<close>: zero for anything but digits, and the wrap-around of \<open>int\<close>.\<close>

definition atoi :: "string \<Rightarrow> int" where
  "atoi s =
     (if list_all is_digit s then sint (foldl (\<lambda>n c. n * 10 + word_of_nat (digit_value c)) (0 :: i64) s) else 0)"

definition orDefault :: "string \<Rightarrow> string \<Rightarrow> string" where
  "orDefault s d = (if s = [] then d else s)"

definition redstoneFacingOffset :: "string \<Rightarrow> int \<times> int" where
  "redstoneFacingOffset facing =
     (if facing = ''south'' then (0, 1) else if facing = ''east'' then (1, 0)
      else if facing = ''west'' then (- 1, 0) else (0, - 1))"

definition pistonOffset :: "string \<Rightarrow> int \<times> int \<times> int" where
  "pistonOffset facing =
     (if facing = ''down'' then (0, - 1, 0) else if facing = ''up'' then (0, 1, 0)
      else if facing = ''south'' then (0, 0, 1) else if facing = ''east'' then (1, 0, 0)
      else if facing = ''west'' then (- 1, 0, 0) else (0, 0, - 1))"

definition isRedstoneSolidBlock :: "block \<Rightarrow> bool" where
  "isRedstoneSolidBlock b =
     (let name = ResourceLocation b
      in \<not> IsAir b \<and> \<not> IsFluidBlock name \<and> name \<noteq> ''minecraft:redstone_wire'' \<and>
         \<not> contains_str name ''torch'' \<and> \<not> contains_str name ''rail'' \<and>
         \<not> has_suffix name ''_button'' \<and> \<not> has_suffix name ''_pressure_plate'')"

definition is_torch :: "string \<Rightarrow> bool" where
  "is_torch name \<longleftrightarrow> name = ''minecraft:redstone_torch'' \<or> name = ''minecraft:redstone_wall_torch''"

text \<open>The block a torch sits on: in \<open>computePower\<close> by its facing, whatever the kind of torch.\<close>

definition torch_support :: "cell \<Rightarrow> block \<Rightarrow> cell" where
  "torch_support = (\<lambda>(x, y, z) b.
     let facing = get_prop b ''facing''
     in if facing = ''north'' then (x, y, z + 1) else if facing = ''south'' then (x, y, z - 1)
        else if facing = ''east'' then (x - 1, y, z) else if facing = ''west'' then (x + 1, y, z)
        else (x, y - 1, z))"

definition redstoneTorchAttachment :: "cell \<Rightarrow> block \<Rightarrow> cell" where
  "redstoneTorchAttachment = (\<lambda>(x, y, z) b.
     if ResourceLocation b \<noteq> ''minecraft:redstone_wall_torch'' then (x, y - 1, z)
     else let facing = get_prop b ''facing''
          in if facing = ''north'' then (x, y, z + 1) else if facing = ''south'' then (x, y, z - 1)
             else if facing = ''east'' then (x - 1, y, z) else if facing = ''west'' then (x + 1, y, z)
             else (x, y - 1, z))"

section \<open>Power\<close>

text \<open>The loops that keep the best power over some positions.\<close>

fun best_of :: "('a \<Rightarrow> int option) \<Rightarrow> int \<Rightarrow> 'a list \<Rightarrow> int option" where
  "best_of f best [] = Some best"
| "best_of f best (p # ps) = do { v \<leftarrow> f p; best_of f (if v > best then v else best) ps }"

text \<open>\<open>powerFromSource\<close> for everything but a torch.\<close>

definition steady_source :: "engine \<Rightarrow> cell \<Rightarrow> block \<Rightarrow> int" where
  "steady_source e p b =
     (let name = ResourceLocation b; on = (get_prop b ''powered'' = ''true'')
      in if name = ''minecraft:redstone_block'' then 15
         else if name = ''minecraft:lever'' then (if on then 15 else 0)
         else if name = ''minecraft:repeater'' then (if on then 15 else 0)
         else if name = ''minecraft:comparator'' then PowerAt e p
         else if name = ''minecraft:observer'' then (if on then 15 else 0)
         else if name = ''minecraft:daylight_detector'' \<or> name = ''minecraft:inverted_daylight_detector'' \<or>
                 name = ''minecraft:target'' then atoi (get_prop b ''power'')
         else if name = ''minecraft:detector_rail'' \<or> name = ''minecraft:lightning_rod'' \<or>
                 name = ''minecraft:lectern'' then (if on then 15 else 0)
         else if name = ''minecraft:tripwire_hook'' then
           (if get_prop b ''attached'' = ''true'' \<and> on then 15 else 0)
         else if name = ''minecraft:sculk_sensor'' \<or> name = ''minecraft:calibrated_sculk_sensor'' then
           (if get_prop b ''sculk_sensor_phase'' = ''active'' then atoi (get_prop b ''power'') else 0)
         else if has_suffix name ''_button'' \<and> on then 15
         else if has_suffix name ''_pressure_plate'' then
           (if on then 15 else if atoi (get_prop b ''power'') > 0 then atoi (get_prop b ''power'') else 0)
         else 0)"

function (sequential) torch_power :: "nat \<Rightarrow> engine \<Rightarrow> cell \<Rightarrow> block \<Rightarrow> int option"
  and powerReceivedExcluding :: "nat \<Rightarrow> engine \<Rightarrow> cell \<Rightarrow> cell \<Rightarrow> int option"
  and powerFromSource :: "nat \<Rightarrow> engine \<Rightarrow> cell \<Rightarrow> block \<Rightarrow> int option" where
  "torch_power 0 e p b = None"
| "torch_power (Suc f) e p b =
     do { received \<leftarrow> powerReceivedExcluding f e (torch_support p b) p; Some (if received > 0 then 0 else 15) }"
| "powerReceivedExcluding f e p excluded =
     best_of (\<lambda>nb.
       if nb = excluded then Some 0
       else do { power \<leftarrow> powerFromSource f e nb (block_of e nb);
                 Some (if IsRedstoneConductor (ResourceLocation (block_of e nb)) \<and> PowerAt e nb > power
                       then PowerAt e nb else power) }) 0 (neighbors6 p)"
| "powerFromSource f e p b =
     (if is_torch (ResourceLocation b) then torch_power f e p b else Some (steady_source e p b))"
  by pat_completeness auto
termination
  by (relation "measures [\<lambda>x. case x of
        Inl (f, _) \<Rightarrow> f | Inr (Inl (f, _)) \<Rightarrow> f | Inr (Inr (f, _)) \<Rightarrow> f,
      \<lambda>x. case x of Inl _ \<Rightarrow> 0 | Inr (Inl _) \<Rightarrow> 2 | Inr (Inr _) \<Rightarrow> 1]") auto

declare powerReceivedExcluding.simps [simp del] powerFromSource.simps [simp del]

text \<open>Repeaters, comparators and observers only point one way, and a torch never into its support.\<close>

definition points_away :: "cell \<Rightarrow> block \<Rightarrow> cell \<Rightarrow> bool" where
  "points_away = (\<lambda>(x, y, z) b target.
     let name = ResourceLocation b
     in (name = ''minecraft:repeater'' \<or> name = ''minecraft:comparator'') \<and>
        (let (dx, dz) = redstoneFacingOffset (get_prop b ''facing'') in target \<noteq> (x - dx, y, z - dz)))"

definition powerFromSourceToward :: "nat \<Rightarrow> engine \<Rightarrow> cell \<Rightarrow> block \<Rightarrow> cell \<Rightarrow> int option" where
  "powerFromSourceToward f e p b target =
     (let name = ResourceLocation b
      in if points_away p b target then Some 0
         else if name = ''minecraft:observer'' \<and>
                 (let (x, y, z) = p; (dx, dy, dz) = pistonOffset (get_prop b ''facing'')
                  in target \<noteq> (x - dx, y - dy, z - dz)) then Some 0
         else if is_torch name \<and> redstoneTorchAttachment p b = target then Some 0
         else powerFromSource f e p b)"

definition powerFromConductorToward :: "engine \<Rightarrow> cell \<Rightarrow> block \<Rightarrow> cell \<Rightarrow> int" where
  "powerFromConductorToward e p b target = (if points_away p b target then 0 else PowerAt e p)"

definition strongPowerThroughBlock :: "nat \<Rightarrow> engine \<Rightarrow> cell \<Rightarrow> cell \<Rightarrow> int option" where
  "strongPowerThroughBlock f e p excluded =
     best_of (\<lambda>nb.
       if nb = excluded then Some 0
       else let source = block_of e nb
            in do { v \<leftarrow> powerFromSourceToward f e nb source p;
                    Some (if ResourceLocation source = ''minecraft:redstone_wire'' \<and> fst (snd nb) = fst (snd p) + 1 \<and>
                             PowerAt e nb > v then PowerAt e nb else v) }) 0 (neighbors6 p)"

definition inputPowerAt :: "nat \<Rightarrow> engine \<Rightarrow> cell \<Rightarrow> cell \<Rightarrow> int option" where
  "inputPowerAt f e p target =
     (let b = block_of e p
      in do { power \<leftarrow> powerFromSourceToward f e p b target;
              if IsRedstoneConductor (ResourceLocation b) then
                Some (if powerFromConductorToward e p b target > power then powerFromConductorToward e p b target else power)
              else if isRedstonePowerConductor b then
                do { conductor \<leftarrow> strongPowerThroughBlock f e p target;
                     Some (if conductor > power then conductor else power) }
              else Some power })"

definition repeaterLocked :: "engine \<Rightarrow> cell \<Rightarrow> block \<Rightarrow> bool" where
  "repeaterLocked e = (\<lambda>(x, y, z) b.
     let (dx, dz) = redstoneFacingOffset (get_prop b ''facing'')
     in list_ex (\<lambda>(sx, sz).
          let p = (x + sx, y, z + sz); source = block_of e p
          in (ResourceLocation source = ''minecraft:repeater'' \<or> ResourceLocation source = ''minecraft:comparator'') \<and>
             powerFromConductorToward e p source (x, y, z) > 0) [(- dz, dx), (dz, - dx)])"

definition redstoneContainerSlots :: "string \<Rightarrow> int" where
  "redstoneContainerSlots name =
     (if name = ''minecraft:hopper'' \<or> name = ''minecraft:brewing_stand'' then 5
      else if name = ''minecraft:dispenser'' \<or> name = ''minecraft:dropper'' \<or> name = ''minecraft:crafter'' then 9
      else if name = ''minecraft:furnace'' \<or> name = ''minecraft:smoker'' \<or> name = ''minecraft:blast_furnace'' then 3
      else if name = ''minecraft:decorated_pot'' then 1
      else if name = ''minecraft:chest'' \<or> name = ''minecraft:trapped_chest'' \<or> name = ''minecraft:barrel'' \<or>
              has_suffix name ''_shulker_box'' then 27
      else 0)"

definition musicDiscSignal :: "(string \<times> int) list" where
  "musicDiscSignal =
     [(''minecraft:music_disc_13'', 1), (''minecraft:music_disc_cat'', 2), (''minecraft:music_disc_blocks'', 3),
      (''minecraft:music_disc_chirp'', 4), (''minecraft:music_disc_far'', 5), (''minecraft:music_disc_mall'', 6),
      (''minecraft:music_disc_mellohi'', 7), (''minecraft:music_disc_stal'', 8), (''minecraft:music_disc_strad'', 9),
      (''minecraft:music_disc_ward'', 10), (''minecraft:music_disc_11'', 11), (''minecraft:music_disc_wait'', 12),
      (''minecraft:music_disc_otherside'', 14), (''minecraft:music_disc_relic'', 14), (''minecraft:music_disc_5'', 15),
      (''minecraft:music_disc_pigstep'', 13), (''minecraft:music_disc_precipice'', 13),
      (''minecraft:music_disc_creator'', 13), (''minecraft:music_disc_creator_music_box'', 11)]"

definition JukeboxComparatorSignal :: "string \<Rightarrow> int" where
  "JukeboxComparatorSignal disc = (case map_of musicDiscSignal disc of None \<Rightarrow> 0 | Some v \<Rightarrow> v)"

definition JukeboxRecordItem :: "block_entity \<Rightarrow> string" where
  "JukeboxRecordItem be =
     (case List.find (\<lambda>i. Slot i = 0 \<and> ItemID i \<noteq> []) (Items be) of None \<Rightarrow> [] | Some i \<Rightarrow> ItemID i)"

text \<open>
  A container's signal. The code adds the quotients \<open>min count 64 / 64\<close> in floating point, divides by the slots and
  truncates 14 times the result; the sum is exact, and the truncation agrees with the integer
  quotient below, because the rounded division is exact wherever the true value is whole.
\<close>

definition container_signal :: "int \<Rightarrow> container_item list \<Rightarrow> int" where
  "container_signal slots items =
     (let present = filter (\<lambda>i. \<not> Count i \<le> 0) items;
          fullness = sum_list (map (\<lambda>i. min (Count i) 64) present)
      in if present = [] then 0 else fullness * 14 div (64 * slots) + 1)"

definition analogOutputAt :: "engine \<Rightarrow> cell \<Rightarrow> int" where
  "analogOutputAt e p =
     (let b = block_of e p; name = ResourceLocation b; be = Entities e p
      in if name = ''minecraft:composter'' then atoi (get_prop b ''level'')
         else if name = ''minecraft:cake'' then 14 - min (atoi (get_prop b ''bites'')) 6 * 2
         else if name = ''minecraft:respawn_anchor'' then
           (let charges = atoi (get_prop b ''charges'') in if charges > 0 then charges * 4 - 1 else 0)
         else if name = ''minecraft:jukebox'' then
           (if get_prop b ''has_record'' = ''true'' then JukeboxComparatorSignal (JukeboxRecordItem be) else 0)
         else if name = ''minecraft:chiseled_bookshelf'' then LastBookshelfSlot be
         else if name = ''minecraft:lectern'' then
           (if get_prop b ''has_book'' \<noteq> ''true'' then 0
            else if LecternBook be = [] then 0
            else if LecternPages be \<le> 1 then 1
            else 1 + min (max (LecternPage be) 0) (LecternPages be - 1) * 14 div (LecternPages be - 1))
         else if name = ''minecraft:water_cauldron'' \<or> name = ''minecraft:powder_snow_cauldron'' then
           atoi (get_prop b ''level'')
         else if name = ''minecraft:lava_cauldron'' then 3
         else if redstoneContainerSlots name = 0 then 0
         else container_signal (redstoneContainerSlots name) (Items be))"

text \<open>The search along a line of powered rails: at most seven steps, each to the first rail of the same
  kind at the level, above or below. Some rail is powered when a position next to it gives power.\<close>

fun any_powered :: "nat \<Rightarrow> engine \<Rightarrow> cell \<Rightarrow> cell list \<Rightarrow> bool option" where
  "any_powered f e p [] = Some False"
| "any_powered f e p (nb # nbs) =
     (let b = block_of e nb
      in do { power \<leftarrow> powerFromSourceToward f e nb b p;
              if power > 0 then Some True
              else if IsRedstoneConductor (ResourceLocation b) \<and> powerFromConductorToward e nb b p > 0 then Some True
              else any_powered f e p nbs })"

definition rail_step :: "engine \<Rightarrow> string \<Rightarrow> cell \<Rightarrow> cell list \<times> cell list \<Rightarrow> int \<times> int \<Rightarrow> cell list \<times> cell list" where
  "rail_step e rail = (\<lambda>(x, y, z) (found, visited) (dx, dz).
     case List.find (\<lambda>q. q \<notin> set visited \<and> ResourceLocation (block_of e q) = rail)
            [(x + dx, y, z + dz), (x + dx, y + 1, z + dz), (x + dx, y - 1, z + dz)] of
       None \<Rightarrow> (found, visited)
     | Some q \<Rightarrow> (found @ [q], q # visited))"

definition rail_neighbors :: "engine \<Rightarrow> string \<Rightarrow> cell \<Rightarrow> cell list \<Rightarrow> cell list \<times> cell list" where
  "rail_neighbors e rail p visited =
     foldl (rail_step e rail p) ([], visited) [(0, - 1), (0, 1), (- 1, 0), (1, 0)]"

definition rail_weight :: "(cell \<times> nat) list \<Rightarrow> nat" where
  "rail_weight queue = sum_list (map (\<lambda>(p, d). 5 ^ (7 - d)) queue)"

lemma rail_step_length: "length (fst (rail_step e rail p st off)) \<le> length (fst st) + 1"
  by (cases p; cases st; cases off) (simp add: rail_step_def split: option.splits)

lemma rail_neighbors_length: "length (fst (rail_neighbors e rail p visited)) \<le> 4"
proof -
  have "length (fst (foldl (rail_step e rail p) st offs)) \<le> length (fst st) + length offs" for st offs
  proof (induction offs arbitrary: st)
    case (Cons off offs)
    show ?case using Cons.IH [of "rail_step e rail p st off"] rail_step_length [of e rail p st off] by simp
  qed simp
  from this [of "([], visited)" "[(0, - 1), (0, 1), (- 1, 0), (1, 0)]"] show ?thesis
    by (simp add: rail_neighbors_def)
qed

lemma rail_weight_simps [simp]:
  "rail_weight [] = 0" "rail_weight ((p, d) # queue) = 5 ^ (7 - d) + rail_weight queue"
  "rail_weight (xs @ ys) = rail_weight xs + rail_weight ys"
  by (simp_all add: rail_weight_def)

lemma rail_weight_next: "rail_weight (map (\<lambda>q. (q, d)) found) = length found * 5 ^ (7 - d)"
  by (induction found) (simp_all add: rail_weight_def)

lemma rail_weight_less:
  assumes "d < 7"
  shows "rail_weight (queue @ map (\<lambda>q. (q, Suc d)) (fst (rail_neighbors e rail p visited))) < rail_weight ((p, d) # queue)"
proof -
  have e: "7 - d = Suc (7 - Suc d)" using assms by simp
  have "length (fst (rail_neighbors e rail p visited)) * 5 ^ (7 - Suc d) \<le> 4 * 5 ^ (7 - Suc d)"
    using rail_neighbors_length by (rule mult_le_mono1)
  also have "\<dots> < 5 ^ (7 - d)" unfolding e by simp
  finally show ?thesis by (simp add: rail_weight_next)
qed

function rail_search :: "nat \<Rightarrow> engine \<Rightarrow> string \<Rightarrow> (cell \<times> nat) list \<Rightarrow> cell list \<Rightarrow> bool option" where
  "rail_search f e rail [] visited = Some False"
| "rail_search f e rail ((p, d) # queue) visited =
     (case any_powered f e p (neighbors6 p) of
        None \<Rightarrow> None
      | Some True \<Rightarrow> Some True
      | Some False \<Rightarrow>
          (if d \<ge> 7 then rail_search f e rail queue visited
           else rail_search f e rail
                  (queue @ map (\<lambda>q. (q, Suc d)) (fst (rail_neighbors e rail p visited)))
                  (snd (rail_neighbors e rail p visited))))"
  by pat_completeness auto
termination
proof (relation "measure (\<lambda>(f, e, rail, queue, visited). rail_weight queue)", goal_cases)
  case (3 f e rail p d queue visited)
  then show ?case using rail_weight_less [of d queue e rail p visited] by simp
qed simp_all

definition railNetworkPowered :: "nat \<Rightarrow> engine \<Rightarrow> cell \<Rightarrow> string \<Rightarrow> bool option" where
  "railNetworkPowered f e p rail = rail_search f e rail [(p, 0)] [p]"

text \<open>Dust, and the positions it reaches by one-block steps.\<close>

definition wire_input :: "nat \<Rightarrow> engine \<Rightarrow> cell \<Rightarrow> cell \<Rightarrow> int option" where
  "wire_input f e p nb =
     (let b = block_of e nb; name = ResourceLocation b
      in if name = ''minecraft:redstone_wire'' then Some (PowerAt e nb - 1)
         else if IsRedstoneSource name \<or> name = ''minecraft:redstone_block'' then powerFromSourceToward f e nb b p
         else if IsRedstoneConductor name then Some (powerFromConductorToward e nb b p)
         else if isRedstonePowerConductor b then strongPowerThroughBlock f e nb p
         else Some 0)"

definition wire_step :: "engine \<Rightarrow> cell \<Rightarrow> int \<times> int \<Rightarrow> int option" where
  "wire_step e = (\<lambda>(x, y, z) (dx, dz).
     let nx = x + dx; nz = z + dz; solid = isRedstoneSolidBlock (block_of e (nx, y, nz))
     in if solid \<and> isRedstoneSolidBlock (block_of e (x, y + 1, z)) then Some 0
        else let q = (nx, if solid then y + 1 else y - 1, nz)
             in Some (if ResourceLocation (block_of e q) = ''minecraft:redstone_wire'' then PowerAt e q - 1 else 0))"

definition wire_power :: "nat \<Rightarrow> engine \<Rightarrow> cell \<Rightarrow> int option" where
  "wire_power f e p =
     do { best \<leftarrow> best_of (wire_input f e p) 0 (neighbors6 p);
          best_of (wire_step e p) best [(0, - 1), (0, 1), (- 1, 0), (1, 0)] }"

definition repeater_power :: "nat \<Rightarrow> engine \<Rightarrow> cell \<Rightarrow> block \<Rightarrow> int option" where
  "repeater_power f e p b =
     (if repeaterLocked e p b then Some (if get_prop b ''powered'' = ''true'' then 15 else 0)
      else let (x, y, z) = p; (dx, dz) = redstoneFacingOffset (get_prop b ''facing''); q = (x + dx, y, z + dz)
           in do { input \<leftarrow> powerFromSourceToward f e q (block_of e q) p;
                   Some (if input > 0 \<or> PowerAt e q > 0 then 15 else 0) })"

text \<open>A comparator compares, or subtracts, the stronger of its sides.\<close>

definition comparator_level :: "bool \<Rightarrow> int \<Rightarrow> int \<Rightarrow> int \<Rightarrow> int" where
  "comparator_level subtract main left right =
     (let side = (if right > left then right else left)
      in if subtract then (if main > side then main - side else 0) else if main \<ge> side then main else 0)"

definition comparator_main :: "engine \<Rightarrow> cell \<Rightarrow> int \<times> int \<Rightarrow> int \<Rightarrow> int" where
  "comparator_main e = (\<lambda>(x, y, z) (dx, dz) input.
     let main = max input (analogOutputAt e (x + dx, y, z + dz))
     in if main < 15 \<and> isRedstoneSolidBlock (block_of e (x + dx, y, z + dz))
        then max main (analogOutputAt e (x + dx + dx, y, z + dz + dz)) else main)"

definition comparator_power :: "nat \<Rightarrow> engine \<Rightarrow> cell \<Rightarrow> block \<Rightarrow> int option" where
  "comparator_power f e p b =
     (let (x, y, z) = p; (dx, dz) = redstoneFacingOffset (get_prop b ''facing'')
      in do { input \<leftarrow> inputPowerAt f e (x + dx, y, z + dz) p;
              left \<leftarrow> inputPowerAt f e (x - dz, y, z + dx) p;
              right \<leftarrow> inputPowerAt f e (x + dz, y, z - dx) p;
              Some (comparator_level (get_prop b ''mode'' = ''subtract'') (comparator_main e p (dx, dz) input) left right) })"

definition other_input :: "nat \<Rightarrow> engine \<Rightarrow> cell \<Rightarrow> block \<Rightarrow> cell \<Rightarrow> int option" where
  "other_input f e p b nb =
     (let nbBlock = block_of e nb; nbName = ResourceLocation nbBlock;
          currentIsFullConductor = isRedstonePowerConductor b \<and> \<not> IsRedstoneConductor (ResourceLocation b)
      in if IsRedstoneSource nbName then
           (if is_torch nbName \<and> redstoneTorchAttachment nb nbBlock = p then Some 0
            else powerFromSourceToward f e nb nbBlock p)
         else if IsRedstoneConductor nbName then Some (powerFromConductorToward e nb nbBlock p)
         else if \<not> currentIsFullConductor \<and> isRedstonePowerConductor nbBlock then strongPowerThroughBlock f e nb p
         else Some 0)"

definition computePower :: "nat \<Rightarrow> engine \<Rightarrow> cell \<Rightarrow> block \<Rightarrow> int option" where
  "computePower f e p b =
     (let name = ResourceLocation b
      in if name = ''minecraft:redstone_block'' then Some 15
         else if is_torch name then torch_power f e p b
         else if name = ''minecraft:lever'' then Some (if get_prop b ''powered'' = ''true'' then 15 else 0)
         else if name \<in> {''minecraft:daylight_detector'', ''minecraft:inverted_daylight_detector'', ''minecraft:target'',
                 ''minecraft:detector_rail'', ''minecraft:lightning_rod'', ''minecraft:tripwire_hook'', ''minecraft:lectern'',
                 ''minecraft:observer''} then powerFromSource f e p b
         else if name = ''minecraft:redstone_wire'' then wire_power f e p
         else if name = ''minecraft:repeater'' then repeater_power f e p b
         else if name = ''minecraft:comparator'' then comparator_power f e p b
         else if name = ''minecraft:powered_rail'' \<or> name = ''minecraft:activator_rail'' then
           do { powered \<leftarrow> railNetworkPowered f e p name; Some (if powered then 15 else 0) }
         else best_of (other_input f e p b) 0 (neighbors6 p))"

section \<open>Visible states\<close>

definition redstoneBlockWith :: "block \<Rightarrow> (string \<times> string) list \<Rightarrow> block" where
  "redstoneBlockWith b kvs = foldl (\<lambda>c (k, v). with_prop c k v) b kvs"

text \<open>The block a change of power turns \<open>b\<close> into; \<open>None\<close> when it stays as it is.\<close>

definition unless_equal :: "block \<Rightarrow> block \<Rightarrow> block option" where
  "unless_equal b b' = (if Equal b b' then None else Some b')"

definition powered_block :: "engine \<Rightarrow> cell \<Rightarrow> block \<Rightarrow> bool \<Rightarrow> block option" where
  "powered_block e p b powered =
     (let name = ResourceLocation b; on = boolStr powered
      in if name = ''minecraft:trapdoor'' \<or> has_suffix name ''_trapdoor'' then
           (if get_prop b ''open'' = on \<and> get_prop b ''powered'' = on then None
            else Some (redstoneBlockWith b [(''open'', on), (''powered'', on)]))
         else if has_suffix name ''_door'' \<or> has_suffix name ''_fence_gate'' then
           unless_equal b (redstoneBlockWith b [(''powered'', on), (''open'', on)])
         else if has_suffix name ''_copper_bulb'' then
           (let was = (get_prop b ''lit'' = ''true'');
                lit = (if powered \<and> get_prop b ''powered'' \<noteq> ''true'' then \<not> was else was)
            in unless_equal b (redstoneBlockWith b [(''powered'', on), (''lit'', boolStr lit)]))
         else if name = ''minecraft:bell'' then unless_equal b (redstoneBlockWith b [(''powered'', on)])
         else if name = ''minecraft:redstone_lamp'' then
           Some \<lparr>Namespace = ''minecraft'', Name = ''redstone_lamp'', Properties = [(''lit'', on)]\<rparr>
         else if name = ''minecraft:redstone_wire'' then
           Some \<lparr>Namespace = ''minecraft'', Name = ''redstone_wire'',
                 Properties = [(''power'', itoa (if powered then PowerAt e p else 0)),
                   (''north'', get_prop b ''north''), (''south'', get_prop b ''south''),
                   (''east'', get_prop b ''east''), (''west'', get_prop b ''west'')]\<rparr>
         else if is_torch name then
           (if get_prop b ''lit'' = on then None else Some (redstoneBlockWith b [(''lit'', on)]))
         else if name = ''minecraft:repeater'' then
           unless_equal b
             \<lparr>Namespace = ''minecraft'', Name = ''repeater'',
              Properties = [(''delay'', orDefault (get_prop b ''delay'') ''1''),
                (''facing'', orDefault (get_prop b ''facing'') ''north''),
                (''locked'', boolStr (repeaterLocked e p b)), (''powered'', on)]\<rparr>
         else if name = ''minecraft:comparator'' then
           (if get_prop b ''powered'' = on then None else Some (redstoneBlockWith b [(''powered'', on)]))
         else if name = ''minecraft:powered_rail'' \<or> name = ''minecraft:activator_rail'' then
           unless_equal b (redstoneBlockWith b [(''powered'', on)])
         else if name = ''minecraft:hopper'' then
           unless_equal b (redstoneBlockWith b [(''enabled'', boolStr (\<not> powered))])
         else if name = ''minecraft:note_block'' then
           unless_equal b (redstoneBlockWith b [(''powered'', on)])
         else if name = ''minecraft:dispenser'' \<or> name = ''minecraft:dropper'' \<or> name = ''minecraft:crafter'' then
           unless_equal b (redstoneBlockWith b [(''triggered'', on)])
         else None)"

text \<open>The other half of a door follows, without a change of its own in the result.\<close>

definition is_door :: "block \<Rightarrow> bool" where
  "is_door b \<longleftrightarrow> has_suffix (ResourceLocation b) ''_door''"

definition other_half :: "cell \<Rightarrow> block \<Rightarrow> cell" where
  "other_half = (\<lambda>(x, y, z) b. (x, if get_prop b ''half'' = ''upper'' then y - 1 else y + 1, z))"

definition applyPowerState :: "cell \<Rightarrow> block \<Rightarrow> bool \<Rightarrow> engine \<Rightarrow> (cell \<times> block) option \<times> engine" where
  "applyPowerState p b powered e =
     (case powered_block e p b powered of
        None \<Rightarrow> (None, e)
      | Some b' \<Rightarrow>
          let e1 = set_cell p b' e; q = other_half p b; other = block_of e1 q
          in (Some (p, b'),
              if is_door b \<and> ResourceLocation other = ResourceLocation b
              then set_cell q (redstoneBlockWith other [(''powered'', boolStr powered), (''open'', boolStr powered)]) e1
              else e1))"

section \<open>One flush\<close>

record flush_result =
  Changes :: "(cell \<times> block) list"
  PoweredLoads :: "cell list"
  UnpoweredLoads :: "cell list"

definition add_change :: "(cell \<times> block) option \<Rightarrow> flush_result \<Rightarrow> flush_result" where
  "add_change change r = (case change of None \<Rightarrow> r | Some c \<Rightarrow> r\<lparr>Changes := Changes r @ [c]\<rparr>)"

definition transition :: "cell \<Rightarrow> block \<Rightarrow> int \<Rightarrow> engine \<Rightarrow> flush_result \<Rightarrow> cell list \<times> engine \<times> flush_result" where
  "transition p b newPower e r =
     (let name = ResourceLocation b; oldPower = PowerAt e p;
          e1 = e\<lparr>Power := (Power e)(p := if newPower = 0 then None else Some newPower)\<rparr>;
          (change, e2) = applyPowerState p b (newPower > 0) e1;
          r1 = add_change change r;
          r2 = (if oldPower = 0 \<and> newPower > 0 \<and> IsRedstoneLoad name
                then r1\<lparr>PoweredLoads := PoweredLoads r1 @ [p]\<rparr> else r1);
          r3 = (if oldPower > 0 \<and> newPower = 0 \<and> IsRedstoneLoad name
                then r2\<lparr>UnpoweredLoads := UnpoweredLoads r2 @ [p]\<rparr> else r2)
      in (neighbors6 p, e2, r3))"

text \<open>Without a change of power: the lit state of a torch, then the lock of a repeater.\<close>

definition reconcile :: "cell \<Rightarrow> block \<Rightarrow> int \<Rightarrow> engine \<Rightarrow> flush_result \<Rightarrow> cell list \<times> engine \<times> flush_result" where
  "reconcile p b newPower e r =
     (let name = ResourceLocation b;
          (queue, e1, r1) =
            (if is_torch name \<and> get_prop b ''lit'' \<noteq> boolStr (newPower > 0) then
               (let (change, e1) = applyPowerState p b (newPower > 0) e
                in (if change = None then [] else neighbors6 p, e1, add_change change r))
             else ([], e, r))
      in if name = ''minecraft:repeater'' \<and> get_prop b ''locked'' \<noteq> boolStr (repeaterLocked e1 p b) then
           (let (change, e2) = applyPowerState p b (newPower > 0) e1 in (queue, e2, add_change change r1))
         else (queue, e1, r1))"

definition flush_step :: "nat \<Rightarrow> cell \<Rightarrow> engine \<Rightarrow> flush_result \<Rightarrow> (cell list \<times> engine \<times> flush_result) option" where
  "flush_step f p e r =
     do { newPower \<leftarrow> computePower f e p (block_of e p);
          Some (if newPower \<noteq> PowerAt e p then transition p (block_of e p) newPower e r
                else reconcile p (block_of e p) newPower e r) }"

fun flush_loop :: "nat \<Rightarrow> nat \<Rightarrow> cell list \<Rightarrow> engine \<Rightarrow> flush_result \<Rightarrow> (engine \<times> flush_result) option" where
  "flush_loop f 0 queue e r = Some (e, r)"
| "flush_loop f (Suc n) [] e r = Some (e, r)"
| "flush_loop f (Suc n) (p # queue) e r =
     do { (more_cells, e', r') \<leftarrow> flush_step f p e r; flush_loop f n (queue @ more_cells) e' r' }"

definition max_updates :: nat where "max_updates = 65536"

definition FlushUpdates :: "nat \<Rightarrow> engine \<Rightarrow> (engine \<times> flush_result) option" where
  "FlushUpdates f e =
     (let none = \<lparr>Changes = [], PoweredLoads = [], UnpoweredLoads = []\<rparr>
      in if Dirty e = [] then Some (e, none)
         else flush_loop f max_updates (Dirty e) (e\<lparr>Dirty := []\<rparr>) none)"

section \<open>What a state change leaves alone\<close>

lemma block_of_set: "block_of (set_cell p b e) q = (if q = p \<and> in_height p then b else block_of e q)"
  by (auto simp: block_of_def set_cell_def)

lemma set_cell_simps [simp]:
  "Power (set_cell p b e) = Power e" "Entities (set_cell p b e) = Entities e" "Dirty (set_cell p b e) = Dirty e"
  by (simp_all add: set_cell_def)

lemma RL_with [simp]: "ResourceLocation (redstoneBlockWith b kvs) = ResourceLocation b"
  unfolding redstoneBlockWith_def by (induction kvs arbitrary: b) (auto split: prod.splits)

lemma get_prop_with_other: "k \<notin> fst ` set kvs \<Longrightarrow> get_prop (redstoneBlockWith b kvs) k = get_prop b k"
  unfolding redstoneBlockWith_def by (induction kvs arbitrary: b) (auto simp: get_prop_with split: prod.splits)

lemma unless_equal_Some: "unless_equal b b' = Some b'' \<longleftrightarrow> \<not> Equal b b' \<and> b'' = b'"
  by (auto simp: unless_equal_def)

lemma powered_block_name: "powered_block e p b powered = Some b' \<Longrightarrow> ResourceLocation b' = ResourceLocation b"
  by (auto simp: powered_block_def Let_def unless_equal_Some is_torch_def split: if_splits) (simp_all add: ResourceLocation_def)

lemma powered_block_air: "ResourceLocation b = ''minecraft:air'' \<Longrightarrow> powered_block e p b powered = None"
  by (simp add: powered_block_def Let_def has_suffix_def is_torch_def)

lemma powered_block_torch:
  assumes "powered_block e p b powered = Some b'" "is_torch (ResourceLocation b)"
  shows "get_prop b' ''facing'' = get_prop b ''facing''"
  using assms by (auto simp: powered_block_def Let_def is_torch_def has_suffix_def get_prop_with_other split: if_splits)

lemma powered_in_height: "powered_block e p (block_of e p) powered = Some b' \<Longrightarrow> in_height p"
  using powered_block_air [of "block_of e p" e p powered] by (auto simp: block_of_def Air_def ResourceLocation_def split: if_splits)

declare split_paired_All [simp del] split_paired_Ex [simp del]

lemma block_of_power [simp]: "block_of (e\<lparr>Power := v\<rparr>) = block_of e"
  by (simp add: block_of_def fun_eq_iff)

lemma other_half_other: "other_half p b \<noteq> p"
  by (cases p) (simp add: other_half_def)

lemma in_height_name: "ResourceLocation (block_of e p) \<noteq> ''minecraft:air'' \<Longrightarrow> in_height p"
  by (auto simp: block_of_def Air_def ResourceLocation_def split: if_splits)

definition changed_at :: "(cell \<times> block) option \<Rightarrow> engine \<Rightarrow> cell \<Rightarrow> block" where
  "changed_at change e q = (case change of Some (p, b) \<Rightarrow> if q = p then b else block_of e q | None \<Rightarrow> block_of e q)"

text \<open>Two engines agree on the kinds of their blocks, the facing of torches and what is behind them.\<close>

definition same_parts :: "engine \<Rightarrow> engine \<Rightarrow> bool" where
  "same_parts e e' \<longleftrightarrow>
     (\<forall>q. ResourceLocation (block_of e' q) = ResourceLocation (block_of e q)) \<and> Entities e' = Entities e \<and>
     (\<forall>q. is_torch (ResourceLocation (block_of e q)) \<longrightarrow> get_prop (block_of e' q) ''facing'' = get_prop (block_of e q) ''facing'')"

lemma same_parts_refl [simp]: "same_parts e e"
  by (simp add: same_parts_def)

lemma same_parts_trans: "same_parts e e' \<Longrightarrow> same_parts e' e'' \<Longrightarrow> same_parts e e''"
  by (simp add: same_parts_def)

lemma same_parts_door: "same_parts e e' \<Longrightarrow> is_door (block_of e' q) = is_door (block_of e q)"
  by (simp add: same_parts_def is_door_def)

lemma door_no_torch: "is_door b \<Longrightarrow> \<not> is_torch (ResourceLocation b)"
  by (auto simp: is_door_def is_torch_def has_suffix_def)

lemma applyPowerState_parts:
  assumes "applyPowerState p (block_of e p) powered e = (change, e')"
  shows "same_parts e e'" "Power e' = Power e" "Dirty e' = Dirty e"
    "\<not> is_door (block_of e q) \<Longrightarrow> block_of e' q = changed_at change e q"
proof -
  let ?b = "block_of e p"
  have *: "same_parts e e' \<and> Power e' = Power e \<and> Dirty e' = Dirty e \<and>
      (\<forall>q. \<not> is_door (block_of e q) \<longrightarrow> block_of e' q = changed_at change e q)"
  proof (cases "powered_block e p ?b powered")
    case None
    then show ?thesis using assms by (simp add: applyPowerState_def changed_at_def)
  next
    case (Some b')
    note h = powered_in_height [OF Some] and n = powered_block_name [OF Some] and t = powered_block_torch [OF Some]
    let ?e1 = "set_cell p b' e" and ?q = "other_half p ?b"
    have e1: "block_of ?e1 q = (if q = p then b' else block_of e q)" for q using h by (simp add: block_of_set)
    have s1: "same_parts e ?e1" using n t e1 by (simp add: same_parts_def)
    have ch: "change = Some (p, b')" using assms Some by (simp add: applyPowerState_def Let_def)
    show ?thesis
    proof (cases "is_door ?b \<and> ResourceLocation (block_of ?e1 ?q) = ResourceLocation ?b")
      case True
      then have d: "is_door (block_of ?e1 ?q)" by (simp add: is_door_def)
      then have dq: "is_door (block_of e ?q)" using same_parts_door [OF s1] by simp
      have e': "e' = set_cell ?q (redstoneBlockWith (block_of ?e1 ?q) [(''powered'', boolStr powered), (''open'', boolStr powered)]) ?e1"
        using assms Some True by (simp add: applyPowerState_def Let_def)
      have "same_parts ?e1 e'" using door_no_torch [OF d] unfolding e' same_parts_def block_of_set by auto
      then have "same_parts e e'" by (rule same_parts_trans [OF s1])
      moreover have "block_of e' q = changed_at change e q" if "\<not> is_door (block_of e q)" for q
        using that dq e1 [of q] h by (cases "q = ?q") (auto simp: e' ch changed_at_def block_of_set [of ?q])
      ultimately show ?thesis by (simp add: e')
    next
      case False
      then have e': "e' = ?e1" using assms Some by (auto simp: applyPowerState_def Let_def)
      show ?thesis unfolding e' using s1 by (simp add: ch changed_at_def e1)
    qed
  qed
  then show "same_parts e e'" "Power e' = Power e" "Dirty e' = Dirty e"
    "\<not> is_door (block_of e q) \<Longrightarrow> block_of e' q = changed_at change e q" by blast+
qed

lemma Changes_add: "Changes (add_change change r) = Changes r @ (case change of None \<Rightarrow> [] | Some c \<Rightarrow> [c])"
  by (simp add: add_change_def split: option.splits)

text \<open>What a client sees that applies the reported changes, in their order, to the world it knew.\<close>

definition replay :: "(cell \<times> block) list \<Rightarrow> (cell \<Rightarrow> block) \<Rightarrow> cell \<Rightarrow> block" where
  "replay changes cells = foldl (\<lambda>c (p, b). c(p := b)) cells changes"

lemma changed_at_power [simp]: "changed_at change (e\<lparr>Power := v\<rparr>) = changed_at change e"
  by (simp add: changed_at_def fun_eq_iff split: option.splits prod.splits)

lemma replay_append: "replay (cs @ ds) cells = replay ds (replay cs cells)"
  by (simp add: replay_def)

lemma flush_step_parts:
  assumes "flush_step f p e r = Some (queue, e', r')"
  shows "same_parts e e' \<and> Dirty e' = Dirty e \<and>
    (\<exists>cs. Changes r' = Changes r @ cs \<and> (\<forall>q. \<not> is_door (block_of e q) \<longrightarrow> block_of e' q = replay cs (block_of e) q))"
proof -
  let ?b = "block_of e p"
  have replay1: "replay (case ch of None \<Rightarrow> [] | Some c \<Rightarrow> [c]) (block_of e0) q = changed_at ch e0 q" for ch e0 q
    by (simp add: replay_def changed_at_def split: option.splits prod.splits)
  obtain pw where pw: "computePower f e p ?b = Some pw" using assms by (auto simp: flush_step_def bind_eq_Some_conv)
  show ?thesis
  proof (cases "pw = PowerAt e p")
    case False
    let ?e1 = "e\<lparr>Power := (Power e)(p := if pw = 0 then None else Some pw)\<rparr>"
    obtain ch e2 where a: "applyPowerState p ?b (pw > 0) ?e1 = (ch, e2)" by (rule prod.exhaust)
    then have a': "applyPowerState p (block_of ?e1 p) (pw > 0) ?e1 = (ch, e2)" by simp
    have "e' = e2" "Changes r' = Changes r @ (case ch of None \<Rightarrow> [] | Some c \<Rightarrow> [c])"
      using assms False by (auto simp: flush_step_def pw transition_def Let_def a Changes_add)
    moreover have "same_parts e ?e1" by (simp add: same_parts_def)
    ultimately show ?thesis
      using applyPowerState_parts [OF a'] replay1 [of ch ?e1] same_parts_trans [of e ?e1 e2]
      by (intro conjI exI [of _ "case ch of None \<Rightarrow> [] | Some c \<Rightarrow> [c]"]) (auto simp: block_of_power)
  next
    case True
    obtain ch e2 where a: "applyPowerState p ?b (PowerAt e p > 0) e = (ch, e2)" by (rule prod.exhaust)
    let ?t = "is_torch (ResourceLocation ?b) \<and> get_prop ?b ''lit'' \<noteq> boolStr (pw > 0)"
    let ?rep = "ResourceLocation ?b = ''minecraft:repeater'' \<and> get_prop ?b ''locked'' \<noteq> boolStr (repeaterLocked e p ?b)"
    have excl: "\<not> (is_torch (ResourceLocation ?b) \<and> ResourceLocation ?b = ''minecraft:repeater'')" by (auto simp: is_torch_def)
    have "e' = (if ?t \<or> ?rep then e2 else e) \<and>
        Changes r' = Changes r @ (if ?t \<or> ?rep then (case ch of None \<Rightarrow> [] | Some c \<Rightarrow> [c]) else [])"
      using assms True excl by (auto simp: flush_step_def pw reconcile_def Let_def a Changes_add split: if_splits)
    then show ?thesis
      using applyPowerState_parts [OF a] replay1 [of ch e]
      by (cases "?t \<or> ?rep") (auto simp: replay_def)
  qed
qed

section \<open>A flush and what it reports\<close>

lemma replay_cong: "g q = h q \<Longrightarrow> replay cs g q = replay cs h q"
proof (induction cs arbitrary: g h)
  case (Cons c cs)
  obtain p b where c: "c = (p, b)" by (rule prod.exhaust)
  have "replay cs (g(p := b)) q = replay cs (h(p := b)) q" by (rule Cons.IH) (simp add: Cons.prems)
  then show ?case by (simp add: replay_def c)
qed (simp add: replay_def)

lemma flush_loop_parts:
  "flush_loop f n queue e r = Some (e', r') \<Longrightarrow>
    same_parts e e' \<and> (\<exists>cs. Changes r' = Changes r @ cs \<and> (\<forall>q. \<not> is_door (block_of e q) \<longrightarrow> block_of e' q = replay cs (block_of e) q))"
proof (induction f n queue e r rule: flush_loop.induct)
  case (3 f n p queue e r)
  obtain q1 e1 r1 where s: "flush_step f p e r = Some (q1, e1, r1)" and l: "flush_loop f n (queue @ q1) e1 r1 = Some (e', r')"
    using "3.prems" by (auto simp: bind_eq_Some_conv)
  obtain cs where cs: "same_parts e e1" "Changes r1 = Changes r @ cs"
      "\<And>q. \<not> is_door (block_of e q) \<Longrightarrow> block_of e1 q = replay cs (block_of e) q"
    using flush_step_parts [OF s] by blast
  obtain ds where ds: "same_parts e1 e'" "Changes r' = Changes r1 @ ds"
      "\<And>q. \<not> is_door (block_of e1 q) \<Longrightarrow> block_of e' q = replay ds (block_of e1) q"
    using "3.IH" [OF s refl refl l] by blast
  have "block_of e' q = replay (cs @ ds) (block_of e) q" if "\<not> is_door (block_of e q)" for q
    unfolding replay_append
    using ds(3) [of q] same_parts_door [OF cs(1), of q] replay_cong [of "block_of e1" q "replay cs (block_of e)" ds, OF cs(3) [OF that]] that by metis
  moreover have "same_parts e e'" by (rule same_parts_trans [OF cs(1) ds(1)])
  moreover have "Changes r' = Changes r @ cs @ ds" by (simp add: cs(2) ds(2))
  ultimately show ?case by blast
next
  case (1 f queue e r)
  then have "e' = e" "r' = r" by simp_all
  then show ?case by (intro conjI exI [of _ "[]"]) (simp_all add: replay_def)
next
  case (2 f n e r)
  then have "e' = e" "r' = r" by simp_all
  then show ?case by (intro conjI exI [of _ "[]"]) (simp_all add: replay_def)
qed

lemma block_of_dirty [simp]: "block_of (e\<lparr>Dirty := ds\<rparr>) = block_of e"
  by (simp add: block_of_def fun_eq_iff)

lemma flush_cases:
  assumes "FlushUpdates f e = Some (e', r)"
  obtains "e' = e" "r = \<lparr>Changes = [], PoweredLoads = [], UnpoweredLoads = []\<rparr>"
  | "flush_loop f max_updates (Dirty e) (e\<lparr>Dirty := []\<rparr>) \<lparr>Changes = [], PoweredLoads = [], UnpoweredLoads = []\<rparr> = Some (e', r)"
proof (cases "Dirty e = []")
  case True
  show thesis by (rule that(1)) (use assms True in \<open>simp_all add: FlushUpdates_def\<close>)
next
  case False
  show thesis by (rule that(2)) (use assms False in \<open>simp add: FlushUpdates_def\<close>)
qed

lemma best_of_ge: "best_of f best ps = Some v \<Longrightarrow> best \<le> v"
proof (induction f best ps rule: best_of.induct)
  case (2 f best p ps)
  then obtain y where "f p = Some y" "best_of f (if y > best then y else best) ps = Some v" by (auto simp: bind_eq_Some_conv)
  then show ?case using "2.IH" by (cases "y > best") auto
qed simp

text \<open>A load is none of the parts that compute their power in a way of their own.\<close>

lemma load_power_nonneg:
  assumes "computePower f e p b = Some v" "IsRedstoneLoad (ResourceLocation b)"
  shows "0 \<le> v"
proof -
  have "ResourceLocation b \<notin> {''minecraft:daylight_detector'', ''minecraft:inverted_daylight_detector'', ''minecraft:target'',
      ''minecraft:detector_rail'', ''minecraft:lightning_rod'', ''minecraft:tripwire_hook'', ''minecraft:lectern'',
      ''minecraft:observer''}" "ResourceLocation b \<noteq> ''minecraft:redstone_block''" "\<not> is_torch (ResourceLocation b)"
    "ResourceLocation b \<noteq> ''minecraft:lever''" "ResourceLocation b \<noteq> ''minecraft:redstone_wire''"
    "ResourceLocation b \<noteq> ''minecraft:repeater''" "ResourceLocation b \<noteq> ''minecraft:comparator''"
    using assms(2) by (auto simp: IsRedstoneLoad_def has_suffix_def is_torch_def)
  then show ?thesis
    using assms(1) best_of_ge by (auto simp: computePower_def Let_def bind_eq_Some_conv split: if_splits)
qed

definition powered :: "engine \<Rightarrow> cell \<Rightarrow> int" where
  "powered e p = (if PowerAt e p > 0 then 1 else 0)"

text \<open>How often a position was reported on more than off.\<close>

definition reports :: "flush_result \<Rightarrow> cell \<Rightarrow> int" where
  "reports r p = int (count_list (PoweredLoads r) p) - int (count_list (UnpoweredLoads r) p)"

lemma add_change_loads [simp]:
  "PoweredLoads (add_change change r) = PoweredLoads r" "UnpoweredLoads (add_change change r) = UnpoweredLoads r"
  by (simp_all add: add_change_def split: option.splits)

lemma reports_snoc [simp]:
  "reports (r\<lparr>PoweredLoads := PoweredLoads r @ [p]\<rparr>) q = reports r q + (if q = p then 1 else 0)"
  "reports (r\<lparr>UnpoweredLoads := UnpoweredLoads r @ [p]\<rparr>) q = reports r q - (if q = p then 1 else 0)"
  "reports ((add_change change r)\<lparr>PoweredLoads := PoweredLoads r @ [p]\<rparr>) q = reports r q + (if q = p then 1 else 0)"
  "reports ((add_change change r)\<lparr>UnpoweredLoads := UnpoweredLoads r @ [p]\<rparr>) q = reports r q - (if q = p then 1 else 0)"
  "reports (add_change change r) q = reports r q"
  by (simp_all add: reports_def)

lemma flush_step_loads:
  assumes "flush_step f p e r = Some (queue, e', r')" "IsRedstoneLoad (ResourceLocation (block_of e q))" "0 \<le> PowerAt e q"
  shows "0 \<le> PowerAt e' q \<and> reports r' q - powered e' q = reports r q - powered e q"
proof -
  obtain pw where pw: "computePower f e p (block_of e p) = Some pw" using assms(1) by (auto simp: flush_step_def bind_eq_Some_conv)
  have nonneg: "q = p \<Longrightarrow> 0 \<le> pw" using load_power_nonneg [OF pw] assms(2) by simp
  show ?thesis
  proof (cases "pw = PowerAt e p")
    case False
    let ?e1 = "e\<lparr>Power := (Power e)(p := if pw = 0 then None else Some pw)\<rparr>"
    obtain ch e2 where a: "applyPowerState p (block_of e p) (pw > 0) ?e1 = (ch, e2)" by (rule prod.exhaust)
    then have a': "applyPowerState p (block_of ?e1 p) (pw > 0) ?e1 = (ch, e2)" by simp
    have e2: "PowerAt e2 s = (if s = p then pw else PowerAt e s)" for s
      using applyPowerState_parts(2) [OF a'] by (simp add: PowerAt_def)
    have "e' = e2" "reports r' q = reports r q +
        (if q = p \<and> PowerAt e p = 0 \<and> pw > 0 \<and> IsRedstoneLoad (ResourceLocation (block_of e p)) then 1 else 0) -
        (if q = p \<and> PowerAt e p > 0 \<and> pw = 0 \<and> IsRedstoneLoad (ResourceLocation (block_of e p)) then 1 else 0)"
      using assms(1) False by (auto simp: flush_step_def pw transition_def Let_def a)
    then show ?thesis using assms(2,3) nonneg False by (auto simp: e2 powered_def)
  next
    case True
    obtain ch e2 where a: "applyPowerState p (block_of e p) (PowerAt e p > 0) e = (ch, e2)" by (rule prod.exhaust)
    note p2 = applyPowerState_parts(2) [OF a]
    have t: "\<not> (is_torch (ResourceLocation (block_of e p)) \<and> ResourceLocation (block_of e p) = ''minecraft:repeater'')"
      by (auto simp: is_torch_def)
    have "(e' = e \<or> e' = e2) \<and> reports r' q = reports r q"
      using assms(1) True t by (auto simp: flush_step_def pw reconcile_def Let_def a split: if_splits)
    then show ?thesis using p2 assms(3) by (auto simp: PowerAt_def powered_def)
  qed
qed

lemma flush_loop_loads:
  "flush_loop f n queue e r = Some (e', r') \<Longrightarrow> IsRedstoneLoad (ResourceLocation (block_of e q)) \<Longrightarrow> 0 \<le> PowerAt e q \<Longrightarrow>
    reports r' q - powered e' q = reports r q - powered e q"
proof (induction f n queue e r rule: flush_loop.induct)
  case (3 f n p queue e r)
  obtain q1 e1 r1 where s: "flush_step f p e r = Some (q1, e1, r1)" and l: "flush_loop f n (queue @ q1) e1 r1 = Some (e', r')"
    using "3.prems"(1) by (auto simp: bind_eq_Some_conv)
  have "IsRedstoneLoad (ResourceLocation (block_of e1 q))" using flush_step_parts [OF s] "3.prems"(2) by (simp add: same_parts_def)
  then show ?case using "3.IH" [OF s refl refl l] flush_step_loads [OF s "3.prems"(2,3)] by simp
qed auto


text \<open>Loads are reported on edges only: for every load, the reports "powered" exceed the reports "no
  longer powered" by one when the flush turns it on, are exceeded by one when it turns it off, and
  are as many when its state is the same at the end.\<close>

theorem loads_reported_on_edges:
  assumes "FlushUpdates f e = Some (e', r)" "IsRedstoneLoad (ResourceLocation (block_of e q))" "0 \<le> PowerAt e q"
  shows "int (count_list (PoweredLoads r) q) - int (count_list (UnpoweredLoads r) q) =
    (if PowerAt e' q > 0 then 1 else 0) - (if PowerAt e q > 0 then 1 else 0)"
  using assms(1)
proof (cases rule: flush_cases)
  case 2
  have "PowerAt (e\<lparr>Dirty := []\<rparr>) q = PowerAt e q" by (simp add: PowerAt_def)
  then show ?thesis using flush_loop_loads [OF 2, of q] assms(2,3) by (simp add: reports_def powered_def)
qed simp

section \<open>When the recursion of the torches ends\<close>

declare not_None_eq [simp del]

text \<open>The torches a torch looks at: those next to the block it sits on.\<close>

definition watched :: "engine \<Rightarrow> (cell \<times> cell) set" where
  "watched e = {(q, p). is_torch (ResourceLocation (block_of e p)) \<and> is_torch (ResourceLocation (block_of e q)) \<and>
     q \<in> set (neighbors6 (torch_support p (block_of e p))) \<and> q \<noteq> p}"

definition torch_at :: "engine \<Rightarrow> cell \<Rightarrow> bool" where
  "torch_at e p \<longleftrightarrow> is_torch (ResourceLocation (block_of e p))"

definition torch_done :: "nat \<Rightarrow> engine \<Rightarrow> cell \<Rightarrow> bool" where
  "torch_done f e p \<longleftrightarrow> torch_power f e p (block_of e p) \<noteq> None"

lemma best_of_None: "best_of f best ps = None \<longleftrightarrow> (\<exists>p \<in> set ps. f p = None)"
proof (induction f best ps rule: best_of.induct)
  case (2 f best p ps)
  show ?case
  proof (cases "f p")
    case (Some v)
    then show ?thesis using "2.IH" [OF Some] by simp
  qed simp
qed simp

lemma bind_None: "Option.bind m f = None \<longleftrightarrow> m = None \<or> f (the m) = None"
  by (cases m) simp_all

lemma received_None: "powerReceivedExcluding f e s p = None \<longleftrightarrow> (\<exists>q \<in> set (neighbors6 s). q \<noteq> p \<and> powerFromSource f e q (block_of e q) = None)"
  by (auto simp: powerReceivedExcluding.simps best_of_None bind_None)

lemma torch_done_Suc:
  assumes "torch_at e p"
  shows "torch_done (Suc f) e p \<longleftrightarrow> (\<forall>q. (q, p) \<in> watched e \<longrightarrow> torch_done f e q)"
  using assms by (auto simp: torch_done_def torch_at_def watched_def bind_None received_None powerFromSource.simps)

lemma torch_done_mono: "torch_done f e p \<Longrightarrow> torch_at e p \<Longrightarrow> f \<le> g \<Longrightarrow> torch_done g e p"
proof (induction f arbitrary: p g)
  case (Suc f)
  then obtain h where g: "g = Suc h" "f \<le> h" by (cases g) auto
  have "torch_done h e q" if "(q, p) \<in> watched e" for q
    using Suc.IH [of q h] that Suc.prems(1,2) g(2) by (auto simp: torch_done_Suc torch_at_def watched_def)
  then show ?case using Suc.prems(2) g(1) by (simp add: torch_done_Suc)
qed (simp add: torch_done_def)

lemma finite_watched: "finite {q. (q, p) \<in> watched e}"
  by (rule finite_subset [of _ "set (neighbors6 (torch_support p (block_of e p)))"]) (auto simp: watched_def)

lemma torch_done_acc: "torch_done f e p \<Longrightarrow> torch_at e p \<Longrightarrow> p \<in> Wellfounded.acc (watched e)"
proof (induction f arbitrary: p)
  case (Suc f)
  show ?case by (rule accI) (use Suc in \<open>auto simp: torch_done_Suc torch_at_def watched_def\<close>)
qed (simp add: torch_done_def)

lemma common_fuel:
  assumes "finite A" "\<And>q. q \<in> A \<Longrightarrow> torch_at e q \<and> (\<exists>f. torch_done f e q)"
  shows "\<exists>f. \<forall>q \<in> A. torch_done f e q"
  using assms
proof (induction A)
  case (insert a A)
  then obtain f g where f: "\<forall>q \<in> A. torch_done f e q" and g: "torch_done g e a" by blast
  have "torch_done (max f g) e q" if "q \<in> insert a A" for q
    using that f g insert.prems torch_done_mono [of f e q "max f g"] torch_done_mono [of g e q "max f g"] by auto
  then show ?case by blast
qed simp

lemma acc_torch_done: "p \<in> Wellfounded.acc (watched e) \<Longrightarrow> torch_at e p \<Longrightarrow> \<exists>f. torch_done f e p"
proof (induction rule: acc.induct)
  case (accI p)
  have "\<exists>f. \<forall>q \<in> {q. (q, p) \<in> watched e}. torch_done f e q"
    by (rule common_fuel [OF finite_watched]) (use accI.IH in \<open>auto simp: watched_def torch_at_def\<close>)
  then show ?case using accI.prems torch_done_Suc by blast
qed

text \<open>Every other computation returns when those of the torches do.\<close>

definition torches_done :: "nat \<Rightarrow> engine \<Rightarrow> bool" where
  "torches_done f e \<longleftrightarrow> (\<forall>p. torch_at e p \<longrightarrow> torch_done f e p)"

lemma source_done: "torches_done f e \<Longrightarrow> powerFromSource f e p (block_of e p) \<noteq> None"
  by (auto simp: torches_done_def torch_at_def torch_done_def powerFromSource.simps)

lemma toward_done: "torches_done f e \<Longrightarrow> powerFromSourceToward f e p (block_of e p) t \<noteq> None"
  using source_done by (auto simp: powerFromSourceToward_def Let_def)

lemma strong_done: "torches_done f e \<Longrightarrow> strongPowerThroughBlock f e p t \<noteq> None"
  using toward_done by (auto simp: strongPowerThroughBlock_def Let_def best_of_None bind_None)

lemma input_done: "torches_done f e \<Longrightarrow> inputPowerAt f e p t \<noteq> None"
  using toward_done strong_done by (auto simp: inputPowerAt_def Let_def bind_None)

lemma any_powered_done: "torches_done f e \<Longrightarrow> any_powered f e p nbs \<noteq> None"
  using toward_done by (induction nbs) (auto simp: Let_def bind_None)

lemma rail_search_done: "torches_done f e \<Longrightarrow> rail_search f e rail queue visited \<noteq> None"
proof (induction f e rail queue visited rule: rail_search.induct)
  case (2 f e rail p d queue visited)
  show ?case using "2.IH" "2.prems" any_powered_done [OF "2.prems"] by (auto split: option.splits bool.splits)
qed simp

lemma compute_done:
  assumes "torches_done f e"
  shows "computePower f e p (block_of e p) \<noteq> None"
proof -
  have "wire_power f e p \<noteq> None"
    using toward_done [OF assms] strong_done [OF assms]
    by (auto simp: wire_power_def wire_input_def wire_step_def Let_def bind_None best_of_None split: prod.splits)
  moreover have "repeater_power f e p (block_of e p) \<noteq> None"
    using toward_done [OF assms] by (auto simp: repeater_power_def Let_def bind_None split: prod.splits)
  moreover have "comparator_power f e p (block_of e p) \<noteq> None"
    using input_done [OF assms] by (auto simp: comparator_power_def Let_def bind_None split: prod.splits)
  moreover have "best_of (other_input f e p (block_of e p)) 0 (neighbors6 p) \<noteq> None"
    using toward_done [OF assms] strong_done [OF assms] by (auto simp: other_input_def Let_def bind_None best_of_None)
  moreover have "railNetworkPowered f e p rail \<noteq> None" for rail
    using rail_search_done [OF assms] by (simp add: railNetworkPowered_def del: rail_search.simps)
  moreover have "torch_at e p \<Longrightarrow> torch_power f e p (block_of e p) \<noteq> None"
    using assms by (simp add: torches_done_def torch_done_def)
  ultimately show ?thesis
    using source_done [OF assms] by (auto simp: computePower_def Let_def bind_None torch_at_def)
qed

lemma torch_computes: "torch_at e p \<Longrightarrow> computePower f e p (block_of e p) \<noteq> None \<longleftrightarrow> torch_done f e p"
  by (auto simp: computePower_def Let_def torch_done_def torch_at_def is_torch_def)

lemma same_parts_watched: "same_parts e e' \<Longrightarrow> watched e' = watched e"
  by (auto simp: same_parts_def watched_def torch_support_def split: prod.splits)

lemma same_parts_torch: "same_parts e e' \<Longrightarrow> torch_at e' p = torch_at e p"
  by (simp add: same_parts_def torch_at_def)

lemma same_parts_torch_done: "same_parts e e' \<Longrightarrow> torch_at e p \<Longrightarrow> torch_done f e' p = torch_done f e p"
proof (induction f arbitrary: p)
  case (Suc f)
  have "torch_done f e' q = torch_done f e q" if "(q, p) \<in> watched e" for q
    using Suc.IH [OF Suc.prems(1)] that by (auto simp: watched_def torch_at_def)
  then show ?case
    using Suc.prems by (auto simp: torch_done_Suc same_parts_torch same_parts_watched)
qed (simp add: torch_done_def)

lemma same_parts_torches: "same_parts e e' \<Longrightarrow> torches_done f e \<Longrightarrow> torches_done f e'"
  by (simp add: torches_done_def same_parts_torch same_parts_torch_done)

lemma flush_loop_done: "torches_done f e \<Longrightarrow> flush_loop f n queue e r \<noteq> None"
proof (induction f n queue e r rule: flush_loop.induct)
  case (3 f n p queue e r)
  have "flush_step f p e r \<noteq> None" using compute_done [OF "3.prems", of p] by (simp add: flush_step_def bind_None)
  then obtain st where s: "flush_step f p e r = Some st" unfolding not_None_eq by blast
  obtain q1 e1 r1 where st: "st = (q1, e1, r1)" by (rule prod_cases3)
  have "torches_done f e1" using flush_step_parts [of f p e r q1 e1 r1] s st "3.prems" same_parts_torches by blast
  then show ?case using "3.IH" [OF s st [symmetric] refl] s st by simp
qed simp_all

text \<open>C23: The evaluation of a torch returns exactly when the torches it depends on, through the blocks they
  sit on, form no endless chain; a chain that comes back to itself makes the engine recurse forever.\<close>

theorem torches_return:
  assumes "is_torch (ResourceLocation (block_of e p))"
  shows "(\<exists>f v. computePower f e p (block_of e p) = Some v) \<longleftrightarrow> p \<in> Wellfounded.acc (watched e)"
proof -
  have t: "torch_at e p" using assms by (simp add: torch_at_def)
  have "(\<exists>f v. computePower f e p (block_of e p) = Some v) \<longleftrightarrow> (\<exists>f. torch_done f e p)"
    using torch_computes [OF t] by (metis not_Some_eq)
  also have "\<dots> \<longleftrightarrow> p \<in> Wellfounded.acc (watched e)" using torch_done_acc [OF _ t] acc_torch_done [OF _ t] by blast
  finally show ?thesis .
qed

lemma torch_pair_never_returns:
  assumes "torch_at e p" "torch_at e q" "p \<noteq> q"
    and "q \<in> set (neighbors6 (torch_support p (block_of e p)))" "p \<in> set (neighbors6 (torch_support q (block_of e q)))"
  shows "computePower f e p (block_of e p) = None"
proof -
  have w: "(q, p) \<in> watched e" "(p, q) \<in> watched e" using assms by (auto simp: watched_def torch_at_def)
  have "\<not> torch_done f e p \<and> \<not> torch_done f e q"
  proof (induction f)
    case (Suc f)
    then show ?case using assms(1,2) w torch_done_Suc by blast
  qed (simp add: torch_done_def)
  then show ?thesis using torch_computes [OF assms(1)] by blast
qed

text \<open>C24: A flush returns: with finitely many torches, none of which depends on itself through other torches,
  there is a fuel with which \<open>FlushUpdates\<close> gives a result.\<close>

theorem flush_returns:
  assumes "finite {p. is_torch (ResourceLocation (block_of e p))}" "acyclic (watched e)"
  shows "\<exists>f e' r. FlushUpdates f e = Some (e', r)"
proof -
  let ?T = "{p. is_torch (ResourceLocation (block_of e p))}"
  have "finite (watched e)" by (rule finite_subset [of _ "?T \<times> ?T"]) (use assms(1) in \<open>auto simp: watched_def\<close>)
  then have "wf (watched e)" using assms(2) by (rule finite_acyclic_wf)
  then have a: "p \<in> Wellfounded.acc (watched e)" for p by (rule acc_wfD)
  have "\<exists>f. \<forall>q \<in> ?T. torch_done f e q"
    by (rule common_fuel [OF assms(1)]) (use acc_torch_done [OF a] in \<open>auto simp: torch_at_def\<close>)
  then obtain f where f: "torches_done f e" by (auto simp: torches_done_def torch_at_def)
  have "same_parts e (e\<lparr>Dirty := []\<rparr>)" by (simp add: same_parts_def)
  then have "torches_done f (e\<lparr>Dirty := []\<rparr>)" using f same_parts_torches by blast
  then have "FlushUpdates f e \<noteq> None" using flush_loop_done by (auto simp: FlushUpdates_def Let_def)
  then show ?thesis by (metis not_Some_eq surj_pair)
qed

section \<open>Powers stay between 0 and 15\<close>

definition level_ok :: "int \<Rightarrow> bool" where
  "level_ok v \<longleftrightarrow> 0 \<le> v \<and> v \<le> 15"

text \<open>Block states and block entities whose declared levels are those of the vanilla block states.\<close>

definition signal_ok :: "block \<Rightarrow> bool" where
  "signal_ok b \<longleftrightarrow>
     (let name = ResourceLocation b
      in (name \<in> {''minecraft:daylight_detector'', ''minecraft:inverted_daylight_detector'', ''minecraft:target'',
            ''minecraft:sculk_sensor'', ''minecraft:calibrated_sculk_sensor''} \<or> has_suffix name ''_pressure_plate'' \<longrightarrow>
            level_ok (atoi (get_prop b ''power''))) \<and>
         (name \<in> {''minecraft:composter'', ''minecraft:water_cauldron'', ''minecraft:powder_snow_cauldron''} \<longrightarrow>
            level_ok (atoi (get_prop b ''level''))) \<and>
         (name = ''minecraft:cake'' \<longrightarrow> 0 \<le> atoi (get_prop b ''bites'')) \<and>
         (name = ''minecraft:respawn_anchor'' \<longrightarrow> atoi (get_prop b ''charges'') \<le> 4))"

definition entity_ok :: "string \<Rightarrow> block_entity \<Rightarrow> bool" where
  "entity_ok name be \<longleftrightarrow>
     (name = ''minecraft:chiseled_bookshelf'' \<longrightarrow> level_ok (LastBookshelfSlot be)) \<and>
     (redstoneContainerSlots name \<noteq> 0 \<longrightarrow>
        int (length (filter (\<lambda>i. \<not> Count i \<le> 0) (Items be))) \<le> redstoneContainerSlots name)"

definition signals_ok :: "engine \<Rightarrow> bool" where
  "signals_ok e \<longleftrightarrow> (\<forall>p. signal_ok (block_of e p) \<and> entity_ok (ResourceLocation (block_of e p)) (Entities e p))"

definition powers_ok :: "engine \<Rightarrow> bool" where
  "powers_ok e \<longleftrightarrow> (\<forall>p v. Power e p = Some v \<longrightarrow> 0 < v \<and> v \<le> 15)"

lemma powers_okD: "powers_ok e \<Longrightarrow> Power e p = Some v \<Longrightarrow> 0 < v \<and> v \<le> 15"
  by (simp add: powers_ok_def)

lemma PowerAt_ok: "powers_ok e \<Longrightarrow> level_ok (PowerAt e p)"
  by (auto simp: PowerAt_def level_ok_def dest: powers_okD split: option.splits)

lemma level_ok_simps [simp]: "level_ok 0" "level_ok 1" "level_ok 3" "level_ok 15"
  by (simp_all add: level_ok_def)

lemma steady_ok: "signal_ok b \<Longrightarrow> powers_ok e \<Longrightarrow> level_ok (steady_source e p b)"
  using PowerAt_ok [of e p] by (auto simp: steady_source_def Let_def signal_ok_def)

lemma best_of_le:
  "best_of f best ps = Some v \<Longrightarrow> best \<le> (m :: int) \<Longrightarrow> (\<And>p w. p \<in> set ps \<Longrightarrow> f p = Some w \<Longrightarrow> w \<le> m) \<Longrightarrow> v \<le> m"
proof (induction f best ps rule: best_of.induct)
  case (2 f best p ps)
  obtain y where y: "f p = Some y" "best_of f (if y > best then y else best) ps = Some v"
    using "2.prems"(1) by (auto simp: bind_eq_Some_conv)
  have "y \<le> m" using "2.prems"(3) [of p y] y(1) by simp
  then show ?case using "2.IH" [OF y] "2.prems"(2,3) by (cases "y > best") auto
qed simp

lemma best_of_ok:
  assumes "best_of f best ps = Some v" "level_ok best" "\<And>p w. p \<in> set ps \<Longrightarrow> f p = Some w \<Longrightarrow> w \<le> 15"
  shows "level_ok v"
  using best_of_ge [OF assms(1)] best_of_le [OF assms(1), of 15] assms(2,3) by (auto simp: level_ok_def)

lemma torch_power_ok: "torch_power f e p b = Some v \<Longrightarrow> level_ok v"
  by (cases f) (auto simp: bind_eq_Some_conv)

lemma from_source_ok: "powerFromSource f e p b = Some v \<Longrightarrow> signal_ok b \<Longrightarrow> powers_ok e \<Longrightarrow> level_ok v"
  by (auto simp: powerFromSource.simps torch_power_ok steady_ok split: if_splits)

lemma toward_ok: "powerFromSourceToward f e p b t = Some v \<Longrightarrow> signal_ok b \<Longrightarrow> powers_ok e \<Longrightarrow> level_ok v"
  by (auto simp: powerFromSourceToward_def Let_def from_source_ok split: if_splits)

lemma conductor_ok: "powers_ok e \<Longrightarrow> level_ok (powerFromConductorToward e p b t)"
  by (simp add: powerFromConductorToward_def PowerAt_ok)

lemma signals_okD: "signals_ok e \<Longrightarrow> signal_ok (block_of e p)" "signals_ok e \<Longrightarrow> entity_ok (ResourceLocation (block_of e p)) (Entities e p)"
  by (simp_all add: signals_ok_def)

lemma strong_ok:
  assumes "strongPowerThroughBlock f e p t = Some v" "signals_ok e" "powers_ok e"
  shows "level_ok v"
  by (rule best_of_ok [OF assms(1) [unfolded strongPowerThroughBlock_def]])
    (use toward_ok PowerAt_ok signals_okD assms(2,3) in \<open>fastforce simp: Let_def bind_eq_Some_conv level_ok_def split: if_splits\<close>)+

lemma input_ok:
  assumes "inputPowerAt f e p t = Some v" "signals_ok e" "powers_ok e"
  shows "level_ok v"
  using assms toward_ok [of f e p "block_of e p" t] strong_ok [of f e p t] conductor_ok [OF assms(3), of p "block_of e p" t] signals_okD(1) [OF assms(2), of p]
  by (auto simp: inputPowerAt_def Let_def bind_eq_Some_conv split: if_splits)

lemma container_signal_ok:
  assumes "0 < slots" "int (length (filter (\<lambda>i. \<not> Count i \<le> 0) items)) \<le> slots"
  shows "level_ok (container_signal slots items)"
proof -
  let ?p = "filter (\<lambda>i. \<not> Count i \<le> 0) items"
  have "0 \<le> sum_list (map (\<lambda>i. min (Count i) 64) xs) \<and> sum_list (map (\<lambda>i. min (Count i) 64) xs) \<le> 64 * int (length xs)"
    if "\<forall>i \<in> set xs. 0 < Count i" for xs :: "container_item list"
    using that by (induction xs) auto
  from this [of ?p] have s: "0 \<le> sum_list (map (\<lambda>i. min (Count i) 64) ?p)"
      "sum_list (map (\<lambda>i. min (Count i) 64) ?p) \<le> 64 * int (length ?p)" by auto
  then have "sum_list (map (\<lambda>i. min (Count i) 64) ?p) * 14 div (64 * slots) \<le> (64 * slots) * 14 div (64 * slots)"
    using assms by (intro zdiv_mono1) auto
  then show ?thesis using s(1) assms(1) by (simp add: container_signal_def Let_def level_ok_def pos_imp_zdiv_nonneg_iff)
qed

lemma lectern_signal_ok:
  assumes "1 < n"
  shows "level_ok (1 + min (max page 0) (n - 1) * 14 div (n - 1))"
proof -
  have "min (max page 0) (n - 1) * 14 div (n - 1) \<le> (n - 1) * 14 div (n - 1)"
    by (rule zdiv_mono1, rule mult_right_mono) (use assms in auto)
  moreover have "(n - 1) * 14 div (n - 1) = 14" using assms by (intro nonzero_mult_div_cancel_left) simp
  moreover have "0 \<le> min (max page 0) (n - 1) * 14 div (n - 1)" using assms by (simp add: pos_imp_zdiv_nonneg_iff)
  ultimately show ?thesis unfolding level_ok_def by linarith
qed

lemma disc_signal_ok: "level_ok (JukeboxComparatorSignal disc)"
proof -
  have "list_all (\<lambda>(d, v). level_ok v) musicDiscSignal" by (simp add: musicDiscSignal_def level_ok_def)
  then show ?thesis by (auto simp: JukeboxComparatorSignal_def list_all_iff dest!: map_of_SomeD split: option.splits)
qed

lemma cake_signal_ok: "0 \<le> v \<Longrightarrow> level_ok (14 - min v 6 * 2)"
  by (simp add: level_ok_def min_def)

lemma level_ok_if: "(c \<Longrightarrow> level_ok a) \<Longrightarrow> (\<not> c \<Longrightarrow> level_ok b) \<Longrightarrow> level_ok (if c then a else b)"
  by simp

lemma analog_ok:
  assumes "signals_ok e"
  shows "level_ok (analogOutputAt e p)"
proof -
  let ?b = "block_of e p" and ?be = "Entities e p"
  have slots: "0 \<le> redstoneContainerSlots name" for name by (simp add: redstoneContainerSlots_def)
  have c: "level_ok (container_signal (redstoneContainerSlots (ResourceLocation ?b)) (Items ?be))"
    if "redstoneContainerSlots (ResourceLocation ?b) \<noteq> 0"
    by (rule container_signal_ok) (use that signals_okD(2) [OF assms, of p] slots [of "ResourceLocation ?b"] in \<open>auto simp: entity_ok_def\<close>)
  have s: "ResourceLocation ?b \<in> {''minecraft:composter'', ''minecraft:water_cauldron'', ''minecraft:powder_snow_cauldron''} \<Longrightarrow>
        level_ok (atoi (get_prop ?b ''level''))"
      "ResourceLocation ?b = ''minecraft:cake'' \<Longrightarrow> 0 \<le> atoi (get_prop ?b ''bites'')"
      "ResourceLocation ?b = ''minecraft:respawn_anchor'' \<Longrightarrow> atoi (get_prop ?b ''charges'') \<le> 4"
      "ResourceLocation ?b = ''minecraft:chiseled_bookshelf'' \<Longrightarrow> level_ok (LastBookshelfSlot ?be)"
    using signals_okD [OF assms, of p] by (auto simp: signal_ok_def Let_def entity_ok_def)
  show ?thesis
    unfolding analogOutputAt_def Let_def
    by (intro level_ok_if)
      (simp_all add: s c disc_signal_ok lectern_signal_ok cake_signal_ok, (use s(3) in \<open>simp add: level_ok_def\<close>))
qed

lemma level_okD: "level_ok v \<Longrightarrow> v \<le> 15"
  by (simp add: level_ok_def)

lemma level_ok_max: "level_ok a \<Longrightarrow> level_ok b \<Longrightarrow> level_ok (max a b)"
  by (auto simp: level_ok_def)

lemma comparator_level_ok: "level_ok m \<Longrightarrow> level_ok l \<Longrightarrow> level_ok r \<Longrightarrow> level_ok (comparator_level sub m l r)"
  by (simp add: comparator_level_def Let_def level_ok_def)

lemma comparator_main_ok: "level_ok i \<Longrightarrow> signals_ok e \<Longrightarrow> level_ok (comparator_main e p d i)"
  by (cases p; cases d) (simp add: comparator_main_def Let_def level_ok_max analog_ok)

lemma comparator_ok:
  assumes "comparator_power f e p b = Some w" "signals_ok e" "powers_ok e"
  shows "level_ok w"
proof -
  obtain x y z where p: "p = (x, y, z)" by (rule prod_cases3)
  obtain dx dz where d: "redstoneFacingOffset (get_prop b ''facing'') = (dx, dz)" by (rule prod.exhaust)
  obtain i l r where i: "inputPowerAt f e (x + dx, y, z + dz) p = Some i" "inputPowerAt f e (x - dz, y, z + dx) p = Some l"
      "inputPowerAt f e (x + dz, y, z - dx) p = Some r"
    and w: "w = comparator_level (get_prop b ''mode'' = ''subtract'') (comparator_main e p (dx, dz) i) l r"
    using assms(1) unfolding comparator_power_def p by (auto simp: bind_eq_Some_conv d)
  show ?thesis
    unfolding w by (intro comparator_level_ok comparator_main_ok assms(2) input_ok [OF i(1) assms(2,3)]
      input_ok [OF i(2) assms(2,3)] input_ok [OF i(3) assms(2,3)])
qed

lemma compute_ok:
  assumes "computePower f e p (block_of e p) = Some v" "signals_ok e" "powers_ok e"
  shows "level_ok v"
proof -
  note toward = toward_ok [OF _ signals_okD(1) [OF assms(2)] assms(3)] and strong = strong_ok [OF _ assms(2,3)]
    and conductor = conductor_ok [OF assms(3)] and power = PowerAt_ok [OF assms(3)]
  have wire_in: "w \<le> 15" if "wire_input f e p nb = Some w" for nb w
    using that level_okD [OF power [of nb]] level_okD [OF toward, of f nb nb p w] level_okD [OF strong, of f nb p w]
      level_okD [OF conductor, of nb "block_of e nb" p]
    by (auto simp: wire_input_def Let_def split: if_splits)
  have step_in: "w \<le> 15" if "wire_step e p d = Some w" for d w
    using that power by (auto simp: wire_step_def Let_def level_ok_def split: if_splits prod.splits) (smt (verit))+
  have wire: "level_ok w" if "wire_power f e p = Some w" for w
  proof -
    obtain best where b: "best_of (wire_input f e p) 0 (neighbors6 p) = Some best"
        and w: "best_of (wire_step e p) best [(0, - 1), (0, 1), (- 1, 0), (1, 0)] = Some w"
      using \<open>wire_power f e p = Some w\<close> unfolding wire_power_def bind_eq_Some_conv by blast
    have "level_ok best" by (rule best_of_ok [OF b]) (use wire_in in auto)
    then show ?thesis by (rule best_of_ok [OF w]) (use step_in in auto)
  qed
  have other: "level_ok w" if "best_of (other_input f e p (block_of e p)) 0 (neighbors6 p) = Some w" for w
  proof (rule best_of_ok [OF that])
    fix nb w
    assume "other_input f e p (block_of e p) nb = Some w"
    then show "w \<le> 15"
      using level_okD [OF toward, of f nb nb p w] level_okD [OF strong, of f nb p w] level_okD [OF conductor, of nb "block_of e nb" p]
      by (auto simp: other_input_def Let_def split: if_splits)
  qed simp
  have comparator: "level_ok w" if "comparator_power f e p (block_of e p) = Some w" for w
    by (rule comparator_ok [OF that assms(2,3)])
  have repeater: "level_ok w" if "repeater_power f e p (block_of e p) = Some w" for w
    using that by (auto simp: repeater_power_def Let_def bind_eq_Some_conv split: if_splits prod.splits)
  show ?thesis
    using assms(1) torch_power_ok from_source_ok [OF _ signals_okD(1) [OF assms(2)] assms(3), of f p p v] wire other comparator repeater
    by (auto simp: computePower_def Let_def bind_eq_Some_conv split: if_splits)
qed

lemma suffix_last: "has_suffix s p \<Longrightarrow> p \<noteq> [] \<Longrightarrow> last s = last p"
  by (auto simp: has_suffix_iff)

lemma door_signal: "is_door b \<Longrightarrow> signal_ok b"
proof -
  assume d: "is_door b"
  then have "\<not> has_suffix (ResourceLocation b) ''_pressure_plate''"
    using suffix_last [of "ResourceLocation b" "''_door''"] suffix_last [of "ResourceLocation b" "''_pressure_plate''"]
    by (auto simp: is_door_def)
  then show "signal_ok b" using d by (auto simp: signal_ok_def Let_def is_door_def has_suffix_def)
qed

lemma signal_ok_with:
  "{''power'', ''level'', ''bites'', ''charges''} \<inter> fst ` set kvs = {} \<Longrightarrow> signal_ok (redstoneBlockWith b kvs) = signal_ok b"
  by (simp add: signal_ok_def get_prop_with_other)

lemma signal_ok_fixed:
  "signal_ok \<lparr>Namespace = ''minecraft'', Name = ''redstone_lamp'', Properties = ps\<rparr>"
  "signal_ok \<lparr>Namespace = ''minecraft'', Name = ''redstone_wire'', Properties = ps\<rparr>"
  "signal_ok \<lparr>Namespace = ''minecraft'', Name = ''repeater'', Properties = ps\<rparr>"
  by (simp_all add: signal_ok_def ResourceLocation_def has_suffix_def)

lemma powered_block_signal: "powered_block e p b on = Some b' \<Longrightarrow> signal_ok b \<Longrightarrow> signal_ok b'"
  by (auto simp: powered_block_def Let_def unless_equal_Some signal_ok_with signal_ok_fixed split: if_splits)

lemma apply_signals:
  assumes "applyPowerState p (block_of e p) on e = (change, e')" "signals_ok e"
  shows "signals_ok e'"
proof -
  note parts = applyPowerState_parts [OF assms(1)]
  have "signal_ok (block_of e' q)" for q
  proof (cases "is_door (block_of e q)")
    case True
    then show ?thesis using same_parts_door [OF parts(1)] door_signal by blast
  next
    case False
    have "signal_ok b'" if "change = Some (q, b')" for b'
    proof -
      have "q = p \<and> powered_block e p (block_of e p) on = Some b'"
        using assms(1) that by (auto simp: applyPowerState_def Let_def split: option.splits)
      then show ?thesis using powered_block_signal signals_okD(1) [OF assms(2)] by blast
    qed
    then show ?thesis
      using parts(4) [OF False] signals_okD(1) [OF assms(2), of q] by (auto simp: changed_at_def split: option.splits)
  qed
  then show ?thesis using parts(1) assms(2) by (simp add: signals_ok_def same_parts_def)
qed

lemma signals_ok_power [simp]: "signals_ok (e\<lparr>Power := v\<rparr>) = signals_ok e"
  by (simp add: signals_ok_def)

lemma flush_step_ok:
  assumes "flush_step f p e r = Some (queue, e', r')" "signals_ok e" "powers_ok e"
  shows "signals_ok e' \<and> powers_ok e'"
proof -
  obtain pw where pw: "computePower f e p (block_of e p) = Some pw" using assms(1) by (auto simp: flush_step_def bind_eq_Some_conv)
  have ok: "level_ok pw" by (rule compute_ok [OF pw assms(2,3)])
  show ?thesis
  proof (cases "pw = PowerAt e p")
    case False
    let ?e1 = "e\<lparr>Power := (Power e)(p := if pw = 0 then None else Some pw)\<rparr>"
    obtain ch e2 where a: "applyPowerState p (block_of e p) (pw > 0) ?e1 = (ch, e2)" by (rule prod.exhaust)
    then have a': "applyPowerState p (block_of ?e1 p) (pw > 0) ?e1 = (ch, e2)" by simp
    have "e' = e2" using assms(1) False by (auto simp: flush_step_def pw transition_def Let_def a)
    moreover have "powers_ok ?e1" using assms(3) ok by (auto simp: powers_ok_def level_ok_def)
    then have "powers_ok e2" using applyPowerState_parts(2) [OF a'] by (simp add: powers_ok_def)
    ultimately show ?thesis using apply_signals [OF a'] assms(2) by simp
  next
    case True
    obtain ch e2 where a: "applyPowerState p (block_of e p) (PowerAt e p > 0) e = (ch, e2)" by (rule prod.exhaust)
    have t: "\<not> (is_torch (ResourceLocation (block_of e p)) \<and> ResourceLocation (block_of e p) = ''minecraft:repeater'')"
      by (auto simp: is_torch_def)
    have "e' = e \<or> e' = e2"
      using assms(1) True t by (auto simp: flush_step_def pw reconcile_def Let_def a split: if_splits)
    then show ?thesis
      using apply_signals [OF a assms(2)] applyPowerState_parts(2) [OF a] assms(2,3) by (auto simp: powers_ok_def)
  qed
qed

lemma flush_loop_bounded:
  "flush_loop f n queue e r = Some (e', r') \<Longrightarrow> signals_ok e \<Longrightarrow> powers_ok e \<Longrightarrow> signals_ok e' \<and> powers_ok e'"
proof (induction f n queue e r rule: flush_loop.induct)
  case (3 f n p queue e r)
  obtain q1 e1 r1 where s: "flush_step f p e r = Some (q1, e1, r1)" and l: "flush_loop f n (queue @ q1) e1 r1 = Some (e', r')"
    using "3.prems"(1) by (auto simp: bind_eq_Some_conv)
  show ?case using "3.IH" [OF s refl refl l] flush_step_ok [OF s "3.prems"(2,3)] by blast
qed simp_all

text \<open>Signal strengths stay in their range: when the levels that block states and block entities declare
  are those of the game, every power the engine holds after a flush, and every power it computes
  then, lies between 0 and 15.\<close>

theorem redstone_power_bounded:
  assumes "FlushUpdates f e = Some (e', r)" "signals_ok e" "powers_ok e"
  shows "signals_ok e' \<and> powers_ok e' \<and> (\<forall>p. 0 \<le> PowerAt e' p \<and> PowerAt e' p \<le> 15) \<and>
    (\<forall>p v. computePower f e' p (block_of e' p) = Some v \<longrightarrow> 0 \<le> v \<and> v \<le> 15)"
proof -
  have ok: "signals_ok e' \<and> powers_ok e'"
    using assms(1)
  proof (cases rule: flush_cases)
    case 2
    then show ?thesis by (rule flush_loop_bounded) (use assms(2,3) in \<open>simp_all add: signals_ok_def powers_ok_def\<close>)
  qed (use assms(2,3) in simp)
  then show ?thesis using PowerAt_ok compute_ok by (auto simp: level_ok_def)
qed

section \<open>A lamp that goes out\<close>

definition lamp :: block where
  "lamp = \<lparr>Namespace = ''minecraft'', Name = ''redstone_lamp'', Properties = [(''lit'', ''true'')]\<rparr>"

definition no_entity :: block_entity where
  "no_entity = \<lparr>EntityX = 0, EntityY = 0, EntityZ = 0, EntityType = [], EntityData = [], Items = [],
     LastBookshelfSlot = 0, LecternPage = 0, LecternPages = 0\<rparr>"

definition lamp_world :: engine where
  "lamp_world = \<lparr>Cells = (\<lambda>_. Air)((0, 64, 0) := lamp), Entities = (\<lambda>_. no_entity), Power = [(0, 64, 0) \<mapsto> 15], Dirty = [(0, 64, 0)]\<rparr>"

definition dark_world :: engine where
  "dark_world = \<lparr>Cells = (\<lambda>_. Air)((0, 64, 0) := lamp\<lparr>Properties := [(''lit'', ''false'')]\<rparr>),
     Entities = (\<lambda>_. no_entity), Power = Map.empty, Dirty = []\<rparr>"

definition lamp_result :: flush_result where
  "lamp_result = \<lparr>Changes = [((0, 64, 0), lamp\<lparr>Properties := [(''lit'', ''false'')]\<rparr>)], PoweredLoads = [], UnpoweredLoads = [(0, 64, 0)]\<rparr>"

definition only_lamps :: "engine \<Rightarrow> bool" where
  "only_lamps e \<longleftrightarrow> (\<forall>p. block_of e p = Air \<or> ResourceLocation (block_of e p) = ''minecraft:redstone_lamp'')"

lemma Air_name: "ResourceLocation Air = ''minecraft:air''"
  by (simp add: Air_def ResourceLocation_def)

lemma only_lamps_names: "only_lamps e \<Longrightarrow> ResourceLocation (block_of e p) \<in> {''minecraft:air'', ''minecraft:redstone_lamp''}"
  unfolding only_lamps_def by (metis Air_name insertCI)

lemma best_of_zero: "(\<And>p. p \<in> set ps \<Longrightarrow> f p = Some 0) \<Longrightarrow> best_of f 0 ps = Some 0"
  by (induction ps) auto

lemma only_lamps_power:
  assumes "only_lamps e"
  shows "computePower f e p (block_of e p) = Some 0"
proof -
  have names: "ResourceLocation (block_of e q) = ''minecraft:air'' \<and> IsAir (block_of e q) \<or>
      ResourceLocation (block_of e q) = ''minecraft:redstone_lamp''" for q
    using assms unfolding only_lamps_def by (metis Air_name IsAir_Air)
  have parts: "\<not> IsRedstoneSource (ResourceLocation (block_of e q))" "\<not> IsRedstoneConductor (ResourceLocation (block_of e q))"
      "\<not> isRedstonePowerConductor (block_of e q)" for q
    using names [of q]
    by (auto simp: IsRedstoneSource_def IsRedstoneConductor_def isRedstonePowerConductor_def Let_def has_suffix_def IsRedstoneLoad_def)
  have "other_input f e p (block_of e p) q = Some 0" for q by (simp add: other_input_def Let_def parts)
  then have "best_of (other_input f e p (block_of e p)) 0 (neighbors6 p) = Some 0" by (simp add: best_of_zero)
  then show ?thesis using names [of p] by (auto simp: computePower_def Let_def is_torch_def)
qed

lemma flush_loop_quiet: "(\<And>p. p \<in> set queue \<Longrightarrow> flush_step f p e r = Some ([], e, r)) \<Longrightarrow> flush_loop f n queue e r = Some (e, r)"
proof (induction queue arbitrary: n)
  case Nil
  then show ?case by (cases n) simp_all
next
  case (Cons p queue)
  then show ?case by (cases n) simp_all
qed

lemma lamp_worlds: "only_lamps lamp_world" "only_lamps (lamp_world\<lparr>Dirty := ds\<rparr>)" "only_lamps dark_world"
  by (simp_all add: only_lamps_def lamp_world_def dark_world_def block_of_def lamp_def ResourceLocation_def)

lemma lamp_first: "flush_step f (0, 64, 0) (lamp_world\<lparr>Dirty := []\<rparr>) \<lparr>Changes = [], PoweredLoads = [], UnpoweredLoads = []\<rparr> =
    Some (neighbors6 (0, 64, 0), dark_world, lamp_result)"
proof -
  have b: "block_of lamp_world (0, 64, 0) = lamp"
    by (simp add: lamp_world_def block_of_def in_height_def WorldMinY_def WorldMaxY_def)
  have p: "PowerAt (lamp_world\<lparr>Dirty := []\<rparr>) (0, 64, 0) = 15" by (simp add: lamp_world_def PowerAt_def)
  have n: "ResourceLocation lamp = ''minecraft:redstone_lamp''" by (simp add: lamp_def ResourceLocation_def)
  have pb: "powered_block e (0, 64, 0) lamp False = Some (lamp\<lparr>Properties := [(''lit'', ''false'')]\<rparr>)" for e
    by (simp add: powered_block_def Let_def n has_suffix_def boolStr_def) (simp add: lamp_def)
  have l: "IsRedstoneLoad ''minecraft:redstone_lamp''" "\<not> is_door lamp"
    by (simp_all add: IsRedstoneLoad_def is_door_def n has_suffix_def)
  show ?thesis
    using only_lamps_power [OF lamp_worlds(2) [of "[]"], of f "(0, 64, 0)"]
    by (simp add: flush_step_def b p transition_def Let_def applyPowerState_def pb n l add_change_def)
      (simp add: lamp_world_def dark_world_def lamp_result_def set_cell_def in_height_def WorldMinY_def WorldMaxY_def)
qed

lemma dark_quiet: "flush_step f p dark_world r = Some ([], dark_world, r)"
proof -
  have "PowerAt dark_world p = 0" by (simp add: dark_world_def PowerAt_def)
  moreover have "\<not> is_torch (ResourceLocation (block_of dark_world p))" "ResourceLocation (block_of dark_world p) \<noteq> ''minecraft:repeater''"
    using only_lamps_names [OF lamp_worlds(3), of p] by (auto simp: is_torch_def)
  ultimately show ?thesis
    by (simp add: flush_step_def only_lamps_power [OF lamp_worlds(3)] reconcile_def Let_def)
qed

lemma lamp_loop: "flush_loop f (Suc n) [(0, 64, 0)] (lamp_world\<lparr>Dirty := []\<rparr>) \<lparr>Changes = [], PoweredLoads = [], UnpoweredLoads = []\<rparr> =
    Some (dark_world, lamp_result)"
  by (simp add: lamp_first flush_loop_quiet dark_quiet)

lemma lamp_flush: "FlushUpdates f lamp_world = Some (dark_world, lamp_result)"
proof -
  have d: "Dirty lamp_world = [(0, 64, 0)]" by (simp add: lamp_world_def)
  have n: "max_updates = Suc 65535" by (simp add: max_updates_def)
  show ?thesis unfolding FlushUpdates_def d n Let_def lamp_loop by simp
qed


theorem loads_reported_on_edges_witness:
  "int (count_list (PoweredLoads lamp_result) (0, 64, 0)) - int (count_list (UnpoweredLoads lamp_result) (0, 64, 0)) =
    (if PowerAt dark_world (0, 64, 0) > 0 then 1 else 0) - (if PowerAt lamp_world (0, 64, 0) > 0 then 1 else 0)"
  by (rule loads_reported_on_edges [OF lamp_flush [of 0]])
    (simp_all add: lamp_world_def block_of_def in_height_def WorldMinY_def WorldMaxY_def lamp_def ResourceLocation_def
      IsRedstoneLoad_def PowerAt_def)

theorem redstone_power_bounded_witness:
  "signals_ok dark_world \<and> powers_ok dark_world \<and> (\<forall>p. 0 \<le> PowerAt dark_world p \<and> PowerAt dark_world p \<le> 15)"
proof -
  have "powers_ok lamp_world" by (simp add: powers_ok_def lamp_world_def)
  moreover have "signals_ok lamp_world"
    by (simp add: signals_ok_def signal_ok_def entity_ok_def lamp_world_def block_of_def lamp_def ResourceLocation_def
        Air_def has_suffix_def redstoneContainerSlots_def no_entity_def)
  ultimately show ?thesis using redstone_power_bounded [OF lamp_flush [of 0]] by blast
qed

text \<open>Two torches on one block: the standing one and one on the side of the same block.\<close>

definition torch_pair :: engine where
  "torch_pair = lamp_world\<lparr>Cells := (\<lambda>_. Air)
     ((0, 65, 0) := \<lparr>Namespace = ''minecraft'', Name = ''redstone_torch'', Properties = []\<rparr>,
      (0, 64, 1) := \<lparr>Namespace = ''minecraft'', Name = ''redstone_wall_torch'', Properties = [(''facing'', ''south'')]\<rparr>)\<rparr>"

lemma torch_pair_stuck: "computePower f torch_pair (0, 65, 0) (block_of torch_pair (0, 65, 0)) = None"
  by (rule torch_pair_never_returns [of _ _ "(0, 64, 1)"])
    (simp_all add: torch_at_def is_torch_def torch_pair_def block_of_def in_height_def WorldMinY_def WorldMaxY_def
      ResourceLocation_def torch_support_def neighbors6_def get_prop_def Let_def)

theorem torches_return_witness:
  "(\<exists>f v. computePower f torch_pair (0, 65, 0) (block_of torch_pair (0, 65, 0)) = Some v) \<longleftrightarrow>
    (0, 65, 0) \<in> Wellfounded.acc (watched torch_pair)"
  by (rule torches_return)
    (simp add: is_torch_def torch_pair_def block_of_def in_height_def WorldMinY_def WorldMaxY_def ResourceLocation_def)

theorem flush_returns_witness: "\<exists>f e' r. FlushUpdates f lamp_world = Some (e', r)"
proof (rule flush_returns)
  have none: "\<not> is_torch (ResourceLocation (block_of lamp_world p))" for p
    by (simp add: lamp_world_def block_of_def lamp_def ResourceLocation_def Air_def is_torch_def)
  show "finite {p. is_torch (ResourceLocation (block_of lamp_world p))}" by (simp add: none)
  have "watched lamp_world = {}" by (auto simp: watched_def none)
  then show "acyclic (watched lamp_world)" by (simp add: acyclic_def)
qed

end
