(* ===== verification/Region.thy ===== *)
theory Region
  imports Nbt "HOL-Library.AList"
begin

text \<open>
  Anvil region files and the storage over them (\<open>java/world/anvil/region.go\<close>, \<open>storage.go\<close>). A region
  file is its bytes and the directory a map from region coordinates to files. Compression is
  the standard library's and a parameter. A chunk's raw bytes are its compression byte and the
  compressed payload.
\<close>

definition sectorSize :: nat where "sectorSize = 4096"

definition headerSectors :: nat where "headerSectors = 2"

type_synonym region_key = "i32 \<times> i32"

definition regionCoords :: "i32 \<Rightarrow> i32 \<Rightarrow> region_key" where
  "regionCoords cx cz = (signed_drop_bit 5 cx, signed_drop_bit 5 cz)"

definition chunkIndex :: "i32 \<Rightarrow> i32 \<Rightarrow> nat" where
  "chunkIndex cx cz = unat (and cx 31 + and cz 31 * 32)"

section \<open>Reading one chunk\<close>

datatype region_error =
    LocationRead nat
  | HeaderRead nat
  | InvalidLength int nat
  | DataRead nat
  | EmptyChunk
  | UnknownCompression byte
  | BadStream byte
  | ChunkNbt nbt_error

text \<open>\<open>ReadAt\<close>: all the bytes asked for, or an error.\<close>

definition read_at :: "byte list \<Rightarrow> nat \<Rightarrow> nat \<Rightarrow> byte list option" where
  "read_at f off n = (if off + n \<le> length f then Some (take n (drop off f)) else None)"

definition readRawChunk :: "byte list \<Rightarrow> nat \<Rightarrow> region_error + byte list option" where
  "readRawChunk f idx =
     (case read_at f (idx * 4) 4 of
        None \<Rightarrow> Inl (LocationRead idx)
      | Some loc \<Rightarrow>
          (let sectorOffset = 65536 * unat (loc ! 0) + 256 * unat (loc ! 1) + unat (loc ! 2);
               sectorCount = loc ! 3
           in if sectorOffset < headerSectors \<or> sectorCount = 0 then Inr None
              else let byteOffset = sectorOffset * sectorSize
                   in case read_at f byteOffset 5 of
                        None \<Rightarrow> Inl (HeaderRead byteOffset)
                      | Some hdr \<Rightarrow>
                          (let dataLen = unat (be_get (take 4 hdr) :: 32 word)
                           in if dataLen < 1 then Inl (InvalidLength (int dataLen) idx)
                              else case read_at f (byteOffset + 4) dataLen of
                                     None \<Rightarrow> Inl (DataRead byteOffset)
                                   | Some raw \<Rightarrow> Inr (Some raw))))"

section \<open>Writing a file\<close>

text \<open>The data of one chunk: its length, its bytes, and zeros up to the end of the sector.\<close>

definition chunk_sectors :: "byte list \<Rightarrow> nat" where
  "chunk_sectors raw = (4 + length raw + sectorSize - 1) div sectorSize"

definition padded_chunk :: "byte list \<Rightarrow> byte list" where
  "padded_chunk raw =
     be_put 4 (word_of_nat (length raw) :: 32 word) @ raw @
     replicate (chunk_sectors raw * sectorSize - (4 + length raw)) 0"

text \<open>The loop over the chunks: the locations in order, an absent chunk having offset and count 0, and the
  sectors written after the header.\<close>

fun lay_out :: "nat \<Rightarrow> byte list option list \<Rightarrow> (nat \<times> byte) list \<times> byte list" where
  "lay_out currentSector [] = ([], [])"
| "lay_out currentSector (None # raws) =
     (let (locs, bytes) = lay_out currentSector raws in ((0, 0) # locs, bytes))"
| "lay_out currentSector (Some raw # raws) =
     (let (locs, bytes) = lay_out (currentSector + chunk_sectors raw) raws
      in ((currentSector, word_of_nat (chunk_sectors raw)) # locs, padded_chunk raw @ bytes))"

definition location_entry :: "nat \<times> byte \<Rightarrow> byte list" where
  "location_entry = (\<lambda>(off, count).
     [word_of_nat (off div 65536), word_of_nat (off div 256), word_of_nat off, count])"

definition writeRegionFile :: "byte list option list \<Rightarrow> byte list" where
  "writeRegionFile rawChunks =
     (let (locs, bytes) = lay_out headerSectors rawChunks
      in concat (map location_entry locs) @ replicate sectorSize 0 @ bytes)"

section \<open>The storage\<close>

text \<open>\<open>Writing\<close> and \<open>Todo\<close> are the local variables of a \<open>Flush\<close> in progress, which holds no lock: the
  chunks it took over from \<open>Pending\<close> and the regions it has still to write.\<close>

record storage =
  Files :: "region_key \<Rightarrow> byte list option"
  Pending :: "(region_key \<times> byte list) list"
  Writing :: "(region_key \<times> byte list) list"
  Todo :: "region_key list"

definition NewStorage :: "(region_key \<Rightarrow> byte list option) \<Rightarrow> storage" where
  "NewStorage files = \<lparr>Files = files, Pending = [], Writing = [], Todo = []\<rparr>"

text \<open>Every saved chunk replaces the one buffered for the same coordinates.\<close>

definition SaveRaw :: "i32 \<times> i32 \<Rightarrow> byte list \<Rightarrow> storage \<Rightarrow> storage" where
  "SaveRaw key raw s = s\<lparr>Pending := AList.update key raw (Pending s)\<rparr>"

definition saveChunk_raw :: "(byte list \<Rightarrow> byte list) \<Rightarrow> byte list \<Rightarrow> byte list" where
  "saveChunk_raw zlib nbt = 2 # zlib nbt"

definition SaveChunk :: "(byte list \<Rightarrow> byte list) \<Rightarrow> i32 \<times> i32 \<Rightarrow> byte list \<Rightarrow> storage \<Rightarrow> storage" where
  "SaveChunk zlib key nbt s = SaveRaw key (saveChunk_raw zlib nbt) s"

text \<open>The chunks of the file to keep: a chunk that cannot be read counts as absent.\<close>

definition kept_chunk :: "byte list option \<Rightarrow> nat \<Rightarrow> byte list option" where
  "kept_chunk file i =
     (case file of
        None \<Rightarrow> None
      | Some f \<Rightarrow> (case readRawChunk f i of Inl err \<Rightarrow> None | Inr raw \<Rightarrow> raw))"

definition region_chunks :: "byte list option \<Rightarrow> (region_key \<times> byte list) list \<Rightarrow> byte list option list" where
  "region_chunks file chunks =
     foldl (\<lambda>raws (key, raw). raws[chunkIndex (fst key) (snd key) := Some raw])
       (map (\<lambda>i. if i \<in> set (map (\<lambda>(key, raw). chunkIndex (fst key) (snd key)) chunks) then None else kept_chunk file i) [0..<1024])
       chunks"

definition flushRegion :: "(region_key \<Rightarrow> bool) \<Rightarrow> region_key \<Rightarrow> (region_key \<times> byte list) list \<Rightarrow> storage \<Rightarrow> storage option" where
  "flushRegion io_ok rk chunks s =
     (let file = writeRegionFile (region_chunks (Files s rk) chunks)
      in if io_ok rk then Some (s\<lparr>Files := (Files s)(rk := Some file)\<rparr>) else None)"

definition region_of :: "region_key \<Rightarrow> region_key" where
  "region_of key = regionCoords (fst key) (snd key)"

definition restorePending :: "(region_key \<times> byte list) list \<Rightarrow> storage \<Rightarrow> storage" where
  "restorePending pending s =
     s\<lparr>Pending := foldl (\<lambda>p (key, raw). if map_of p key \<noteq> None then p else AList.update key raw p) (Pending s) pending\<rparr>"

text \<open>The steps of \<open>Flush\<close>: taking over the pending chunks, then one region after the other; a failure
  gives the chunks back, unless newer ones were saved meanwhile.\<close>

definition flush_begin :: "storage \<Rightarrow> storage" where
  "flush_begin s =
     s\<lparr>Pending := [], Writing := Pending s, Todo := remdups (map (\<lambda>(key, raw). region_of key) (Pending s))\<rparr>"

definition flush_region :: "bool \<Rightarrow> storage \<Rightarrow> storage" where
  "flush_region io_ok s =
     (case Todo s of
        [] \<Rightarrow> s
      | rk # rks \<Rightarrow>
          (case flushRegion (\<lambda>_. io_ok) rk (filter (\<lambda>(key, raw). region_of key = rk) (Writing s)) s of
             None \<Rightarrow> (restorePending (Writing s) s)\<lparr>Writing := [], Todo := []\<rparr>
           | Some s' \<Rightarrow> s'\<lparr>Todo := rks, Writing := (if rks = [] then [] else Writing s')\<rparr>))"

fun flush_all :: "bool list \<Rightarrow> storage \<Rightarrow> storage" where
  "flush_all [] s = s"
| "flush_all (ok # oks) s = flush_all oks (flush_region ok s)"

text \<open>A whole flush without interruption; the list says which writes succeed.\<close>

definition Flush :: "bool list \<Rightarrow> storage \<Rightarrow> storage" where
  "Flush oks s = flush_all oks (flush_begin s)"

definition load_raw :: "storage \<Rightarrow> region_key \<Rightarrow> region_error + byte list option" where
  "load_raw s key =
     (case Files s (region_of key) of
        None \<Rightarrow> Inr None
      | Some f \<Rightarrow> readRawChunk f (chunkIndex (fst key) (snd key)))"

text \<open>The decompressors: \<open>None\<close> is a stream they refuse.\<close>

record codecs =
  gunzip :: "byte list \<Rightarrow> byte list option"
  unzlib :: "byte list \<Rightarrow> byte list option"

definition decompressChunk :: "codecs \<Rightarrow> byte list \<Rightarrow> region_error + byte list" where
  "decompressChunk Z raw =
     (case raw of
        [] \<Rightarrow> Inl EmptyChunk
      | compression # payload \<Rightarrow>
          if compression = 1 then (case gunzip Z payload of None \<Rightarrow> Inl (BadStream 1) | Some bs \<Rightarrow> Inr bs)
          else if compression = 2 then (case unzlib Z payload of None \<Rightarrow> Inl (BadStream 2) | Some bs \<Rightarrow> Inr bs)
          else if compression = 3 then Inr payload
          else Inl (UnknownCompression compression))"

definition loadChunkFromRegion :: "codecs \<Rightarrow> storage \<Rightarrow> region_key \<Rightarrow> region_error + (byte list \<times> tag) list option" where
  "loadChunkFromRegion Z s key =
     (case load_raw s key of
        Inl err \<Rightarrow> Inl err
      | Inr None \<Rightarrow> Inr None
      | Inr (Some raw) \<Rightarrow>
          (case decompressChunk Z raw of
             Inl err \<Rightarrow> Inl err
           | Inr bs \<Rightarrow> (case ReadRootCompound bs of Inl err \<Rightarrow> Inl (ChunkNbt err) | Inr root \<Rightarrow> Inr (Some root))))"

lemma location_length [simp]: "length (location_entry l) = 4"
  by (simp add: location_entry_def split: prod.splits)

lemma concat_length: "(\<And>x. x \<in> set xs \<Longrightarrow> length (f x) = k) \<Longrightarrow> length (concat (map f xs)) = length xs * k"
  by (induction xs) auto

lemma concat_nth:
  "(\<And>x. x \<in> set xs \<Longrightarrow> length (f x) = k) \<Longrightarrow> i < length xs \<Longrightarrow> take k (drop (i * k) (concat (map f xs) @ ys)) = f (xs ! i)"
proof (induction xs arbitrary: i)
  case (Cons x xs)
  show ?case
  proof (cases i)
    case (Suc j)
    then show ?thesis using Cons by simp
  qed (use Cons.prems in simp)
qed simp

lemma read_at_append: "read_at (xs @ ys) off n = (if off + n \<le> length xs then read_at xs off n
    else if length xs \<le> off then read_at ys (off - length xs) n else read_at (xs @ ys) off n)"
  by (auto simp: read_at_def)

definition sectors :: "byte list option \<Rightarrow> nat" where
  "sectors r = (case r of None \<Rightarrow> 0 | Some raw \<Rightarrow> chunk_sectors raw)"

definition sectors_before :: "byte list option list \<Rightarrow> nat \<Rightarrow> nat" where
  "sectors_before raws i = sum_list (map sectors (take i raws))"

lemma chunk_sectors_enough: "4 + length raw \<le> chunk_sectors raw * sectorSize"
  unfolding chunk_sectors_def sectorSize_def by simp

lemma padded_length [simp]: "length (padded_chunk raw) = chunk_sectors raw * sectorSize"
  using chunk_sectors_enough [of raw] by (simp add: padded_chunk_def)

lemma lay_out_locs: "lay_out c raws = (locs, bytes) \<Longrightarrow> length locs = length raws"
  by (induction c raws arbitrary: locs bytes rule: lay_out.induct) (auto split: prod.splits)

lemma lay_out_nth:
  "lay_out c raws = (locs, bytes) \<Longrightarrow> i < length raws \<Longrightarrow>
    locs ! i = (case raws ! i of None \<Rightarrow> (0, 0) | Some raw \<Rightarrow> (c + sectors_before raws i, word_of_nat (chunk_sectors raw))) \<and>
    (\<forall>raw. raws ! i = Some raw \<longrightarrow> (\<exists>rest. drop (sectors_before raws i * sectorSize) bytes = padded_chunk raw @ rest))"
proof (induction c raws arbitrary: locs bytes i rule: lay_out.induct)
  case (2 c raws)
  obtain ls bs where l: "lay_out c raws = (ls, bs)" by (rule prod.exhaust)
  show ?case
  proof (cases i)
    case (Suc j)
    have b: "sectors_before (None # raws) i = sectors_before raws j" by (simp add: Suc sectors_before_def sectors_def)
    then show ?thesis using "2.IH" [OF l, of j] "2.prems" l Suc by (auto split: option.splits)
  qed (use "2.prems" l in auto)
next
  case (3 c raw raws)
  obtain ls bs where l: "lay_out (c + chunk_sectors raw) raws = (ls, bs)" by (rule prod.exhaust)
  show ?case
  proof (cases i)
    case 0
    then show ?thesis using "3.prems" l by (auto simp: sectors_before_def)
  next
    case (Suc j)
    have b: "sectors_before (Some raw # raws) i * sectorSize = length (padded_chunk raw) + sectors_before raws j * sectorSize"
      by (simp add: Suc sectors_before_def sectors_def algebra_simps)
    show ?thesis using "3.IH" [OF l, of j] "3.prems" l Suc unfolding b
      by (auto simp: sectors_before_def sectors_def add.assoc split: option.splits)
  qed
qed simp

text \<open>Chunks below 256 sectors, which are the ones a location entry can describe.\<close>

definition raw_ok :: "byte list \<Rightarrow> bool" where
  "raw_ok raw \<longleftrightarrow> raw \<noteq> [] \<and> 4 + length raw \<le> 255 * sectorSize"

definition region_ok :: "byte list option list \<Rightarrow> bool" where
  "region_ok raws \<longleftrightarrow> length raws = 1024 \<and> (\<forall>raw. Some raw \<in> set raws \<longrightarrow> raw_ok raw)"

lemma raw_ok_sectors: "raw_ok raw \<Longrightarrow> 0 < chunk_sectors raw \<and> chunk_sectors raw \<le> 255"
  by (auto simp: raw_ok_def chunk_sectors_def sectorSize_def)

lemma sectors_before_bound: "region_ok raws \<Longrightarrow> i \<le> 1024 \<Longrightarrow> sectors_before raws i \<le> i * 255"
proof (induction i)
  case (Suc i)
  have i: "i < length raws" using Suc.prems by (simp add: region_ok_def)
  have "sectors (raws ! i) \<le> 255"
    using Suc.prems(1) nth_mem [OF i] raw_ok_sectors by (cases "raws ! i") (auto simp: sectors_def region_ok_def)
  then show ?case using Suc i by (simp add: sectors_before_def take_Suc_conv_app_nth)
qed (simp add: sectors_before_def)

lemma byte_of_nat: "unat (word_of_nat n :: byte) = n mod 256"
  by (simp add: unsigned_of_nat take_bit_nat_def)

lemma offset_bytes: "n < 2 ^ 24 \<Longrightarrow>
    65536 * unat (word_of_nat (n div 65536) :: byte) + 256 * unat (word_of_nat (n div 256) :: byte) + unat (word_of_nat n :: byte) = n"
  unfolding byte_of_nat
proof -
  assume n: "n < 2 ^ 24"
  have "n div 65536 mod 256 = n div 65536" using n by simp
  moreover have "n div 256 = 256 * (n div 65536) + n div 256 mod 256"
    using mult_div_mod_eq [of 256 "n div 256"] by (simp add: div_mult2_eq [symmetric])
  moreover have "n = 256 * (n div 256) + n mod 256" by simp
  ultimately show "65536 * (n div 65536 mod 256) + 256 * (n div 256 mod 256) + n mod 256 = n" by linarith
qed

lemma region_read_back:
  assumes "region_ok raws" "i < 1024"
  shows "readRawChunk (writeRegionFile raws) i = Inr (raws ! i)"
proof -
  obtain locs bytes where l: "lay_out headerSectors raws = (locs, bytes)" by (rule prod.exhaust)
  have n: "length locs = 1024" using lay_out_locs [OF l] assms(1) by (simp add: region_ok_def)
  let ?h = "concat (map location_entry locs)"
  have h: "length ?h = sectorSize" by (simp add: concat_length [of _ _ 4] n sectorSize_def)
  have f: "writeRegionFile raws = ?h @ replicate sectorSize 0 @ bytes" by (simp add: writeRegionFile_def l)
  have loc: "read_at (writeRegionFile raws) (i * 4) 4 = Some (location_entry (locs ! i))"
    using concat_nth [of locs location_entry 4 i "replicate sectorSize 0 @ bytes"] assms(2) n h
    by (simp add: read_at_def f sectorSize_def)
  have i: "i < length raws" using assms by (simp add: region_ok_def)
  note spec = lay_out_nth [OF l i]
  show ?thesis
  proof (cases "raws ! i")
    case None
    then show ?thesis using spec by (simp add: readRawChunk_def loc location_entry_def)
  next
    case (Some raw)
    then have ok: "raw_ok raw" using assms(1) nth_mem [OF i] by (simp add: region_ok_def)
    let ?o = "headerSectors + sectors_before raws i"
    have o: "?o < 2 ^ 24" using sectors_before_bound [OF assms(1), of i] assms(2) by (simp add: headerSectors_def)
    have c: "(word_of_nat (chunk_sectors raw) :: byte) \<noteq> 0"
    proof
      assume "(word_of_nat (chunk_sectors raw) :: byte) = 0"
      then have "chunk_sectors raw mod 256 = 0" using byte_of_nat [of "chunk_sectors raw"] by simp
      then show False using raw_ok_sectors [OF ok] by simp
    qed
    obtain rest where d: "drop (sectors_before raws i * sectorSize) bytes = padded_chunk raw @ rest" using spec Some by auto
    have data: "drop (?o * sectorSize) (writeRegionFile raws) = padded_chunk raw @ rest"
      using h d by (simp add: f headerSectors_def add_mult_distrib)
    let ?n = "chunk_sectors raw * sectorSize"
    have len: "?o * sectorSize + ?n \<le> length (writeRegionFile raws)"
    proof -
      have "length (drop (?o * sectorSize) (writeRegionFile raws)) = ?n + length rest" unfolding data by simp
      moreover have "0 < ?n" using raw_ok_sectors [OF ok] by (simp add: sectorSize_def)
      ultimately show ?thesis unfolding length_drop by linarith
    qed
    have enough: "4 + length raw \<le> ?n" "raw \<noteq> []" using chunk_sectors_enough ok by (simp_all add: raw_ok_def)
    then have five: "5 \<le> ?n" by (cases raw) simp_all
    have bound: "length raw < 2 ^ 32" using ok by (simp add: raw_ok_def sectorSize_def)
    then have dl: "unat (be_get (be_put 4 (word_of_nat (length raw) :: 32 word)) :: 32 word) = length raw"
      by (simp add: be_get_put unsigned_of_nat take_bit_nat_eq_self)
    have hdr: "\<exists>hdr. read_at (writeRegionFile raws) (?o * sectorSize) 5 = Some hdr \<and>
        take 4 hdr = be_put 4 (word_of_nat (length raw) :: 32 word)"
      using len five by (simp add: read_at_def data) (simp add: padded_chunk_def)
    then obtain hdr where hdr: "read_at (writeRegionFile raws) (?o * sectorSize) 5 = Some hdr"
        "take 4 hdr = be_put 4 (word_of_nat (length raw) :: 32 word)" by blast
    have "drop (?o * sectorSize + 4) (writeRegionFile raws) = drop 4 (padded_chunk raw @ rest)"
      unfolding data [symmetric] by (simp add: add.commute)
    then have body: "read_at (writeRegionFile raws) (?o * sectorSize + 4) (length raw) = Some raw"
      using len enough by (simp add: read_at_def) (simp add: padded_chunk_def)
    have le: "locs ! i = (?o, word_of_nat (chunk_sectors raw))" using spec Some by simp
    have off: "65536 * unat (location_entry (locs ! i) ! 0) + 256 * unat (location_entry (locs ! i) ! 1) + unat (location_entry (locs ! i) ! 2) = ?o"
      using offset_bytes [OF o] by (simp add: le location_entry_def)
    have cnt: "location_entry (locs ! i) ! 3 \<noteq> 0" using c by (simp add: le location_entry_def)
    have h2: "\<not> ?o < headerSectors" by simp
    show ?thesis
      unfolding readRawChunk_def loc option.case Let_def off
      using cnt h2 hdr body dl enough(2) Some by simp
  qed
qed

text \<open>A chunk of exactly 256 sectors gets the count zero and reads as absent.\<close>

lemma full_count_lost:
  assumes "length raws = 1024" "i < 1024" "raws ! i = Some raw" "chunk_sectors raw mod 256 = 0"
  shows "readRawChunk (writeRegionFile raws) i = Inr None"
proof -
  obtain locs bytes where l: "lay_out headerSectors raws = (locs, bytes)" by (rule prod.exhaust)
  have n: "length locs = 1024" using lay_out_locs [OF l] assms(1) by simp
  have h: "length (concat (map location_entry locs)) = sectorSize" by (simp add: concat_length [of _ _ 4] n sectorSize_def)
  have f: "writeRegionFile raws = concat (map location_entry locs) @ replicate sectorSize 0 @ bytes" by (simp add: writeRegionFile_def l)
  have loc: "read_at (writeRegionFile raws) (i * 4) 4 = Some (location_entry (locs ! i))"
    using concat_nth [of locs location_entry 4 i "replicate sectorSize 0 @ bytes"] assms(2) n h
    by (simp add: read_at_def f sectorSize_def)
  have "(word_of_nat (chunk_sectors raw) :: byte) = 0"
    using assms(4) byte_of_nat [of "chunk_sectors raw"] by (simp add: unat_eq_0)
  then have "location_entry (locs ! i) ! 3 = 0"
    using lay_out_nth [OF l, of i] assms(1-3) by (simp add: location_entry_def)
  then show ?thesis unfolding readRawChunk_def loc by simp
qed

section \<open>Coordinates\<close>

lemma and31: "and c 31 = (take_bit 5 c :: i32)"
proof -
  have "(31 :: i32) = mask 5" by (simp add: mask_eq_exp_minus_1)
  then show ?thesis by (simp add: take_bit_eq_mask)
qed

lemma unat_and31: "unat (and c 31 :: i32) = unat c mod 32"
  by (simp add: and31 unsigned_take_bit_eq take_bit_nat_def)

lemma chunkIndex_eq: "chunkIndex cx cz = unat cx mod 32 + 32 * (unat cz mod 32)"
proof -
  have "unat cx mod 32 < 32" "unat cz mod 32 < 32" by simp_all
  then have "unat cx mod 32 + 32 * (unat cz mod 32) < 2 ^ 32" by simp
  then show ?thesis by (simp add: chunkIndex_def unat_word_ariths unat_and31 mult.commute)
qed

lemma chunkIndex_less: "chunkIndex cx cz < 1024"
proof -
  have "unat cx mod 32 < 32" "unat cz mod 32 < 32" by simp_all
  then show ?thesis unfolding chunkIndex_eq by simp
qed

lemma coord_parts: "c = (push_bit 5 (signed_drop_bit 5 c) :: i32) + and c 31"
proof -
  have "push_bit 5 (signed_drop_bit 5 c) = push_bit 5 (drop_bit 5 c)"
    by (rule bit_word_eqI) (auto simp: bit_simps)
  then show ?thesis by (simp add: and31 bits_ident)
qed

lemma coord_eq:
  assumes "and c 31 = and c' (31 :: i32)" "signed_drop_bit 5 c = signed_drop_bit 5 c'"
  shows "c = c'"
proof -
  have "c = push_bit 5 (signed_drop_bit 5 c') + and c' 31" using coord_parts [of c] unfolding assms .
  also have "\<dots> = c'" by (rule coord_parts [symmetric])
  finally show ?thesis .
qed

definition slot :: "region_key \<Rightarrow> nat" where
  "slot key = chunkIndex (fst key) (snd key)"

lemma slot_less: "slot key < 1024"
  by (simp add: slot_def chunkIndex_less)

lemma pair_digits: "a < 32 \<Longrightarrow> a' < 32 \<Longrightarrow> a + 32 * b = a' + 32 * (b' :: nat) \<Longrightarrow> a = a' \<and> b = b'"
proof -
  assume a: "a < 32" "a' < 32" and e: "a + 32 * b = a' + 32 * b'"
  have "a = (a + 32 * b) mod 32" using a by simp
  also have "\<dots> = a'" unfolding e using a by simp
  finally show ?thesis using e by simp
qed

lemma key_inj:
  assumes "region_of k = region_of k'" "slot k = slot k'"
  shows "k = k'"
proof -
  have "unat (fst k) mod 32 + 32 * (unat (snd k) mod 32) = unat (fst k') mod 32 + 32 * (unat (snd k') mod 32)"
    using assms(2) by (simp add: slot_def chunkIndex_eq)
  moreover have "unat (fst k) mod 32 < 32" "unat (fst k') mod 32 < 32" by simp_all
  ultimately have "unat (fst k) mod 32 = unat (fst k') mod 32" "unat (snd k) mod 32 = unat (snd k') mod 32" using pair_digits by blast+
  then have "and (fst k) 31 = and (fst k') 31" "and (snd k) 31 = and (snd k') 31"
    unfolding unat_and31 [symmetric] by (blast intro: unsigned_word_eqI)+
  moreover have "signed_drop_bit 5 (fst k) = signed_drop_bit 5 (fst k')" "signed_drop_bit 5 (snd k) = signed_drop_bit 5 (snd k')"
    using assms(1) by (simp_all add: region_of_def regionCoords_def)
  ultimately have "fst k = fst k'" "snd k = snd k'" using coord_eq by blast+
  then show ?thesis by (rule prod_eqI)
qed

section \<open>No saved chunk is lost\<close>

definition files_ok :: "(region_key \<Rightarrow> byte list option) \<Rightarrow> bool" where
  "files_ok files \<longleftrightarrow> (\<forall>rk f. files rk = Some f \<longrightarrow> (\<exists>raws. region_ok raws \<and> f = writeRegionFile raws))"

definition chunks_fit :: "(region_key \<times> byte list) list \<Rightarrow> bool" where
  "chunks_fit chunks \<longleftrightarrow> distinct (map fst chunks) \<and> (\<forall>(key, raw) \<in> set chunks. raw_ok raw)"

definition file_ok :: "byte list option \<Rightarrow> bool" where
  "file_ok file \<longleftrightarrow> (\<forall>f. file = Some f \<longrightarrow> (\<exists>raws. region_ok raws \<and> f = writeRegionFile raws))"

lemma kept_chunk_ok:
  assumes "file_ok file" "i < 1024" "kept_chunk file i = Some raw"
  shows "raw_ok raw"
proof -
  obtain f where f: "file = Some f" using assms(3) by (cases "file") (auto simp: kept_chunk_def)
  then obtain raws where r: "region_ok raws" "f = writeRegionFile raws" using assms(1) by (auto simp: file_ok_def)
  have "raws ! i = Some raw" using assms(3) by (simp add: f r kept_chunk_def region_read_back [OF r(1) assms(2)])
  then show ?thesis using r(1) assms(2) nth_mem [of i raws] by (simp add: region_ok_def)
qed

lemma load_kept:
  assumes "files_ok (Files s)"
  shows "load_raw s key = Inr (kept_chunk (Files s (region_of key)) (slot key))"
proof (cases "Files s (region_of key)")
  case (Some f)
  then obtain raws where r: "region_ok raws" "f = writeRegionFile raws" using assms unfolding files_ok_def by blast
  show ?thesis using region_read_back [OF r(1) slot_less [of key]] by (simp add: load_raw_def kept_chunk_def Some r(2) slot_def)
qed (simp add: load_raw_def kept_chunk_def)

lemma region_chunks_def': "region_chunks file chunks =
    foldl (\<lambda>raws (key, raw). raws[slot key := Some raw])
      (map (\<lambda>i. if i \<in> slot ` fst ` set chunks then None else kept_chunk file i) [0..<1024]) chunks"
  by (simp add: region_chunks_def slot_def case_prod_beta image_image)

lemma put_chunks_nth:
  assumes "distinct (map fst chunks)" "\<forall>k \<in> fst ` set chunks. region_of k = rk" "region_of key = rk" "length raws = 1024"
  shows "foldl (\<lambda>raws (key, raw). raws[slot key := Some raw]) raws chunks ! slot key =
    (case map_of chunks key of Some raw \<Rightarrow> Some raw | None \<Rightarrow> raws ! slot key)"
  using assms
proof (induction chunks arbitrary: raws)
  case (Cons c chunks)
  obtain k raw where c: "c = (k, raw)" by (rule prod.exhaust)
  show ?case
  proof (cases "k = key")
    case True
    then have "map_of chunks key = None" using Cons.prems(1) by (simp add: c map_of_eq_None_iff)
    then show ?thesis using Cons.IH [of "raws[slot k := Some raw]"] Cons.prems True by (simp add: c slot_less)
  next
    case False
    have "region_of k = region_of key" using Cons.prems(2,3) by (simp add: c)
    then have "slot k \<noteq> slot key" using key_inj False by blast
    then have "raws[slot k := Some raw] ! slot key = raws ! slot key" by simp
    then show ?thesis using Cons.IH [of "raws[slot k := Some raw]"] Cons.prems False
      by (cases "map_of chunks key") (simp_all add: c)
  qed
qed simp

lemma put_chunks_length: "length (foldl (\<lambda>raws (key, raw). raws[slot key := Some raw]) raws chunks) = length raws"
  by (induction chunks arbitrary: raws) (auto split: prod.splits)

lemma placed_chunks_ok:
  "list_all (\<lambda>r. \<forall>raw. r = Some raw \<longrightarrow> raw_ok raw) raws \<Longrightarrow> \<forall>(key, raw) \<in> set chunks. raw_ok raw \<Longrightarrow>
    list_all (\<lambda>r. \<forall>raw. r = Some raw \<longrightarrow> raw_ok raw) (foldl (\<lambda>raws (key, raw). raws[slot key := Some raw]) raws chunks)"
proof (induction chunks arbitrary: raws)
  case (Cons c chunks)
  obtain k raw where c: "c = (k, raw)" by (rule prod.exhaust)
  show ?case using Cons.IH [of "raws[slot k := Some raw]"] Cons.prems by (simp add: c list_all_update)
qed simp

lemma region_chunks_nth:
  assumes "chunks_fit chunks" "\<forall>k \<in> fst ` set chunks. region_of k = rk" "region_of key = rk"
  shows "region_chunks file chunks ! slot key = (case map_of chunks key of Some raw \<Rightarrow> Some raw | None \<Rightarrow> kept_chunk file (slot key))"
proof -
  have i: "slot key \<in> slot ` fst ` set chunks \<longleftrightarrow> key \<in> fst ` set chunks" 
  proof
    assume "slot key \<in> slot ` fst ` set chunks"
    then obtain k where k: "k \<in> fst ` set chunks" "slot key = slot k" by blast
    have "region_of key = region_of k" using k(1) assms(2,3) by (metis (no_types))
    then have "key = k" using k(2) by (rule key_inj)
    then show "key \<in> fst ` set chunks" using k(1) by simp
  qed blast
  let ?rs = "map (\<lambda>i. if i \<in> slot ` fst ` set chunks then None else kept_chunk file i) [0..<1024]"
  have "region_chunks file chunks ! slot key = (case map_of chunks key of Some raw \<Rightarrow> Some raw | None \<Rightarrow> ?rs ! slot key)"
    unfolding region_chunks_def' using assms by (intro put_chunks_nth) (simp_all add: chunks_fit_def)
  moreover have "?rs ! slot key = (if key \<in> fst ` set chunks then None else kept_chunk file (slot key))"
    unfolding i [symmetric] using slot_less [of key] by (simp only: nth_map length_upt nth_upt add_0 diff_zero)
  moreover have "map_of chunks key = None \<longleftrightarrow> key \<notin> fst ` set chunks" by (rule map_of_eq_None_iff)
  ultimately show ?thesis by (cases "map_of chunks key") simp_all
qed

lemma region_chunks_ok:
  assumes "chunks_fit chunks" "file_ok file"
  shows "region_ok (region_chunks file chunks)"
proof -
  let ?rs = "map (\<lambda>i. if i \<in> slot ` fst ` set chunks then None else kept_chunk file i) [0..<1024]"
  have "list_all (\<lambda>r. \<forall>raw. r = Some raw \<longrightarrow> raw_ok raw) ?rs"
    using kept_chunk_ok [OF assms(2)] by (auto simp: list_all_iff)
  then have "list_all (\<lambda>r. \<forall>raw. r = Some raw \<longrightarrow> raw_ok raw) (region_chunks file chunks)"
    unfolding region_chunks_def' by (rule placed_chunks_ok) (use assms(1) in \<open>simp add: chunks_fit_def\<close>)
  moreover have "length (region_chunks file chunks) = 1024" unfolding region_chunks_def' put_chunks_length by simp
  ultimately show ?thesis by (auto simp: region_ok_def list_all_iff)
qed

section \<open>What the storage promises\<close>

text \<open>The last bytes saved for a chunk: buffered, on their way to disk, or in a file.\<close>

definition saved :: "storage \<Rightarrow> region_key \<Rightarrow> byte list option" where
  "saved s key =
     (case map_of (Pending s) key of
        Some raw \<Rightarrow> Some raw
      | None \<Rightarrow>
          (case map_of (Writing s) key of
             Some raw \<Rightarrow> Some raw
           | None \<Rightarrow> kept_chunk (Files s (region_of key)) (slot key)))"

definition storage_ok :: "storage \<Rightarrow> bool" where
  "storage_ok s \<longleftrightarrow> files_ok (Files s) \<and> chunks_fit (Pending s) \<and> chunks_fit (Writing s) \<and> distinct (Todo s) \<and>
     (\<forall>(key, raw) \<in> set (Writing s). region_of key \<in> set (Todo s) \<or> kept_chunk (Files s (region_of key)) (slot key) = Some raw) \<and>
     (Todo s = [] \<longrightarrow> Writing s = [])"

text \<open>What can happen: a save at any time, the start of a flush when none is running, and the next
  region of the running one, which succeeds or fails.\<close>

datatype storage_event = Save region_key "byte list" | BeginFlush | FlushRegion bool

definition storage_step :: "storage \<Rightarrow> storage_event \<Rightarrow> storage" where
  "storage_step s ev =
     (case ev of
        Save key raw \<Rightarrow> SaveRaw key raw s
      | BeginFlush \<Rightarrow> if Todo s = [] then flush_begin s else s
      | FlushRegion io_ok \<Rightarrow> flush_region io_ok s)"

definition event_ok :: "storage_event \<Rightarrow> bool" where
  "event_ok ev = (case ev of Save key raw \<Rightarrow> raw_ok raw | _ \<Rightarrow> True)"

text \<open>The promise: a map from chunks to bytes, changed by saves only.\<close>

definition saved_step :: "(region_key \<Rightarrow> byte list option) \<Rightarrow> storage_event \<Rightarrow> region_key \<Rightarrow> byte list option" where
  "saved_step m ev = (case ev of Save key raw \<Rightarrow> m(key := Some raw) | _ \<Rightarrow> m)"

lemma files_file_ok: "files_ok files \<Longrightarrow> file_ok (files rk)"
  unfolding files_ok_def file_ok_def by blast

lemma set_update: "set (AList.update key raw ps) \<subseteq> insert (key, raw) (set ps)"
  by (induction ps) auto

lemma chunks_fit_update: "chunks_fit ps \<Longrightarrow> raw_ok raw \<Longrightarrow> chunks_fit (AList.update key raw ps)"
  using set_update [of key raw ps] unfolding chunks_fit_def by (auto simp: distinct_update)

lemma chunks_fit_filter: "chunks_fit ps \<Longrightarrow> chunks_fit (filter P ps)"
  by (auto simp: chunks_fit_def distinct_map_filter)

lemma map_of_region: "map_of (filter (\<lambda>(key, raw). region_of key = rk) ps) key = (if region_of key = rk then map_of ps key else None)"
  by (induction ps) auto

lemma kept_written:
  assumes "file_ok (files rk)" "chunks_fit chunks" "\<forall>k \<in> fst ` set chunks. region_of k = rk" "region_of key = rk"
  shows "kept_chunk (Some (writeRegionFile (region_chunks (files rk) chunks))) (slot key) =
    (case map_of chunks key of Some raw \<Rightarrow> Some raw | None \<Rightarrow> kept_chunk (files rk) (slot key))"
  using region_read_back [OF region_chunks_ok [OF assms(2,1)] slot_less [of key]] region_chunks_nth [OF assms(2,3,4)]
  by (simp add: kept_chunk_def [of "Some f" for f])

lemma map_of_restore:
  assumes "distinct (map fst ws)"
  shows "map_of (foldl (\<lambda>p (key, raw). if map_of p key \<noteq> None then p else AList.update key raw p) ps ws) key =
    (case map_of ps key of Some raw \<Rightarrow> Some raw | None \<Rightarrow> map_of ws key)"
  using assms
proof (induction ws arbitrary: ps)
  case (Cons w ws)
  obtain k raw where w: "w = (k, raw)" by (rule prod.exhaust)
  have d: "distinct (map fst ws)" "map_of ws k = None" using Cons.prems by (simp_all add: w map_of_eq_None_iff)
  show ?case
  proof (cases "map_of ps k")
    case None
    then show ?thesis using Cons.IH [OF d(1), of "AList.update k raw ps"] d(2)
      by (simp add: w update_conv' split: option.splits)
  next
    case (Some a)
    then show ?thesis using Cons.IH [OF d(1), of ps] by (simp add: w split: option.splits)
  qed
qed (simp split: option.splits)

lemma chunks_fit_restore:
  "chunks_fit ps \<Longrightarrow> \<forall>(key, raw) \<in> set ws. raw_ok raw \<Longrightarrow>
    chunks_fit (foldl (\<lambda>p (key, raw). if map_of p key \<noteq> None then p else AList.update key raw p) ps ws)"
proof (induction ws arbitrary: ps)
  case (Cons w ws)
  obtain k raw where w: "w = (k, raw)" by (rule prod.exhaust)
  show ?case using Cons.IH [of "AList.update k raw ps"] Cons.IH [of ps] Cons.prems chunks_fit_update [of ps raw k]
    by (simp add: w)
qed simp

lemma save_step:
  assumes "storage_ok s" "raw_ok raw"
  shows "storage_ok (SaveRaw key raw s) \<and> saved (SaveRaw key raw s) = (saved s)(key := Some raw)"
proof
  show "storage_ok (SaveRaw key raw s)"
    using assms chunks_fit_update by (simp add: storage_ok_def SaveRaw_def)
  show "saved (SaveRaw key raw s) = (saved s)(key := Some raw)"
    by (rule ext) (simp add: saved_def SaveRaw_def update_conv' cong: option.case_cong)
qed

lemma begin_step:
  assumes "storage_ok s" "Todo s = []"
  shows "storage_ok (flush_begin s) \<and> saved (flush_begin s) = saved s"
proof
  have e: "chunks_fit []" by (simp add: chunks_fit_def)
  show "storage_ok (flush_begin s)"
    using assms e by (auto simp: storage_ok_def flush_begin_def)
  have "Writing s = []" using assms by (simp add: storage_ok_def)
  then show "saved (flush_begin s) = saved s"
    by (intro ext) (simp add: saved_def flush_begin_def split: option.splits)
qed

lemma failed_step:
  assumes "storage_ok s"
  shows "storage_ok ((restorePending (Writing s) s)\<lparr>Writing := [], Todo := []\<rparr>) \<and>
    saved ((restorePending (Writing s) s)\<lparr>Writing := [], Todo := []\<rparr>) = saved s"
proof
  have w: "chunks_fit (Writing s)" "chunks_fit (Pending s)" "files_ok (Files s)" using assms by (simp_all add: storage_ok_def)
  have e: "chunks_fit []" by (simp add: chunks_fit_def)
  have "\<forall>(key, raw) \<in> set (Writing s). raw_ok raw" using w(1) by (simp add: chunks_fit_def)
  from chunks_fit_restore [OF w(2) this]
  show "storage_ok ((restorePending (Writing s) s)\<lparr>Writing := [], Todo := []\<rparr>)"
    using w(3) e by (simp add: storage_ok_def restorePending_def)
  have d: "distinct (map fst (Writing s))" using w(1) by (simp add: chunks_fit_def)
  show "saved ((restorePending (Writing s) s)\<lparr>Writing := [], Todo := []\<rparr>) = saved s"
    by (rule ext) (simp add: saved_def restorePending_def map_of_restore [OF d] del: not_None_eq split: option.splits)
qed

text \<open>The region written: its new file holds what the flush took over for it and keeps the rest.\<close>

definition rewritten :: "region_key \<Rightarrow> storage \<Rightarrow> byte list" where
  "rewritten rk s = writeRegionFile (region_chunks (Files s rk) (filter (\<lambda>(key, raw). region_of key = rk) (Writing s)))"

lemma rewritten_kept:
  assumes "storage_ok s"
  shows "kept_chunk (((Files s)(rk := Some (rewritten rk s))) (region_of key)) (slot key) =
    (if region_of key = rk then (case map_of (Writing s) key of Some raw \<Rightarrow> Some raw | None \<Rightarrow> kept_chunk (Files s rk) (slot key))
     else kept_chunk (Files s (region_of key)) (slot key))"
proof (cases "region_of key = rk")
  case True
  have "chunks_fit (filter (\<lambda>(key, raw). region_of key = rk) (Writing s))" "file_ok (Files s rk)"
    using assms by (simp_all add: storage_ok_def chunks_fit_filter files_file_ok)
  note k = kept_written [where files = "Files s", OF this(2,1) _ True]
  show ?thesis unfolding rewritten_def using True by (subst fun_upd_apply) (simp, subst k, auto simp: map_of_region)
qed simp

lemma rewritten_files_ok:
  assumes "storage_ok s"
  shows "files_ok ((Files s)(rk := Some (rewritten rk s)))"
proof -
  have "region_ok (region_chunks (Files s rk) (filter (\<lambda>(key, raw). region_of key = rk) (Writing s)))"
    using assms by (intro region_chunks_ok) (simp_all add: storage_ok_def chunks_fit_filter files_file_ok)
  then show ?thesis using assms unfolding storage_ok_def files_ok_def rewritten_def by auto
qed

lemma written_step:
  assumes "storage_ok s" "Todo s = rk # rks"
  defines "s' \<equiv> s\<lparr>Files := (Files s)(rk := Some (rewritten rk s)), Todo := rks, Writing := (if rks = [] then [] else Writing s)\<rparr>"
  shows "storage_ok s' \<and> saved s' = saved s"
proof
  note kept = rewritten_kept [OF assms(1), of rk]
  have d: "distinct (map fst (Writing s))" using assms(1) by (simp add: storage_ok_def chunks_fit_def)
  have w: "region_of key \<in> set rks \<or> kept_chunk (((Files s)(rk := Some (rewritten rk s))) (region_of key)) (slot key) = Some raw"
    if "(key, raw) \<in> set (Writing s)" for key raw
  proof -
    have "map_of (Writing s) key = Some raw" using that d by simp
    moreover have "region_of key \<in> set (rk # rks) \<or> kept_chunk (Files s (region_of key)) (slot key) = Some raw"
      using assms(1,2) that by (auto simp: storage_ok_def)
    ultimately show ?thesis unfolding kept by auto
  qed
  have e: "chunks_fit []" by (simp add: chunks_fit_def)
  show "storage_ok s'"
    using assms(1,2) e w rewritten_files_ok [OF assms(1)] unfolding s'_def by (auto simp: storage_ok_def)
  show "saved s' = saved s"
  proof
    fix key
    show "saved s' key = saved s key"
    proof (cases "map_of (Writing s) key")
      case None
      then show ?thesis using kept [of key] by (auto simp: saved_def s'_def split: option.splits)
    next
      case (Some raw)
      then show ?thesis using w [OF map_of_SomeD [OF Some]] unfolding saved_def s'_def by (auto split: option.splits)
    qed
  qed
qed

lemma storage_step_refines:
  assumes "storage_ok s" "event_ok ev"
  shows "storage_ok (storage_step s ev) \<and> saved (storage_step s ev) = saved_step (saved s) ev"
proof (cases ev)
  case (Save key raw)
  then show ?thesis using save_step [OF assms(1)] assms(2) by (simp add: storage_step_def saved_step_def event_ok_def)
next
  case BeginFlush
  then show ?thesis using begin_step [OF assms(1)] assms(1) by (simp add: storage_step_def saved_step_def)
next
  case (FlushRegion io_ok)
  have r: "storage_step s ev = flush_region io_ok s" "saved_step (saved s) ev = saved s"
    by (simp_all add: FlushRegion storage_step_def saved_step_def)
  show ?thesis
  proof (cases "Todo s")
    case Nil
    then show ?thesis using assms(1) unfolding r by (simp add: flush_region_def)
  next
    case (Cons rk rks)
    have "flush_region io_ok s =
        (if io_ok then s\<lparr>Files := (Files s)(rk := Some (rewritten rk s)), Todo := rks, Writing := (if rks = [] then [] else Writing s)\<rparr>
         else (restorePending (Writing s) s)\<lparr>Writing := [], Todo := []\<rparr>)"
      by (simp add: flush_region_def flushRegion_def rewritten_def Cons)
    then show ?thesis using failed_step [OF assms(1)] written_step [OF assms(1) Cons] unfolding r by (cases io_ok) simp_all
  qed
qed

section \<open>Writing one chunk directly\<close>

text \<open>The kept chunks are found by comparing coordinates instead of slots.\<close>

definition direct_chunks :: "byte list option \<Rightarrow> region_key \<Rightarrow> byte list \<Rightarrow> byte list option list" where
  "direct_chunks file key raw =
     (let (rx, rz) = region_of key;
          kept = map (\<lambda>i. if rx * 32 + word_of_nat (i mod 32) = fst key \<and> rz * 32 + word_of_nat (i div 32) = snd key then None
                          else kept_chunk file i) [0..<1024]
      in kept[chunkIndex (fst key) (snd key) := Some raw])"

definition saveChunkToRegion :: "(byte list \<Rightarrow> byte list) \<Rightarrow> bool \<Rightarrow> region_key \<Rightarrow> byte list \<Rightarrow> storage \<Rightarrow> storage option" where
  "saveChunkToRegion zlib io_ok key nbt s =
     (let rk = region_of key
      in if io_ok then Some (s\<lparr>Files := (Files s)(rk := Some (writeRegionFile (direct_chunks (Files s rk) key (2 # zlib nbt))))\<rparr>)
         else None)"

lemma coord_slot:
  assumes "n < 32"
  shows "signed_drop_bit 5 c * 32 + word_of_nat n = (c :: i32) \<longleftrightarrow> n = unat c mod 32"
proof -
  have "signed_drop_bit 5 c * 32 = (push_bit 5 (signed_drop_bit 5 c) :: i32)" by (simp add: push_bit_eq_mult)
  then have "signed_drop_bit 5 c * 32 + word_of_nat n = c \<longleftrightarrow> word_of_nat n = and c 31"
    using coord_parts [of c] by (metis add_left_cancel)
  also have "\<dots> \<longleftrightarrow> n = unat c mod 32"
    using assms by (simp add: word_unat_eq_iff unat_and31 unsigned_of_nat take_bit_nat_eq_self)
  finally show ?thesis .
qed

lemma slot_coords:
  assumes "i < 1024"
  shows "fst (region_of key) * 32 + word_of_nat (i mod 32) = fst key \<and> snd (region_of key) * 32 + word_of_nat (i div 32) = snd key \<longleftrightarrow>
    i = slot key"
proof -
  have "i div 32 < 32" using assms by simp
  then have "fst (region_of key) * 32 + word_of_nat (i mod 32) = fst key \<and> snd (region_of key) * 32 + word_of_nat (i div 32) = snd key \<longleftrightarrow>
      i mod 32 = unat (fst key) mod 32 \<and> i div 32 = unat (snd key) mod 32"
    unfolding region_of_def regionCoords_def by (simp add: coord_slot)
  also have "\<dots> \<longleftrightarrow> i = slot key"
  proof
    assume "i mod 32 = unat (fst key) mod 32 \<and> i div 32 = unat (snd key) mod 32"
    then show "i = slot key" using mod_mult_div_eq [of i 32] by (simp add: slot_def chunkIndex_eq)
  qed (simp add: slot_def chunkIndex_eq)
  finally show ?thesis .
qed

lemma direct_chunks_eq: "direct_chunks file key raw = region_chunks file [(key, raw)]"
proof -
  have "map (\<lambda>i. if fst (region_of key) * 32 + word_of_nat (i mod 32) = fst key \<and> snd (region_of key) * 32 + word_of_nat (i div 32) = snd key
        then None else kept_chunk file i) [0..<1024] =
      map (\<lambda>i. if i \<in> slot ` fst ` set [(key, raw)] then None else kept_chunk file i) [0..<1024]"
    by (rule map_cong) (simp_all add: slot_coords)
  then show ?thesis
    by (simp only: direct_chunks_def region_chunks_def' slot_def [symmetric] case_prod_beta Let_def foldl.simps fst_conv snd_conv)
qed

lemma storage_steps_refine:
  "storage_ok s \<Longrightarrow> \<forall>ev \<in> set evs. event_ok ev \<Longrightarrow>
    storage_ok (foldl storage_step s evs) \<and> saved (foldl storage_step s evs) = foldl saved_step (saved s) evs"
proof (induction evs arbitrary: s)
  case (Cons ev evs)
  have r: "storage_ok (storage_step s ev) \<and> saved (storage_step s ev) = saved_step (saved s) ev"
    using Cons.prems by (intro storage_step_refines) simp_all
  then show ?case using Cons.IH [of "storage_step s ev"] Cons.prems by simp
qed simp

section \<open>The properties\<close>

text \<open>C28: a region file holds what was written: reading any of the 1024 slots gives the chunk put there,
  or its absence, when every chunk is below 256 sectors.\<close>

theorem region_file_roundtrip:
  assumes "region_ok raws"
  shows "map (readRawChunk (writeRegionFile raws)) [0..<1024] = map Inr raws"
proof (rule nth_equalityI)
  fix i
  assume "i < length (map (readRawChunk (writeRegionFile raws)) [0..<1024])"
  then show "map (readRawChunk (writeRegionFile raws)) [0..<1024] ! i = map Inr raws ! i"
    using assms by (simp add: region_read_back) (simp add: region_ok_def)
qed (use assms in \<open>simp add: region_ok_def\<close>)

theorem region_file_roundtrip_witness:
  "map (readRawChunk (writeRegionFile (Some [3, 10] # replicate 1022 None @ [Some [2, 1, 1]]))) [0..<1024] =
    map Inr (Some [3, 10] # replicate 1022 None @ [Some [2, 1, 1]])"
  by (rule region_file_roundtrip) (auto simp: region_ok_def raw_ok_def sectorSize_def)

text \<open>C27: the storage is a map from chunks to bytes which only saves change: over any interleaving of saves
  with the steps of flushes, writes that fail included, every chunk keeps the last bytes saved for it,
  and once nothing is pending the files give exactly these bytes.\<close>

theorem storage_never_loses:
  assumes "files_ok files" "\<forall>ev \<in> set evs. event_ok ev"
  defines "s \<equiv> foldl storage_step (NewStorage files) evs"
  shows "saved s = foldl saved_step (saved (NewStorage files)) evs \<and>
    (\<forall>key. Pending s = [] \<and> Todo s = [] \<longrightarrow>
       load_raw s key = Inr (foldl saved_step (saved (NewStorage files)) evs key))"
proof -
  have "storage_ok (NewStorage files)" using assms(1) by (simp add: storage_ok_def NewStorage_def chunks_fit_def)
  then have s: "storage_ok s \<and> saved s = foldl saved_step (saved (NewStorage files)) evs"
    using storage_steps_refine assms(2) unfolding s_def by blast
  moreover have "load_raw s key = Inr (saved s key)" if "Pending s = []" "Todo s = []" for key
  proof -
    have "files_ok (Files s)" "Writing s = []" using s that by (simp_all add: storage_ok_def)
    then show ?thesis using that load_kept [of s key] unfolding saved_def by simp
  qed
  ultimately show ?thesis by simp
qed

theorem storage_never_loses_witness:
  "saved (foldl storage_step (NewStorage (\<lambda>rk. None))
     [Save (0, 0) [3, 1], BeginFlush, Save (0, 0) [3, 2], FlushRegion False, Save (-1, 5) [3, 3], BeginFlush, FlushRegion True]) (0, 0) =
    Some [3, 2]"
proof -
  let ?evs = "[Save (0, 0) [3, 1], BeginFlush, Save (0, 0) [3, 2], FlushRegion False, Save (-1, 5) [3, 3], BeginFlush, FlushRegion True]"
  have "saved (foldl storage_step (NewStorage (\<lambda>rk. None)) ?evs) = foldl saved_step (saved (NewStorage (\<lambda>rk. None))) ?evs"
    by (rule storage_never_loses [THEN conjunct1]) (simp_all add: files_ok_def event_ok_def raw_ok_def sectorSize_def)
  then show ?thesis by (simp add: saved_step_def)
qed

text \<open>Writing one chunk directly gives the same files as saving it and flushing.\<close>

theorem direct_save_like_flush:
  "saveChunkToRegion zlib True key nbt s =
    Some (s\<lparr>Files := Files (Flush [True] (SaveChunk zlib key nbt (NewStorage (Files s))))\<rparr>)"
  by (simp add: saveChunkToRegion_def direct_chunks_eq Flush_def flush_begin_def flush_region_def flushRegion_def
      SaveChunk_def SaveRaw_def saveChunk_raw_def NewStorage_def Let_def)

lemma update_length: "length (AList.update key raw ps) \<le> Suc (length ps)"
  by (induction ps) auto

lemma flush_all_done: "length (Todo s) \<le> n \<Longrightarrow> Todo (flush_all (replicate n True) s) = [] \<and> Pending (flush_all (replicate n True) s) = Pending s"
proof (induction n arbitrary: s)
  case (Suc n)
  have "length (Todo (flush_region True s)) \<le> n" "Pending (flush_region True s) = Pending s"
    using Suc.prems by (auto simp: flush_region_def flushRegion_def Let_def split: list.splits)
  then show ?case using Suc.IH by simp
qed simp

lemma flush_all_ok: "storage_ok s \<Longrightarrow> storage_ok (flush_all oks s) \<and> saved (flush_all oks s) = saved s"
proof (induction oks arbitrary: s)
  case (Cons ok oks)
  have "storage_ok (flush_region ok s) \<and> saved (flush_region ok s) = saved s"
    using storage_step_refines [OF Cons.prems, of "FlushRegion ok"] by (simp add: storage_step_def saved_step_def event_ok_def)
  then show ?case using Cons.IH by simp
qed simp

lemma flush_loads:
  assumes "storage_ok s" "Todo s = []" "length (Pending s) \<le> n"
  shows "load_raw (Flush (replicate n True) s) key = Inr (saved s key)"
proof -
  let ?s = "Flush (replicate n True) s"
  have b: "storage_ok (flush_begin s) \<and> saved (flush_begin s) = saved s" by (rule begin_step [OF assms(1,2)])
  have "length (Todo (flush_begin s)) \<le> n" "Pending (flush_begin s) = []"
    using assms(3) length_remdups_leq [of "map (\<lambda>(key, raw). region_of key) (Pending s)"] by (simp_all add: flush_begin_def)
  then have "Todo ?s = []" "Pending ?s = []" using flush_all_done unfolding Flush_def by simp_all
  moreover have s: "storage_ok ?s" "saved ?s = saved s" using flush_all_ok b unfolding Flush_def by simp_all
  ultimately have "Writing ?s = []" "files_ok (Files ?s)" by (simp_all add: storage_ok_def)
  then show ?thesis using load_kept [of ?s key] s(2) \<open>Pending ?s = []\<close> unfolding saved_def [of ?s] by (auto dest: fun_cong [of _ _ key])
qed

lemma saved_flushed:
  assumes "storage_ok s" "Todo s = []" "raw_ok (2 # zlib nbt)"
  shows "load_raw (Flush (replicate (Suc (length (Pending s))) True) (SaveChunk zlib key nbt s)) key = Inr (Some (2 # zlib nbt))"
proof -
  let ?t = "SaveChunk zlib key nbt s"
  have t: "storage_ok ?t \<and> saved ?t = (saved s)(key := Some (2 # zlib nbt))"
    using save_step [OF assms(1,3)] by (simp add: SaveChunk_def saveChunk_raw_def)
  have "length (Pending ?t) \<le> Suc (length (Pending s))" by (simp add: SaveChunk_def SaveRaw_def update_length)
  then have "load_raw (Flush (replicate (Suc (length (Pending s))) True) ?t) key = Inr (saved ?t key)"
    using t assms(2) by (intro flush_loads) (simp_all add: SaveChunk_def SaveRaw_def)
  then show ?thesis using t by simp
qed

text \<open>A chunk saved and flushed loads again: its tree comes back from the disk through compression,
  sectors and NBT, whatever else is saved with it, and the flush ends with nothing pending.\<close>

theorem saved_chunk_loads:
  assumes zlib: "\<And>bs. unzlib Z (zlib bs) = Some bs"
    and s: "storage_ok s" "Todo s = []" "raw_ok (2 # zlib (WriteRootCompound root))"
    and root: "entries_wf root" "sorted_wrt (<) (map fst root)"
  shows "loadChunkFromRegion Z (Flush (replicate (Suc (length (Pending s))) True) (SaveChunk zlib key (WriteRootCompound root) s)) key =
    Inr (Some root)"
  using saved_flushed [of s zlib "WriteRootCompound root" key] s root_read_back [OF root, of "[]"]
  by (simp add: loadChunkFromRegion_def decompressChunk_def zlib)

theorem saved_chunk_loads_witness:
  "loadChunkFromRegion \<lparr>gunzip = Some, unzlib = Some\<rparr>
     (Flush (replicate 1 True) (SaveChunk (\<lambda>bs. bs) (-1, 40) (WriteRootCompound [([68], TagInt 7)]) (NewStorage (\<lambda>rk. None)))) (-1, 40) =
    Inr (Some [([68], TagInt 7)])"
proof -
  have "storage_ok (NewStorage (\<lambda>rk. None))" by (simp add: storage_ok_def NewStorage_def files_ok_def chunks_fit_def)
  moreover have "raw_ok (2 # WriteRootCompound [([68], TagInt 7)])"
    by (simp add: raw_ok_def sectorSize_def WriteRootCompound_def writeNamedHeader_def writeMUTF8_def)
  ultimately show ?thesis
    using saved_chunk_loads [of "\<lparr>gunzip = Some, unzlib = Some\<rparr>" "\<lambda>bs. bs" "NewStorage (\<lambda>rk. None)" "[([68], TagInt 7)]" "(-1, 40)"]
    by (simp add: NewStorage_def)
qed

end
