(* ===== verification/Enchantments.thy ===== *)
theory Enchantments
  imports Items "HOL-Library.Multiset"
begin

text \<open>
  The enchantments of the game (\<open>core/player/enchantments.go\<close>, \<open>enchantment_compatibility.go\<close>,
  \<open>enchantment_items.go\<close>): their table, which of them exclude each other, which items take them;
  and what the encoded levels of a stack (\<open>enchantment_state.go\<close>) give back when they are read.
\<close>

section \<open>The table\<close>

record enchantment =
  EnchID :: string
  SupportedItems :: string
  ExclusiveSet :: string
  MaxLevel :: int

definition ench :: "string \<Rightarrow> string \<Rightarrow> string \<Rightarrow> int \<Rightarrow> enchantment" where
  "ench i items exclusive level = \<lparr>EnchID = i, SupportedItems = items, ExclusiveSet = exclusive, MaxLevel = level\<rparr>"

definition enchantments :: "enchantment list" where
  "enchantments =
    [
     ench ''minecraft:aqua_affinity'' ''head_armor'' '''' 1,
     ench ''minecraft:bane_of_arthropods'' ''weapon'' ''damage'' 5,
     ench ''minecraft:binding_curse'' ''equippable'' '''' 1,
     ench ''minecraft:blast_protection'' ''armor'' ''armor'' 4,
     ench ''minecraft:breach'' ''mace'' ''damage'' 4,
     ench ''minecraft:channeling'' ''trident'' '''' 1,
     ench ''minecraft:density'' ''mace'' ''damage'' 5,
     ench ''minecraft:depth_strider'' ''foot_armor'' ''boots'' 3,
     ench ''minecraft:efficiency'' ''mining'' '''' 5,
     ench ''minecraft:feather_falling'' ''foot_armor'' '''' 4,
     ench ''minecraft:fire_aspect'' ''fire_aspect'' '''' 2,
     ench ''minecraft:fire_protection'' ''armor'' ''armor'' 4,
     ench ''minecraft:flame'' ''bow'' '''' 1,
     ench ''minecraft:fortune'' ''mining_loot'' ''mining'' 3,
     ench ''minecraft:frost_walker'' ''foot_armor'' ''boots'' 2,
     ench ''minecraft:impaling'' ''trident'' ''damage'' 5,
     ench ''minecraft:infinity'' ''bow'' ''bow'' 1,
     ench ''minecraft:knockback'' ''sword'' '''' 2,
     ench ''minecraft:looting'' ''sword'' '''' 3,
     ench ''minecraft:loyalty'' ''trident'' '''' 3,
     ench ''minecraft:luck_of_the_sea'' ''fishing'' '''' 3,
     ench ''minecraft:lure'' ''fishing'' '''' 3,
     ench ''minecraft:mending'' ''durability'' '''' 1,
     ench ''minecraft:multishot'' ''crossbow'' ''crossbow'' 1,
     ench ''minecraft:piercing'' ''crossbow'' ''crossbow'' 4,
     ench ''minecraft:power'' ''bow'' '''' 5,
     ench ''minecraft:projectile_protection'' ''armor'' ''armor'' 4,
     ench ''minecraft:protection'' ''armor'' ''armor'' 4,
     ench ''minecraft:punch'' ''bow'' '''' 2,
     ench ''minecraft:quick_charge'' ''crossbow'' '''' 3,
     ench ''minecraft:respiration'' ''head_armor'' '''' 3,
     ench ''minecraft:riptide'' ''trident'' ''riptide'' 3,
     ench ''minecraft:sharpness'' ''sharp_weapon'' ''damage'' 5,
     ench ''minecraft:silk_touch'' ''mining_loot'' ''mining'' 1,
     ench ''minecraft:smite'' ''weapon'' ''damage'' 5,
     ench ''minecraft:soul_speed'' ''foot_armor'' '''' 3,
     ench ''minecraft:sweeping_edge'' ''sword'' '''' 3,
     ench ''minecraft:swift_sneak'' ''leg_armor'' '''' 3,
     ench ''minecraft:thorns'' ''armor'' '''' 3,
     ench ''minecraft:unbreaking'' ''durability'' '''' 3,
     ench ''minecraft:vanishing_curse'' ''vanishing'' '''' 1,
     ench ''minecraft:wind_burst'' ''mace'' '''' 3]"

definition EnchantmentByID :: "string \<Rightarrow> enchantment option" where
  "EnchantmentByID i = List.find (\<lambda>e. EnchID e = with_namespace i) enchantments"

text \<open>The exclusive sets, their members without the namespace.\<close>

definition exclusiveEnchantments :: "(string \<times> string list) list" where
  "exclusiveEnchantments =
    [(''armor'', [''protection'', ''blast_protection'', ''fire_protection'', ''projectile_protection'']),
     (''boots'', [''frost_walker'', ''depth_strider'']),
     (''bow'', [''infinity'', ''mending'']),
     (''crossbow'', [''multishot'', ''piercing'']),
     (''damage'', [''sharpness'', ''smite'', ''bane_of_arthropods'', ''impaling'', ''density'', ''breach'']),
     (''mining'', [''fortune'', ''silk_touch'']),
     (''riptide'', [''loyalty'', ''channeling''])]"

definition in_exclusive :: "string \<Rightarrow> string \<Rightarrow> bool" where
  "in_exclusive name i =
     (case map_of exclusiveEnchantments name of None \<Rightarrow> False | Some ids \<Rightarrow> i \<in> set (map ((@) ''minecraft:'') ids))"

definition enchantmentsConflict :: "enchantment \<Rightarrow> enchantment \<Rightarrow> bool" where
  "enchantmentsConflict first second \<longleftrightarrow>
     ExclusiveSet first \<noteq> [] \<and> in_exclusive (ExclusiveSet first) (EnchID second) \<or>
     ExclusiveSet second \<noteq> [] \<and> in_exclusive (ExclusiveSet second) (EnchID first)"

definition CompatibleWith :: "enchantment \<Rightarrow> item_stack \<Rightarrow> bool" where
  "CompatibleWith e stack =
     list_all (\<lambda>applied. case EnchantmentByID (el_id applied) of
         None \<Rightarrow> False
       | Some other \<Rightarrow> \<not> (EnchID other = EnchID e \<or> enchantmentsConflict e other)) (EnchantmentLevels stack)"

definition Supports :: "item_env \<Rightarrow> enchantment \<Rightarrow> string \<Rightarrow> bool" where
  "Supports E e item = HasTag (registry E) item (''minecraft:enchantable/'' @ SupportedItems e)"

section \<open>The encoded levels\<close>

text \<open>The canonical enchantment component: distinct ids with a namespace, levels from 1 to 255.\<close>

definition levels_ok :: "enchantment_level list \<Rightarrow> bool" where
  "levels_ok vs \<longleftrightarrow> distinct (map el_id vs) \<and>
     (\<forall>v \<in> set vs. CHR '':'' \<in> set (el_id v) \<and> CHR '';'' \<notin> set (el_id v) \<and> CHR ''='' \<notin> set (el_id v) \<and>
        1 \<le> el_level v \<and> el_level v \<le> 255)"

definition canonical_enchantments :: "string \<Rightarrow> bool" where
  "canonical_enchantments s \<longleftrightarrow> (\<exists>vs. levels_ok vs \<and> s = encodeEnchantments vs)"

lemma decode_entry_of:
  assumes "CHR '':'' \<in> set (el_id v)" "CHR ''='' \<notin> set (el_id v)" "1 \<le> el_level v" "el_level v \<le> 255"
  shows "decode_entry (el_id v @ CHR ''='' # Itoa (el_level v)) = Some v"
proof -
  have "split_n2 CHR ''='' (el_id v @ CHR ''='' # Itoa (el_level v)) = [el_id v, Itoa (el_level v)]"
    using assms(2) by (rule split_n2_append)
  moreover have "el_id v \<noteq> []" using assms(1) by auto
  moreover have "Atoi (Itoa (el_level v)) = Some (el_level v)" using assms(3,4) by (intro Atoi_Itoa) simp_all
  ultimately show ?thesis using assms by (simp add: decode_entry_def Let_def)
qed

lemma decode_entries_map: "(\<And>v. v \<in> set vs \<Longrightarrow> decode_entry (f v) = Some v) \<Longrightarrow> decode_entries (map f vs) = Some vs"
  by (induction vs) simp_all

lemma Itoa_no_semicolon: "0 \<le> n \<Longrightarrow> CHR '';'' \<notin> set (Itoa n)"
  using Itoa_digits [of n] by (auto simp: list_all_iff is_digit_def)

lemma decode_encode:
  assumes "levels_ok vs"
  shows "DecodeEnchantments (encodeEnchantments vs) = Some (sort_key el_id vs)"
proof (cases "vs = []")
  case False
  let ?f = "\<lambda>v. el_id v @ CHR ''='' # Itoa (el_level v)"
  let ?s = "sort_key el_id vs"
  have ok: "\<And>v. v \<in> set ?s \<Longrightarrow> decode_entry (?f v) = Some v"
    using assms by (intro decode_entry_of) (simp_all add: levels_ok_def)
  have "\<And>x. x \<in> set (map ?f ?s) \<Longrightarrow> CHR '';'' \<notin> set x"
    using assms Itoa_no_semicolon by (auto simp: levels_ok_def)
  moreover have "map ?f ?s \<noteq> []" using False by (metis length_0_conv length_map length_sort)
  ultimately have "split_on CHR '';'' (join_with CHR '';'' (map ?f ?s)) = map ?f ?s" by (intro split_join) auto
  moreover have "join_with CHR '';'' (map ?f ?s) \<noteq> []"
  proof
    assume "join_with CHR '';'' (map ?f ?s) = []"
    then have "map ?f ?s = [[]]" using calculation by simp
    then have "[] \<in> set (map ?f ?s)" by (simp only: list.set) simp
    then show False by auto
  qed
  ultimately show ?thesis
    using decode_entries_map [of ?s ?f, OF ok] unfolding DecodeEnchantments_def encodeEnchantments_def by (simp only: if_False)
qed (simp add: DecodeEnchantments_def encodeEnchantments_def)

lemma sort_levels_unique:
  assumes "distinct (map el_id vs)" "mset vs = mset ws"
  shows "sort_key el_id vs = sort_key el_id ws"
proof -
  have s: "set vs = set ws" by (rule mset_eq_setD [OF assms(2)])
  have i: "inj_on el_id (set vs)" using assms(1) by (simp add: distinct_map)
  have dv: "distinct (map el_id (sort_key el_id vs))" using assms(1) by (simp add: distinct_map)
  have "distinct ws" using assms by (metis distinct_map mset_eq_imp_distinct_iff)
  then have dw: "distinct (map el_id (sort_key el_id ws))" using i s by (simp add: distinct_map)
  show ?thesis
    by (rule map_sorted_distinct_set_unique [where f = el_id])
      (use s i dv dw in \<open>simp_all only: set_sort sorted_sort_key Un_absorb\<close>)
qed

lemma levels_ok_perm:
  assumes "levels_ok vs" "mset vs = mset ws"
  shows "levels_ok ws"
proof -
  have "set vs = set ws" "distinct vs = distinct ws"
    by (rule mset_eq_setD [OF assms(2)], rule mset_eq_imp_distinct_iff [OF assms(2)])
  then show ?thesis using assms(1) by (simp add: levels_ok_def distinct_map)
qed

lemma encode_perm: "distinct (map el_id vs) \<Longrightarrow> mset vs = mset ws \<Longrightarrow> encodeEnchantments vs = encodeEnchantments ws"
  by (simp add: encodeEnchantments_def sort_levels_unique)

lemma index_of_id_None: "i \<notin> el_id ` set vs \<Longrightarrow> index_of_id i vs = None"
  by (induction vs) auto

lemma Enchant_new:
  assumes "levels_ok (vs @ [v])" "\<not> IsEmpty s" "Enchantments s = encodeEnchantments vs"
  shows "fst (Enchant s (el_id v) (el_level v)) = s\<lparr>Enchantments := encodeEnchantments (vs @ [v])\<rparr>"
proof -
  have vs: "levels_ok vs" using assms(1) by (simp add: levels_ok_def)
  have v: "1 \<le> el_level v" "el_level v \<le> 255" "CHR '':'' \<in> set (el_id v)" "el_id v \<notin> el_id ` set vs"
    using assms(1) by (auto simp: levels_ok_def)
  have l: "EnchantmentLevels s = sort_key el_id vs" using decode_encode [OF vs] assms(3) by (simp add: EnchantmentLevels_def)
  have "encodeEnchantments (sort_key el_id vs @ [v]) = encodeEnchantments (vs @ [v])"
    using assms(1) by (intro encode_perm) (auto simp: levels_ok_def distinct_map inj_on_def)
  moreover have "index_of_id (el_id v) (sort_key el_id vs) = None" using v(4) by (intro index_of_id_None) simp
  ultimately show ?thesis using assms(2) v l by (cases v) (simp add: Enchant_def with_namespace_def Let_def)
qed

lemma Enchant_fold:
  assumes "levels_ok (vs @ ws)" "\<not> IsEmpty s" "Enchantments s = encodeEnchantments vs"
  shows "foldl (\<lambda>s v. fst (Enchant s (el_id v) (el_level v))) s ws = s\<lparr>Enchantments := encodeEnchantments (vs @ ws)\<rparr>"
  using assms
proof (induction ws arbitrary: vs s)
  case (Cons w ws)
  have ok: "levels_ok (vs @ [w])" using Cons.prems(1) by (auto simp: levels_ok_def)
  let ?s = "fst (Enchant s (el_id w) (el_level w))"
  have s: "?s = s\<lparr>Enchantments := encodeEnchantments (vs @ [w])\<rparr>" by (rule Enchant_new [OF ok Cons.prems(2,3)])
  then show ?case using Cons.IH [of "vs @ [w]" ?s] Cons.prems(1,2) by (simp add: s IsEmpty_def)
qed simp

section \<open>Levels as a map\<close>

definition level_in :: "enchantment_level list \<Rightarrow> string \<Rightarrow> int" where
  "level_in vs i = (case List.find (\<lambda>v. el_id v = i) vs of None \<Rightarrow> 0 | Some v \<Rightarrow> el_level v)"

lemma with_namespace_twice [simp]: "with_namespace (with_namespace i) = with_namespace i"
  by (simp add: with_namespace_def)

lemma level_in_member: "distinct (map el_id vs) \<Longrightarrow> v \<in> set vs \<Longrightarrow> level_in vs (el_id v) = el_level v"
  by (induction vs) (auto simp: level_in_def)

lemma level_in_absent: "i \<notin> el_id ` set vs \<Longrightarrow> level_in vs i = 0"
  by (induction vs) (auto simp: level_in_def)

lemma level_in_cong:
  assumes "distinct (map el_id vs)" "mset vs = mset ws"
  shows "level_in vs i = level_in ws i"
proof -
  have s: "set vs = set ws" by (rule mset_eq_setD [OF assms(2)])
  have d: "distinct (map el_id ws)"
  proof -
    have "mset (map el_id ws) = mset (map el_id vs)" by (simp add: assms(2))
    then show ?thesis using assms(1) by (metis mset_eq_imp_distinct_iff)
  qed
  show ?thesis
  proof (cases "i \<in> el_id ` set vs")
    case True
    then obtain v where v: "v \<in> set vs" "i = el_id v" by auto
    then show ?thesis using level_in_member [OF assms(1)] level_in_member [OF d] s by simp
  next
    case False
    then show ?thesis using s by (simp add: level_in_absent)
  qed
qed

lemma encoded_level:
  assumes "levels_ok vs" "Enchantments s = encodeEnchantments vs"
  shows "EnchantmentLevel s i = level_in vs (with_namespace i)"
proof -
  have "EnchantmentLevels s = sort_key el_id vs" using decode_encode [OF assms(1)] assms(2) by (simp add: EnchantmentLevels_def)
  then have "EnchantmentLevel s i = level_in (sort_key el_id vs) (with_namespace i)"
    by (simp add: EnchantmentLevel_def level_in_def)
  also have "\<dots> = level_in vs (with_namespace i)"
    using assms(1) by (intro level_in_cong [symmetric]) (simp_all add: levels_ok_def)
  finally show ?thesis .
qed

lemma index_of_id_Some:
  "index_of_id i vs = Some n \<Longrightarrow> n < length vs \<and> el_id (vs ! n) = i"
  by (induction vs arbitrary: n) (auto split: if_splits)

lemma index_of_id_missing: "index_of_id i vs = None \<longleftrightarrow> i \<notin> el_id ` set vs"
  by (induction vs) auto

lemma level_in_update:
  assumes "distinct (map el_id vs)" "n < length vs"
  shows "level_in (vs[n := (vs ! n)\<lparr>el_level := l\<rparr>]) i = (if el_id (vs ! n) = i then l else level_in vs i)"
  using assms
proof (induction vs arbitrary: n)
  case (Cons v vs)
  show ?case
  proof (cases n)
    case 0
    then show ?thesis by (simp add: level_in_def)
  next
    case (Suc m)
    then have "el_id (vs ! m) \<in> el_id ` set vs" using Cons.prems by simp
    then have "el_id (vs ! m) \<noteq> el_id v" using Cons.prems by auto
    then show ?thesis using Cons.IH [of m] Cons.prems Suc by (auto simp: level_in_def)
  qed
qed simp

lemma level_in_snoc: "el_id v \<notin> el_id ` set vs \<Longrightarrow> level_in (vs @ [v]) i = (if el_id v = i then el_level v else level_in vs i)"
  by (induction vs) (auto simp: level_in_def)

lemma levels_ok_update:
  assumes "levels_ok vs" "n < length vs" "1 \<le> l" "l \<le> 255"
  shows "levels_ok (vs[n := (vs ! n)\<lparr>el_level := l\<rparr>])"
proof -
  have m: "map el_id (vs[n := (vs ! n)\<lparr>el_level := l\<rparr>]) = map el_id vs"
    using assms(2) by (simp add: map_update) (metis list_update_id nth_map)
  have "v \<in> set vs \<or> v = (vs ! n)\<lparr>el_level := l\<rparr>" if "v \<in> set (vs[n := (vs ! n)\<lparr>el_level := l\<rparr>])" for v
    using that set_update_subset_insert by fastforce
  then show ?thesis
    using assms nth_mem [OF assms(2)] unfolding levels_ok_def m by fastforce
qed

definition plain_id :: "string \<Rightarrow> bool" where
  "plain_id i \<longleftrightarrow> CHR '';'' \<notin> set i \<and> CHR ''='' \<notin> set i"

text \<open>Enchanting keeps the higher level, for one id, up to 255.\<close>

lemma Enchant_levels:
  assumes "canonical_enchantments (Enchantments s)" "\<not> IsEmpty s" "0 < l" "plain_id i"
  shows "canonical_enchantments (Enchantments (fst (Enchant s i l))) \<and>
    EnchantmentLevel (fst (Enchant s i l)) j =
      (if with_namespace j = with_namespace i then max (EnchantmentLevel s j) (min l 255) else EnchantmentLevel s j)"
proof -
  obtain us where us: "levels_ok us" "Enchantments s = encodeEnchantments us" using assms(1) by (auto simp: canonical_enchantments_def)
  let ?vs = "sort_key el_id us" and ?i = "with_namespace i" and ?l = "min l 255"
  have vs: "levels_ok ?vs" by (rule levels_ok_perm [OF us(1)]) simp
  have enc: "Enchantments s = encodeEnchantments ?vs"
    using us encode_perm [of us ?vs] by (simp add: levels_ok_def)
  have L: "EnchantmentLevels s = ?vs" using decode_encode [OF us(1)] us(2) by (simp add: EnchantmentLevels_def)
  have old: "EnchantmentLevel s j = level_in ?vs (with_namespace j)" by (rule encoded_level [OF vs enc])
  have d: "distinct (map el_id ?vs)" using vs by (simp add: levels_ok_def)
  have colon: "CHR '':'' \<in> set ?i" "CHR '';'' \<notin> set ?i" "CHR ''='' \<notin> set ?i"
    using assms(4) by (auto simp: with_namespace_def plain_id_def)
  show ?thesis
  proof (cases "index_of_id ?i ?vs")
    case None
    let ?ws = "?vs @ [\<lparr>el_id = ?i, el_level = ?l\<rparr>]"
    have new: "?i \<notin> el_id ` set ?vs" using None by (simp only: index_of_id_missing simp_thms)
    have ok: "levels_ok ?ws" using vs new colon assms(3) by (auto simp: levels_ok_def)
    have run: "fst (Enchant s i l) = s\<lparr>Enchantments := encodeEnchantments ?ws\<rparr>"
      using assms(2,3) None L by (simp add: Enchant_def Let_def)
    have "EnchantmentLevel (s\<lparr>Enchantments := encodeEnchantments ?ws\<rparr>) j = level_in ?ws (with_namespace j)"
      by (rule encoded_level [OF ok]) simp
    then show ?thesis
      using ok new assms(3) old unfolding run
      by (auto simp: canonical_enchantments_def level_in_snoc level_in_absent)
  next
    case (Some n)
    note N = index_of_id_Some [OF Some]
    have lv: "level_in ?vs ?i = el_level (?vs ! n)" using level_in_member [OF d nth_mem, of n] N by simp
    show ?thesis
    proof (cases "?l \<le> el_level (?vs ! n)")
      case True
      then have "fst (Enchant s i l) = s" using assms(2,3) Some L by (simp add: Enchant_def Let_def)
      then show ?thesis using assms(1) True lv old by auto
    next
      case False
      let ?ws = "?vs[n := (?vs ! n)\<lparr>el_level := ?l\<rparr>]"
      have ok: "levels_ok ?ws" using levels_ok_update [OF vs, of n ?l] N assms(3) by simp
      have run: "fst (Enchant s i l) = s\<lparr>Enchantments := encodeEnchantments ?ws\<rparr>"
        using assms(2,3) Some L False by (simp add: Enchant_def Let_def)
      have "EnchantmentLevel (s\<lparr>Enchantments := encodeEnchantments ?ws\<rparr>) j = level_in ?ws (with_namespace j)"
        by (rule encoded_level [OF ok]) simp
      then show ?thesis
        using ok N lv old False level_in_update [OF d, of n ?l "with_namespace j"] unfolding run
        by (auto simp: canonical_enchantments_def)
    qed
  qed
qed

section \<open>The ids on a stack\<close>

definition enchantment_ids :: "item_stack \<Rightarrow> string set" where
  "enchantment_ids s = el_id ` set (EnchantmentLevels s)"

lemma canonical_ids:
  assumes "canonical_enchantments (Enchantments s)"
  shows "i \<in> enchantment_ids s \<longleftrightarrow> CHR '':'' \<in> set i \<and> 0 < EnchantmentLevel s i"
proof -
  obtain vs where vs: "levels_ok vs" "Enchantments s = encodeEnchantments vs" using assms by (auto simp: canonical_enchantments_def)
  have ids: "enchantment_ids s = el_id ` set vs"
    using decode_encode [OF vs(1)] vs(2) by (simp add: enchantment_ids_def EnchantmentLevels_def)
  note L = encoded_level [OF vs, of i]
  show ?thesis
  proof (cases "i \<in> el_id ` set vs")
    case True
    then obtain v where v: "v \<in> set vs" "i = el_id v" by auto
    then have "CHR '':'' \<in> set i" "0 < el_level v" using vs(1) by (fastforce simp: levels_ok_def)+
    then show ?thesis
      using level_in_member [of vs v] vs(1) v L True by (simp add: ids levels_ok_def with_namespace_def)
  next
    case False
    then show ?thesis using L by (simp add: ids with_namespace_def level_in_absent)
  qed
qed

lemma canonical_bound: "canonical_enchantments (Enchantments s) \<Longrightarrow> 0 \<le> EnchantmentLevel s i \<and> EnchantmentLevel s i \<le> 255"
proof -
  assume "canonical_enchantments (Enchantments s)"
  then obtain vs where vs: "levels_ok vs" "Enchantments s = encodeEnchantments vs" by (auto simp: canonical_enchantments_def)
  have "level_in vs j = 0 \<or> (\<exists>v \<in> set vs. level_in vs j = el_level v)" for j
    using level_in_absent [of j vs] level_in_member [of vs] vs(1) by (auto simp: levels_ok_def)
  then show ?thesis using encoded_level [OF vs, of i] vs(1) unfolding levels_ok_def
    by (metis le_numeral_extra(3) order_trans zero_le_numeral zero_le_one)
qed

lemma table_plain: "list_all (\<lambda>e. plain_id (EnchID e) \<and> CHR '':'' \<in> set (EnchID e)) enchantments"
  by (simp add: enchantments_def ench_def plain_id_def)

lemma known_enchantment:
  assumes "EnchantmentByID i = Some e"
  shows "EnchID e = with_namespace i" "plain_id i"
proof -
  have e: "e \<in> set enchantments" "EnchID e = with_namespace i"
    using assms by (auto simp: EnchantmentByID_def find_Some_iff)
  then have "plain_id (with_namespace i)" using table_plain by (auto simp: list_all_iff)
  then show "EnchID e = with_namespace i" "plain_id i" using e by (auto simp: plain_id_def with_namespace_def split: if_splits)
qed

lemma conflict_sym: "enchantmentsConflict a b = enchantmentsConflict b a"
  by (auto simp: enchantmentsConflict_def)

lemma Enchant_ids:
  assumes "canonical_enchantments (Enchantments s)" "\<not> IsEmpty s" "0 < l" "plain_id i"
  shows "enchantment_ids (fst (Enchant s i l)) = insert (with_namespace i) (enchantment_ids s)"
proof -
  note L = Enchant_levels [OF assms]
  have n: "with_namespace a = a" if "CHR '':'' \<in> set a" for a using that by (simp add: with_namespace_def)
  have c: "CHR '':'' \<in> set (with_namespace i)" by (simp add: with_namespace_def)
  have "a \<in> enchantment_ids (fst (Enchant s i l)) \<longleftrightarrow> a \<in> insert (with_namespace i) (enchantment_ids s)" for a
    using L [of a] canonical_ids [OF assms(1), of a] canonical_ids [of "fst (Enchant s i l)" a] c n [of a] assms(3)
    by (auto split: if_splits)
  then show ?thesis by blast
qed

end
