(* ===== verification/AnvilEntities.thy ===== *)
theory AnvilEntities
  imports Worlds Nbt Enchantments
begin

text \<open>
  Block entities in the saved chunks (\<open>java/world/anvil/merge.go\<close>, \<open>decode.go\<close>): containers with their
  items, decorated pots and lecterns, between the canonical form and NBT. A Go string is its
  bytes in a tag. A compound is built by entries in any order and kept in key order, as in \<open>Nbt\<close>.
\<close>

section \<open>Reading tags\<close>

definition bytes_of :: "string \<Rightarrow> byte list" where
  "bytes_of s = map of_char s"

definition string_of :: "byte list \<Rightarrow> string" where
  "string_of bs = map (\<lambda>b. char_of (unat b)) bs"

text \<open>The accessors give the zero value for a tag of another type.\<close>

definition tag_byte :: "tag \<Rightarrow> byte" where
  "tag_byte t = (case t of TagByte v \<Rightarrow> v | _ \<Rightarrow> 0)"

definition tag_short :: "tag \<Rightarrow> 16 word" where
  "tag_short t = (case t of TagShort v \<Rightarrow> v | _ \<Rightarrow> 0)"

definition tag_int :: "tag \<Rightarrow> i32" where
  "tag_int t = (case t of TagInt v \<Rightarrow> v | _ \<Rightarrow> 0)"

definition tag_long :: "tag \<Rightarrow> i64" where
  "tag_long t = (case t of TagLong v \<Rightarrow> v | _ \<Rightarrow> 0)"

definition tag_str :: "tag \<Rightarrow> string" where
  "tag_str t = (case t of TagString s \<Rightarrow> string_of s | _ \<Rightarrow> [])"

definition tag_list :: "tag \<Rightarrow> tag list" where
  "tag_list t = (case t of TagList elem ts \<Rightarrow> ts | _ \<Rightarrow> [])"

type_synonym compound = "(byte list \<times> tag) list"

text \<open>Indexing a Go map: the zero tag for a missing name.\<close>

definition field :: "compound \<Rightarrow> string \<Rightarrow> tag" where
  "field es name = (case map_of es (bytes_of name) of None \<Rightarrow> TagEnd | Some t \<Rightarrow> t)"

definition tag_get :: "tag \<Rightarrow> string \<Rightarrow> tag" where
  "tag_get t name = (case t of TagCompound es \<Rightarrow> field es name | _ \<Rightarrow> TagEnd)"

definition set_field :: "string \<Rightarrow> tag \<Rightarrow> compound \<Rightarrow> compound" where
  "set_field name t es = put_entry (bytes_of name) t es"

definition del_field :: "string \<Rightarrow> compound \<Rightarrow> compound" where
  "del_field name es = filter (\<lambda>(k, t). k \<noteq> bytes_of name) es"

definition compound_of :: "(string \<times> tag) list \<Rightarrow> compound" where
  "compound_of kvs = foldl (\<lambda>es (name, t). set_field name t es) [] kvs"

definition text_tag :: "string \<Rightarrow> tag" where
  "text_tag s = TagString (bytes_of s)"

definition numericTagValue :: "tag \<Rightarrow> int" where
  "numericTagValue t =
     (case t of TagByte v \<Rightarrow> sint v | TagShort v \<Rightarrow> sint v | TagInt v \<Rightarrow> sint v | _ \<Rightarrow> 0)"

section \<open>Items\<close>

definition potDecorationsTag :: "string list \<Rightarrow> tag" where
  "potDecorationsTag ds = TagList 8 (map text_tag (NormalizePotDecorations ds))"

definition encodeItemEnchantments :: "string \<Rightarrow> tag" where
  "encodeItemEnchantments encoded =
     (let levels = EnchantmentLevels (no_item\<lparr>Enchantments := encoded\<rparr>)
      in if levels = [] then TagEnd
         else TagCompound (compound_of [(''levels'',
                TagCompound (compound_of (map (\<lambda>v. (el_id v, TagInt (word_of_int (el_level v)))) levels)))]))"

definition item_components :: "container_item \<Rightarrow> compound" where
  "item_components item =
     compound_of
       ((if Damage item > 0 then [(''minecraft:damage'', TagInt (word_of_int (Damage item)))] else []) @
        (if tag_type (encodeItemEnchantments (Enchantments item)) \<noteq> 0
         then [(''minecraft:enchantments'', encodeItemEnchantments (Enchantments item))] else []) @
        (if ItemID item = ''minecraft:decorated_pot''
         then [(''minecraft:pot_decorations'', potDecorationsTag (PotDecorations item))] else []) @
        (if Components item \<noteq> []
         then [(''minecraft:custom_data'', TagCompound (compound_of [(''GoCraftComponents'', text_tag (Components item))]))] else []))"

definition item_tag :: "container_item \<Rightarrow> tag" where
  "item_tag item =
     TagCompound (compound_of
       ([(''Slot'', TagByte (word_of_int (Slot item))), (''id'', text_tag (ItemID item)),
         (''count'', TagInt (word_of_int (Count item)))] @
        (if item_components item \<noteq> [] then [(''components'', TagCompound (item_components item))] else [])))"

definition containerItemsTag :: "container_item list \<Rightarrow> tag" where
  "containerItemsTag items =
     TagList 10 (map item_tag
       (filter (\<lambda>i. \<not> (Slot i < 0 \<or> Slot i > 255 \<or> ItemID i = [] \<or> Count i \<le> 0)) items))"

definition decodePotDecorations :: "tag \<Rightarrow> string list" where
  "decodePotDecorations t =
     (let ds = map tag_str (take 4 (tag_list t)) in ds @ replicate (4 - length ds) [])"

definition decodeItemEnchantments :: "tag \<Rightarrow> string" where
  "decodeItemEnchantments t =
     (case t of
        TagCompound es \<Rightarrow>
          (let levels = (case field es ''levels'' of TagCompound ls \<Rightarrow> ls | _ \<Rightarrow> es);
               stack = foldl (\<lambda>s (name, level). fst (Enchant s (string_of name) (numericTagValue level)))
                 (no_item\<lparr>ItemID := ''minecraft:stone'', Count := 1\<rparr>) levels
           in Enchantments stack)
      | _ \<Rightarrow> [])"

definition item_slot :: "tag \<Rightarrow> int" where
  "item_slot t = (case t of TagShort v \<Rightarrow> sint v | TagInt v \<Rightarrow> sint v | _ \<Rightarrow> sint (tag_byte t))"

definition decode_item :: "compound \<Rightarrow> container_item option" where
  "decode_item es =
     (let slot = item_slot (field es ''Slot'');
          itemID = tag_str (field es ''id'');
          count = (if numericTagValue (field es ''count'') = 0 then numericTagValue (field es ''Count'')
                   else numericTagValue (field es ''count''));
          stack = no_item\<lparr>ItemID := itemID, Count := count\<rparr>
      in if slot < 0 \<or> itemID = [] \<or> count \<le> 0 then None
         else Some (ContainerItemFromStack slot
           (case field es ''components'' of
              TagCompound cs \<Rightarrow>
                stack\<lparr>Damage := numericTagValue (field cs ''minecraft:damage''),
                      Enchantments := decodeItemEnchantments (field cs ''minecraft:enchantments''),
                      PotDecorations := decodePotDecorations (field cs ''minecraft:pot_decorations''),
                      Components := (case field cs ''minecraft:custom_data'' of
                                       TagCompound ds \<Rightarrow> tag_str (field ds ''GoCraftComponents'') | _ \<Rightarrow> [])\<rparr>
            | _ \<Rightarrow> stack)))"

definition decodeContainerItems :: "tag \<Rightarrow> container_item list" where
  "decodeContainerItems t =
     List.map_filter (\<lambda>entry. case entry of TagCompound es \<Rightarrow> decode_item es | _ \<Rightarrow> None) (tag_list t)"

section \<open>Entities\<close>

text \<open>The canonical entity with its pot decorations; \<open>HasItems\<close> is whether \<open>Items\<close> is not nil.\<close>

record saved_entity = block_entity +
  HasItems :: bool
  EntityDecorations :: "string list"

definition is_pot :: "string \<Rightarrow> bool" where
  "is_pot ty \<longleftrightarrow> ty = ''minecraft:decorated_pot'' \<or> ty = ''DecoratedPot''"

definition is_lectern :: "string \<Rightarrow> bool" where
  "is_lectern ty \<longleftrightarrow> ty = ''minecraft:lectern'' \<or> ty = ''lectern''"

text \<open>The payload of an entity: an anonymous compound, read to its last byte.\<close>

definition entity_payload :: "byte list \<Rightarrow> compound option" where
  "entity_payload bs =
     (if length bs < 2 \<or> hd bs \<noteq> 10 then None
      else (case readPayload (2 * length bs + 2) 10 (tl bs) of
              Inr (TagCompound es, []) \<Rightarrow> Some es
            | _ \<Rightarrow> None))"

definition entity_fields :: "saved_entity \<Rightarrow> (string \<times> tag) list" where
  "entity_fields e =
     [(''id'', text_tag (EntityType e)), (''x'', TagInt (word_of_int (EntityX e))),
      (''y'', TagInt (word_of_int (EntityY e))), (''z'', TagInt (word_of_int (EntityZ e)))] @
     (if HasItems e then [(''Items'', containerItemsTag (Items e))] else []) @
     (if is_pot (EntityType e) then [(''sherds'', potDecorationsTag (EntityDecorations e))] else []) @
     (if is_lectern (EntityType e)
      then [(''Page'', TagInt (word_of_int (LecternPage e))), (''GoCraftPageCount'', TagInt (word_of_int (LecternPages e)))]
      else [])"

definition entity_tag :: "saved_entity \<Rightarrow> tag option" where
  "entity_tag e =
     (if EntityType e = [] then None
      else (case entity_payload (EntityData e) of
              None \<Rightarrow> None
            | Some es \<Rightarrow> Some (TagCompound (foldl (\<lambda>es (name, t). set_field name t es) es (entity_fields e)))))"

definition blockEntitiesTag :: "saved_entity list \<Rightarrow> tag" where
  "blockEntitiesTag es = TagList 10 (List.map_filter entity_tag es)"

text \<open>The page count of a lectern saved by another program is computed from its book.\<close>

definition decode_entity :: "world_env \<Rightarrow> compound \<Rightarrow> saved_entity" where
  "decode_entity G es =
     (let entityType = tag_str (field es ''id'');
          items = decodeContainerItems (field es ''Items'');
          page = (if is_lectern entityType then numericTagValue (field es ''Page'') else 0);
          count = numericTagValue (field es ''GoCraftPageCount'');
          pages = (if \<not> is_lectern entityType then 0
                   else if count < 1 then LecternPageCount G items else count);
          data = foldl (\<lambda>es name. del_field name es) es [''Items'', ''id'', ''x'', ''y'', ''z'']
      in \<lparr>EntityX = sint (tag_int (field es ''x'')), EntityY = sint (tag_int (field es ''y'')),
          EntityZ = sint (tag_int (field es ''z'')), EntityType = entityType,
          EntityData = 10 # writeCompoundPayload data, Items = items, LastBookshelfSlot = 0,
          LecternPage = page, LecternPages = pages,
          HasItems = (tag_type (field es ''Items'') = 9),
          EntityDecorations = decodePotDecorations (field es ''sherds'')\<rparr>)"

definition decodeBlockEntities :: "world_env \<Rightarrow> tag \<Rightarrow> saved_entity list" where
  "decodeBlockEntities G t =
     List.map_filter (\<lambda>entry. case entry of TagCompound es \<Rightarrow> Some (decode_entity G es) | _ \<Rightarrow> None) (tag_list t)"

section \<open>Fields\<close>

lemma string_of_bytes [simp]: "string_of (bytes_of s) = s"
proof -
  have "char_of (unat (of_char c :: byte)) = c" for c
  proof -
    have "unat (of_nat (of_char c) :: byte) = (of_char c :: nat)"
      by (simp add: unsigned_of_nat take_bit_nat_eq_self del: of_nat_of_char)
    then have "unat (of_char c :: byte) = (of_char c :: nat)" unfolding of_nat_of_char .
    then show ?thesis by simp
  qed
  then show ?thesis by (simp add: string_of_def bytes_of_def map_idI)
qed

lemma bytes_of_inj [simp]: "bytes_of s = bytes_of s' \<longleftrightarrow> s = s'"
  using string_of_bytes by metis

lemma length_bytes_of [simp]: "length (bytes_of s) = length s"
  by (simp add: bytes_of_def)

lemma map_of_put: "map_of (put_entry name t es) = (map_of es)(name \<mapsto> t)"
  by (induction name t es rule: put_entry.induct) (auto simp: fun_eq_iff)

lemma field_set: "field (set_field name t es) m = (if m = name then t else field es m)"
  by (simp add: field_def set_field_def map_of_put)

lemma field_Nil [simp]: "field [] m = TagEnd"
  by (simp add: field_def)

lemma field_fold:
  "field (foldl (\<lambda>es (name, t). set_field name t es) es kvs) m =
    (case map_of (rev kvs) m of None \<Rightarrow> field es m | Some t \<Rightarrow> t)"
proof (induction kvs arbitrary: es)
  case (Cons kv kvs)
  obtain name t where kv: "kv = (name, t)" by (rule prod.exhaust)
  show ?case by (simp add: kv Cons.IH field_set map_add_def split: option.splits)
qed simp

lemma field_compound: "field (compound_of kvs) m = (case map_of (rev kvs) m of None \<Rightarrow> TagEnd | Some t \<Rightarrow> t)"
  by (simp add: compound_of_def field_fold split: option.splits)

lemma map_of_filter_key: "map_of (filter (\<lambda>(k, t). k \<noteq> name) es) m = (if m = name then None else map_of es m)"
  by (induction es) auto

lemma field_del: "field (del_field name es) m = (if m = name then TagEnd else field es m)"
  by (simp add: field_def del_field_def map_of_filter_key)

lemma set_field_sorted: "sorted_wrt (<) (map fst es) \<Longrightarrow> sorted_wrt (<) (map fst (set_field name t es))"
  unfolding set_field_def by (rule put_entry_sorted)

lemma fields_sorted: "sorted_wrt (<) (map fst es) \<Longrightarrow> sorted_wrt (<) (map fst (foldl (\<lambda>es (name, t). set_field name t es) es kvs))"
  by (induction kvs arbitrary: es) (auto simp: set_field_sorted)

lemma tag_str_text [simp]: "tag_str (text_tag s) = s"
  by (simp add: tag_str_def text_tag_def)

lemma set_field_nonempty: "set_field name t es \<noteq> []"
  unfolding set_field_def by (cases es) (auto split: if_splits)

section \<open>Entries in any order\<close>

lemma mset_put: "name \<notin> fst ` set es \<Longrightarrow> mset (put_entry name t es) = add_mset (name, t) (mset es)"
  by (induction name t es rule: put_entry.induct) auto

lemma mset_put_all:
  "distinct (map fst kvs) \<Longrightarrow> \<forall>n \<in> fst ` set kvs. bytes_of n \<notin> fst ` set es \<Longrightarrow>
    mset (foldl (\<lambda>es (name, t). set_field name t es) es kvs) = mset es + mset (map (\<lambda>(n, t). (bytes_of n, t)) kvs)"
proof (induction kvs arbitrary: es)
  case (Cons kv kvs)
  obtain n t where kv: "kv = (n, t)" by (rule prod.exhaust)
  have "bytes_of n \<notin> fst ` set es" using Cons.prems by (simp add: kv)
  then have m: "mset (set_field n t es) = add_mset (bytes_of n, t) (mset es)" by (simp add: set_field_def mset_put)
  then have s: "set (set_field n t es) = insert (bytes_of n, t) (set es)" by (metis set_mset_add_mset_insert set_mset_mset)
  show ?case using Cons.IH [of "set_field n t es"] Cons.prems by (auto simp: kv m s)
qed simp

lemma mset_compound: "distinct (map fst kvs) \<Longrightarrow> mset (compound_of kvs) = mset (map (\<lambda>(n, t). (bytes_of n, t)) kvs)"
  unfolding compound_of_def by (simp add: mset_put_all)

lemma item_enchantments_back:
  assumes "canonical_enchantments s"
  shows "decodeItemEnchantments (encodeItemEnchantments s) = s"
proof -
  obtain vs where vs: "levels_ok vs" "s = encodeEnchantments vs" using assms by (auto simp: canonical_enchantments_def)
  let ?l = "sort_key el_id vs"
  have l: "EnchantmentLevels (no_item\<lparr>Enchantments := s\<rparr>) = ?l" by (simp add: EnchantmentLevels_def vs decode_encode)
  show ?thesis
  proof (cases "vs = []")
    case True
    then have e: "s = []" by (simp add: vs(2) encodeEnchantments_def)
    have "EnchantmentLevels (no_item\<lparr>Enchantments := []\<rparr>) = []" using l True unfolding e by simp
    then show ?thesis by (simp add: encodeItemEnchantments_def decodeItemEnchantments_def e Let_def)
  next
    case False
    then have ne: "?l \<noteq> []" by (metis length_0_conv length_sort)
    let ?kvs = "map (\<lambda>v. (el_id v, TagInt (word_of_int (el_level v)))) ?l"
    let ?es = "compound_of ?kvs"
    let ?ws = "map (\<lambda>(n, t). \<lparr>el_id = string_of n, el_level = numericTagValue t\<rparr>) ?es"
    have k: "sint (word_of_int (el_level v) :: i32) = el_level v" if "v \<in> set ?l" for v
    proof -
      have "1 \<le> el_level v" "el_level v \<le> 255" using vs(1) that by (simp_all add: levels_ok_def)
      then show ?thesis by (intro sint_small) simp_all
    qed
    have "distinct (map fst ?kvs)" using vs(1) by (simp add: comp_def levels_ok_def distinct_map)
    then have "mset ?ws = mset (map (\<lambda>(n, t). \<lparr>el_id = string_of n, el_level = numericTagValue t\<rparr>) (map (\<lambda>(n, t). (bytes_of n, t)) ?kvs))"
      unfolding mset_map by (simp only: mset_compound mset_map)
    also have "map (\<lambda>(n, t). \<lparr>el_id = string_of n, el_level = numericTagValue t\<rparr>) (map (\<lambda>(n, t). (bytes_of n, t)) ?kvs) = ?l"
      unfolding map_map by (intro map_idI) (simp add: numericTagValue_def k)
    finally have m: "mset vs = mset ?ws" by simp
    have ok: "levels_ok ?ws" by (rule levels_ok_perm [OF vs(1) m])
    have e: "encodeEnchantments [] = []" by (simp add: encodeEnchantments_def)
    let ?stone = "no_item\<lparr>ItemID := ''minecraft:stone'', Count := 1\<rparr>"
    have "foldl (\<lambda>s (name, level). fst (Enchant s (string_of name) (numericTagValue level))) ?stone ?es =
        foldl (\<lambda>s v. fst (Enchant s (el_id v) (el_level v))) ?stone ?ws"
      by (simp add: foldl_map split_beta')
    also have "\<dots> = ?stone\<lparr>Enchantments := encodeEnchantments ([] @ ?ws)\<rparr>"
      by (rule Enchant_fold) (use ok e in \<open>simp_all add: IsEmpty_def no_item_def\<close>)
    also have "encodeEnchantments ([] @ ?ws) = s"
      using encode_perm [OF _ m] vs by (simp add: levels_ok_def)
    finally have f: "Enchantments (foldl (\<lambda>s (name, level). fst (Enchant s (string_of name) (numericTagValue level))) ?stone ?es) = s"
      by simp
    have "encodeItemEnchantments s = TagCompound (compound_of [(''levels'', TagCompound ?es)])"
      using ne by (simp add: encodeItemEnchantments_def l Let_def)
    then show ?thesis using f by (simp add: decodeItemEnchantments_def field_compound Let_def)
  qed
qed

section \<open>Items come back\<close>

text \<open>The items the format can hold: slots that fit a signed byte, counts and damages an \<open>int32\<close>, no firework
  data, and components in their canonical form.\<close>

definition item_saved_whole :: "container_item \<Rightarrow> bool" where
  "item_saved_whole i \<longleftrightarrow>
     0 \<le> Slot i \<and> Slot i \<le> 127 \<and> ItemID i \<noteq> [] \<and> 0 < Count i \<and> Count i < 2 ^ 31 \<and>
     0 \<le> Damage i \<and> Damage i < 2 ^ 31 \<and> canonical_enchantments (Enchantments i) \<and>
     length (PotDecorations i) = 4 \<and>
     (if ItemID i = ''minecraft:decorated_pot'' then [] \<notin> set (PotDecorations i) else PotDecorations i = replicate 4 []) \<and>
     \<not> HasFireworks i \<and> Fireworks i = zero_fireworks"

lemma decorations_back: "length ds = 4 \<Longrightarrow> decodePotDecorations (potDecorationsTag ds) = NormalizePotDecorations ds"
  by (simp add: decodePotDecorations_def potDecorationsTag_def tag_list_def comp_def map_idI NormalizePotDecorations_def Let_def)

lemma decorations_missing [simp]: "decodePotDecorations TagEnd = replicate 4 []"
  by (simp add: decodePotDecorations_def tag_list_def)

lemma enchantments_missing: "decodeItemEnchantments TagEnd = []"
  by (simp add: decodeItemEnchantments_def)

lemma normalize_set: "[] \<notin> set ds \<Longrightarrow> NormalizePotDecorations ds = ds"
  by (induction ds) (auto simp: NormalizePotDecorations_def)

lemma enchantments_tag_type: "tag_type (encodeItemEnchantments s) = 0 \<Longrightarrow> canonical_enchantments s \<Longrightarrow> s = []"
  using item_enchantments_back [of s] by (cases "encodeItemEnchantments s") (simp_all add: enchantments_missing)

lemma components_back:
  assumes "item_saved_whole i"
  shows "numericTagValue (field (item_components i) ''minecraft:damage'') = Damage i"
    and "decodeItemEnchantments (field (item_components i) ''minecraft:enchantments'') = Enchantments i"
    and "decodePotDecorations (field (item_components i) ''minecraft:pot_decorations'') = PotDecorations i"
    and "(case field (item_components i) ''minecraft:custom_data'' of
            TagCompound ds \<Rightarrow> tag_str (field ds ''GoCraftComponents'') | _ \<Rightarrow> []) = Components i"
proof -
  have d: "sint (word_of_int (Damage i) :: i32) = Damage i" using assms by (intro sint_small) (simp_all add: item_saved_whole_def)
  show "numericTagValue (field (item_components i) ''minecraft:damage'') = Damage i"
    using assms d by (auto simp: item_components_def field_compound map_add_def numericTagValue_def item_saved_whole_def)
  show "decodeItemEnchantments (field (item_components i) ''minecraft:enchantments'') = Enchantments i"
    using assms enchantments_tag_type [of "Enchantments i"] item_enchantments_back [of "Enchantments i"]
    by (auto simp: item_components_def field_compound map_add_def item_saved_whole_def enchantments_missing)
  show "decodePotDecorations (field (item_components i) ''minecraft:pot_decorations'') = PotDecorations i"
    using assms by (auto simp: item_components_def field_compound map_add_def item_saved_whole_def decorations_back normalize_set split: if_splits)
  show "(case field (item_components i) ''minecraft:custom_data'' of
      TagCompound ds \<Rightarrow> tag_str (field ds ''GoCraftComponents'') | _ \<Rightarrow> []) = Components i"
    by (auto simp: item_components_def field_compound map_add_def)
qed

lemma sint_byte: "0 \<le> n \<Longrightarrow> n \<le> 127 \<Longrightarrow> sint (word_of_int n :: byte) = n"
  by (simp add: signed_of_int signed_take_bit_int_eq_self)

lemma item_rebuilt:
  assumes "\<not> HasFireworks i" "Fireworks i = zero_fireworks"
  shows "ContainerItemFromStack (Slot i) (no_item\<lparr>ItemID := ItemID i, Count := Count i, Damage := Damage i,
    Enchantments := Enchantments i, PotDecorations := PotDecorations i, Components := Components i\<rparr>) = i"
  using assms by (cases i) (simp add: ContainerItemFromStack_def zero_item_def no_item_def)

lemma item_back:
  assumes "item_saved_whole i"
  shows "(case item_tag i of TagCompound es \<Rightarrow> decode_item es | _ \<Rightarrow> None) = Some i"
proof -
  obtain es where es: "item_tag i = TagCompound es" by (simp add: item_tag_def)
  have f: "field es ''Slot'' = TagByte (word_of_int (Slot i))" "field es ''id'' = text_tag (ItemID i)"
      "field es ''count'' = TagInt (word_of_int (Count i))"
      "field es ''components'' = (if item_components i = [] then TagEnd else TagCompound (item_components i))"
    using es by (auto simp: item_tag_def field_compound)
  have slot: "item_slot (field es ''Slot'') = Slot i"
    using assms by (simp add: f item_slot_def tag_byte_def item_saved_whole_def sint_byte)
  have count: "numericTagValue (field es ''count'') = Count i"
    using assms sint_small [of "Count i"] by (simp add: f numericTagValue_def item_saved_whole_def)
  have h: "\<not> HasFireworks i" "Fireworks i = zero_fireworks" "ItemID i \<noteq> []" "0 \<le> Slot i" "0 < Count i"
    using assms by (simp_all add: item_saved_whole_def)
  note comps = components_back [OF assms]
  show ?thesis
  proof (cases "item_components i = []")
    case True
    then have "Damage i = 0" "Enchantments i = []" "PotDecorations i = replicate 4 []" "Components i = []"
      using comps by (simp_all add: numericTagValue_def enchantments_missing)
    then have "ContainerItemFromStack (Slot i) (no_item\<lparr>ItemID := ItemID i, Count := Count i\<rparr>) = i"
      using item_rebuilt [OF h(1,2)] by (simp add: no_item_def)
    then show ?thesis using h slot count True by (simp add: es decode_item_def f Let_def)
  next
    case False
    then show ?thesis using h slot count comps item_rebuilt [OF h(1,2)] by (simp add: es decode_item_def f Let_def)
  qed
qed

lemma map_filter_some: "(\<And>x. x \<in> set xs \<Longrightarrow> f x = Some (g x)) \<Longrightarrow> List.map_filter f xs = map g xs"
  by (induction xs) (simp_all add: List.map_filter_simps)

lemma items_back:
  assumes "\<forall>i \<in> set items. item_saved_whole i"
  shows "decodeContainerItems (containerItemsTag items) = items"
proof -
  have "filter (\<lambda>i. \<not> (Slot i < 0 \<or> Slot i > 255 \<or> ItemID i = [] \<or> Count i \<le> 0)) items = items"
    using assms by (intro filter_True) (auto simp: item_saved_whole_def)
  moreover have "List.map_filter (\<lambda>entry. case entry of TagCompound es \<Rightarrow> decode_item es | _ \<Rightarrow> None) (map item_tag items) = items"
    using assms item_back by (induction items) (simp_all add: List.map_filter_simps)
  ultimately show ?thesis by (simp add: decodeContainerItems_def containerItemsTag_def tag_list_def)
qed

text \<open>A slot above 127 is written as a negative byte and dropped when it is read.\<close>

lemma high_slot_lost: "decodeContainerItems (containerItemsTag [ContainerItemFromStack 128 (no_item\<lparr>ItemID := ''minecraft:dirt'', Count := 1\<rparr>)]) = []"
  by (simp add: decodeContainerItems_def containerItemsTag_def tag_list_def item_tag_def decode_item_def Let_def List.map_filter_simps
      field_compound item_slot_def tag_byte_def)

section \<open>Entities come back\<close>

definition fits_i32 :: "int \<Rightarrow> bool" where
  "fits_i32 n \<longleftrightarrow> - (2 ^ 31) \<le> n \<and> n < 2 ^ 31"

lemma sint_fits: "fits_i32 n \<Longrightarrow> sint (word_of_int n :: i32) = n"
  unfolding fits_i32_def by (intro sint_small) simp_all

definition entity_saved_whole :: "saved_entity \<Rightarrow> compound \<Rightarrow> bool" where
  "entity_saved_whole e es \<longleftrightarrow>
     EntityType e \<noteq> [] \<and> entity_payload (EntityData e) = Some es \<and>
     fits_i32 (EntityX e) \<and> fits_i32 (EntityY e) \<and> fits_i32 (EntityZ e) \<and> LastBookshelfSlot e = 0 \<and>
     (if HasItems e then \<forall>i \<in> set (Items e). item_saved_whole i else Items e = [] \<and> field es ''Items'' = TagEnd) \<and>
     (if is_lectern (EntityType e) then fits_i32 (LecternPage e) \<and> 1 \<le> LecternPages e \<and> fits_i32 (LecternPages e)
      else LecternPage e = 0 \<and> LecternPages e = 0) \<and>
     (if is_pot (EntityType e) then length (EntityDecorations e) = 4 \<and> [] \<notin> set (EntityDecorations e)
      else EntityDecorations e = decodePotDecorations (field es ''sherds''))"

text \<open>The payload after saving and loading: the names the code owns are taken out or refreshed.\<close>

definition kept_payload :: "saved_entity \<Rightarrow> compound \<Rightarrow> compound" where
  "kept_payload e es =
     foldl (\<lambda>es name. del_field name es)
       (foldl (\<lambda>es (name, t). set_field name t es) es (entity_fields e)) [''Items'', ''id'', ''x'', ''y'', ''z'']"

lemma kept_field:
  assumes "name \<notin> {''Items'', ''id'', ''x'', ''y'', ''z'', ''sherds'', ''Page'', ''GoCraftPageCount''}"
  shows "field (kept_payload e es) name = field es name"
  using assms by (simp add: kept_payload_def field_del field_fold field_set entity_fields_def map_add_def)

lemma entity_tag_fields:
  assumes "entity_saved_whole e es"
  defines "ts \<equiv> foldl (\<lambda>es (name, t). set_field name t es) es (entity_fields e)"
  shows "entity_tag e = Some (TagCompound ts)"
    and "field ts ''id'' = text_tag (EntityType e)" "field ts ''x'' = TagInt (word_of_int (EntityX e))"
      "field ts ''y'' = TagInt (word_of_int (EntityY e))" "field ts ''z'' = TagInt (word_of_int (EntityZ e))"
    and "field ts ''Items'' = (if HasItems e then containerItemsTag (Items e) else TagEnd)"
    and "field ts ''sherds'' = (if is_pot (EntityType e) then potDecorationsTag (EntityDecorations e) else field es ''sherds'')"
    and "is_lectern (EntityType e) \<Longrightarrow> field ts ''Page'' = TagInt (word_of_int (LecternPage e))"
    and "is_lectern (EntityType e) \<Longrightarrow> field ts ''GoCraftPageCount'' = TagInt (word_of_int (LecternPages e))"
  using assms(1) unfolding ts_def
  by (simp_all add: entity_tag_def entity_saved_whole_def field_fold field_set entity_fields_def map_add_def)

lemma entity_back:
  assumes "entity_saved_whole e es"
  shows "(case entity_tag e of Some (TagCompound ts) \<Rightarrow> Some (decode_entity G ts) | _ \<Rightarrow> None) =
    Some (e\<lparr>EntityData := 10 # writeCompoundPayload (kept_payload e es)\<rparr>)"
proof -
  let ?ts = "foldl (\<lambda>es (name, t). set_field name t es) es (entity_fields e)"
  note f = entity_tag_fields [OF assms]
  have items: "decodeContainerItems (field ?ts ''Items'') = Items e"
    using assms items_back [of "Items e"] by (auto simp: f entity_saved_whole_def decodeContainerItems_def tag_list_def split: if_splits)
  have has: "tag_type (field ?ts ''Items'') = 9 \<longleftrightarrow> HasItems e" by (simp add: f containerItemsTag_def)
  have pot: "decodePotDecorations (field ?ts ''sherds'') = EntityDecorations e"
    using assms by (auto simp: f entity_saved_whole_def decorations_back normalize_set split: if_splits)
  have xyz: "sint (tag_int (field ?ts ''x'')) = EntityX e" "sint (tag_int (field ?ts ''y'')) = EntityY e"
      "sint (tag_int (field ?ts ''z'')) = EntityZ e"
    using assms by (simp_all add: f tag_int_def entity_saved_whole_def sint_fits)
  have l: "LastBookshelfSlot e = 0" "\<not> is_lectern (EntityType e) \<Longrightarrow> LecternPage e = 0 \<and> LecternPages e = 0"
      "is_lectern (EntityType e) \<Longrightarrow> numericTagValue (field ?ts ''Page'') = LecternPage e"
      "is_lectern (EntityType e) \<Longrightarrow> numericTagValue (field ?ts ''GoCraftPageCount'') = LecternPages e \<and> 1 \<le> LecternPages e"
    using assms by (simp_all add: f numericTagValue_def entity_saved_whole_def sint_fits)
  have ty: "tag_str (field ?ts ''id'') = EntityType e" by (simp add: f)
  have "decode_entity G ?ts = e\<lparr>EntityData := 10 # writeCompoundPayload (kept_payload e es)\<rparr>"
    unfolding decode_entity_def Let_def items has pot xyz ty kept_payload_def
    using l by (cases "is_lectern (EntityType e)") (simp_all add: saved_entity.equality)
  then show ?thesis by (simp add: f(1))
qed

lemma entities_back:
  assumes "list_all2 entity_saved_whole es payloads"
  shows "decodeBlockEntities G (blockEntitiesTag es) =
    map2 (\<lambda>e p. e\<lparr>EntityData := 10 # writeCompoundPayload (kept_payload e p)\<rparr>) es payloads"
proof -
  have "List.map_filter (\<lambda>entry. case entry of TagCompound es \<Rightarrow> Some (decode_entity G es) | _ \<Rightarrow> None) (List.map_filter entity_tag es) =
      map2 (\<lambda>e p. e\<lparr>EntityData := 10 # writeCompoundPayload (kept_payload e p)\<rparr>) es payloads"
    using assms
  proof (induction es payloads rule: list_all2_induct)
    case (Cons e es p ps)
    then show ?case using entity_back [OF Cons.hyps(1), of G] entity_tag_fields(1) [OF Cons.hyps(1)]
      by (simp add: List.map_filter_simps)
  qed (simp add: List.map_filter_simps)
  then show ?thesis by (simp add: decodeBlockEntities_def blockEntitiesTag_def tag_list_def)
qed

text \<open>C32: every block entity that the format can hold comes back at its place, with its type, its items, its
  lectern pages and its decorations, and with its payload but for the names the code owns.\<close>

theorem block_entities_survive:
  assumes "list_all2 entity_saved_whole es payloads"
  shows "decodeBlockEntities G (blockEntitiesTag es) =
      map2 (\<lambda>e p. e\<lparr>EntityData := 10 # writeCompoundPayload (kept_payload e p)\<rparr>) es payloads \<and>
    (\<forall>e p name. name \<notin> {''Items'', ''id'', ''x'', ''y'', ''z'', ''sherds'', ''Page'', ''GoCraftPageCount''} \<longrightarrow>
       field (kept_payload e p) name = field p name)"
  by (intro conjI allI impI entities_back [OF assms] kept_field)

definition chest_entity :: saved_entity where
  "chest_entity =
     \<lparr>EntityX = 5, EntityY = 70, EntityZ = -9, EntityType = ''minecraft:chest'', EntityData = [10, 0],
      Items = [ContainerItemFromStack 3 (no_item\<lparr>ItemID := ''minecraft:dirt'', Count := 64\<rparr>)],
      LastBookshelfSlot = 0, LecternPage = 0, LecternPages = 0, HasItems = True, EntityDecorations = replicate 4 []\<rparr>"

lemma payload_back:
  assumes "entries_wf es" "sorted_wrt (<) (map fst es)"
  shows "entity_payload (10 # writeCompoundPayload es) = Some es"
proof -
  have ne: "writeCompoundPayload es \<noteq> []" by (induction es) (auto simp: writeNamedHeader_def split: if_splits)
  have "readPayload (2 * length (10 # writeCompoundPayload es) + 2) (tag_type (TagCompound es)) (writePayload (TagCompound es) @ []) =
      Inr (TagCompound es, [])"
    using read_write(1) [where t = "TagCompound es" and f = "2 * length (10 # writeCompoundPayload es) + 2" and rest = "[]"]
      wf_canonical(1) [of "TagCompound es"] assms by (simp del: readPayload.simps)
  moreover have "2 \<le> length (10 # writeCompoundPayload es)" using ne by (cases "writeCompoundPayload es") simp_all
  ultimately show ?thesis using ne by (simp add: entity_payload_def)
qed

lemma empty_payload: "entity_payload [10, 0] = Some []"
  using payload_back [of "[]"] by simp

definition empty_env :: world_env where
  "empty_env = \<lparr>generate = \<lambda>key. None, load_fails = \<lambda>key. False, book_pages = \<lambda>s name. None\<rparr>"

lemma chest_saved_whole: "entity_saved_whole chest_entity []"
proof -
  have "canonical_enchantments []"
    unfolding canonical_enchantments_def by (rule exI [of _ "[]"]) (simp add: levels_ok_def encodeEnchantments_def)
  then show ?thesis
    by (simp add: entity_saved_whole_def chest_entity_def empty_payload fits_i32_def is_lectern_def is_pot_def
        item_saved_whole_def no_item_def ContainerItemFromStack_def zero_item_def)
qed

theorem block_entities_survive_witness:
  "map Items (decodeBlockEntities empty_env (blockEntitiesTag [chest_entity])) = [Items chest_entity]"
proof -
  have "list_all2 entity_saved_whole [chest_entity] [[]]" using chest_saved_whole by simp
  from block_entities_survive [OF this] show ?thesis by simp
qed

section \<open>The trees fit the format\<close>

lemma elems_wf_iff: "elems_wf elem ts \<longleftrightarrow> (\<forall>t \<in> set ts. tag_type t = elem \<and> tag_wf t)"
  by (induction ts) auto

lemma entries_wf_iff: "entries_wf es \<longleftrightarrow> (\<forall>(k, t) \<in> set es. length k < 65536 \<and> tag_wf t)"
  by (induction es) auto

definition compound_wf :: "compound \<Rightarrow> bool" where
  "compound_wf es \<longleftrightarrow> entries_wf es \<and> sorted_wrt (<) (map fst es)"

lemma compound_wf_tag: "tag_wf (TagCompound es) \<longleftrightarrow> compound_wf es"
  by (simp add: compound_wf_def)

lemma set_field_wf: "compound_wf es \<Longrightarrow> length name < 65536 \<Longrightarrow> tag_wf t \<Longrightarrow> compound_wf (set_field name t es)"
  by (simp add: compound_wf_def set_field_sorted) (simp add: set_field_def put_entry_wf)

lemma set_fields_wf:
  "compound_wf es \<Longrightarrow> \<forall>(name, t) \<in> set kvs. length name < 65536 \<and> tag_wf t \<Longrightarrow>
    compound_wf (foldl (\<lambda>es (name, t). set_field name t es) es kvs)"
  by (induction kvs arbitrary: es) (auto simp: set_field_wf)

lemma compound_Nil_wf: "compound_wf []"
  by (simp add: compound_wf_def)

lemma compound_of_wf: "\<forall>(name, t) \<in> set kvs. length name < 65536 \<and> tag_wf t \<Longrightarrow> compound_wf (compound_of kvs)"
  unfolding compound_of_def by (rule set_fields_wf [OF compound_Nil_wf])

lemma text_tag_wf [simp]: "tag_wf (text_tag s) \<longleftrightarrow> length s < 65536"
  by (simp add: text_tag_def)

lemma text_tag_type [simp]: "tag_type (text_tag s) = 8"
  by (simp add: text_tag_def)

definition item_fits :: "container_item \<Rightarrow> bool" where
  "item_fits i \<longleftrightarrow> length (ItemID i) < 65536 \<and> length (Components i) < 65536 \<and> (\<forall>d \<in> set (PotDecorations i). length d < 65536) \<and>
     length (PotDecorations i) < 2 ^ 31 \<and>
     (\<forall>v \<in> set (EnchantmentLevels (no_item\<lparr>Enchantments := Enchantments i\<rparr>)). length (el_id v) < 65536)"

lemma decorations_wf: "\<forall>d \<in> set ds. length d < 65536 \<Longrightarrow> length ds < 2 ^ 31 \<Longrightarrow> tag_wf (potDecorationsTag ds)"
  by (auto simp: potDecorationsTag_def NormalizePotDecorations_def elems_wf_iff)

lemma enchantments_wf:
  "\<forall>v \<in> set (EnchantmentLevels (no_item\<lparr>Enchantments := s\<rparr>)). length (el_id v) < 65536 \<Longrightarrow>
    tag_type (encodeItemEnchantments s) \<noteq> 0 \<Longrightarrow> tag_wf (encodeItemEnchantments s)"
  unfolding encodeItemEnchantments_def Let_def
  by (auto simp: compound_wf_tag simp del: tag_wf.simps(4) intro!: compound_of_wf)

lemma item_components_wf: "item_fits i \<Longrightarrow> compound_wf (item_components i)"
  unfolding item_components_def
  by (rule compound_of_wf) (auto simp: item_fits_def decorations_wf enchantments_wf compound_wf_tag simp del: tag_wf.simps(4) intro!: compound_of_wf)

lemma item_tag_wf: "item_fits i \<Longrightarrow> tag_wf (item_tag i)"
  unfolding item_tag_def compound_wf_tag
  by (rule compound_of_wf) (auto simp: item_components_wf compound_wf_tag item_fits_def simp del: tag_wf.simps(4))

definition entity_fits :: "saved_entity \<Rightarrow> bool" where
  "entity_fits e \<longleftrightarrow> length (EntityType e) < 65536 \<and> length (Items e) < 2 ^ 31 \<and> (\<forall>i \<in> set (Items e). item_fits i) \<and>
     (\<forall>d \<in> set (EntityDecorations e). length d < 65536) \<and> length (EntityDecorations e) < 2 ^ 31"

lemma items_tag_wf:
  assumes "length items < 2 ^ 31" "\<forall>i \<in> set items. item_fits i"
  shows "tag_wf (containerItemsTag items)"
proof -
  let ?is = "filter (\<lambda>i. \<not> (Slot i < 0 \<or> Slot i > 255 \<or> ItemID i = [] \<or> Count i \<le> 0)) items"
  have "length ?is \<le> length items" by (rule length_filter_le)
  moreover have "\<forall>t \<in> set (map item_tag ?is). tag_type t = 10 \<and> tag_wf t"
    using assms(2) item_tag_wf by (auto simp: item_tag_def)
  ultimately show ?thesis using assms(1) unfolding containerItemsTag_def tag_wf.simps elems_wf_iff length_map by linarith
qed

lemma payload_wf:
  assumes "entity_payload bs = Some es"
  shows "compound_wf es"
proof -
  have "readPayload (2 * length bs + 2) 10 (tl bs) = Inr (TagCompound es, [])"
    using assms by (auto simp: entity_payload_def split: if_splits sum.splits prod.splits tag.splits list.splits)
  then show ?thesis using reads_tree(1) [of 10 "tl bs" "2 * length bs + 2"] by (simp add: compound_wf_tag del: readPayload.simps tag_wf.simps(4))
qed

lemma entity_tag_wf:
  assumes "entity_fits e" "entity_tag e = Some t"
  shows "tag_type t = 10 \<and> tag_wf t"
proof -
  obtain es where es: "entity_payload (EntityData e) = Some es"
      "t = TagCompound (foldl (\<lambda>es (name, t). set_field name t es) es (entity_fields e))"
    using assms(2) by (auto simp: entity_tag_def split: if_splits option.splits)
  have "\<forall>(name, t) \<in> set (entity_fields e). length name < 65536 \<and> tag_wf t"
    using assms(1) by (auto simp: entity_fields_def entity_fits_def items_tag_wf decorations_wf)
  from set_fields_wf [OF payload_wf [OF es(1)] this] show ?thesis by (simp add: es(2) compound_wf_tag del: tag_wf.simps(4))
qed

lemma map_filter_set: "x \<in> set (List.map_filter f xs) \<longleftrightarrow> (\<exists>y \<in> set xs. f y = Some x)"
  by (induction xs) (auto simp: List.map_filter_simps split: option.splits)

lemma map_filter_length: "length (List.map_filter f xs) \<le> length xs"
  by (induction xs) (auto simp: List.map_filter_simps split: option.splits)

lemma entities_tag_wf:
  assumes "\<forall>e \<in> set es. entity_fits e" "length es < 2 ^ 31"
  shows "tag_wf (blockEntitiesTag es)"
proof -
  have "\<forall>t \<in> set (List.map_filter entity_tag es). tag_type t = 10 \<and> tag_wf t"
    using assms(1) entity_tag_wf unfolding map_filter_set Ball_def by blast
  then show ?thesis using assms(2) map_filter_length [of entity_tag es]
    unfolding blockEntitiesTag_def tag_wf.simps elems_wf_iff by linarith
qed

end
