(* ===== verification/Anvil.thy ===== *)
theory Anvil
  imports AnvilEntities
begin

text \<open>
  Chunks in the Anvil format (\<open>java/world/anvil/encode.go\<close>, \<open>merge.go\<close>, \<open>decode.go\<close>): the packed arrays, the
  palettes of blocks and biomes, the height maps, and whole chunks written fresh or over the tree
  they were loaded from. The storage data of a chunk is that tree without what the chunk holds.
\<close>

section \<open>Packed arrays\<close>

text \<open>\<open>bits.Len\<close>: the number of binary digits.\<close>

fun bits_Len :: "nat \<Rightarrow> nat" where
  "bits_Len n = (if n = 0 then 0 else Suc (bits_Len (n div 2)))"

declare bits_Len.simps [simp del]

definition entries_per_long :: "nat \<Rightarrow> nat" where
  "entries_per_long bits = 64 div bits"

text \<open>The entries do not cross longs; the loop ors every value into its place.\<close>

definition pack_longs :: "nat \<Rightarrow> i64 list \<Rightarrow> i64 list" where
  "pack_longs bits vals =
     (let per = entries_per_long bits
      in foldl (\<lambda>longs i. longs[i div per := or (longs ! (i div per)) (push_bit (i mod per * bits) (vals ! i))])
           (replicate ((length vals + per - 1) div per) 0) [0..<length vals])"

definition packed_at :: "nat \<Rightarrow> i64 list \<Rightarrow> nat \<Rightarrow> nat" where
  "packed_at bits longs i =
     (let per = entries_per_long bits
      in unat (and (signed_drop_bit (i mod per * bits) (longs ! (i div per))) (mask bits)))"

section \<open>Encoding\<close>

definition sectionYBase :: int where
  "sectionYBase = -4"

definition dataVersion :: i32 where
  "dataVersion = 4189"

definition palette_entry_tag :: "block \<Rightarrow> tag" where
  "palette_entry_tag b =
     TagCompound (compound_of
       ((''Name'', text_tag (ResourceLocation b)) #
        (if Properties b \<noteq> [] then [(''Properties'', TagCompound (compound_of (map (\<lambda>(k, v). (k, text_tag v)) (Properties b))))] else [])))"

definition palette_bits :: "nat \<Rightarrow> nat \<Rightarrow> nat" where
  "palette_bits least n = max least (bits_Len (n - 1))"

text \<open>A container of palette entries and, when the palette has a choice, the packed indexes.\<close>

definition container_tag :: "nat \<Rightarrow> byte \<Rightarrow> tag list \<Rightarrow> 16 word list \<Rightarrow> tag" where
  "container_tag least elem palette data =
     TagCompound (compound_of
       ((''palette'', TagList elem palette) #
        (if length palette > 1
         then [(''data'', TagLongArr (pack_longs (palette_bits least (length palette)) (map ucast data)))] else [])))"

definition blockStatesTag :: "section_data \<Rightarrow> tag" where
  "blockStatesTag s = container_tag 4 10 (map palette_entry_tag (blockPalette s)) (blockData s)"

definition biomesTag :: "section_data \<Rightarrow> tag" where
  "biomesTag s = container_tag 1 8 (map text_tag (BiomePalette (Some s))) (biomeData s)"

text \<open>Each column's height, counted from the bottom of the world, in nine bits.\<close>

definition column_height :: "chunk \<Rightarrow> nat \<Rightarrow> int" where
  "column_height c i = max 0 (HighestBlockY c (int (i mod 16)) (int (i div 16)) + 1 - WorldMinY)"

definition packChunkHeightmap :: "chunk \<Rightarrow> i64 list" where
  "packChunkHeightmap c = pack_longs 9 (map (\<lambda>i. word_of_int (column_height c i)) [0..<256])"

record anvil_chunk = chunk +
  SavedEntities :: "saved_entity list"
  StorageData :: "compound option"

definition section_byte :: "nat \<Rightarrow> byte" where
  "section_byte i = word_of_int (int i + sectionYBase)"

definition section_tag :: "nat \<Rightarrow> section_data \<Rightarrow> compound \<Rightarrow> compound" where
  "section_tag i s entry =
     set_field ''biomes'' (biomesTag s) (set_field ''block_states'' (blockStatesTag s)
       (set_field ''Y'' (TagByte (section_byte i)) entry))"

text \<open>The sections of the base tree by their height byte; a later one replaces an earlier one.\<close>

definition base_sections :: "tag list \<Rightarrow> (byte \<times> tag) list" where
  "base_sections ts =
     foldl (\<lambda>byY t. if tag_type t = 10 then AList.update (tag_byte (tag_get t ''Y'')) t byY else byY) [] ts"

definition put_section :: "(byte \<times> tag) list \<Rightarrow> nat \<times> section_data option \<Rightarrow> (byte \<times> tag) list" where
  "put_section byY = (\<lambda>(i, so). case so of
     None \<Rightarrow> byY
   | Some s \<Rightarrow>
       AList.update (section_byte i)
         (TagCompound (section_tag i s (case map_of byY (section_byte i) of Some (TagCompound es) \<Rightarrow> es | _ \<Rightarrow> []))) byY)"

definition sections_tag :: "section_data option list \<Rightarrow> tag list \<Rightarrow> tag" where
  "sections_tag ss base =
     (let byY = foldl put_section (base_sections base) (enumerate 0 ss);
          sectionYs = sort (map (\<lambda>(y, t). sint y) byY)
      in TagList 10 (map (\<lambda>y. case map_of byY (word_of_int y) of Some t \<Rightarrow> t | None \<Rightarrow> TagEnd) sectionYs))"

definition heightmaps_tag :: "chunk \<Rightarrow> tag \<Rightarrow> tag" where
  "heightmaps_tag c base =
     TagCompound (set_field ''MOTION_BLOCKING'' (TagLongArr (packChunkHeightmap c))
       (set_field ''WORLD_SURFACE'' (TagLongArr (packChunkHeightmap c))
         (case base of TagCompound es \<Rightarrow> es | _ \<Rightarrow> [])))"

definition chunk_root :: "anvil_chunk \<Rightarrow> compound \<Rightarrow> compound" where
  "chunk_root c base =
     (let root = foldl (\<lambda>es (name, t). set_field name t es) base
            [(''DataVersion'', TagInt dataVersion), (''xPos'', TagInt (ChunkX c)), (''yPos'', TagInt (word_of_int sectionYBase)),
             (''zPos'', TagInt (ChunkZ c)), (''Status'', text_tag ''minecraft:full'')];
          root = set_field ''sections'' (sections_tag (Sections c) (tag_list (field root ''sections''))) root;
          root = set_field ''Heightmaps'' (heightmaps_tag (chunk.truncate c) (field root ''Heightmaps'')) root
      in set_field ''block_entities'' (blockEntitiesTag (SavedEntities c)) root)"

definition encodeChunkNBTWithBase :: "anvil_chunk \<Rightarrow> compound \<Rightarrow> byte list" where
  "encodeChunkNBTWithBase c base = WriteRootCompound (chunk_root c base)"

section \<open>Decoding\<close>

datatype anvil_error =
    NoSections
  | NotACompound nat
  | MissingName nat
  | IndexOutOfRange nat nat
  | NotABiome nat
  | BiomesWithoutData
  | BiomeDataEnded nat
  | InSection nat anvil_error
  | InBiomes nat anvil_error

definition decode_block :: "compound \<Rightarrow> block option" where
  "decode_block es =
     (if tag_type (field es ''Name'') = 0 then None
      else
        let fullName = tag_str (field es ''Name'');
            (ns, name) = (case split_n2 CHR '':'' fullName of [ns, n] \<Rightarrow> (ns, n) | _ \<Rightarrow> (''minecraft'', fullName));
            props = (case field es ''Properties'' of
                       TagCompound ps \<Rightarrow> map (\<lambda>(k, v). (string_of k, tag_str v)) ps
                     | _ \<Rightarrow> [])
        in Some \<lparr>Namespace = ns, Name = name, Properties = props\<rparr>)"

fun decode_entries_from :: "nat \<Rightarrow> tag list \<Rightarrow> anvil_error + block list" where
  "decode_entries_from i [] = Inr []"
| "decode_entries_from i (t # ts) =
     (case t of
        TagCompound es \<Rightarrow>
          (case decode_block es of
             None \<Rightarrow> Inl (MissingName i)
           | Some b \<Rightarrow> (case decode_entries_from (Suc i) ts of Inl err \<Rightarrow> Inl err | Inr bs \<Rightarrow> Inr (b # bs)))
      | _ \<Rightarrow> Inl (NotACompound i))"

definition decodePalette :: "tag list \<Rightarrow> anvil_error + block list" where
  "decodePalette ts = decode_entries_from 0 ts"

definition grid_set :: "section_data \<Rightarrow> nat \<Rightarrow> block \<Rightarrow> section_data" where
  "grid_set s i b = Set s (i mod 16) (i div 256) (i div 16 mod 16) b"

definition fillSection :: "section_data \<Rightarrow> block \<Rightarrow> section_data" where
  "fillSection s b =
     (if IsAir b then s
      else foldl (\<lambda>s (y, z, x). Set s x y z b) s
             (List.product [0..<16] (List.product [0..<16] [0..<16])))"

fun decode_blocks :: "nat \<Rightarrow> block list \<Rightarrow> i64 list \<Rightarrow> nat list \<Rightarrow> section_data \<Rightarrow> anvil_error + section_data" where
  "decode_blocks bits palette longs [] s = Inr s"
| "decode_blocks bits palette longs (i # is) s =
     (if i div entries_per_long bits \<ge> length longs then Inr s
      else let paletteIdx = packed_at bits longs i
           in if paletteIdx \<ge> length palette then Inl (IndexOutOfRange paletteIdx (length palette))
              else decode_blocks bits palette longs is
                     (if IsAir (palette ! paletteIdx) then s else grid_set s i (palette ! paletteIdx)))"

definition decodeBlockData :: "section_data \<Rightarrow> block list \<Rightarrow> i64 list \<Rightarrow> anvil_error + section_data" where
  "decodeBlockData s palette longs = decode_blocks (palette_bits 4 (length palette)) palette longs [0..<4096] s"

fun biome_names :: "nat \<Rightarrow> tag list \<Rightarrow> anvil_error + string list" where
  "biome_names i [] = Inr []"
| "biome_names i (t # ts) =
     (if tag_type t \<noteq> 8 \<or> tag_str t = [] then Inl (NotABiome i)
      else (case biome_names (Suc i) ts of Inl err \<Rightarrow> Inl err | Inr ns \<Rightarrow> Inr (tag_str t # ns)))"

fun decode_cells :: "nat \<Rightarrow> string list \<Rightarrow> i64 list \<Rightarrow> nat list \<Rightarrow> section_data \<Rightarrow> anvil_error + section_data" where
  "decode_cells bits palette longs [] s = Inr s"
| "decode_cells bits palette longs (cell # cells) s =
     (if cell div entries_per_long bits \<ge> length longs then Inl (BiomeDataEnded cell)
      else let paletteIndex = packed_at bits longs cell
           in if paletteIndex \<ge> length palette then Inl (IndexOutOfRange paletteIndex (length palette))
              else decode_cells bits palette longs cells
                     (SetBiomeCell s (int (cell mod 4)) (int (cell div 16)) (int (cell div 4 mod 4)) (palette ! paletteIndex)))"

definition decodeBiomeData :: "section_data \<Rightarrow> tag \<Rightarrow> anvil_error + section_data" where
  "decodeBiomeData s biomes =
     (case field (case biomes of TagCompound es \<Rightarrow> es | _ \<Rightarrow> []) ''palette'' of
        TagList elem entries \<Rightarrow>
          if entries = [] then Inr s
          else (case biome_names 0 entries of
                  Inl err \<Rightarrow> Inl err
                | Inr palette \<Rightarrow>
                    (let s = SetUniformBiome s (palette ! 0)
                     in if length palette = 1 then Inr s
                        else (case tag_get biomes ''data'' of
                                TagLongArr longs \<Rightarrow>
                                  if longs = [] then Inl BiomesWithoutData
                                  else decode_cells (palette_bits 1 (length palette)) palette longs [0..<64] s
                              | _ \<Rightarrow> Inl BiomesWithoutData)))
      | _ \<Rightarrow> Inr s)"

text \<open>One section: \<open>None\<close> is a section the loop skips.\<close>

definition decode_section :: "compound \<Rightarrow> anvil_error + (nat \<times> section_data) option" where
  "decode_section c =
     (let sIdx = sint (tag_byte (field c ''Y'')) - sectionYBase; i = nat sIdx
      in if sIdx < 0 \<or> sIdx \<ge> int SectionCount then Inr None
         else (case field c ''block_states'' of
           TagCompound bs \<Rightarrow>
             (case field bs ''palette'' of
                TagList elem entries \<Rightarrow>
                  if entries = [] then Inr None
                  else (case decodePalette entries of
                    Inl err \<Rightarrow> Inl (InSection i err)
                  | Inr palette \<Rightarrow>
                      (let blocks =
                           (if length palette = 1 then Inr (Some (fillSection NewSection (palette ! 0)))
                            else (case field bs ''data'' of
                              TagLongArr longs \<Rightarrow>
                                if longs = [] then Inr None
                                else map_sum (InSection i) Some (decodeBlockData NewSection palette longs)
                            | _ \<Rightarrow> Inr None))
                       in case blocks of
                            Inl err \<Rightarrow> Inl err
                          | Inr None \<Rightarrow> Inr (Some (i, NewSection))
                          | Inr (Some s) \<Rightarrow>
                              map_sum (InBiomes i) (\<lambda>s. Some (i, s)) (decodeBiomeData s (field c ''biomes''))))
              | _ \<Rightarrow> Inr None)
         | _ \<Rightarrow> Inr None))"

fun decode_sections :: "tag list \<Rightarrow> section_data option list \<Rightarrow> anvil_error + section_data option list" where
  "decode_sections [] ss = Inr ss"
| "decode_sections (t # ts) ss =
     (case t of
        TagCompound c \<Rightarrow>
          (case decode_section c of
             Inl err \<Rightarrow> Inl err
           | Inr None \<Rightarrow> decode_sections ts ss
           | Inr (Some (i, s)) \<Rightarrow> decode_sections ts (ss[i := Some s]))
      | _ \<Rightarrow> decode_sections ts ss)"

text \<open>\<open>Inr None\<close> is a chunk that has not finished generating.\<close>

definition chunkFromNBT :: "world_env \<Rightarrow> compound \<Rightarrow> i32 \<Rightarrow> i32 \<Rightarrow> anvil_error + anvil_chunk option" where
  "chunkFromNBT G root cx cz =
     (let status = tag_str (field root ''Status'')
      in if status \<noteq> ''minecraft:full'' \<and> status \<noteq> ''full'' then Inr None
         else (case field root ''sections'' of
           TagList elem ts \<Rightarrow>
             (case decode_sections ts (replicate SectionCount None) of
                Inl err \<Rightarrow> Inl err
              | Inr ss \<Rightarrow>
                  Inr (Some \<lparr>ChunkX = cx, ChunkZ = cz, Sections = ss,
                    SavedEntities = decodeBlockEntities G (field root ''block_entities''), StorageData = None\<rparr>))
         | _ \<Rightarrow> Inl NoSections))"

definition compactStorageData :: "compound \<Rightarrow> compound" where
  "compactStorageData root =
     (let root = del_field ''block_entities'' root;
          compact = (\<lambda>t. case t of TagCompound es \<Rightarrow> TagCompound (del_field ''biomes'' (del_field ''block_states'' es)) | _ \<Rightarrow> t)
      in set_field ''sections''
           (case field root ''sections'' of TagList elem ts \<Rightarrow> TagList elem (map compact ts) | t \<Rightarrow> t) root)"

definition load_tree :: "world_env \<Rightarrow> compound \<Rightarrow> i32 \<Rightarrow> i32 \<Rightarrow> anvil_error + anvil_chunk option" where
  "load_tree G root x z =
     (case chunkFromNBT G root x z of
        Inl err \<Rightarrow> Inl err
      | Inr None \<Rightarrow> Inr None
      | Inr (Some c) \<Rightarrow> Inr (Some (c\<lparr>StorageData := Some (compactStorageData root)\<rparr>)))"

section \<open>Packing\<close>

lemma bits_Len_less: "n < 2 ^ bits_Len n"
proof (induction n rule: bits_Len.induct)
  case (1 n)
  show ?case
  proof (cases "n = 0")
    case False
    then have "n div 2 < 2 ^ bits_Len (n div 2)" using 1 by blast
    then show ?thesis using False by (subst bits_Len.simps) auto
  qed simp
qed

lemma bits_Len_least: "n < 2 ^ k \<Longrightarrow> bits_Len n \<le> k"
proof (induction k arbitrary: n)
  case (Suc k)
  then have "bits_Len (n div 2) \<le> k" by (intro Suc.IH) simp
  then show ?case by (subst bits_Len.simps) simp
qed (simp add: bits_Len.simps)

lemma palette_bits_enough: "i < n \<Longrightarrow> i < 2 ^ palette_bits least n"
proof -
  assume "i < n"
  then have "i \<le> n - 1" by simp
  also have "n - 1 < 2 ^ bits_Len (n - 1)" by (rule bits_Len_less)
  also have "(2 :: nat) ^ bits_Len (n - 1) \<le> 2 ^ palette_bits least n" by (intro power_increasing) (simp_all add: palette_bits_def)
  finally show ?thesis .
qed

lemma palette_bits_bound: "n < 2 ^ 16 \<Longrightarrow> least \<le> 16 \<Longrightarrow> palette_bits least n \<le> 16"
  using bits_Len_least [of "n - 1" 16] by (simp add: palette_bits_def)

lemma place_same:
  assumes "offs + bits \<le> 64" "take_bit bits v = (v :: i64)"
  shows "take_bit bits (drop_bit offs (push_bit offs v)) = v"
proof (rule bit_word_eqI)
  fix k
  have "bit v k \<longleftrightarrow> k < bits \<and> bit v k" by (subst assms(2) [symmetric]) (simp add: bit_take_bit_iff)
  then show "bit (take_bit bits (drop_bit offs (push_bit offs v))) k = bit v k"
    using assms(1) by (auto simp: bit_simps)
qed

lemma place_other:
  assumes "a \<noteq> b" "take_bit bits v = (v :: i64)"
  shows "take_bit bits (drop_bit (a * bits) (push_bit (b * bits) v)) = 0"
proof (rule bit_word_eqI)
  fix k
  have v: "bit v j \<Longrightarrow> j < bits" for j by (subst (asm) assms(2) [symmetric]) (simp add: bit_take_bit_iff)
  show "bit (take_bit bits (drop_bit (a * bits) (push_bit (b * bits) v))) k = bit (0 :: i64) k"
  proof (cases "a < b")
    case True
    then have "Suc a * bits \<le> b * bits" by (intro mult_le_mono1) simp
    then show ?thesis by (auto simp: bit_simps)
  next
    case False
    then have "Suc b * bits \<le> a * bits" using assms(1) by (intro mult_le_mono1) simp
    then have "\<not> bit v (a * bits + k - b * bits)" using v by force
    then show ?thesis by (auto simp: bit_simps add.commute)
  qed
qed

definition place :: "nat \<Rightarrow> i64 list \<Rightarrow> nat \<Rightarrow> i64" where
  "place bits longs i =
     take_bit bits (drop_bit (i mod entries_per_long bits * bits) (longs ! (i div entries_per_long bits)))"

lemma pack_loop:
  assumes "0 < bits" "bits \<le> 64" "n \<le> length vals" "\<forall>v \<in> set vals. take_bit bits v = v"
    and "length vals \<le> m * entries_per_long bits"
  defines "L \<equiv> \<lambda>n. foldl (\<lambda>longs i. longs[i div entries_per_long bits := or (longs ! (i div entries_per_long bits))
      (push_bit (i mod entries_per_long bits * bits) (vals ! i))]) (replicate m 0) [0..<n]"
  shows "length (L n) = m \<and> (\<forall>i < m * entries_per_long bits. place bits (L n) i = (if i < n then vals ! i else 0))"
  using assms(3)
proof (induction n)
  case 0
  have "i div entries_per_long bits < m" if "i < m * entries_per_long bits" for i using that by (simp add: less_mult_imp_div_less)
  then show ?case by (simp add: L_def place_def)
next
  case (Suc n)
  let ?per = "entries_per_long bits"
  have IH: "length (L n) = m" "\<And>i. i < m * ?per \<Longrightarrow> place bits (L n) i = (if i < n then vals ! i else 0)" using Suc by simp_all
  have per: "0 < ?per" "?per * bits \<le> 64" using assms(1,2) by (simp_all add: entries_per_long_def div_greater_zero_iff)
  have nm: "n div ?per < m" using Suc.prems assms(5) by (intro less_mult_imp_div_less) simp
  have v: "take_bit bits (vals ! n) = vals ! n" using assms(4) Suc.prems by simp
  have step: "L (Suc n) = (L n)[n div ?per := or (L n ! (n div ?per)) (push_bit (n mod ?per * bits) (vals ! n))]"
    by (simp add: L_def)
  have "place bits (L (Suc n)) i = (if i < Suc n then vals ! i else 0)" if i: "i < m * ?per" for i
  proof (cases "i div ?per = n div ?per")
    case False
    then have "place bits (L (Suc n)) i = place bits (L n) i" by (simp add: step place_def)
    moreover have "i \<noteq> n" using False by auto
    ultimately show ?thesis using IH(2) [OF i] by simp
  next
    case True
    then have p: "place bits (L (Suc n)) i =
        or (place bits (L n) i) (take_bit bits (drop_bit (i mod ?per * bits) (push_bit (n mod ?per * bits) (vals ! n))))"
      using nm IH(1) by (simp add: step place_def)
    show ?thesis
    proof (cases "i = n")
      case True
      have "Suc (n mod ?per) * bits \<le> ?per * bits" using per(1) by (intro mult_le_mono1) (simp add: Suc_le_eq)
      then have "n mod ?per * bits + bits \<le> 64" using per(2) by simp
      then show ?thesis using p IH(2) [OF i] place_same [OF _ v] True by simp
    next
      case False
      then have "i mod ?per \<noteq> n mod ?per" using True by (metis mult_div_mod_eq)
      then show ?thesis using p IH(2) [OF i] place_other [OF _ v] False by simp
    qed
  qed
  then show ?case using IH(1) by (simp add: step)
qed

lemma packed_at_place: "bits < 64 \<Longrightarrow> 0 < bits \<Longrightarrow> packed_at bits longs i = unat (place bits longs i)"
proof -
  assume b: "bits < 64" "0 < bits"
  let ?per = "entries_per_long bits"
  have "Suc (i mod ?per) * bits \<le> ?per * bits"
    using b by (intro mult_le_mono1) (simp add: Suc_le_eq entries_per_long_def div_greater_zero_iff)
  also have "\<dots> \<le> 64" by (simp add: entries_per_long_def)
  finally have o: "i mod ?per * bits + bits \<le> 64" by simp
  have "and (signed_drop_bit (i mod ?per * bits) w) (mask bits) = take_bit bits (drop_bit (i mod ?per * bits) w)" for w :: i64
    by (rule bit_word_eqI) (use o in \<open>auto simp: bit_simps\<close>)
  then show ?thesis by (simp add: packed_at_def place_def Let_def)
qed

lemma pack_length: "length (pack_longs bits vals) = (length vals + entries_per_long bits - 1) div entries_per_long bits"
proof -
  have "length (foldl (\<lambda>longs i. longs[f i := g longs i]) ls is) = length ls" for f g and ls :: "i64 list" and "is" :: "nat list"
    by (induction "is" arbitrary: ls) simp_all
  then show ?thesis by (simp add: pack_longs_def Let_def)
qed

lemma pack_room:
  assumes "0 < bits" "bits \<le> 64"
  shows "length vals \<le> length (pack_longs bits vals) * entries_per_long bits"
proof -
  have per: "0 < entries_per_long bits" using assms by (simp add: entries_per_long_def div_greater_zero_iff)
  have "entries_per_long bits * ((length vals + entries_per_long bits - 1) div entries_per_long bits) +
      (length vals + entries_per_long bits - 1) mod entries_per_long bits = length vals + entries_per_long bits - 1"
    by (rule mult_div_mod_eq)
  moreover have "(length vals + entries_per_long bits - 1) mod entries_per_long bits < entries_per_long bits"
    by (rule mod_less_divisor [OF per])
  ultimately have "length vals \<le> entries_per_long bits * ((length vals + entries_per_long bits - 1) div entries_per_long bits)"
    using per by linarith
  then show ?thesis unfolding pack_length by (simp only: mult.commute)
qed

lemma packed_back:
  assumes "0 < bits" "bits < 64" "\<forall>v \<in> set vals. take_bit bits v = v" "i < length vals"
  shows "packed_at bits (pack_longs bits vals) i = unat (vals ! i)" "i div entries_per_long bits < length (pack_longs bits vals)"
proof -
  let ?m = "(length vals + entries_per_long bits - 1) div entries_per_long bits"
  have room: "length vals \<le> ?m * entries_per_long bits" using pack_room [of bits vals] assms(1,2) by (simp add: pack_length)
  show "packed_at bits (pack_longs bits vals) i = unat (vals ! i)"
    using pack_loop [OF assms(1) _ order_refl assms(3) room] assms(2,4) room packed_at_place [OF assms(2,1)]
    by (simp add: pack_longs_def Let_def)
  show "i div entries_per_long bits < length (pack_longs bits vals)"
    using room assms(4) unfolding pack_length by (intro less_mult_imp_div_less) simp
qed

section \<open>Palettes of blocks\<close>

definition decoded_block :: "block \<Rightarrow> block" where
  "decoded_block b = \<lparr>Namespace = Namespace b, Name = Name b,
     Properties = map (\<lambda>(k, v). (string_of k, tag_str v)) (compound_of (map (\<lambda>(k, v). (k, text_tag v)) (Properties b)))\<rparr>"

lemma compound_Nil [simp]: "compound_of [] = []"
  by (simp add: compound_of_def)

lemma decode_palette_entry:
  assumes "block_wf b" "palette_entry_tag b = TagCompound es"
  shows "decode_block es = Some (decoded_block b)"
proof -
  have "field es ''Name'' = text_tag (ResourceLocation b)"
      "field es ''Properties'' = (if Properties b = [] then TagEnd
        else TagCompound (compound_of (map (\<lambda>(k, v). (k, text_tag v)) (Properties b))))"
    using assms(2) by (auto simp: palette_entry_tag_def field_compound)
  then show ?thesis
    using block_wf_RL(2) [OF assms(1)] by (simp add: decode_block_def decoded_block_def text_tag_def tag_str_def Let_def)
qed

lemma decoded_properties:
  assumes "distinct (map fst (Properties b))"
  shows "mset (Properties (decoded_block b)) = mset (Properties b)"
proof -
  let ?kvs = "map (\<lambda>(k, v). (k, text_tag v)) (Properties b)"
  have "map fst ?kvs = map fst (Properties b)" by (induction "Properties b") auto
  then have "mset (compound_of ?kvs) = mset (map (\<lambda>(n, t). (bytes_of n, t)) ?kvs)" using assms by (simp only: mset_compound)
  then have "mset (Properties (decoded_block b)) = mset (map (\<lambda>(k, v). (string_of k, tag_str v)) (map (\<lambda>(n, t). (bytes_of n, t)) ?kvs))"
    unfolding decoded_block_def block.simps by (simp only: mset_map)
  also have "map (\<lambda>(k, v). (string_of k, tag_str v)) (map (\<lambda>(n, t). (bytes_of n, t)) ?kvs) = Properties b"
    unfolding map_map by (rule map_idI) auto
  finally show ?thesis .
qed

lemma decoded_block_same:
  assumes "block_wf b"
  shows "block_wf (decoded_block b)" "Key (decoded_block b) = Key b" "IsAir (decoded_block b) = IsAir b"
proof -
  have d: "distinct (map fst (Properties b))" using assms by (simp add: block_wf_def)
  note m = decoded_properties [OF d]
  have n: "Namespace (decoded_block b) = Namespace b" "Name (decoded_block b) = Name b" by (simp_all add: decoded_block_def)
  have s: "set (Properties (decoded_block b)) = set (Properties b)" by (rule mset_eq_setD [OF m])
  have l: "length (Properties (decoded_block b)) = length (Properties b)" by (rule mset_eq_length [OF m])
  have d': "distinct (map fst (Properties (decoded_block b)))"
    using d m by (metis mset_eq_imp_distinct_iff mset_map)
  show "block_wf (decoded_block b)" using assms d' by (simp add: block_wf_def n s list_all_iff)
  show "IsAir (decoded_block b) = IsAir b" by (simp add: IsAir_def n l)
  have "map_of (Properties (decoded_block b)) = map_of (Properties b)" using s by (simp add: map_of_inject_set [OF d' d])
  then have "sort_key fst (Properties (decoded_block b)) = sort_key fst (Properties b)" by (simp add: sorted_pairs_eq [OF d' d])
  then show "Key (decoded_block b) = Key b" by (simp add: Key_def ResourceLocation_def n l)
qed

lemma decode_palette_back:
  "\<forall>b \<in> set bs. block_wf b \<Longrightarrow> decode_entries_from i (map palette_entry_tag bs) = Inr (map decoded_block bs)"
proof (induction bs arbitrary: i)
  case (Cons b bs)
  obtain es where es: "palette_entry_tag b = TagCompound es" by (simp add: palette_entry_tag_def)
  have "decode_block es = Some (decoded_block b)" using decode_palette_entry [OF _ es] Cons.prems by simp
  then show ?case using Cons by (simp add: es)
qed simp

section \<open>The blocks of a section\<close>

definition block_cell :: "section_data \<Rightarrow> nat \<Rightarrow> block" where
  "block_cell s i = At (Some s) (i mod 16) (i div 256) (i div 16 mod 16)"

lemma grid_of: "grid_index (i mod 16) (i div 256) (i div 16 mod 16) = i"
proof -
  have "i div 256 = i div 16 div 16" by (simp add: div_mult2_eq [symmetric])
  then show ?thesis using mult_div_mod_eq [of 16 i] mult_div_mod_eq [of 16 "i div 16"]
    unfolding grid_index_def by linarith
qed

lemma block_cell_At: "x < 16 \<Longrightarrow> z < 16 \<Longrightarrow> At (Some s) x y z = block_cell s (grid_index x y z)"
  by (simp add: block_cell_def grid_index_parts)

text \<open>What a decoded section keeps while it is filled from a palette.\<close>

definition filling :: "block list \<Rightarrow> section_data \<Rightarrow> bool" where
  "filling palette s \<longleftrightarrow> section_ok s \<and> biomes_ok s \<and> (\<forall>b \<in> set (blockPalette s). block_wf b) \<and>
     set (map Key (blockPalette s)) \<subseteq> insert (Key Air) (set (map Key palette))"

lemma filling_length:
  assumes "filling palette s"
  shows "length (blockPalette s) \<le> Suc (length palette)"
proof -
  have "length (blockPalette s) = card (set (map Key (blockPalette s)))"
    using assms distinct_card [of "map Key (blockPalette s)"] by (simp add: filling_def section_ok_def)
  also have "\<dots> \<le> card (insert (Key Air) (set (map Key palette)))"
    using assms by (intro card_mono) (simp_all add: filling_def)
  also have "\<dots> \<le> Suc (length palette)"
    using card_length [of "map Key palette"] by (simp add: card_insert_if)
  finally show ?thesis .
qed

lemma palette_add_palette: "palette_add s b = (pal, m, i) \<Longrightarrow> set pal \<subseteq> insert b (set (blockPalette s))"
  by (auto simp: palette_add_def split: option.splits)

lemma grid_set_ok:
  assumes "filling palette s" "b \<in> set palette" "block_wf b" "Suc (Suc (length palette)) < 2 ^ 16" "i < 4096" "j < 4096"
  shows "filling palette (grid_set s i b)"
    and "Key (block_cell (grid_set s i b) j) = (if j = i then Key b else Key (block_cell s j))"
proof -
  have room: "Suc (length (blockPalette s)) < 2 ^ 16" using filling_length [OF assms(1)] assms(4) by simp
  have ok: "section_ok s" "biomes_ok s" using assms(1) by (simp_all add: filling_def)
  obtain pal m k where a: "palette_add s b = (pal, m, k)" by (cases "palette_add s b")
  have pal: "blockPalette (grid_set s i b) = pal" by (simp add: grid_set_def Set_fields [OF a])
  have p: "set pal \<subseteq> insert b (set (blockPalette s))" by (rule palette_add_palette [OF a])
  then have "Key ` set pal \<subseteq> insert (Key b) (Key ` set (blockPalette s))" by auto
  then show "filling palette (grid_set s i b)"
    using assms(1-3) p Set_ok [OF ok(1) room] assms(5) unfolding filling_def pal set_map
    by (intro conjI) (simp add: grid_set_def grid_of, simp add: grid_set_def, blast, blast)
  show "Key (block_cell (grid_set s i b) j) = (if j = i then Key b else Key (block_cell s j))"
    using At_Set [OF ok(1) room, of "i mod 16" "i div 256" "i div 16 mod 16" "j mod 16" "j div 256" "j div 16 mod 16" b] assms(5,6)
    unfolding grid_of by (simp add: block_cell_def grid_set_def)
qed

lemma decode_blocks_back:
  assumes "filling palette s" "\<forall>b \<in> set palette. block_wf b" "Suc (Suc (length palette)) < 2 ^ 16"
    and "\<forall>i \<in> set is. i < 4096 \<and> i div entries_per_long bits < length longs \<and> packed_at bits longs i < length palette \<and>
      Key (block_cell s i) = Key Air"
    and "distinct is"
  shows "\<exists>s'. decode_blocks bits palette longs is s = Inr s' \<and> filling palette s' \<and>
    (\<forall>j < 4096. Key (block_cell s' j) = (if j \<in> set is then Key (palette ! packed_at bits longs j) else Key (block_cell s j)))"
  using assms(1,4,5)
proof (induction "is" arbitrary: s)
  case (Cons i "is")
  let ?b = "palette ! packed_at bits longs i"
  let ?s = "if IsAir ?b then s else grid_set s i ?b"
  have i: "i < 4096" "packed_at bits longs i < length palette" "i div entries_per_long bits < length longs"
      "Key (block_cell s i) = Key Air" using Cons.prems(2) by simp_all
  have b: "?b \<in> set palette" "block_wf ?b" using i(2) assms(2) by simp_all
  have air: "IsAir ?b \<Longrightarrow> Key ?b = Key Air"
    using b(2) by (auto simp: IsAir_def block_wf_def Key_def Air_def ResourceLocation_def)
  have s: "filling palette ?s" "\<And>j. j < 4096 \<Longrightarrow> Key (block_cell ?s j) = (if j = i then Key ?b else Key (block_cell s j))"
    using grid_set_ok [OF Cons.prems(1) b assms(3) i(1)] Cons.prems(1) i(1,4) air by auto
  have "\<forall>j \<in> set is. j < 4096 \<and> j div entries_per_long bits < length longs \<and> packed_at bits longs j < length palette \<and>
      Key (block_cell ?s j) = Key Air"
    using Cons.prems(2,3) s(2) by auto
  from Cons.IH [OF s(1) this] Cons.prems(3) obtain s' where s': "decode_blocks bits palette longs is ?s = Inr s'" "filling palette s'"
      "\<forall>j < 4096. Key (block_cell s' j) = (if j \<in> set is then Key (palette ! packed_at bits longs j) else Key (block_cell ?s j))"
    by auto
  have "decode_blocks bits palette longs (i # is) s = Inr s'" using i s'(1) by (simp add: Let_def)
  moreover have "\<forall>j < 4096. Key (block_cell s' j) =
      (if j \<in> set (i # is) then Key (palette ! packed_at bits longs j) else Key (block_cell s j))"
  proof (intro allI impI)
    fix j :: nat
    assume "j < 4096"
    then show "Key (block_cell s' j) =
        (if j \<in> set (i # is) then Key (palette ! packed_at bits longs j) else Key (block_cell s j))"
      using s'(3) [rule_format, of j] s(2) [of j] Cons.prems(3) by (cases "j = i") simp_all
  qed
  ultimately show ?case using s'(2) by blast
qed simp

section \<open>The biomes of a section\<close>

definition biome_cell :: "section_data \<Rightarrow> nat \<Rightarrow> string" where
  "biome_cell s i = BiomeAtCell (Some s) (int (i mod 4)) (int (i div 16)) (int (i div 4 mod 4))"

definition cell_place :: "nat \<Rightarrow> section_data \<Rightarrow> string \<Rightarrow> section_data" where
  "cell_place i s b = SetBiomeCell s (int (i mod 4)) (int (i div 16)) (int (i div 4 mod 4)) b"

lemma cell_of_ok: "i < 64 \<Longrightarrow> cell_ok (int (i mod 4)) (int (i div 16)) (int (i div 4 mod 4))"
proof -
  assume "i < 64"
  then have "i div 16 < 4" by simp
  moreover have "i mod 4 < 4" "i div 4 mod 4 < 4" by simp_all
  ultimately show ?thesis unfolding cell_ok_def by linarith
qed

lemma cell_number: "nat (int (i div 16) * 16 + int (i div 4 mod 4) * 4 + int (i mod 4)) = i"
proof -
  have "i div 16 = i div 4 div 4" by (simp add: div_mult2_eq [symmetric])
  then have "i div 16 * 16 + i div 4 mod 4 * 4 + i mod 4 = i"
    using mult_div_mod_eq [of 4 i] mult_div_mod_eq [of 4 "i div 4"] by linarith
  moreover have "int (i div 16) * 16 + int (i div 4 mod 4) * 4 + int (i mod 4) = int (i div 16 * 16 + i div 4 mod 4 * 4 + i mod 4)"
    by simp
  ultimately show ?thesis by (simp only: nat_int)
qed

lemma cell_same: "i < 64 \<Longrightarrow> j < 64 \<Longrightarrow>
    int (j mod 4) = int (i mod 4) \<and> int (j div 16) = int (i div 16) \<and> int (j div 4 mod 4) = int (i div 4 mod 4) \<longleftrightarrow> j = i"
  using cell_inj [OF cell_of_ok cell_of_ok, of j i] unfolding cell_number by blast

definition biome_filling :: "string list \<Rightarrow> section_data \<Rightarrow> bool" where
  "biome_filling palette s \<longleftrightarrow> biomes_ok s \<and> set (biomePalette s) \<subseteq> set palette"

lemma biome_filling_length: "biome_filling palette s \<Longrightarrow> length (biomePalette s) \<le> length palette"
  using distinct_card [of "biomePalette s"] card_mono [of "set palette" "set (biomePalette s)"] card_length [of palette]
  by (simp add: biome_filling_def biomes_ok_def)

lemma SetBiomeCell_fields:
  "set (biomePalette (SetBiomeCell s x y z b)) \<subseteq> insert (real_biome b) (set (biomePalette s))"
  "blockPalette (SetBiomeCell s x y z b) = blockPalette s" "blockData (SetBiomeCell s x y z b) = blockData s"
  "paletteIndex (SetBiomeCell s x y z b) = paletteIndex s" "NonAir (SetBiomeCell s x y z b) = NonAir s"
  by (auto simp: SetBiomeCell_def real_biome_def Let_def split: option.splits)

lemma cell_place_ok:
  assumes "biome_filling palette s" "b \<in> set palette" "b \<noteq> []" "Suc (length palette) < 2 ^ 16" "i < 64" "j < 64"
  shows "biome_filling palette (cell_place i s b)"
    and "biome_cell (cell_place i s b) j = (if j = i then b else biome_cell s j)"
proof -
  have ok: "biomes_ok s" "Suc (length (biomePalette s)) < 2 ^ 16"
    using assms(1,4) biome_filling_length [OF assms(1)] by (simp_all add: biome_filling_def)
  have b: "real_biome b = b" using assms(3) by (simp add: real_biome_def)
  show "biome_filling palette (cell_place i s b)"
    using assms(1,2) SetBiomeCell_ok [OF ok, of "int (i mod 4)" "int (i div 16)" "int (i div 4 mod 4)" b]
      SetBiomeCell_fields(1) [of s "int (i mod 4)" "int (i div 16)" "int (i div 4 mod 4)" b]
    unfolding biome_filling_def cell_place_def b by blast
  show "biome_cell (cell_place i s b) j = (if j = i then b else biome_cell s j)"
    using BiomeAtCell_Set [OF ok cell_of_ok [OF assms(5)] cell_of_ok [OF assms(6)], of b] cell_same [OF assms(6,5)] b
    unfolding biome_cell_def cell_place_def by (metis (mono_tags, lifting))
qed

text \<open>The blocks of a section are not touched by its biomes.\<close>

definition same_blocks :: "section_data \<Rightarrow> section_data \<Rightarrow> bool" where
  "same_blocks s t \<longleftrightarrow> blockPalette t = blockPalette s \<and> blockData t = blockData s \<and> paletteIndex t = paletteIndex s \<and> NonAir t = NonAir s"

lemma same_blocks_cell: "same_blocks s t \<Longrightarrow> block_cell t i = block_cell s i"
  by (simp add: same_blocks_def block_cell_def At_def)

lemma same_blocks_trans: "same_blocks r s \<Longrightarrow> same_blocks s t \<Longrightarrow> same_blocks r t"
  by (simp add: same_blocks_def)

lemma same_blocks_place: "same_blocks s (cell_place i s b)"
  by (simp add: same_blocks_def cell_place_def SetBiomeCell_fields)

lemma decode_cells_back:
  assumes "biome_filling palette s" "[] \<notin> set palette" "Suc (length palette) < 2 ^ 16" "distinct is"
    and "\<forall>i \<in> set is. i < 64 \<and> i div entries_per_long bits < length longs \<and> packed_at bits longs i < length palette"
  shows "\<exists>s'. decode_cells bits palette longs is s = Inr s' \<and> biome_filling palette s' \<and> same_blocks s s' \<and>
    (\<forall>j < 64. biome_cell s' j = (if j \<in> set is then palette ! packed_at bits longs j else biome_cell s j))"
  using assms(1,4,5)
proof (induction "is" arbitrary: s)
  case (Cons i "is")
  let ?b = "palette ! packed_at bits longs i"
  have i: "i < 64" "packed_at bits longs i < length palette" "i div entries_per_long bits < length longs"
    using Cons.prems(3) by simp_all
  have b: "?b \<in> set palette" using i(2) by simp
  then have ne: "?b \<noteq> []" using assms(2) by metis
  note place = cell_place_ok [OF Cons.prems(1) b ne assms(3) i(1)]
  from Cons.IH [OF place(1) [OF i(1)]] Cons.prems(2,3) obtain s' where
      s': "decode_cells bits palette longs is (cell_place i s ?b) = Inr s'" "biome_filling palette s'" "same_blocks (cell_place i s ?b) s'"
      "\<forall>j < 64. biome_cell s' j = (if j \<in> set is then palette ! packed_at bits longs j else biome_cell (cell_place i s ?b) j)"
    by auto
  have "decode_cells bits palette longs (i # is) s = Inr s'" using i s'(1) by (simp add: Let_def cell_place_def)
  moreover have "\<forall>j < 64. biome_cell s' j = (if j \<in> set (i # is) then palette ! packed_at bits longs j else biome_cell s j)"
    using s'(4) place(2) Cons.prems(2) by simp
  ultimately show ?case using s'(2,3) same_blocks_trans same_blocks_place by blast
qed (simp add: same_blocks_def)

lemma uniform_biome:
  assumes "b \<noteq> []"
  shows "biome_filling (b # bs) (SetUniformBiome s b)" "j < 64 \<Longrightarrow> biome_cell (SetUniformBiome s b) j = b"
    "same_blocks s (SetUniformBiome s b)"
proof -
  show "biome_filling (b # bs) (SetUniformBiome s b)"
    using assms by (auto simp: biome_filling_def biomes_ok_def SetUniformBiome_def index_ok_def Let_def unsigned_eq_0_iff list_all_iff)
  show "biome_cell (SetUniformBiome s b) j = b" if "j < 64"
    using cell_of_ok [OF that] assms that by (simp add: biome_cell_def BiomeAtCell_def SetUniformBiome_def Let_def cell_number)
  show "same_blocks s (SetUniformBiome s b)" by (simp add: same_blocks_def SetUniformBiome_def Let_def)
qed

section \<open>Sections\<close>

text \<open>The sections the format can hold: palettes with room in 16 bits, well-formed block states and no
  empty biome name.\<close>

definition section_saved :: "section_data \<Rightarrow> bool" where
  "section_saved s \<longleftrightarrow> section_ok s \<and> biomes_ok s \<and> (\<forall>b \<in> set (blockPalette s). block_wf b) \<and>
     Suc (Suc (length (blockPalette s))) < 2 ^ 16 \<and> [] \<notin> set (biomePalette s) \<and> Suc (length (biomePalette s)) < 2 ^ 16"

definition same_content :: "section_data \<Rightarrow> section_data \<Rightarrow> bool" where
  "same_content s t \<longleftrightarrow> (\<forall>i < 4096. Key (block_cell t i) = Key (block_cell s i)) \<and> (\<forall>i < 64. biome_cell t i = biome_cell s i)"

lemma container_fields:
  assumes "container_tag least elem palette data = TagCompound es"
  shows "field es ''palette'' = TagList elem palette"
    and "field es ''data'' = (if length palette > 1
      then TagLongArr (pack_longs (palette_bits least (length palette)) (map ucast data)) else TagEnd)"
  using assms by (auto simp: container_tag_def field_compound)

lemma unat_ucast64: "unat (ucast (w :: 16 word) :: i64) = unat w"
proof -
  have "unat w < 2 ^ 16" by (rule order_less_le_trans [OF unsigned_less]) simp
  then show ?thesis by (simp add: unsigned_ucast_eq take_bit_nat_eq_self)
qed

lemma ucast_small: "unat (w :: 16 word) < 2 ^ bits \<Longrightarrow> take_bit bits (ucast w :: i64) = ucast w"
proof -
  assume w: "unat w < 2 ^ bits"
  have "unat (take_bit bits (ucast w :: i64)) = unat (ucast w :: i64)"
    using w by (simp add: unsigned_take_bit_eq take_bit_nat_eq_self unat_ucast64)
  then show ?thesis by (simp add: word_unat_eq_iff)
qed

text \<open>The packed indexes of a container read back.\<close>

lemma container_back:
  fixes data :: "16 word list"
  assumes "length palette > 1" "length palette < 2 ^ 16" "least = 1 \<or> least = 4" "list_all (\<lambda>w. unat w < length palette) data"
    and "i < length data"
  defines "bits \<equiv> palette_bits least (length palette)"
  shows "packed_at bits (pack_longs bits (map ucast data)) i = unat (data ! i)"
    and "i div entries_per_long bits < length (pack_longs bits (map ucast data))"
    and "pack_longs bits (map ucast data) \<noteq> []"
proof -
  have "bits \<le> 16" using palette_bits_bound [OF assms(2), of least] assms(3) unfolding bits_def by auto
  moreover have "0 < bits" using assms(3) by (auto simp: bits_def palette_bits_def)
  moreover have "\<forall>v \<in> set (map ucast data :: i64 list). take_bit bits v = v"
  proof
    fix v :: i64
    assume "v \<in> set (map ucast data)"
    then obtain w where w: "w \<in> set data" "v = ucast w" by auto
    then have "unat w < 2 ^ bits" using assms(4) palette_bits_enough unfolding bits_def by (simp add: list_all_iff)
    then show "take_bit bits v = v" unfolding w(2) by (rule ucast_small)
  qed
  ultimately have b: "packed_at bits (pack_longs bits (map ucast data)) i = unat ((map ucast data :: i64 list) ! i)"
      "i div entries_per_long bits < length (pack_longs bits (map ucast data))"
    using packed_back [of bits "map ucast data" i] assms(5) by simp_all
  then show "packed_at bits (pack_longs bits (map ucast data)) i = unat (data ! i)" using assms(5) by (simp add: unat_ucast64)
  show "i div entries_per_long bits < length (pack_longs bits (map ucast data))" by (rule b(2))
  then show "pack_longs bits (map ucast data) \<noteq> []" by auto
qed

lemma block_cell_palette:
  assumes "section_ok s" "i < 4096"
  shows "block_cell s i = blockPalette s ! unat (blockData s ! i)" "unat (blockData s ! i) < length (blockPalette s)"
  using assms unfolding block_cell_def At_def by (auto simp: grid_of section_ok_def list_all_length)

lemma biome_cell_palette:
  assumes "biomes_ok s" "i < 64"
  shows "biome_cell s i = biomePalette s ! unat (biomeData s ! i)" "unat (biomeData s ! i) < length (biomePalette s)"
  using BiomeAtCell_in [OF assms(1) cell_of_ok [OF assms(2)]] unfolding biome_cell_def by (simp_all add: cell_number)

lemma Air_wf: "block_wf Air"
  by (simp add: block_wf_def Air_def plain_def)

lemma filling_new: "filling palette NewSection"
  using NewSection_ok NewSection_biomes Air_wf by (simp add: filling_def) (simp add: NewSection_def)

lemma new_cells: "i < 4096 \<Longrightarrow> block_cell NewSection i = Air"
  by (simp add: block_cell_def At_def NewSection_def grid_of)

definition filled_from :: "section_data \<Rightarrow> section_data \<Rightarrow> bool" where
  "filled_from s t \<longleftrightarrow> filling (map decoded_block (blockPalette s)) t \<and> (\<forall>i < 4096. Key (block_cell t i) = Key (block_cell s i))"

lemma blocks_back:
  assumes "section_saved s"
  defines "pal \<equiv> map decoded_block (blockPalette s)"
  shows "length pal = 1 \<Longrightarrow> filled_from s (fillSection NewSection (pal ! 0))"
    and "length pal \<noteq> 1 \<Longrightarrow>
      \<exists>t. decodeBlockData NewSection pal (pack_longs (palette_bits 4 (length pal)) (map ucast (blockData s))) = Inr t \<and> filled_from s t"
proof -
  have ok: "section_ok s" "\<forall>b \<in> set (blockPalette s). block_wf b" "Suc (Suc (length pal)) < 2 ^ 16"
    using assms by (simp_all add: section_saved_def)
  have ne: "blockPalette s \<noteq> []" "blockPalette s ! 0 = Air" using ok(1) by (simp_all add: section_ok_def)
  show "filled_from s (fillSection NewSection (pal ! 0))" if one: "length pal = 1"
  proof -
    have "IsAir (pal ! 0)" using ne decoded_block_same(3) [OF Air_wf] by (simp add: pal_def)
    moreover have "Key (block_cell s i) = Key Air" if "i < 4096" for i
      using block_cell_palette [OF ok(1) that] one ne by (simp add: pal_def)
    ultimately show ?thesis by (simp add: filled_from_def fillSection_def filling_new new_cells)
  qed
  assume many: "length pal \<noteq> 1"
  let ?bits = "palette_bits 4 (length pal)"
  let ?longs = "pack_longs ?bits (map ucast (blockData s))"
  have d: "length (blockData s) = 4096" "list_all (\<lambda>w. unat w < length pal) (blockData s)"
    using ok(1) by (simp_all add: section_ok_def pal_def)
  have l: "length pal > 1" using many ne by (cases "blockPalette s") (auto simp: pal_def)
  note packed = container_back [OF l _ _ d(2), of 4]
  have cells: "\<forall>i \<in> set [0..<4096]. i < 4096 \<and> i div entries_per_long ?bits < length ?longs \<and> packed_at ?bits ?longs i < length pal \<and>
      Key (block_cell NewSection i) = Key Air"
    using packed(1,2) d ok(3) by (auto simp: new_cells list_all_length)
  have wf: "\<forall>b \<in> set pal. block_wf b" using ok(2) decoded_block_same(1) by (auto simp: pal_def)
  from decode_blocks_back [OF filling_new wf ok(3) cells distinct_upt] obtain t where t: "decode_blocks ?bits pal ?longs [0..<4096] NewSection = Inr t" "filling pal t"
      "\<forall>j < 4096. Key (block_cell t j) = (if j \<in> set [0..<4096] then Key (pal ! packed_at ?bits ?longs j) else Key (block_cell NewSection j))"
    by blast
  have "Key (block_cell t j) = Key (block_cell s j)" if "j < 4096" for j
  proof -
    note c = block_cell_palette [OF ok(1) that]
    have "Key (block_cell t j) = Key (pal ! unat (blockData s ! j))" using t(3) packed(1) ok(3) d(1) that by simp
    also have "\<dots> = Key (block_cell s j)" using c decoded_block_same(2) ok(2) by (simp add: pal_def)
    finally show ?thesis .
  qed
  then show "\<exists>t. decodeBlockData NewSection pal ?longs = Inr t \<and> filled_from s t"
    using t(1,2) by (auto simp: decodeBlockData_def filled_from_def pal_def)
qed

lemma biome_names_back: "[] \<notin> set ns \<Longrightarrow> biome_names i (map text_tag ns) = Inr ns"
  by (induction ns arbitrary: i) (auto simp: text_tag_def tag_str_def)

lemma filled_saved:
  assumes "section_saved s" "filled_from s t" "same_blocks t u" "biome_filling (biomePalette s) u" "\<forall>i < 64. biome_cell u i = biome_cell s i"
  shows "section_saved u \<and> same_content s u"
proof -
  have s: "section_ok s" "[] \<notin> set (biomePalette s)" "Suc (length (biomePalette s)) < 2 ^ 16" "Suc (Suc (length (blockPalette s))) < 2 ^ 16"
      "\<forall>b \<in> set (blockPalette s). block_wf b" using assms(1) by (simp_all add: section_saved_def)
  have t: "section_ok t" "\<forall>b \<in> set (blockPalette t). block_wf b"
      "set (map Key (blockPalette t)) \<subseteq> insert (Key Air) (set (map Key (map decoded_block (blockPalette s))))"
    using assms(2) by (simp_all add: filled_from_def filling_def)
  have "Key Air \<in> set (map Key (blockPalette s))" using s(1) by (cases "blockPalette s") (simp_all add: section_ok_def)
  moreover have "set (map Key (map decoded_block (blockPalette s))) = set (map Key (blockPalette s))"
    using s(5) decoded_block_same(2) by (simp add: image_image cong: image_cong_simp)
  ultimately have "set (map Key (blockPalette t)) \<subseteq> set (map Key (blockPalette s))" using t(3) by blast
  then have "card (set (map Key (blockPalette t))) \<le> length (map Key (blockPalette s))"
    by (rule order_trans [OF card_mono [OF finite_set] card_length])
  moreover have "card (set (map Key (blockPalette t))) = length (map Key (blockPalette t))"
    by (rule distinct_card) (use t(1) in \<open>simp add: section_ok_def\<close>)
  ultimately have len: "length (blockPalette t) \<le> length (blockPalette s)" by simp
  have u: "section_ok u" using t(1) assms(3) by (simp add: section_ok_def same_blocks_def)
  have "section_saved u"
    using u t(2) len s(2-4) assms(3,4) biome_filling_length [OF assms(4)]
    by (auto simp: section_saved_def same_blocks_def biome_filling_def)
  moreover have "same_content s u"
    using assms(2,5) same_blocks_cell [OF assms(3)] by (simp add: same_content_def filled_from_def)
  ultimately show ?thesis by simp
qed

lemma biomes_back:
  assumes "section_saved s" "filled_from s t"
  shows "\<exists>u. decodeBiomeData t (biomesTag s) = Inr u \<and> section_saved u \<and> same_content s u"
proof -
  let ?pal = "biomePalette s"
  have s: "biomes_ok s" "[] \<notin> set ?pal" "Suc (length ?pal) < 2 ^ 16" using assms(1) by (simp_all add: section_saved_def)
  have ne: "?pal \<noteq> []" using s(1) by (simp add: biomes_ok_def)
  then have p0: "?pal ! 0 \<noteq> []" "?pal = ?pal ! 0 # tl ?pal" using s(2) by (cases ?pal; auto)+
  obtain es where es: "biomesTag s = TagCompound es" by (simp add: biomesTag_def container_tag_def)
  note f = container_fields [OF es [unfolded biomesTag_def]]
  have pal: "BiomePalette (Some s) = ?pal" using ne by (simp add: BiomePalette_def)
  have names: "biome_names 0 (map text_tag ?pal) = Inr ?pal" using s(2) by (rule biome_names_back)
  let ?t = "SetUniformBiome t (?pal ! 0)"
  have u: "biome_filling ?pal ?t" "\<And>j. j < 64 \<Longrightarrow> biome_cell ?t j = ?pal ! 0" "same_blocks t ?t"
    using uniform_biome(1) [OF p0(1), of "tl ?pal" t] uniform_biome(2,3) [OF p0(1)] p0(2) by simp_all
  show ?thesis
  proof (cases "length ?pal = 1")
    case True
    have "biome_cell s j = ?pal ! 0" if "j < 64" for j using biome_cell_palette [OF s(1) that] True by simp
    then have "section_saved ?t \<and> same_content s ?t" using filled_saved [OF assms u(3,1)] u(2) by simp
    then show ?thesis using True names ne by (simp add: decodeBiomeData_def es f pal Let_def)
  next
    case False
    then have l: "length ?pal > 1" using ne by (cases ?pal) auto
    let ?bits = "palette_bits 1 (length ?pal)"
    let ?longs = "pack_longs ?bits (map ucast (biomeData s))"
    have d: "length (biomeData s) = 64" "list_all (\<lambda>w. unat w < length ?pal) (biomeData s)" using s(1) by (simp_all add: biomes_ok_def)
    note packed = container_back [OF l _ _ d(2), of 1]
    have cells: "\<forall>i \<in> set [0..<64]. i < 64 \<and> i div entries_per_long ?bits < length ?longs \<and> packed_at ?bits ?longs i < length ?pal"
      using packed(1,2) d s(3) by (auto simp: list_all_length)
    from decode_cells_back [OF u(1) s(2,3) distinct_upt cells] obtain v where
        v: "decode_cells ?bits ?pal ?longs [0..<64] ?t = Inr v" "biome_filling ?pal v" "same_blocks ?t v"
        "\<forall>j < 64. biome_cell v j = (if j \<in> set [0..<64] then ?pal ! packed_at ?bits ?longs j else biome_cell ?t j)"
      by blast
    have "biome_cell v j = biome_cell s j" if "j < 64" for j
      using v(4) packed(1) s(3) d(1) that biome_cell_palette [OF s(1) that] by simp
    then have "section_saved v \<and> same_content s v"
      using filled_saved [OF assms same_blocks_trans [OF u(3) v(3)] v(2)] by simp
    moreover have "?longs \<noteq> []" using packed(3) [of 0] s(3) d(1) by simp
    ultimately show ?thesis using False names ne v(1) l by (simp add: decodeBiomeData_def es tag_get_def f pal Let_def)
  qed
qed

lemma sint_i8: "- 128 \<le> n \<Longrightarrow> n \<le> 127 \<Longrightarrow> sint (word_of_int n :: byte) = n"
  by (simp add: signed_of_int signed_take_bit_int_eq_self)

lemma section_byte_back: "i < SectionCount \<Longrightarrow> sint (section_byte i) = int i + sectionYBase"
  unfolding section_byte_def by (rule sint_i8) (simp_all add: SectionCount_def sectionYBase_def)

lemma section_tag_fields:
  "field (section_tag i s entry) ''Y'' = TagByte (section_byte i)"
  "field (section_tag i s entry) ''block_states'' = blockStatesTag s"
  "field (section_tag i s entry) ''biomes'' = biomesTag s"
  by (simp_all add: section_tag_def field_set)

lemma section_back:
  assumes "section_saved s" "i < SectionCount"
  shows "\<exists>t. decode_section (section_tag i s entry) = Inr (Some (i, t)) \<and> section_saved t \<and> same_content s t"
proof -
  let ?pal = "map decoded_block (blockPalette s)"
  obtain bs where bs: "blockStatesTag s = TagCompound bs" by (simp add: blockStatesTag_def container_tag_def)
  note f = container_fields [OF bs [unfolded blockStatesTag_def]]
  have ok: "section_ok s" "\<forall>b \<in> set (blockPalette s). block_wf b" using assms(1) by (simp_all add: section_saved_def)
  then have ne: "blockPalette s \<noteq> []" by (simp add: section_ok_def)
  have names: "decodePalette (map palette_entry_tag (blockPalette s)) = Inr ?pal"
    unfolding decodePalette_def by (rule decode_palette_back [OF ok(2)])
  have y: "sint (section_byte i) - sectionYBase = int i" using section_byte_back [OF assms(2)] by simp
  have D: "decode_section (section_tag i s entry) =
      (if length ?pal = 1 then map_sum (InBiomes i) (\<lambda>s. Some (i, s)) (decodeBiomeData (fillSection NewSection (?pal ! 0)) (biomesTag s))
       else (case decodeBlockData NewSection ?pal (pack_longs (palette_bits 4 (length ?pal)) (map ucast (blockData s))) of
               Inl err \<Rightarrow> Inl (InSection i err)
             | Inr t \<Rightarrow> map_sum (InBiomes i) (\<lambda>s. Some (i, s)) (decodeBiomeData t (biomesTag s))))"
  proof (cases "length ?pal = 1")
    case True
    then show ?thesis using assms(2) ne names
      by (simp add: decode_section_def section_tag_fields tag_byte_def y bs f Let_def)
  next
    case False
    then have l: "length (blockPalette s) > 1" using ne by (cases "blockPalette s") auto
    have "pack_longs (palette_bits 4 (length ?pal)) (map ucast (blockData s)) \<noteq> []"
    proof -
      have "blockData s \<noteq> []" using ok(1) by (auto simp: section_ok_def)
      then show ?thesis
        using container_back(3) [OF l, of 4 "blockData s" 0] ok(1) assms(1) by (simp add: section_ok_def section_saved_def)
    qed
    then show ?thesis using assms(2) ne names False l
      by (simp add: decode_section_def section_tag_fields tag_byte_def y bs f Let_def split: sum.split)
  qed
  show ?thesis
  proof (cases "length ?pal = 1")
    case True
    from biomes_back [OF assms(1) blocks_back(1) [OF assms(1) True]] show ?thesis using True unfolding D by auto
  next
    case False
    from blocks_back(2) [OF assms(1) False] obtain t where
      t: "decodeBlockData NewSection ?pal (pack_longs (palette_bits 4 (length ?pal)) (map ucast (blockData s))) = Inr t" "filled_from s t"
      by blast
    from biomes_back [OF assms(1) t(2)] show ?thesis using False t(1) unfolding D by auto
  qed
qed

section \<open>All sections of a chunk\<close>

definition compact_sections :: "tag list \<Rightarrow> bool" where
  "compact_sections ts \<longleftrightarrow> (\<forall>es. TagCompound es \<in> set ts \<longrightarrow> field es ''block_states'' = TagEnd)"

definition restored :: "section_data option \<Rightarrow> section_data option \<Rightarrow> bool" where
  "restored so t =
     (case so of None \<Rightarrow> t = None | Some s \<Rightarrow> (case t of None \<Rightarrow> False | Some u \<Rightarrow> section_saved u \<and> same_content s u))"

text \<open>What the entries of the merged table are: the written sections, and compact ones of the base.\<close>

definition entry_of :: "section_data option list \<Rightarrow> byte \<Rightarrow> tag \<Rightarrow> bool" where
  "entry_of ss y t \<longleftrightarrow> (\<exists>es. t = TagCompound es \<and>
     (field es ''block_states'' = TagEnd \<and> (\<forall>i < length ss. y = section_byte i \<longrightarrow> ss ! i = None) \<or>
      (\<exists>i s e. i < length ss \<and> ss ! i = Some s \<and> y = section_byte i \<and> es = section_tag i s e)))"

lemma compound_type: "tag_type t = 10 \<longleftrightarrow> (\<exists>es. t = TagCompound es)"
  by (cases t) auto

lemma base_sections_ok:
  assumes "compact_sections ts"
  shows "map_of (base_sections ts) y = Some t \<Longrightarrow> \<exists>es. t = TagCompound es \<and> field es ''block_states'' = TagEnd"
proof -
  have step: "map_of (foldl (\<lambda>byY t. if tag_type t = 10 then AList.update (tag_byte (tag_get t ''Y'')) t byY else byY) byY us) y = Some t \<Longrightarrow>
      map_of byY y = Some t \<or> (\<exists>es. t = TagCompound es \<and> t \<in> set us)" for byY us
  proof (induction us arbitrary: byY)
    case (Cons u us)
    let ?b = "if tag_type u = 10 then AList.update (tag_byte (tag_get u ''Y'')) u byY else byY"
    have "map_of ?b y = Some t \<or> (\<exists>es. t = TagCompound es \<and> t \<in> set us)" using Cons.prems by (intro Cons.IH) simp
    then show ?case by (cases "tag_type u = 10") (auto simp: compound_type update_conv' split: if_splits)
  qed simp
  show "\<exists>es. t = TagCompound es \<and> field es ''block_states'' = TagEnd" if "map_of (base_sections ts) y = Some t"
    using step [of "[]" ts] that assms by (auto simp: base_sections_def compact_sections_def)
qed

lemma section_byte_inj: "i < SectionCount \<Longrightarrow> j < SectionCount \<Longrightarrow> section_byte i = section_byte j \<longleftrightarrow> i = j"
  using section_byte_back by (metis add_right_cancel of_nat_eq_iff)

lemma entry_of_snoc:
  assumes "entry_of ss y t" "so = None \<or> y \<noteq> section_byte (length ss)"
  shows "entry_of (ss @ [so]) y t"
proof -
  obtain es where t: "t = TagCompound es" and es: "field es ''block_states'' = TagEnd \<and> (\<forall>i < length ss. y = section_byte i \<longrightarrow> ss ! i = None) \<or>
      (\<exists>i s e. i < length ss \<and> ss ! i = Some s \<and> y = section_byte i \<and> es = section_tag i s e)"
    using assms(1) by (auto simp: entry_of_def)
  from es show ?thesis
  proof
    assume c: "field es ''block_states'' = TagEnd \<and> (\<forall>i < length ss. y = section_byte i \<longrightarrow> ss ! i = None)"
    have "\<forall>i < length (ss @ [so]). y = section_byte i \<longrightarrow> (ss @ [so]) ! i = None"
      using c assms(2) by (auto simp: nth_append less_Suc_eq)
    then show ?thesis using c t unfolding entry_of_def by blast
  next
    assume "\<exists>i s e. i < length ss \<and> ss ! i = Some s \<and> y = section_byte i \<and> es = section_tag i s e"
    then obtain i s e where "i < length ss" "ss ! i = Some s" "y = section_byte i" "es = section_tag i s e" by blast
    then have "i < length (ss @ [so]) \<and> (ss @ [so]) ! i = Some s \<and> y = section_byte i \<and> es = section_tag i s e"
      by (simp add: nth_append)
    then show ?thesis using t unfolding entry_of_def by blast
  qed
qed

lemma put_sections_ok:
  assumes "compact_sections ts" "length ss = SectionCount" "n \<le> length ss"
  defines "M \<equiv> \<lambda>n. foldl put_section (base_sections ts) (enumerate 0 (take n ss))"
  shows "(\<forall>y t. map_of (M n) y = Some t \<longrightarrow> entry_of (take n ss) y t) \<and>
    (\<forall>i < n. ss ! i \<noteq> None \<longrightarrow> map_of (M n) (section_byte i) \<noteq> None)"
  using assms(3)
proof (induction n)
  case 0
  have "entry_of [] y t" if "map_of (base_sections ts) y = Some t" for y t
    using base_sections_ok [OF assms(1) that] by (auto simp: entry_of_def)
  then show ?case by (simp add: M_def)
next
  case (Suc n)
  then have n: "n < length ss" "n < SectionCount" using assms(2) by simp_all
  have IH: "\<And>y t. map_of (M n) y = Some t \<Longrightarrow> entry_of (take n ss) y t"
      "\<And>i. i < n \<Longrightarrow> ss ! i \<noteq> None \<Longrightarrow> map_of (M n) (section_byte i) \<noteq> None" using Suc by auto
  have tk: "take (Suc n) ss = take n ss @ [ss ! n]" using n by (simp add: take_Suc_conv_app_nth)
  have step: "M (Suc n) = put_section (M n) (n, ss ! n)" using n by (simp add: M_def tk enumerate_append_eq)
  have old: "entry_of (take (Suc n) ss) y t" if "entry_of (take n ss) y t" "ss ! n = None \<or> y \<noteq> section_byte n" for y t
    using entry_of_snoc [OF that(1), of "ss ! n"] that(2) n unfolding tk by simp
  show ?case
  proof (cases "ss ! n")
    case None
    then have "M (Suc n) = M n" by (simp add: step put_section_def)
    then show ?thesis using IH old None by (auto simp: less_Suc_eq)
  next
    case (Some s)
    obtain e where M: "M (Suc n) = AList.update (section_byte n) (TagCompound (section_tag n s e)) (M n)"
      by (simp add: step put_section_def Some)
    have new: "entry_of (take (Suc n) ss) (section_byte n) (TagCompound (section_tag n s e))"
    proof -
      have "n < length (take (Suc n) ss) \<and> take (Suc n) ss ! n = Some s \<and> section_byte n = section_byte n \<and>
          section_tag n s e = section_tag n s e"
        using n Some by simp
      then show ?thesis unfolding entry_of_def by blast
    qed
    show ?thesis
    proof (intro conjI allI impI)
      fix y t
      assume "map_of (M (Suc n)) y = Some t"
      then show "entry_of (take (Suc n) ss) y t"
        using IH(1) old new unfolding M update_conv' by (cases "y = section_byte n") auto
    next
      fix i
      assume "i < Suc n" "ss ! i \<noteq> None"
      then show "map_of (M (Suc n)) (section_byte i) \<noteq> None"
        using IH(2) unfolding M update_conv' by (cases "i = n") auto
    qed
  qed
qed

lemma decode_compact: "field es ''block_states'' = TagEnd \<Longrightarrow> decode_section es = Inr None"
  by (simp add: decode_section_def Let_def)

lemma decode_sections_back:
  assumes "\<forall>(y, t) \<in> set L. entry_of ss y t" "\<forall>s. Some s \<in> set ss \<longrightarrow> section_saved s" "length ss = SectionCount"
    and "length acc = SectionCount" "\<forall>i < SectionCount. acc ! i = None \<or> restored (ss ! i) (acc ! i)"
  shows "\<exists>acc'. decode_sections (map snd L) acc = Inr acc' \<and> length acc' = SectionCount \<and>
    (\<forall>i < SectionCount. (acc' ! i = None \<or> restored (ss ! i) (acc' ! i)) \<and>
      (acc ! i \<noteq> None \<or> ss ! i \<noteq> None \<and> section_byte i \<in> fst ` set L \<longrightarrow> acc' ! i \<noteq> None))"
  using assms(1,4,5)
proof (induction L arbitrary: acc)
  case (Cons yt L)
  obtain y t where yt: "yt = (y, t)" by (rule prod.exhaust)
  have L: "\<forall>(y, t) \<in> set L. entry_of ss y t" using Cons.prems(1) by simp
  obtain es where es: "t = TagCompound es" "field es ''block_states'' = TagEnd \<and> (\<forall>i < length ss. y = section_byte i \<longrightarrow> ss ! i = None) \<or>
      (\<exists>i s e. i < length ss \<and> ss ! i = Some s \<and> y = section_byte i \<and> es = section_tag i s e)"
    using Cons.prems(1) by (auto simp: yt entry_of_def)
  from es(2) show ?case
  proof
    assume c: "field es ''block_states'' = TagEnd \<and> (\<forall>i < length ss. y = section_byte i \<longrightarrow> ss ! i = None)"
    from Cons.IH [OF L Cons.prems(2,3)] obtain acc' where A: "decode_sections (map snd L) acc = Inr acc'" "length acc' = SectionCount"
        "\<forall>j < SectionCount. (acc' ! j = None \<or> restored (ss ! j) (acc' ! j)) \<and>
          (acc ! j \<noteq> None \<or> ss ! j \<noteq> None \<and> section_byte j \<in> fst ` set L \<longrightarrow> acc' ! j \<noteq> None)"
      by blast
    have "\<forall>j < SectionCount. (acc' ! j = None \<or> restored (ss ! j) (acc' ! j)) \<and>
        (acc ! j \<noteq> None \<or> ss ! j \<noteq> None \<and> section_byte j \<in> fst ` set (yt # L) \<longrightarrow> acc' ! j \<noteq> None)"
    proof (intro allI impI)
      fix j
      assume j: "j < SectionCount"
      have "ss ! j = None \<or> section_byte j \<noteq> y" using c assms(3) j by auto
      then show "(acc' ! j = None \<or> restored (ss ! j) (acc' ! j)) \<and>
          (acc ! j \<noteq> None \<or> ss ! j \<noteq> None \<and> section_byte j \<in> fst ` set (yt # L) \<longrightarrow> acc' ! j \<noteq> None)"
        using A(3) j by (auto simp: yt)
    qed
    then show ?thesis using A(1,2) c by (simp add: yt es(1) decode_compact)
  next
    assume "\<exists>i s e. i < length ss \<and> ss ! i = Some s \<and> y = section_byte i \<and> es = section_tag i s e"
    then obtain i s e where i: "i < SectionCount" "ss ! i = Some s" "y = section_byte i" "es = section_tag i s e"
      using assms(3) by auto
    have "section_saved s" using assms(2,3) i(1,2) nth_mem [of i ss] by simp
    from section_back [OF this i(1), of e] obtain u where
        u: "decode_section es = Inr (Some (i, u))" "section_saved u" "same_content s u" unfolding i(4) by blast
    have acc: "length (acc[i := Some u]) = SectionCount"
        "\<forall>j < SectionCount. acc[i := Some u] ! j = None \<or> restored (ss ! j) (acc[i := Some u] ! j)"
      using Cons.prems(2,3) i(1,2) u(2,3) by (auto simp: nth_list_update restored_def)
    from Cons.IH [OF L acc] obtain acc' where A: "decode_sections (map snd L) (acc[i := Some u]) = Inr acc'" "length acc' = SectionCount"
        "\<forall>j < SectionCount. (acc' ! j = None \<or> restored (ss ! j) (acc' ! j)) \<and>
          (acc[i := Some u] ! j \<noteq> None \<or> ss ! j \<noteq> None \<and> section_byte j \<in> fst ` set L \<longrightarrow> acc' ! j \<noteq> None)"
      by blast
    have "\<forall>j < SectionCount. (acc' ! j = None \<or> restored (ss ! j) (acc' ! j)) \<and>
        (acc ! j \<noteq> None \<or> ss ! j \<noteq> None \<and> section_byte j \<in> fst ` set (yt # L) \<longrightarrow> acc' ! j \<noteq> None)"
    proof (intro allI impI)
      fix j
      assume j: "j < SectionCount"
      show "(acc' ! j = None \<or> restored (ss ! j) (acc' ! j)) \<and>
          (acc ! j \<noteq> None \<or> ss ! j \<noteq> None \<and> section_byte j \<in> fst ` set (yt # L) \<longrightarrow> acc' ! j \<noteq> None)"
        using A(3) j Cons.prems(2) section_byte_inj [OF j i(1)] by (cases "j = i") (auto simp: yt i(3))
    qed
    moreover have "decode_sections (map snd (yt # L)) acc = Inr acc'" using A(1) u(1) by (simp add: yt es(1))
    ultimately show ?thesis using A(2) by blast
  qed
qed simp

section \<open>Whole chunks\<close>

lemma sint_word_of_int: "word_of_int (sint (y :: byte)) = y"
  by simp

lemma sections_tag_back:
  assumes "compact_sections ts" "length ss = SectionCount" "\<forall>s. Some s \<in> set ss \<longrightarrow> section_saved s"
  shows "\<exists>us ss'. sections_tag ss ts = TagList 10 us \<and> decode_sections us (replicate SectionCount None) = Inr ss' \<and>
    length ss' = SectionCount \<and> (\<forall>i < SectionCount. restored (ss ! i) (ss' ! i))"
proof -
  let ?M = "foldl put_section (base_sections ts) (enumerate 0 ss)"
  let ?ys = "sort (map (\<lambda>(y, t). sint y) ?M)"
  let ?L = "map (\<lambda>y. (word_of_int y :: byte, case map_of ?M (word_of_int y) of Some t \<Rightarrow> t | None \<Rightarrow> TagEnd)) ?ys"
  have M: "\<And>y t. map_of ?M y = Some t \<Longrightarrow> entry_of ss y t" "\<And>i. i < length ss \<Longrightarrow> ss ! i \<noteq> None \<Longrightarrow> map_of ?M (section_byte i) \<noteq> None"
    using put_sections_ok [OF assms(1,2) order_refl] by simp_all
  have L: "\<forall>(y, t) \<in> set ?L. entry_of ss y t"
  proof -
    have "entry_of ss y (case map_of ?M y of Some t \<Rightarrow> t | None \<Rightarrow> TagEnd)" if "(y, u) \<in> set ?M" for y u
      using M(1) [of y] that map_of_eq_None_iff [of ?M y] by (cases "map_of ?M y") (force, simp)
    then show ?thesis by auto
  qed
  have keys: "section_byte i \<in> fst ` set ?L" if "i < SectionCount" "ss ! i \<noteq> None" for i
  proof -
    have "section_byte i \<in> fst ` set ?M" using M(2) [of i] that assms(2) map_of_eq_None_iff [of ?M "section_byte i"] by auto
    then have "sint (section_byte i) \<in> set ?ys" by (force simp: image_iff)
    then have "word_of_int (sint (section_byte i)) \<in> (\<lambda>y. word_of_int y) ` set ?ys" by (rule imageI)
    then have "word_of_int (sint (section_byte i)) \<in> fst ` set ?L" unfolding set_map image_image fst_conv .
    then show ?thesis by simp
  qed
  from decode_sections_back [OF L assms(3,2), of "replicate SectionCount None"] obtain ss' where
      S: "decode_sections (map snd ?L) (replicate SectionCount None) = Inr ss'" "length ss' = SectionCount"
      "\<forall>i < SectionCount. (ss' ! i = None \<or> restored (ss ! i) (ss' ! i)) \<and>
        (replicate SectionCount None ! i \<noteq> (None :: section_data option) \<or> ss ! i \<noteq> None \<and> section_byte i \<in> fst ` set ?L \<longrightarrow> ss' ! i \<noteq> None)"
    by auto
  have "restored (ss ! i) (ss' ! i)" if "i < SectionCount" for i
    using S(3) [rule_format, OF that] keys [OF that] by (cases "ss ! i") (auto simp: restored_def)
  moreover have "sections_tag ss ts = TagList 10 (map snd ?L)" by (simp add: sections_tag_def comp_def Let_def)
  ultimately show ?thesis using S(1,2) by blast
qed

definition owned_names :: "string set" where
  "owned_names = {''DataVersion'', ''xPos'', ''yPos'', ''zPos'', ''Status'', ''sections'', ''Heightmaps'', ''block_entities''}"

lemma chunk_root_fields:
  "field (chunk_root c base) ''Status'' = text_tag ''minecraft:full''"
  "field (chunk_root c base) ''sections'' = sections_tag (Sections c) (tag_list (field base ''sections''))"
  "field (chunk_root c base) ''block_entities'' = blockEntitiesTag (SavedEntities c)"
  "field (chunk_root c base) ''Heightmaps'' = heightmaps_tag (chunk.truncate c) (field base ''Heightmaps'')"
  "name \<notin> owned_names \<Longrightarrow> field (chunk_root c base) name = field base name"
  by (simp_all add: chunk_root_def field_set field_fold owned_names_def Let_def)

definition chunk_saved :: "anvil_chunk \<Rightarrow> compound list \<Rightarrow> bool" where
  "chunk_saved c payloads \<longleftrightarrow> length (Sections c) = SectionCount \<and> (\<forall>s. Some s \<in> set (Sections c) \<longrightarrow> section_saved s) \<and>
     list_all2 entity_saved_whole (SavedEntities c) payloads"

text \<open>The tree of the last save: none for a new chunk.\<close>

definition base_tree :: "anvil_chunk \<Rightarrow> compound" where
  "base_tree c = (case StorageData c of None \<Rightarrow> [] | Some base \<Rightarrow> base)"

definition storage_compact :: "anvil_chunk \<Rightarrow> bool" where
  "storage_compact c \<longleftrightarrow> compact_sections (tag_list (field (base_tree c) ''sections''))"

lemma compact_storage: "compact_sections (tag_list (field (compactStorageData root) ''sections''))"
proof -
  have "field es ''block_states'' = TagEnd"
    if "TagCompound es \<in> (\<lambda>t. case t of TagCompound es \<Rightarrow> TagCompound (del_field ''biomes'' (del_field ''block_states'' es)) | _ \<Rightarrow> t) ` set ts"
    for es ts
    using that by (auto simp: field_del split: tag.splits)
  then show ?thesis
    by (auto simp: compactStorageData_def field_set compact_sections_def tag_list_def Let_def split: tag.splits)
qed

text \<open>What is the same about a chunk that was saved and loaded.\<close>

definition chunk_restored :: "anvil_chunk \<Rightarrow> compound list \<Rightarrow> anvil_chunk \<Rightarrow> bool" where
  "chunk_restored c payloads c' \<longleftrightarrow>
     ChunkX c' = ChunkX c \<and> ChunkZ c' = ChunkZ c \<and> length (Sections c') = SectionCount \<and>
     (\<forall>i < SectionCount. restored (Sections c ! i) (Sections c' ! i)) \<and>
     SavedEntities c' = map2 (\<lambda>e p. e\<lparr>EntityData := 10 # writeCompoundPayload (kept_payload e p)\<rparr>) (SavedEntities c) payloads"

lemma tree_back:
  assumes "chunk_saved c payloads" "storage_compact c"
  shows "\<exists>c'. load_tree G (chunk_root c (base_tree c)) (ChunkX c) (ChunkZ c) = Inr (Some c') \<and>
    chunk_restored c payloads c' \<and> storage_compact c' \<and>
    (\<forall>name. name \<notin> owned_names \<longrightarrow> field (base_tree c') name = field (base_tree c) name)"
proof -
  let ?root = "chunk_root c (base_tree c)"
  from sections_tag_back [of "tag_list (field (base_tree c) ''sections'')" "Sections c"] assms obtain us ss' where
      s: "sections_tag (Sections c) (tag_list (field (base_tree c) ''sections'')) = TagList 10 us"
      "decode_sections us (replicate SectionCount None) = Inr ss'" "length ss' = SectionCount"
      "\<forall>i < SectionCount. restored (Sections c ! i) (ss' ! i)"
    by (auto simp: chunk_saved_def storage_compact_def)
  let ?c = "\<lparr>ChunkX = ChunkX c, ChunkZ = ChunkZ c, Sections = ss', SavedEntities = decodeBlockEntities G (blockEntitiesTag (SavedEntities c)),
      StorageData = Some (compactStorageData ?root)\<rparr>"
  have l: "load_tree G ?root (ChunkX c) (ChunkZ c) = Inr (Some ?c)"
    using s(1,2) by (simp add: load_tree_def chunkFromNBT_def chunk_root_fields Let_def)
  have e: "decodeBlockEntities G (blockEntitiesTag (SavedEntities c)) =
      map2 (\<lambda>e p. e\<lparr>EntityData := 10 # writeCompoundPayload (kept_payload e p)\<rparr>) (SavedEntities c) payloads"
    using assms(1) by (intro entities_back) (simp add: chunk_saved_def)
  have "chunk_restored c payloads ?c" using s(3,4) e by (simp add: chunk_restored_def)
  moreover have "storage_compact ?c" by (simp add: storage_compact_def base_tree_def compact_storage)
  moreover have "field (base_tree ?c) name = field (base_tree c) name" if "name \<notin> owned_names" for name
    using that chunk_root_fields(5) [OF that] by (simp add: base_tree_def compactStorageData_def field_set field_del owned_names_def Let_def)
  ultimately show ?thesis using l by blast
qed

text \<open>C30: a chunk written over any tree it was loaded from, or fresh, is loaded with the same block state at every position,
  the same biome in every cell and the same block entities, can be saved again, and keeps the other entries of the tree.\<close>

theorem chunk_tree_roundtrip:
  assumes "chunk_saved c payloads" "storage_compact c"
  shows "\<exists>c'. load_tree G (chunk_root c (base_tree c)) (ChunkX c) (ChunkZ c) = Inr (Some c') \<and>
    chunk_restored c payloads c' \<and> storage_compact c' \<and>
    (\<forall>name. name \<notin> owned_names \<longrightarrow> field (base_tree c') name = field (base_tree c) name)"
  by (rule tree_back [OF assms])

section \<open>Height maps\<close>

lemma top_less: "top_in_section s x z n = Some y \<Longrightarrow> y < n"
  by (induction n) (auto split: if_splits)

lemma highest_from_bounds: "WorldMinY - 1 \<le> highest_from c x z i \<and> highest_from c x z i \<le> WorldMinY + 16 * int i - 1"
proof (induction i)
  case (Suc i)
  then show ?case
    by (auto simp: SectionMinY_def SectionSize_def dest!: top_less split: option.split)
qed simp

lemma column_height_bounds: "0 \<le> column_height c i \<and> column_height c i \<le> 384"
  using highest_from_bounds [of c "i mod 16" "nat (int (i div 16))" SectionCount]
  by (auto simp: column_height_def HighestBlockY_def SectionCount_def)

text \<open>The height maps hold the heights of all 256 columns, which fit their nine bits.\<close>

theorem heightmap_back:
  "map (packed_at 9 (packChunkHeightmap c)) [0..<256] = map (\<lambda>i. nat (column_height c i)) [0..<256] \<and> length (packChunkHeightmap c) = 37"
proof -
  let ?vals = "map (\<lambda>i. word_of_int (column_height c i) :: i64) [0..<256]"
  have u: "unat (word_of_int (column_height c i) :: i64) = nat (column_height c i)" "nat (column_height c i) < 512" for i
  proof -
    show "nat (column_height c i) < 512" using column_height_bounds [of c i] by linarith
    show "unat (word_of_int (column_height c i) :: i64) = nat (column_height c i)"
      using column_height_bounds [of c i] by (simp add: unsigned_of_int take_bit_int_eq_self)
  qed
  have fit: "take_bit 9 (word_of_int (column_height c i) :: i64) = word_of_int (column_height c i)" for i
    using u [of i] by (simp add: word_unat_eq_iff unsigned_take_bit_eq take_bit_nat_eq_self)
  have "packed_at 9 (pack_longs 9 ?vals) i = nat (column_height c i)" if "i < 256" for i
    using packed_back(1) [of 9 ?vals i] fit u that by simp
  moreover have "length (pack_longs 9 ?vals) = 37" unfolding pack_length by (simp add: entries_per_long_def)
  ultimately show ?thesis by (simp add: packChunkHeightmap_def)
qed

definition demo_chunk :: anvil_chunk where
  "demo_chunk = \<lparr>ChunkX = 2, ChunkZ = -3, Sections = (replicate SectionCount None)[3 := Some NewSection],
     SavedEntities = [chest_entity], StorageData = None\<rparr>"

lemma new_section_saved: "section_saved NewSection"
  using NewSection_ok NewSection_biomes Air_wf by (simp add: section_saved_def) (simp add: NewSection_def plains_def)

lemma demo_saved: "chunk_saved demo_chunk [[]]" "storage_compact demo_chunk"
proof -
  have "section_saved s" if "Some s \<in> set (Sections demo_chunk)" for s
    using that new_section_saved set_update_subset_insert [of "replicate SectionCount None" 3 "Some NewSection"]
    by (auto simp: demo_chunk_def)
  then show "chunk_saved demo_chunk [[]]" using chest_saved_whole by (simp add: chunk_saved_def) (simp add: demo_chunk_def)
  show "storage_compact demo_chunk" by (simp add: storage_compact_def base_tree_def demo_chunk_def tag_list_def compact_sections_def)
qed

theorem chunk_tree_roundtrip_witness:
  "\<exists>c'. load_tree empty_env (chunk_root demo_chunk []) 2 (-3) = Inr (Some c') \<and>
    map Items (SavedEntities c') = map Items (SavedEntities demo_chunk) \<and> Sections c' ! 3 \<noteq> None \<and> Sections c' ! 4 = None"
proof -
  from chunk_tree_roundtrip [OF demo_saved, of empty_env] obtain c' where
      c: "load_tree empty_env (chunk_root demo_chunk []) 2 (-3) = Inr (Some c')" "chunk_restored demo_chunk [[]] c'"
    by (auto simp: demo_chunk_def base_tree_def)
  have "restored (Sections demo_chunk ! 3) (Sections c' ! 3)" "restored (Sections demo_chunk ! 4) (Sections c' ! 4)"
    using c(2) by (simp_all add: chunk_restored_def SectionCount_def)
  moreover have "Sections demo_chunk ! 3 = Some NewSection" "Sections demo_chunk ! 4 = None"
    by (simp_all add: demo_chunk_def SectionCount_def)
  ultimately have "Sections c' ! 3 \<noteq> None" "Sections c' ! 4 = None" by (auto simp: restored_def split: option.splits)
  then show ?thesis using c by (auto simp: chunk_restored_def demo_chunk_def)
qed

section \<open>The tree fits the format\<close>

definition block_fits :: "block \<Rightarrow> bool" where
  "block_fits b \<longleftrightarrow> length (ResourceLocation b) < 65536 \<and> (\<forall>p \<in> set (Properties b). length (fst p) < 65536 \<and> length (snd p) < 65536)"

definition section_fits :: "section_data \<Rightarrow> bool" where
  "section_fits s \<longleftrightarrow> (\<forall>b \<in> set (blockPalette s). block_fits b) \<and> (\<forall>b \<in> set (biomePalette s). length b < 65536) \<and>
     length (blockPalette s) < 2 ^ 16 \<and> length (biomePalette s) < 2 ^ 16 \<and> length (blockData s) = 4096 \<and> length (biomeData s) = 64"

definition chunk_fits :: "anvil_chunk \<Rightarrow> bool" where
  "chunk_fits c \<longleftrightarrow> length (Sections c) = SectionCount \<and> (\<forall>s. Some s \<in> set (Sections c) \<longrightarrow> section_fits s) \<and>
     (\<forall>e \<in> set (SavedEntities c). entity_fits e) \<and> length (SavedEntities c) < 2 ^ 31 \<and> compound_wf (base_tree c)"

lemma palette_entry_wf:
  assumes "block_fits b"
  shows "tag_type (palette_entry_tag b) = 10 \<and> tag_wf (palette_entry_tag b)"
proof -
  have "\<forall>(n, t) \<in> set (map (\<lambda>(k, v). (k, text_tag v)) (Properties b)). length n < 65536 \<and> tag_wf t"
    using assms unfolding block_fits_def by fastforce
  then have "compound_wf (compound_of (map (\<lambda>(k, v). (k, text_tag v)) (Properties b)))" by (rule compound_of_wf)
  then show ?thesis
    using assms unfolding palette_entry_tag_def compound_wf_tag
    by (auto simp: block_fits_def compound_wf_tag simp del: tag_wf.simps(4) intro!: compound_of_wf)
qed

lemma pack_bound:
  assumes "length vals \<le> 4096"
  shows "length (pack_longs bits vals) \<le> 2 * 4096"
proof -
  let ?per = "entries_per_long bits"
  have "(4096 + ?per - 1) div ?per \<le> 2 * 4096"
  proof (cases "?per = 0")
    case False
    have "(4096 + ?per - 1) div ?per \<le> 4096 + ?per - 1" by (rule div_le_dividend)
    moreover have "?per \<le> 64" by (simp add: entries_per_long_def)
    ultimately show ?thesis by linarith
  qed simp
  moreover have "(length vals + ?per - 1) div ?per \<le> (4096 + ?per - 1) div ?per" using assms by (intro div_le_mono) simp
  ultimately show ?thesis unfolding pack_length by linarith
qed

lemma container_wf:
  fixes data :: "16 word list"
  assumes "\<forall>t \<in> set palette. tag_type t = elem \<and> tag_wf t" "length palette < 2 ^ 16" "length data \<le> 4096"
  shows "tag_type (container_tag least elem palette data) = 10 \<and> tag_wf (container_tag least elem palette data)"
proof -
  have "tag_wf (TagLongArr (pack_longs bits (map ucast data)))" for bits
    using pack_bound [of "map ucast data" bits] assms(3) by simp
  moreover have "tag_wf (TagList elem palette)" using assms(1,2) by (simp add: elems_wf_iff)
  ultimately have "compound_wf (compound_of ((''palette'', TagList elem palette) #
      (if length palette > 1 then [(''data'', TagLongArr (pack_longs (palette_bits least (length palette)) (map ucast data)))] else [])))"
    by (intro compound_of_wf) auto
  then show ?thesis unfolding container_tag_def compound_wf_tag by simp
qed

lemma section_tag_wf:
  assumes "section_fits s" "compound_wf e"
  shows "compound_wf (section_tag i s e)"
proof -
  have "tag_wf (blockStatesTag s)"
    using assms(1) palette_entry_wf container_wf [of "map palette_entry_tag (blockPalette s)" 10 "blockData s" 4]
    by (simp add: blockStatesTag_def section_fits_def)
  moreover have "tag_wf (biomesTag s)"
    using assms(1) container_wf [of "map text_tag (BiomePalette (Some s))" 8 "biomeData s" 1]
    by (auto simp: biomesTag_def section_fits_def BiomePalette_def plains_def split: if_splits)
  ultimately show ?thesis using assms(2) unfolding section_tag_def by (intro set_field_wf) simp_all
qed

definition table_wf :: "(byte \<times> tag) list \<Rightarrow> bool" where
  "table_wf M \<longleftrightarrow> (\<forall>(y, t) \<in> set M. tag_type t = 10 \<and> tag_wf t) \<and> distinct (map fst M)"

lemma table_update: "table_wf M \<Longrightarrow> tag_type t = 10 \<Longrightarrow> tag_wf t \<Longrightarrow> table_wf (AList.update y t M)"
proof -
  assume a: "table_wf M" "tag_type t = 10" "tag_wf t"
  have "set (AList.update y t M) \<subseteq> insert (y, t) (set M)" by (induction M) auto
  then show ?thesis using a by (auto simp: table_wf_def distinct_update)
qed

lemma base_table_wf:
  assumes "\<forall>t \<in> set ts. tag_type t = 10 \<longrightarrow> tag_wf t"
  shows "table_wf (base_sections ts)"
proof -
  have "table_wf M \<Longrightarrow> \<forall>t \<in> set ts. tag_type t = 10 \<longrightarrow> tag_wf t \<Longrightarrow>
      table_wf (foldl (\<lambda>byY t. if tag_type t = 10 then AList.update (tag_byte (tag_get t ''Y'')) t byY else byY) M ts)" for M
    by (induction ts arbitrary: M) (auto simp: table_update)
  from this [of "[]"] show ?thesis using assms by (simp add: base_sections_def table_wf_def [of "[]"])
qed

lemma put_section_wf:
  assumes "table_wf M" "\<And>s. so = Some s \<Longrightarrow> section_fits s"
  shows "table_wf (put_section M (i, so))"
proof (cases so)
  case (Some s)
  have "compound_wf (case map_of M (section_byte i) of Some (TagCompound es) \<Rightarrow> es | _ \<Rightarrow> [])"
  proof (cases "map_of M (section_byte i)")
    case (Some t)
    then have "tag_wf t" using assms(1) map_of_SomeD [OF Some] by (auto simp: table_wf_def)
    then show ?thesis using compound_Nil_wf by (auto simp: Some compound_wf_def split: tag.split)
  qed (simp add: compound_Nil_wf)
  from section_tag_wf [OF assms(2) [OF Some] this] show ?thesis
    using assms(1) by (simp add: put_section_def Some table_update compound_wf_tag del: tag_wf.simps(4))
qed (simp add: put_section_def assms(1))

lemma table_bound: "table_wf M \<Longrightarrow> length M \<le> 256"
proof -
  assume "table_wf M"
  then have "length M = card (set (map fst M))" using distinct_card [of "map fst M"] by (simp add: table_wf_def)
  also have "\<dots> \<le> card (UNIV :: byte set)" by (rule card_mono) simp_all
  finally show ?thesis by (simp add: card_word)
qed

lemma sections_tag_wf:
  assumes "\<forall>t \<in> set ts. tag_type t = 10 \<longrightarrow> tag_wf t" "\<forall>s. Some s \<in> set ss \<longrightarrow> section_fits s"
  shows "tag_wf (sections_tag ss ts)"
proof -
  let ?M = "foldl put_section (base_sections ts) (enumerate 0 ss)"
  have step: "table_wf M \<Longrightarrow> \<forall>(i, so) \<in> set us. \<forall>s. so = Some s \<longrightarrow> section_fits s \<Longrightarrow> table_wf (foldl put_section M us)" for M us
    by (induction us arbitrary: M) (auto simp: put_section_wf)
  have "\<forall>(i, so) \<in> set (enumerate 0 ss). \<forall>s. so = Some s \<longrightarrow> section_fits s"
    using assms(2) by (auto simp: in_set_enumerate_eq) (metis nth_mem)
  then have M: "table_wf ?M" by (rule step [OF base_table_wf [OF assms(1)]])
  have "tag_type t = 10 \<and> tag_wf t" if t: "t \<in> set (map (\<lambda>y. case map_of ?M (word_of_int y) of Some t \<Rightarrow> t | None \<Rightarrow> TagEnd) (sort (map (\<lambda>(y, t). sint y) ?M)))" for t
  proof -
    obtain y u where y: "(y, u) \<in> set ?M" "t = (case map_of ?M y of Some t \<Rightarrow> t | None \<Rightarrow> TagEnd)"
      using t by auto
    then obtain v where v: "map_of ?M y = Some v" using map_of_eq_None_iff [of ?M y] by (cases "map_of ?M y") force+
    then show ?thesis using map_of_SomeD [OF v] M y(2) by (auto simp: table_wf_def)
  qed
  moreover have "length (sort (map (\<lambda>(y, t). sint y) ?M)) < 2 ^ 31" using table_bound [OF M] by simp
  ultimately show ?thesis unfolding sections_tag_def Let_def tag_wf.simps elems_wf_iff length_map by blast
qed

lemma heightmaps_wf:
  assumes "tag_type base = 10 \<longrightarrow> tag_wf base"
  shows "tag_wf (heightmaps_tag c base)"
proof -
  have "compound_wf (case base of TagCompound es \<Rightarrow> es | _ \<Rightarrow> [])"
    using assms compound_Nil_wf by (cases base) (simp_all add: compound_wf_def)
  moreover have "length (packChunkHeightmap c) = 37" unfolding packChunkHeightmap_def pack_length by (simp add: entries_per_long_def)
  ultimately show ?thesis unfolding heightmaps_tag_def compound_wf_tag by (intro set_field_wf) simp_all
qed

lemma field_wf: "compound_wf es \<Longrightarrow> field es name \<noteq> TagEnd \<Longrightarrow> tag_wf (field es name)"
  by (auto simp: field_def compound_wf_def entries_wf_iff split: option.splits dest!: map_of_SomeD)

lemma chunk_root_wf:
  assumes "chunk_fits c"
  shows "compound_wf (chunk_root c (base_tree c))"
proof -
  let ?base = "base_tree c"
  have b: "compound_wf ?base" using assms by (simp add: chunk_fits_def)
  have "\<forall>t \<in> set (tag_list (field ?base ''sections'')). tag_type t = 10 \<longrightarrow> tag_wf t"
  proof (cases "field ?base ''sections''")
    case (TagList elem ts)
    then have "tag_wf (TagList elem ts)" using field_wf [OF b, of "''sections''"] by simp
    then show ?thesis by (simp add: TagList tag_list_def elems_wf_iff)
  qed (simp_all add: tag_list_def)
  then have s: "tag_wf (sections_tag (Sections c) (tag_list (field ?base ''sections'')))"
    using assms by (intro sections_tag_wf) (simp_all add: chunk_fits_def)
  have h: "tag_wf (heightmaps_tag (chunk.truncate c) (field ?base ''Heightmaps''))"
    using field_wf [OF b, of "''Heightmaps''"] by (cases "field ?base ''Heightmaps'' = TagEnd") (auto intro!: heightmaps_wf)
  have e: "tag_wf (blockEntitiesTag (SavedEntities c))" using assms by (intro entities_tag_wf) (simp_all add: chunk_fits_def)
  have r: "field (foldl (\<lambda>es (name, t). set_field name t es) ?base
      [(''DataVersion'', TagInt dataVersion), (''xPos'', TagInt (ChunkX c)), (''yPos'', TagInt (word_of_int sectionYBase)),
       (''zPos'', TagInt (ChunkZ c)), (''Status'', text_tag ''minecraft:full'')]) name = field ?base name"
    if "name = ''sections'' \<or> name = ''Heightmaps''" for name
    using that by (auto simp: field_set)
  show ?thesis
    unfolding chunk_root_def Let_def field_set r [OF disjI1 [OF refl]]
    using b s h e by (auto simp: r field_set intro!: set_field_wf)
qed

section \<open>The chunk written as a stream\<close>

text \<open>A chunk without a tree to merge into is written tag by tag, in an order of its own.\<close>

definition writeCompoundOpen :: "string \<Rightarrow> byte list" where
  "writeCompoundOpen name = writeNamedHeader 10 (bytes_of name)"

definition writeCompoundEnd :: "byte list" where
  "writeCompoundEnd = [0]"

definition encodePaletteEntry :: "block \<Rightarrow> byte list" where
  "encodePaletteEntry b =
     writeTagString (bytes_of ''Name'') (bytes_of (ResourceLocation b)) @
     (if Properties b \<noteq> []
      then writeCompoundOpen ''Properties'' @
           concat (map (\<lambda>(k, v). writeTagString (bytes_of k) (bytes_of v)) (sort_key fst (Properties b))) @ writeCompoundEnd
      else []) @ writeCompoundEnd"

definition encodeBlockStates :: "section_data \<Rightarrow> byte list" where
  "encodeBlockStates s =
     (let palette = blockPalette s
      in writeListHeader (bytes_of ''palette'') 10 (length palette) @ concat (map encodePaletteEntry palette) @
         (if length palette \<le> 1 then []
          else writeTagLongArray (bytes_of ''data'') (pack_longs (palette_bits 4 (length palette)) (map ucast (blockData s)))))"

definition writeBiomes :: "section_data \<Rightarrow> byte list" where
  "writeBiomes s =
     (let palette = BiomePalette (Some s)
      in writeListHeader (bytes_of ''palette'') 8 (length palette) @ concat (map (\<lambda>b. writeMUTF8 (bytes_of b)) palette) @
         (if length palette \<le> 1 then []
          else writeTagLongArray (bytes_of ''data'') (pack_longs (palette_bits 1 (length palette)) (map ucast (biomeData s)))))"

definition encodeSectionPayload :: "nat \<times> section_data \<Rightarrow> byte list" where
  "encodeSectionPayload = (\<lambda>(i, s).
     writeTagByte (bytes_of ''Y'') (section_byte i) @
     writeCompoundOpen ''block_states'' @ encodeBlockStates s @ writeCompoundEnd @
     writeCompoundOpen ''biomes'' @ writeBiomes s @ writeCompoundEnd @ writeCompoundEnd)"

definition non_nil :: "section_data option list \<Rightarrow> (nat \<times> section_data) list" where
  "non_nil ss = List.map_filter (\<lambda>(i, so). map_option (Pair i) so) (enumerate 0 ss)"

definition encodeChunkNBT :: "anvil_chunk \<Rightarrow> byte list" where
  "encodeChunkNBT c =
     (let packed = packChunkHeightmap (chunk.truncate c)
      in 10 # writeMUTF8 [] @
         writeTagInt (bytes_of ''DataVersion'') dataVersion @
         writeTagInt (bytes_of ''xPos'') (ChunkX c) @
         writeTagInt (bytes_of ''yPos'') (word_of_int sectionYBase) @
         writeTagInt (bytes_of ''zPos'') (ChunkZ c) @
         writeTagString (bytes_of ''Status'') (bytes_of ''minecraft:full'') @
         writeListHeader (bytes_of ''sections'') 10 (length (non_nil (Sections c))) @
         concat (map encodeSectionPayload (non_nil (Sections c))) @
         writeCompoundOpen ''Heightmaps'' @
         writeTagLongArray (bytes_of ''MOTION_BLOCKING'') packed @ writeTagLongArray (bytes_of ''WORLD_SURFACE'') packed @
         writeCompoundEnd @
         writeNamedHeader 9 (bytes_of ''block_entities'') @ writePayload (blockEntitiesTag (SavedEntities c)) @
         writeCompoundEnd)"

text \<open>The tree these bytes spell, with the entries in the order of the writes.\<close>

definition named :: "(string \<times> tag) list \<Rightarrow> compound" where
  "named kvs = map (\<lambda>(n, t). (bytes_of n, t)) kvs"

definition fresh_entry :: "block \<Rightarrow> tag" where
  "fresh_entry b =
     TagCompound (named ((''Name'', text_tag (ResourceLocation b)) #
       (if Properties b \<noteq> []
        then [(''Properties'', TagCompound (named (map (\<lambda>(k, v). (k, text_tag v)) (sort_key fst (Properties b)))))] else [])))"

definition fresh_container :: "nat \<Rightarrow> byte \<Rightarrow> tag list \<Rightarrow> 16 word list \<Rightarrow> tag" where
  "fresh_container least elem palette data =
     TagCompound (named ((''palette'', TagList elem palette) #
       (if length palette \<le> 1 then []
        else [(''data'', TagLongArr (pack_longs (palette_bits least (length palette)) (map ucast data)))])))"

definition fresh_section :: "nat \<times> section_data \<Rightarrow> tag" where
  "fresh_section = (\<lambda>(i, s). TagCompound (named
     [(''Y'', TagByte (section_byte i)),
      (''block_states'', fresh_container 4 10 (map fresh_entry (blockPalette s)) (blockData s)),
      (''biomes'', fresh_container 1 8 (map text_tag (BiomePalette (Some s))) (biomeData s))]))"

definition fresh_root :: "anvil_chunk \<Rightarrow> compound" where
  "fresh_root c = named
     [(''DataVersion'', TagInt dataVersion), (''xPos'', TagInt (ChunkX c)), (''yPos'', TagInt (word_of_int sectionYBase)),
      (''zPos'', TagInt (ChunkZ c)), (''Status'', text_tag ''minecraft:full''),
      (''sections'', TagList 10 (map fresh_section (non_nil (Sections c)))),
      (''Heightmaps'', TagCompound (named
         [(''MOTION_BLOCKING'', TagLongArr (packChunkHeightmap (chunk.truncate c))),
          (''WORLD_SURFACE'', TagLongArr (packChunkHeightmap (chunk.truncate c)))])),
      (''block_entities'', blockEntitiesTag (SavedEntities c))]"

lemma named_simps [simp]: "named [] = []" "named ((n, t) # kvs) = (bytes_of n, t) # named kvs"
  by (simp_all add: named_def)

lemma write_texts:
  "writeCompoundPayload (named (map (\<lambda>(k, v). (k, text_tag v)) kvs)) =
    concat (map (\<lambda>(k, v). writeTagString (bytes_of k) (bytes_of v)) kvs) @ [0]"
  by (induction kvs) (auto simp: writeTagString_def text_tag_def)

lemma write_elems_concat: "write_elems ts = concat (map writePayload ts)"
  by (induction ts) simp_all

lemma write_entry: "writePayload (fresh_entry b) = encodePaletteEntry b"
  by (simp add: fresh_entry_def encodePaletteEntry_def write_texts [unfolded text_tag_def writeTagString_def] writeTagString_def writeCompoundOpen_def writeCompoundEnd_def text_tag_def)

lemma write_container:
  "writePayload (fresh_container least elem palette data) =
    writeListHeader (bytes_of ''palette'') elem (length palette) @ concat (map writePayload palette) @
    (if length palette \<le> 1 then []
     else writeTagLongArray (bytes_of ''data'') (pack_longs (palette_bits least (length palette)) (map ucast data))) @ [0]"
  by (simp add: fresh_container_def writeListHeader_def writeTagLongArray_def write_elems_concat)

lemma write_section: "writePayload (fresh_section p) = encodeSectionPayload p"
proof (cases p)
  case (Pair i s)
  have "concat (map writePayload (map fresh_entry bs)) = concat (map encodePaletteEntry bs)" for bs
    by (simp add: comp_def write_entry)
  moreover have "concat (map writePayload (map text_tag bs)) = concat (map (\<lambda>b. writeMUTF8 (bytes_of b)) bs)" for bs
    by (simp add: comp_def text_tag_def)
  moreover have "tag_type (fresh_container least elem pal data) = 10" for least elem pal data by (simp add: fresh_container_def)
  ultimately show ?thesis
    by (simp add: Pair fresh_section_def encodeSectionPayload_def write_container encodeBlockStates_def writeBiomes_def Let_def
        writeTagByte_def writeCompoundOpen_def writeCompoundEnd_def)
qed

lemma stream_spells_tree: "encodeChunkNBT c = WriteRootCompound (fresh_root c)"
proof -
  have "concat (map writePayload (map fresh_section ps)) = concat (map encodeSectionPayload ps)" for ps
    by (simp add: comp_def write_section)
  moreover have "tag_type (blockEntitiesTag es) = 9" for es by (simp add: blockEntitiesTag_def)
  ultimately show ?thesis
    by (simp add: encodeChunkNBT_def WriteRootCompound_def fresh_root_def Let_def writeTagInt_def writeTagString_def writeListHeader_def
        writeTagLongArray_def write_elems_concat writeCompoundOpen_def writeCompoundEnd_def text_tag_def)
qed

section \<open>Both writers give the same tree\<close>

lemma canonical_named:
  "canonical_into es (named kvs) = foldl (\<lambda>es (n, t). set_field n t es) es (map (\<lambda>(n, t). (n, canonical t)) kvs)"
  by (induction kvs arbitrary: es) (auto simp: set_field_def)

lemma canonical_compound: "canonical (TagCompound (named kvs)) = TagCompound (compound_of (map (\<lambda>(n, t). (n, canonical t)) kvs))"
  by (simp add: canonical_named compound_of_def)

lemma canonical_list_map: "canonical_list ts = map canonical ts"
  by (induction ts) simp_all

lemma canonical_text [simp]: "canonical (text_tag s) = text_tag s"
  by (simp add: text_tag_def)

lemma sorted_entries_eq:
  assumes "sorted_wrt (<) (map fst xs)" "sorted_wrt (<) (map fst ys)" "set xs = set ys"
  shows "xs = (ys :: compound)"
proof -
  have d: "distinct (map fst xs)" "distinct (map fst ys)" using assms(1,2) by (simp_all add: strict_sorted_iff)
  have s: "sorted (map fst xs)" "sorted (map fst ys)" using assms(1,2) by (simp_all add: strict_sorted_iff)
  have "inj_on fst (set xs)" using d(1) by (simp add: distinct_map)
  then show ?thesis
    by (intro map_sorted_distinct_set_unique [where f = fst]) (use s d assms(3) in simp_all)
qed

lemma compound_of_perm:
  assumes "distinct (map fst kvs)" "mset kvs = mset kvs'"
  shows "compound_of kvs = compound_of kvs'"
proof -
  have d: "distinct (map fst kvs')" using assms by (metis mset_eq_imp_distinct_iff mset_map)
  have "mset (compound_of kvs) = mset (compound_of kvs')"
    using assms(2) by (simp add: mset_compound [OF assms(1)] mset_compound [OF d])
  then have "set (compound_of kvs) = set (compound_of kvs')" by (rule mset_eq_setD)
  then show ?thesis by (intro sorted_entries_eq) (simp_all add: compound_of_def fields_sorted)
qed

lemma canonical_entry:
  assumes "distinct (map fst (Properties b))"
  shows "canonical (fresh_entry b) = palette_entry_tag b"
proof -
  let ?f = "\<lambda>(k, v). (k, text_tag v)"
  let ?props = "TagCompound (named (map ?f (sort_key fst (Properties b))))"
  have d: "distinct (map fst (map ?f (Properties b)))" using assms by (simp add: comp_def case_prod_beta)
  have "mset (map ?f (sort_key fst (Properties b))) = mset (map ?f (Properties b))" by simp
  then have p: "compound_of (map ?f (sort_key fst (Properties b))) = compound_of (map ?f (Properties b))"
    by (rule compound_of_perm [OF d, symmetric, OF sym])
  have c: "canonical ?props = TagCompound (compound_of (map ?f (Properties b)))"
    unfolding canonical_compound p [symmetric] by (auto intro!: arg_cong [where f = compound_of])
  show ?thesis
  proof (cases "Properties b = []")
    case False
    have "map (\<lambda>(n, t). (n, canonical t)) [(''Name'', text_tag (ResourceLocation b)), (''Properties'', ?props)] =
        [(''Name'', text_tag (ResourceLocation b)), (''Properties'', TagCompound (compound_of (map ?f (Properties b))))]"
      by (simp only: list.map case_prod_conv canonical_text c)
    then show ?thesis using False unfolding fresh_entry_def canonical_compound palette_entry_tag_def by (simp only: if_True simp_thms)
  qed (simp add: fresh_entry_def palette_entry_tag_def canonical_named compound_of_def set_field_def)
qed

lemma canonical_container:
  "canonical (fresh_container least elem palette data) =
    TagCompound (compound_of ((''palette'', TagList elem (map canonical palette)) #
      (if length palette > 1 then [(''data'', TagLongArr (pack_longs (palette_bits least (length palette)) (map ucast data)))] else [])))"
  unfolding fresh_container_def canonical_compound by (simp add: canonical_list_map not_le)

lemma canonical_section:
  assumes "\<forall>b \<in> set (blockPalette s). distinct (map fst (Properties b))"
  shows "canonical (fresh_section (i, s)) = TagCompound (section_tag i s [])"
proof -
  have "map canonical (map fresh_entry (blockPalette s)) = map palette_entry_tag (blockPalette s)"
    using assms canonical_entry by simp
  moreover have "map canonical (map text_tag bs) = map text_tag bs" for bs by simp
  ultimately show ?thesis
    unfolding fresh_section_def case_prod_conv canonical_compound
    by (simp add: canonical_container section_tag_def compound_of_def blockStatesTag_def biomesTag_def container_tag_def del: map_map)
qed

lemma put_section_new:
  assumes "section_byte i \<notin> fst ` set M"
  shows "put_section M (i, so) = M @ (case so of None \<Rightarrow> [] | Some s \<Rightarrow> [(section_byte i, TagCompound (section_tag i s []))])"
proof -
  have "map_of M (section_byte i) = None" using assms by (simp add: map_of_eq_None_iff)
  moreover have "AList.update k v M = M @ [(k, v)]" if "k \<notin> fst ` set M" for k :: byte and v :: tag
    using that by (induction M) auto
  ultimately show ?thesis using assms by (simp add: put_section_def split: option.split)
qed

lemma fresh_table:
  assumes "n \<le> length ss" "length ss = SectionCount"
  shows "foldl put_section [] (enumerate 0 (take n ss)) =
    map (\<lambda>(i, s). (section_byte i, TagCompound (section_tag i s []))) (non_nil (take n ss)) \<and>
    (\<forall>(i, s) \<in> set (non_nil (take n ss)). i < n) \<and> sorted_wrt (<) (map fst (non_nil (take n ss)))"
  using assms(1)
proof (induction n)
  case (Suc n)
  then have n: "n < length ss" "n < SectionCount" using assms(2) by simp_all
  let ?f = "\<lambda>(i, s). (section_byte i, TagCompound (section_tag i s []))"
  have tk: "take (Suc n) ss = take n ss @ [ss ! n]" using n by (simp add: take_Suc_conv_app_nth)
  have nn: "non_nil (take (Suc n) ss) = non_nil (take n ss) @ (case ss ! n of None \<Rightarrow> [] | Some s \<Rightarrow> [(n, s)])"
    using n by (simp add: non_nil_def tk enumerate_append_eq List.map_filter_def split: option.split)
  have IH: "foldl put_section [] (enumerate 0 (take n ss)) = map ?f (non_nil (take n ss))"
      "\<forall>(i, s) \<in> set (non_nil (take n ss)). i < n" "sorted_wrt (<) (map fst (non_nil (take n ss)))"
    using Suc by simp_all
  have "section_byte n \<notin> fst ` set (map ?f (non_nil (take n ss)))"
    using IH(2) n(2) section_byte_inj by (fastforce simp: image_iff)
  then have "foldl put_section [] (enumerate 0 (take (Suc n) ss)) =
      map ?f (non_nil (take n ss)) @ (case ss ! n of None \<Rightarrow> [] | Some s \<Rightarrow> [(section_byte n, TagCompound (section_tag n s []))])"
    using n by (simp add: tk enumerate_append_eq IH(1) put_section_new)
  then show ?case
    using IH(2,3) unfolding nn by (auto simp: sorted_wrt_append split: option.split)
qed (simp add: non_nil_def List.map_filter_simps)

lemma fresh_sections:
  assumes "length ss = SectionCount"
  shows "sections_tag ss [] = TagList 10 (map (\<lambda>(i, s). TagCompound (section_tag i s [])) (non_nil ss))"
proof -
  let ?M = "foldl put_section [] (enumerate 0 ss)"
  let ?f = "\<lambda>(i, s). (section_byte i, TagCompound (section_tag i s []))"
  have M: "?M = map ?f (non_nil ss)" and lt: "\<forall>(i, s) \<in> set (non_nil ss). i < SectionCount"
      and so: "sorted_wrt (<) (map fst (non_nil ss))"
    using fresh_table [of "length ss" ss] assms by simp_all
  have ys: "map (\<lambda>(y, t). sint y) ?M = map (\<lambda>i. int i + sectionYBase) (map fst (non_nil ss))"
    unfolding M map_map using lt section_byte_back by (intro map_cong) auto
  have "sorted (map (\<lambda>i. int i + sectionYBase) (map fst (non_nil ss)))"
    using so by (simp add: sorted_wrt_map) (rule sorted_wrt_mono_rel [of _ "\<lambda>x y. fst x < fst y"], auto)
  then have sort: "sort (map (\<lambda>(y, t). sint y) ?M) = map (\<lambda>(y, t). sint y) ?M" unfolding ys by (rule sort_key_id_if_sorted [of id, unfolded id_def list.map_ident])
  have d: "distinct (map fst ?M)"
  proof -
    have "inj_on section_byte (set (map fst (non_nil ss)))" using lt section_byte_inj by (auto simp: inj_on_def) blast
    moreover have "distinct (map fst (non_nil ss))" using so by (simp add: strict_sorted_iff)
    moreover have "map fst ?M = map section_byte (map fst (non_nil ss))" unfolding M by auto
    ultimately show ?thesis by (simp only: distinct_map)
  qed
  have "map (\<lambda>y. case map_of ?M (word_of_int y) of Some t \<Rightarrow> t | None \<Rightarrow> TagEnd) (map (\<lambda>(y, t). sint y) ?M) = map snd ?M"
    unfolding map_map by (rule map_cong [OF refl]) (use map_of_is_SomeI [OF d] in auto)
  also have "\<dots> = map (\<lambda>(i, s). TagCompound (section_tag i s [])) (non_nil ss)" unfolding M by auto
  finally show ?thesis by (simp add: sections_tag_def base_sections_def sort)
qed

lemma wf_fixed: "tag_wf t \<Longrightarrow> canonical t = t"
  using wf_canonical(1) by blast

lemma fresh_canonical:
  assumes "chunk_fits c" "\<forall>s. Some s \<in> set (Sections c) \<longrightarrow> (\<forall>b \<in> set (blockPalette s). distinct (map fst (Properties b)))"
  shows "canonical_into [] (fresh_root c) = chunk_root c []"
proof -
  have nn: "Some s \<in> set (Sections c)" if "(i, s) \<in> set (non_nil (Sections c))" for i s
    using that by (auto simp: non_nil_def map_filter_set in_set_enumerate_eq) (metis nth_mem)
  have "map canonical (map fresh_section (non_nil (Sections c))) = map (\<lambda>(i, s). TagCompound (section_tag i s [])) (non_nil (Sections c))"
    unfolding map_map by (rule map_cong [OF refl]) (use assms(2) nn canonical_section in force)
  moreover have "length (Sections c) = SectionCount" using assms(1) by (simp add: chunk_fits_def)
  ultimately have s: "canonical (TagList 10 (map fresh_section (non_nil (Sections c)))) = sections_tag (Sections c) []"
    by (simp add: fresh_sections canonical_list_map del: map_map)
  let ?p = "TagLongArr (packChunkHeightmap (chunk.truncate c))"
  have "compound_of [(''MOTION_BLOCKING'', ?p), (''WORLD_SURFACE'', ?p)] = compound_of [(''WORLD_SURFACE'', ?p), (''MOTION_BLOCKING'', ?p)]"
    by (rule compound_of_perm) simp_all
  then have h: "canonical (TagCompound (named [(''MOTION_BLOCKING'', ?p), (''WORLD_SURFACE'', ?p)])) = heightmaps_tag (chunk.truncate c) TagEnd"
    unfolding canonical_compound by (simp add: heightmaps_tag_def compound_of_def)
  have e: "canonical (blockEntitiesTag (SavedEntities c)) = blockEntitiesTag (SavedEntities c)"
    using assms(1) by (intro wf_fixed entities_tag_wf) (simp_all add: chunk_fits_def)
  have "tag_list TagEnd = []" by (simp add: tag_list_def)
  then show ?thesis
    unfolding fresh_root_def canonical_named using s h e
    by (simp add: chunk_root_def field_set Let_def del: named_simps canonical.simps(1,2))
qed

lemma elems_fit_iff: "elems_fit elem ts \<longleftrightarrow> (\<forall>t \<in> set ts. tag_type t = elem \<and> tag_fits t)"
  by (induction ts) auto

lemma named_fits: "(\<forall>(n, t) \<in> set kvs. length n < 65536 \<and> tag_fits t) \<Longrightarrow> entries_fit (named kvs)"
  by (induction kvs) auto

lemma fresh_entry_fits:
  assumes "block_fits b"
  shows "tag_type (fresh_entry b) = 10 \<and> tag_fits (fresh_entry b)"
proof -
  have "\<forall>(n, t) \<in> set (map (\<lambda>(k, v). (k, text_tag v)) (sort_key fst (Properties b))). length n < 65536 \<and> tag_fits t"
    using assms unfolding block_fits_def by (fastforce simp: text_tag_def)
  from named_fits [OF this] show ?thesis using assms by (simp add: fresh_entry_def text_tag_def block_fits_def)
qed

lemma fresh_container_fits:
  fixes data :: "16 word list"
  assumes "\<forall>t \<in> set palette. tag_type t = elem \<and> tag_fits t" "length palette < 2 ^ 16" "length data \<le> 4096"
  shows "tag_fits (fresh_container least elem palette data)"
proof -
  have "length (pack_longs bits (map ucast data)) < 2 ^ 31" for bits using pack_bound [of "map ucast data" bits] assms(3) by simp
  then show ?thesis using assms(1,2) by (simp add: fresh_container_def elems_fit_iff)
qed

lemma fresh_section_fits:
  assumes "section_fits s"
  shows "tag_fits (fresh_section (i, s))"
proof -
  have "tag_fits (fresh_container 4 10 (map fresh_entry (blockPalette s)) (blockData s))"
    using assms fresh_entry_fits by (intro fresh_container_fits) (simp_all add: section_fits_def)
  moreover have "tag_fits (fresh_container 1 8 (map text_tag (BiomePalette (Some s))) (biomeData s))"
    using assms by (intro fresh_container_fits) (auto simp: section_fits_def BiomePalette_def plains_def text_tag_def split: if_splits)
  ultimately show ?thesis by (simp add: fresh_section_def)
qed

lemma fresh_root_fits:
  assumes "chunk_fits c"
  shows "entries_fit (fresh_root c)"
proof -
  have ss: "\<forall>s. Some s \<in> set (Sections c) \<longrightarrow> section_fits s" and l: "length (Sections c) = SectionCount"
    using assms by (simp_all add: chunk_fits_def)
  have nn: "Some s \<in> set (Sections c)" if "(i, s) \<in> set (non_nil (Sections c))" for i s
    using that by (auto simp: non_nil_def map_filter_set in_set_enumerate_eq) (metis nth_mem)
  have "\<forall>t \<in> set (map fresh_section (non_nil (Sections c))). tag_type t = 10 \<and> tag_fits t"
    using ss nn fresh_section_fits by (force simp: fresh_section_def)
  moreover have "length (non_nil (Sections c)) \<le> SectionCount"
    using map_filter_length [of "\<lambda>(i, so). map_option (Pair i) so" "enumerate 0 (Sections c)"] l by (simp add: non_nil_def)
  ultimately have s: "tag_fits (TagList 10 (map fresh_section (non_nil (Sections c))))"
    by (simp add: elems_fit_iff SectionCount_def del: set_map)
  have "length (packChunkHeightmap (chunk.truncate c)) = 37"
    unfolding packChunkHeightmap_def pack_length by (simp add: entries_per_long_def)
  then have h: "tag_fits (TagLongArr (packChunkHeightmap (chunk.truncate c)))" by simp
  have e: "tag_fits (blockEntitiesTag (SavedEntities c))"
    using wf_canonical(1) [OF entities_tag_wf] assms by (simp add: chunk_fits_def)
  show ?thesis using s h e unfolding fresh_root_def by (intro named_fits) (simp add: text_tag_def named_fits)
qed

end
