(* ===== verification/AnvilStorage.thy ===== *)
theory AnvilStorage
  imports Anvil Region
begin

text \<open>
  The world storage on disk (\<open>java/world/anvil/storage.go\<close>, \<open>metadata.go\<close>): chunks saved through their NBT tree
  into the region files and loaded again, and the metadata of a saved world. What the theorems
  of \<open>Anvil\<close> say of trees and those of \<open>Region\<close> of bytes, composed.
\<close>

definition SaveChunk_bytes :: "anvil_chunk \<Rightarrow> byte list" where
  "SaveChunk_bytes c = (case StorageData c of None \<Rightarrow> encodeChunkNBT c | Some base \<Rightarrow> encodeChunkNBTWithBase c base)"

definition Storage_SaveChunk :: "(byte list \<Rightarrow> byte list) \<Rightarrow> anvil_chunk \<Rightarrow> storage \<Rightarrow> storage" where
  "Storage_SaveChunk zlib c s = SaveChunk zlib (ChunkX c, ChunkZ c) (SaveChunk_bytes c) s"

datatype load_error = Reading region_error | Decoding anvil_error

definition LoadChunk :: "codecs \<Rightarrow> world_env \<Rightarrow> storage \<Rightarrow> i32 \<Rightarrow> i32 \<Rightarrow> load_error + anvil_chunk option" where
  "LoadChunk Z G s x z =
     (case loadChunkFromRegion Z s (x, z) of
        Inl err \<Rightarrow> Inl (Reading err)
      | Inr None \<Rightarrow> Inr None
      | Inr (Some root) \<Rightarrow> (case load_tree G root x z of Inl err \<Rightarrow> Inl (Decoding err) | Inr c \<Rightarrow> Inr c))"

text \<open>The fields of \<open>level.dat\<close> that the server reads.\<close>

record level_metadata =
  MetaDataVersion :: i32
  LevelName :: string
  Seed :: i64
  SpawnX :: i32
  SpawnY :: i32
  SpawnZ :: i32
  GameType :: i32
  Hardcore :: bool
  AllowCommands :: bool
  VersionName :: string
  DayTime :: i64
  WorldTime :: i64

datatype metadata_error = BadGzip | BadNbt nbt_error | NoData

definition LoadLevelMetadata :: "codecs \<Rightarrow> byte list \<Rightarrow> metadata_error + level_metadata" where
  "LoadLevelMetadata Z file =
     (case gunzip Z file of
        None \<Rightarrow> Inl BadGzip
      | Some bs \<Rightarrow>
          (case ReadRootCompound bs of
             Inl err \<Rightarrow> Inl (BadNbt err)
           | Inr root \<Rightarrow>
               (let data = field root ''Data''; settings = tag_get data ''WorldGenSettings''; version = tag_get data ''Version''
                in if tag_type data \<noteq> 10 then Inl NoData
                   else Inr \<lparr>MetaDataVersion = tag_int (tag_get data ''DataVersion''), LevelName = tag_str (tag_get data ''LevelName''),
                     Seed = tag_long (tag_get settings ''seed''), SpawnX = tag_int (tag_get data ''SpawnX''),
                     SpawnY = tag_int (tag_get data ''SpawnY''), SpawnZ = tag_int (tag_get data ''SpawnZ''),
                     GameType = tag_int (tag_get data ''GameType''), Hardcore = (tag_byte (tag_get data ''hardcore'') \<noteq> 0),
                     AllowCommands = (tag_byte (tag_get data ''allowCommands'') \<noteq> 0), VersionName = tag_str (tag_get version ''Name''),
                     DayTime = tag_long (tag_get data ''DayTime''), WorldTime = tag_long (tag_get data ''Time'')\<rparr>)))"

section \<open>Both ways of writing a chunk\<close>

lemma saved_distinct:
  "chunk_saved c payloads \<Longrightarrow> \<forall>s. Some s \<in> set (Sections c) \<longrightarrow> (\<forall>b \<in> set (blockPalette s). distinct (map fst (Properties b)))"
  by (auto simp: chunk_saved_def section_saved_def block_wf_def)

lemma saved_bytes_read:
  assumes "chunk_fits c" "chunk_saved c payloads"
  shows "ReadRootCompound (SaveChunk_bytes c) = Inr (chunk_root c (base_tree c))"
proof (cases "StorageData c")
  case None
  then have b: "base_tree c = []" by (simp add: base_tree_def)
  show ?thesis
    using root_read_any [OF fresh_root_fits [OF assms(1)], of "[]"] fresh_canonical [OF assms(1) saved_distinct [OF assms(2)]]
    by (simp add: SaveChunk_bytes_def None stream_spells_tree b)
next
  case (Some base)
  then have b: "base_tree c = base" by (simp add: base_tree_def)
  show ?thesis
    using root_read_back [of "chunk_root c base" "[]"] chunk_root_wf [OF assms(1)]
    by (simp add: SaveChunk_bytes_def Some encodeChunkNBTWithBase_def b compound_wf_def)
qed

text \<open>C31: the two writers agree: the stream written for a new chunk and the tree merged into an empty one
  are read as the same tree, the one the loader gets.\<close>

theorem chunk_writers_agree:
  assumes "chunk_fits c" "chunk_saved c payloads" "StorageData c = None"
  shows "ReadRootCompound (encodeChunkNBT c) = ReadRootCompound (encodeChunkNBTWithBase c []) \<and>
    ReadRootCompound (encodeChunkNBT c) = Inr (chunk_root c [])"
proof -
  have "ReadRootCompound (encodeChunkNBT c) = Inr (chunk_root c [])"
    using saved_bytes_read [OF assms(1,2)] assms(3) by (simp add: SaveChunk_bytes_def base_tree_def)
  moreover have "ReadRootCompound (encodeChunkNBTWithBase c []) = Inr (chunk_root c [])"
    using root_read_back [of "chunk_root c []" "[]"] chunk_root_wf [OF assms(1)] assms(3)
    by (simp add: encodeChunkNBTWithBase_def compound_wf_def base_tree_def)
  ultimately show ?thesis by simp
qed

lemma new_section_fits: "section_fits NewSection"
  by (simp add: section_fits_def NewSection_def block_fits_def Air_def ResourceLocation_def plains_def)

lemma demo_fits: "chunk_fits demo_chunk"
proof -
  have "section_fits s" if "Some s \<in> set (Sections demo_chunk)" for s
    using that new_section_fits set_update_subset_insert [of "replicate SectionCount None" 3 "Some NewSection"]
    by (auto simp: demo_chunk_def)
  moreover have "entity_fits chest_entity"
    by (simp add: entity_fits_def chest_entity_def item_fits_def no_item_def ContainerItemFromStack_def zero_item_def
        EnchantmentLevels_def DecodeEnchantments_def)
  ultimately show ?thesis
    by (simp add: chunk_fits_def) (simp add: demo_chunk_def base_tree_def compound_Nil_wf)
qed

theorem chunk_writers_agree_witness:
  "ReadRootCompound (encodeChunkNBT demo_chunk) = Inr (chunk_root demo_chunk [])"
  by (rule chunk_writers_agree [OF demo_fits demo_saved(1), THEN conjunct2]) (simp add: demo_chunk_def)

section \<open>A chunk survives a restart\<close>

text \<open>C29: a chunk that is saved and flushed is loaded by a new start with the same block state at every
  position, the same biomes and block entities, whatever else was saved with it: through the tree,
  its bytes, the compression, the sectors of the region file and back.\<close>

theorem chunk_survives_restart:
  assumes zlib: "\<And>bs. unzlib Z (zlib bs) = Some bs"
    and s: "storage_ok s" "Todo s = []" "raw_ok (2 # zlib (SaveChunk_bytes c))"
    and c: "chunk_saved c payloads" "storage_compact c" "chunk_fits c"
  shows "\<exists>c'. LoadChunk Z G (NewStorage (Files (Flush (replicate (Suc (length (Pending s))) True) (Storage_SaveChunk zlib c s))))
      (ChunkX c) (ChunkZ c) = Inr (Some c') \<and> chunk_restored c payloads c' \<and> storage_compact c'"
proof -
  let ?s = "Flush (replicate (Suc (length (Pending s))) True) (Storage_SaveChunk zlib c s)"
  obtain c' where c': "load_tree G (chunk_root c (base_tree c)) (ChunkX c) (ChunkZ c) = Inr (Some c')"
      "chunk_restored c payloads c'" "storage_compact c'"
    using tree_back [OF c(1,2)] by blast
  have "load_raw ?s (ChunkX c, ChunkZ c) = Inr (Some (2 # zlib (SaveChunk_bytes c)))"
    using saved_flushed [of s zlib "SaveChunk_bytes c" "(ChunkX c, ChunkZ c)"] s by (simp add: Storage_SaveChunk_def)
  then have "load_raw (NewStorage (Files ?s)) (ChunkX c, ChunkZ c) = Inr (Some (2 # zlib (SaveChunk_bytes c)))"
    by (simp add: load_raw_def NewStorage_def)
  then have "loadChunkFromRegion Z (NewStorage (Files ?s)) (ChunkX c, ChunkZ c) = Inr (Some (chunk_root c (base_tree c)))"
    using saved_bytes_read [OF c(3,1)] by (simp add: loadChunkFromRegion_def decompressChunk_def zlib)
  then have "LoadChunk Z G (NewStorage (Files ?s)) (ChunkX c) (ChunkZ c) = Inr (Some c')" using c'(1) by (simp add: LoadChunk_def)
  then show ?thesis using c'(2,3) by blast
qed

lemma map_filter_append: "List.map_filter f (xs @ ys) = List.map_filter f xs @ List.map_filter f ys"
  by (induction xs) (simp_all add: List.map_filter_simps split: option.split)

lemma no_sections: "List.map_filter (\<lambda>(i, so). map_option (Pair i) so) (enumerate m (replicate n None)) = []"
  by (induction n arbitrary: m) (simp_all add: List.map_filter_simps)

definition bare_chunk :: anvil_chunk where
  "bare_chunk = demo_chunk\<lparr>SavedEntities := []\<rparr>"

lemma bare_fields:
  "ChunkX bare_chunk = 2" "ChunkZ bare_chunk = -3" "SavedEntities bare_chunk = []" "StorageData bare_chunk = None"
  "Sections bare_chunk = Sections demo_chunk"
  by (simp_all add: bare_chunk_def demo_chunk_def)

lemma bare_sections: "non_nil (Sections bare_chunk) = [(3, NewSection)]"
proof -
  have "Sections bare_chunk = replicate 3 None @ Some NewSection # replicate 20 None"
    by (simp add: bare_chunk_def demo_chunk_def SectionCount_def eval_nat_numeral)
  then show ?thesis
    by (simp add: non_nil_def enumerate_append_eq map_filter_append no_sections List.map_filter_simps)
qed

lemma bare_saved: "chunk_saved bare_chunk []" "storage_compact bare_chunk" "chunk_fits bare_chunk"
  using demo_saved demo_fits
  by (simp_all add: chunk_saved_def chunk_fits_def storage_compact_def base_tree_def bare_fields demo_chunk_def [THEN arg_cong [of _ _ StorageData]])

lemma long_array_length: "length (concat (map (be_put 8) (vs :: i64 list))) = 8 * length vs"
  by (induction vs) simp_all

lemma bare_raw_ok: "raw_ok (2 # SaveChunk_bytes bare_chunk)"
proof -
  have "length (packChunkHeightmap c) = 37" for c
    unfolding packChunkHeightmap_def pack_length by (simp add: entries_per_long_def)
  then show ?thesis
    by (simp add: raw_ok_def SaveChunk_bytes_def bare_fields encodeChunkNBT_def bare_sections [unfolded bare_fields] Let_def
      writeTagInt_def writeTagString_def writeNamedHeader_def writeMUTF8_def writeListHeader_def writeTagLongArray_def writeCompoundOpen_def
      writeCompoundEnd_def encodeSectionPayload_def encodeBlockStates_def writeBiomes_def long_array_length NewSection_def BiomePalette_def
      encodePaletteEntry_def writeTagByte_def Air_def ResourceLocation_def plains_def sectorSize_def put_count_def blockEntitiesTag_def
      List.map_filter_simps)
qed

theorem chunk_survives_restart_witness:
  "\<exists>c'. LoadChunk \<lparr>gunzip = Some, unzlib = Some\<rparr> empty_env
      (NewStorage (Files (Flush (replicate 1 True) (Storage_SaveChunk (\<lambda>bs. bs) bare_chunk (NewStorage (\<lambda>rk. None)))))) 2 (-3) = Inr (Some c') \<and>
    restored (Some NewSection) (Sections c' ! 3)"
proof -
  have s: "storage_ok (NewStorage (\<lambda>rk. None))" by (simp add: storage_ok_def NewStorage_def files_ok_def chunks_fit_def)
  obtain c' where
      c: "LoadChunk \<lparr>gunzip = Some, unzlib = Some\<rparr> empty_env
        (NewStorage (Files (Flush (replicate (Suc (length (Pending (NewStorage (\<lambda>rk. None))))) True) (Storage_SaveChunk (\<lambda>bs. bs) bare_chunk (NewStorage (\<lambda>rk. None))))))
        (ChunkX bare_chunk) (ChunkZ bare_chunk) = Inr (Some c')" "chunk_restored bare_chunk [] c'"
    using chunk_survives_restart [of "\<lparr>gunzip = Some, unzlib = Some\<rparr>" "\<lambda>bs. bs" "NewStorage (\<lambda>rk. None)" bare_chunk "[]" empty_env]
      s bare_raw_ok bare_saved by (auto simp: NewStorage_def)
  have "Sections bare_chunk ! 3 = Some NewSection" by (simp add: bare_chunk_def demo_chunk_def SectionCount_def)
  then have "restored (Some NewSection) (Sections c' ! 3)"
    using c(2) unfolding chunk_restored_def by (metis SectionCount_def numeral_less_iff semiring_norm(77) rel_simps)
  then show ?thesis using c(1) by (auto simp: bare_fields NewStorage_def)
qed

end
