(* ===== verification/Workstations.thy ===== *)
theory Workstations
  imports Containers Enchantments Experience
begin

text \<open>
  The workstation screens (\<open>java/handler/workstation.go\<close>, \<open>smithing.go\<close>): anvil, grindstone, smithing
  table, loom, stonecutter, cartography table, and the slots of the enchanting table, the brewing
  stand and the beacon. The server derives the output slot from the inputs; taking it consumes
  them. The click on a workstation window charges and awards experience (\<open>crafting.go\<close>).
\<close>

section \<open>The screens\<close>

definition anvils :: "string list" where
  "anvils = [''minecraft:anvil'', ''minecraft:chipped_anvil'', ''minecraft:damaged_anvil'']"

definition IsWorkstation :: "string \<Rightarrow> bool" where
  "IsWorkstation kind \<longleftrightarrow> kind \<in> set (anvils @
     [''minecraft:enchanting_table'', ''minecraft:grindstone'', ''minecraft:loom'', ''minecraft:smithing_table'',
      ''minecraft:stonecutter'', ''minecraft:brewing_stand'', ''minecraft:cartography_table'', ''minecraft:beacon''])"

definition WorkstationSlotCount :: "string \<Rightarrow> nat" where
  "WorkstationSlotCount kind =
     (if kind = ''minecraft:enchanting_table'' then 2
      else if kind = ''minecraft:loom'' \<or> kind = ''minecraft:smithing_table'' then 4
      else if kind = ''minecraft:brewing_stand'' then 5
      else if kind = ''minecraft:beacon'' then 1
      else if kind = ''minecraft:stonecutter'' then 2
      else if IsWorkstation kind then 3 else 0)"

text \<open>The derived output slot, \<open>-1\<close> for none.\<close>

definition WorkstationOutputIndex :: "string \<Rightarrow> int" where
  "WorkstationOutputIndex kind =
     (if kind \<in> set [''minecraft:enchanting_table'', ''minecraft:brewing_stand'', ''minecraft:beacon''] then -1
      else if kind = ''minecraft:loom'' \<or> kind = ''minecraft:smithing_table'' then 3
      else if kind = ''minecraft:stonecutter'' then 1
      else if IsWorkstation kind then 2 else -1)"

text \<open>What the handlers consult: the item definitions, the item tags and the recipes of the Java
  edition, and how a component string holds a custom name (encoded as JSON).\<close>

record shop =
  shop_items :: item_env
  shop_tags :: item_tags
  shop_recipes :: "recipe list"
  custom_name :: "string \<Rightarrow> string"
  with_custom_name :: "string \<Rightarrow> string \<Rightarrow> string"
  without_custom_name :: "string \<Rightarrow> string"

definition stack_name :: "shop \<Rightarrow> item_stack \<Rightarrow> string" where
  "stack_name M s = custom_name M (Components s)"

definition set_name :: "shop \<Rightarrow> string \<Rightarrow> item_stack \<Rightarrow> item_stack" where
  "set_name M name s = s\<lparr>Components := with_custom_name M (Components s) name\<rparr>"

definition keep_name :: "shop \<Rightarrow> string \<Rightarrow> item_stack \<Rightarrow> item_stack" where
  "keep_name M name s = (if name = [] then s else set_name M name s)"

section \<open>Operations\<close>

text \<open>What a workstation makes of its inputs: the result, how many items of each slot it takes, the
  experience it pays and the levels it costs.\<close>

record operation =
  op_result :: item_stack
  op_consume :: "int list"
  op_xp :: i32
  op_cost :: i32

definition no_operation :: operation where
  "no_operation = \<lparr>op_result = no_item, op_consume = [], op_xp = 0, op_cost = 0\<rparr>"

subsection \<open>Enchantments\<close>

definition merged_level :: "int \<Rightarrow> int \<Rightarrow> int \<Rightarrow> int option" where
  "merged_level existing level maximum =
     (if existing = level then Some (min (level + 1) maximum)
      else if level > existing then Some level else None)"

definition merge_enchantment :: "item_env \<Rightarrow> enchantment_level \<Rightarrow> item_stack \<times> bool \<Rightarrow> item_stack \<times> bool" where
  "merge_enchantment E el = (\<lambda>(dst, changed).
     (case EnchantmentByID (el_id el) of
        None \<Rightarrow> (dst, changed)
      | Some e \<Rightarrow>
          if \<not> CompatibleWith e dst \<and> EnchantmentLevel dst (el_id el) = 0 then (dst, changed)
          else if ItemID dst \<noteq> ''minecraft:enchanted_book'' \<and> \<not> Supports E e (ItemID dst) then (dst, changed)
          else (case merged_level (EnchantmentLevel dst (el_id el)) (el_level el) (MaxLevel e) of
                  None \<Rightarrow> (dst, changed)
                | Some newLevel \<Rightarrow>
                    let (dst', upgraded) = Enchant dst (el_id el) newLevel in (dst', changed \<or> upgraded))))"

definition mergeEnchantments :: "item_env \<Rightarrow> item_stack \<Rightarrow> item_stack \<Rightarrow> item_stack \<times> bool" where
  "mergeEnchantments E dst src = fold (merge_enchantment E) (EnchantmentLevels src) (dst, False)"

definition is_curse :: "string \<Rightarrow> bool" where
  "is_curse i \<longleftrightarrow> i = ''minecraft:binding_curse'' \<or> i = ''minecraft:vanishing_curse''"

definition grindstoneXP :: "item_stack \<Rightarrow> i32" where
  "grindstoneXP s =
     (let sum = foldl (\<lambda>t e. if is_curse (el_id e) then t else t + word_of_int (el_level e) * 8) 0 (EnchantmentLevels s)
      in if sint sum < 0 then 0 else sum)"

fun add_curse :: "enchantment_level \<Rightarrow> enchantment_level list \<Rightarrow> enchantment_level list" where
  "add_curse e [] = [e]"
| "add_curse e (c # cs) =
     (if el_id c = el_id e then c\<lparr>el_level := max (el_level c) (el_level e)\<rparr> # cs else c # add_curse e cs)"

definition grindstoneKeepCurses :: "item_stack list \<Rightarrow> string" where
  "grindstoneKeepCurses stacks =
     (let curses = fold add_curse (filter (\<lambda>e. is_curse (el_id e)) (concat (map EnchantmentLevels stacks))) []
      in if curses = [] then [] else encodeEnchantments curses)"

definition grindstoneStrip :: "item_stack \<Rightarrow> item_stack \<times> i32" where
  "grindstoneStrip s = (s\<lparr>Enchantments := grindstoneKeepCurses [s]\<rparr>, grindstoneXP s)"

subsection \<open>Anvil and grindstone\<close>

definition repairedStack :: "item_env \<Rightarrow> item_stack \<Rightarrow> item_stack \<Rightarrow> int \<Rightarrow> item_stack" where
  "repairedStack E first second bonusPercent =
     (let maximum = MaxDurability E (ItemID first);
          remaining = RemainingDurability E first + RemainingDurability E second + maximum * bonusPercent div 100
      in no_item\<lparr>ItemID := ItemID first, Count := 1, Damage := maximum - min remaining maximum\<rparr>)"

definition added_levels :: "item_stack \<Rightarrow> item_stack \<Rightarrow> i32" where
  "added_levels before after =
     (let added = int (length (EnchantmentLevels after)) - int (length (EnchantmentLevels before))
      in if added < 0 then 0 else word_of_int added)"

definition anvilOperation :: "shop \<Rightarrow> item_stack list \<Rightarrow> operation" where
  "anvilOperation M slots =
     (let E = shop_items M; left = slots ! 0; right = slots ! 1; name = stack_name M left;
          takes_both = (\<lambda>result cost. \<lparr>op_result = result, op_consume = [1, 1], op_xp = 0, op_cost = cost\<rparr>)
      in if IsEmpty left then no_operation
         else if IsEmpty right then
           (if name = [] then no_operation
            else \<lparr>op_result = left\<lparr>Count := 1\<rparr>, op_consume = [1, 0], op_xp = 0, op_cost = 1\<rparr>)
         else if ItemID right = ''minecraft:enchanted_book'' \<and> MaxDurability E (ItemID left) > 0 then
           (let result = keep_name M name (left\<lparr>Count := 1\<rparr>);
                (enchanted, merged) = mergeEnchantments E result right
            in if merged then takes_both enchanted (1 + added_levels result enchanted) else no_operation)
         else if MaxDurability E (ItemID left) = 0 then no_operation
         else if ItemID left = ItemID right then
           (let result = (repairedStack E left right 12)\<lparr>Enchantments := Enchantments left, Components := Components left\<rparr>;
                enchanted = fst (mergeEnchantments E result right)
            in takes_both (keep_name M name enchanted) (1 + added_levels result enchanted))
         else if \<not> RepairsWith (registry E) (ItemID left) (ItemID right) then no_operation
         else takes_both (keep_name M name
                (left\<lparr>Count := 1, Damage := max 0 (Damage left - max 1 (MaxDurability E (ItemID left) div 4))\<rparr>)) 1)"

definition grindstoneOperation :: "item_env \<Rightarrow> item_stack list \<Rightarrow> operation" where
  "grindstoneOperation E slots =
     (let first = slots ! 0; second = slots ! 1
      in if IsEmpty first \<and> IsEmpty second then no_operation
         else if IsEmpty first \<or> IsEmpty second then
           (let (single, index) = (if IsEmpty first then (second, 1) else (first, 0));
                (stripped, xp) = grindstoneStrip single
            in \<lparr>op_result = stripped\<lparr>Count := 1\<rparr>, op_consume = [0, 0][index := 1], op_xp = xp, op_cost = 0\<rparr>)
         else if ItemID first \<noteq> ItemID second \<or> MaxDurability E (ItemID first) = 0 then no_operation
         else \<lparr>op_result = (repairedStack E first second 5)\<lparr>Enchantments := grindstoneKeepCurses [first, second]\<rparr>,
                op_consume = [1, 1], op_xp = grindstoneXP first + grindstoneXP second, op_cost = 0\<rparr>)"

subsection \<open>Smithing table, loom, stonecutter and cartography table\<close>

text \<open>The items an ingredient stands for; a tag lists its items in order.\<close>

fun alternatives :: "item_tags \<Rightarrow> slot_display \<Rightarrow> string list" where
  "alternatives T (ItemDisplay i) = [i]"
| "alternatives T (StackDisplay s) = [ItemID s]"
| "alternatives T (TagDisplay t) = sorted_list_of_set (T t)"
| "alternatives T (Composite cs) = concat (map (alternatives T) cs)"
| "alternatives T (WithRemainder cs) = concat (map (alternatives T) cs)"
| "alternatives T (SmithingTrim cs) = concat (map (alternatives T) cs)"
| "alternatives T _ = []"

definition smithing_recipes :: "shop \<Rightarrow> (string list list \<times> item_stack) list" where
  "smithing_recipes M =
     map (\<lambda>r. (map (alternatives (shop_tags M)) (r_ingredients r), result_stack (r_result r)))
       (filter (\<lambda>r. r_kind r = Smithing \<and> length (r_ingredients r) = 3) (shop_recipes M))"

text \<open>The table of transforms; a later recipe replaces an earlier one with the same key.\<close>

definition smithing_table :: "shop \<Rightarrow> ((string \<times> string \<times> string) \<times> string) list" where
  "smithing_table M =
     concat (map (\<lambda>(ingredients, result).
       if IsEmpty result then []
       else [((template, base, addition), ItemID result).
               template \<leftarrow> ingredients ! 0, base \<leftarrow> ingredients ! 1, addition \<leftarrow> ingredients ! 2])
     (smithing_recipes M))"

definition smithingTransform :: "shop \<Rightarrow> string \<Rightarrow> string \<Rightarrow> string \<Rightarrow> string option" where
  "smithingTransform M template base addition = map_of (rev (smithing_table M)) (template, base, addition)"

definition smithingAccepts :: "shop \<Rightarrow> int \<Rightarrow> string \<Rightarrow> bool" where
  "smithingAccepts M slot item \<longleftrightarrow>
     \<not> (slot < 0 \<or> slot \<ge> 3) \<and> list_ex (\<lambda>(ingredients, _). item \<in> set (ingredients ! nat slot)) (smithing_recipes M)"

definition smithingOperation :: "shop \<Rightarrow> item_stack list \<Rightarrow> operation" where
  "smithingOperation M slots =
     (case smithingTransform M (ItemID (slots ! 0)) (ItemID (slots ! 1)) (ItemID (slots ! 2)) of
        None \<Rightarrow> no_operation
      | Some result \<Rightarrow>
          \<lparr>op_result = (slots ! 1)\<lparr>ItemID := result, Count := 1\<rparr>, op_consume = [1, 1, 1], op_xp = 0, op_cost = 0\<rparr>)"

definition loomOperation :: "item_env \<Rightarrow> item_stack list \<Rightarrow> operation" where
  "loomOperation E slots =
     (if \<not> HasTag (registry E) (ItemID (slots ! 0)) ''minecraft:banners'' \<or>
         \<not> HasTag (registry E) (ItemID (slots ! 1)) ''gocraft:dyes'' then no_operation
      else \<lparr>op_result = (slots ! 0)\<lparr>Count := 1\<rparr>,
             op_consume = [1, 1, if IsEmpty (slots ! 2) then 0 else 1], op_xp = 0, op_cost = 0\<rparr>)"

definition stonecutter_matches :: "shop \<Rightarrow> string \<Rightarrow> recipe list" where
  "stonecutter_matches M item =
     filter (\<lambda>r. r_kind r = Stonecutter \<and> length (r_ingredients r) = 1 \<and> matches (shop_tags M) (r_ingredients r ! 0) item)
       (shop_recipes M)"

definition stonecutterOperation :: "shop \<Rightarrow> item_stack list \<Rightarrow> int \<Rightarrow> operation" where
  "stonecutterOperation M slots selection =
     (let input = slots ! 0; matching = stonecutter_matches M (ItemID input);
          selection = (if selection < 0 \<or> selection \<ge> int (length matching) then 0 else selection)
      in if IsEmpty input \<or> matching = [] \<or> IsEmpty (result_stack (r_result (matching ! nat selection)))
         then no_operation
         else \<lparr>op_result = result_stack (r_result (matching ! nat selection)), op_consume = [1], op_xp = 0, op_cost = 0\<rparr>)"

definition cartographyOperation :: "item_stack list \<Rightarrow> operation" where
  "cartographyOperation slots =
     (if ItemID (slots ! 0) \<noteq> ''minecraft:filled_map'' \<or> IsEmpty (slots ! 1) then no_operation
      else if ItemID (slots ! 1) \<in> set [''minecraft:paper'', ''minecraft:map'', ''minecraft:glass_pane''] then
        \<lparr>op_result = no_item\<lparr>ItemID := ''minecraft:filled_map'', Count := 1, Damage := Damage (slots ! 0)\<rparr>,
         op_consume = [1, 1], op_xp = 0, op_cost = 0\<rparr>
      else no_operation)"

definition workstationOperationFor :: "shop \<Rightarrow> string \<Rightarrow> item_stack list \<Rightarrow> int \<Rightarrow> operation" where
  "workstationOperationFor M kind slots selection =
     (if length slots \<noteq> WorkstationSlotCount kind then no_operation
      else if kind \<in> set anvils then anvilOperation M slots
      else if kind = ''minecraft:grindstone'' then grindstoneOperation (shop_items M) slots
      else if kind = ''minecraft:loom'' then loomOperation (shop_items M) slots
      else if kind = ''minecraft:smithing_table'' then smithingOperation M slots
      else if kind = ''minecraft:stonecutter'' then stonecutterOperation M slots selection
      else if kind = ''minecraft:cartography_table'' then cartographyOperation slots
      else no_operation)"

section \<open>The output slot\<close>

definition UpdateWorkstationResult :: "shop \<Rightarrow> string \<Rightarrow> item_stack list \<Rightarrow> int \<Rightarrow> item_stack list" where
  "UpdateWorkstationResult M kind slots selection =
     (let output = WorkstationOutputIndex kind
      in if output < 0 \<or> output \<ge> int (length slots) then slots
         else slots[nat output := op_result (workstationOperationFor M kind slots selection)])"

definition AnvilLevelCost :: "shop \<Rightarrow> string \<Rightarrow> item_stack list \<Rightarrow> i32" where
  "AnvilLevelCost M kind slots =
     (if kind \<notin> set anvils \<or> length slots < WorkstationSlotCount kind then 0 else op_cost (anvilOperation M slots))"

definition consume_slot :: "item_stack list \<Rightarrow> nat \<times> int \<Rightarrow> item_stack list" where
  "consume_slot slots = (\<lambda>(index, count).
     if count \<le> 0 \<or> index \<ge> length slots \<or> Count (slots ! index) < count then slots
     else slots[index := normalizeStack ((slots ! index)\<lparr>Count := Count (slots ! index) - count\<rparr>)])"

definition consume_inputs :: "int list \<Rightarrow> item_stack list \<Rightarrow> item_stack list" where
  "consume_inputs counts slots = foldl consume_slot slots (zip [0..<length counts] counts)"

definition TakeWorkstationResult :: "shop \<Rightarrow> string \<Rightarrow> item_stack list \<Rightarrow> int \<Rightarrow> (item_stack list \<times> item_stack \<times> i32) option" where
  "TakeWorkstationResult M kind slots selection =
     (let operation = workstationOperationFor M kind slots selection
      in if IsEmpty (op_result operation) then None
         else Some (UpdateWorkstationResult M kind (consume_inputs (op_consume operation) slots) selection,
                    op_result operation, op_xp operation))"

section \<open>The handlers\<close>

text \<open>The player with the two fields that only these screens use.\<close>

record station =
  Holder :: player
  WorkstationSelection :: int
  PendingWorkstationXP :: i32

abbreviation kind_of :: "station \<Rightarrow> string" where
  "kind_of s \<equiv> OpenContainerKind (Holder s)"

abbreviation slots_of :: "station \<Rightarrow> item_stack list" where
  "slots_of s \<equiv> ContainerSlots (Holder s)"

definition set_slots :: "station \<Rightarrow> item_stack list \<Rightarrow> station" where
  "set_slots s slots = s\<lparr>Holder := (Holder s)\<lparr>ContainerSlots := slots\<rparr>\<rparr>"

definition recompute :: "shop \<Rightarrow> station \<Rightarrow> station" where
  "recompute M s = set_slots s (UpdateWorkstationResult M (kind_of s) (slots_of s) (WorkstationSelection s))"

definition touch :: "station \<Rightarrow> station" where
  "touch s = s\<lparr>Holder := refresh (Holder s)\<rparr>"

subsection \<open>Clicks on one slot\<close>

definition potions :: "string list" where
  "potions = [''minecraft:potion'', ''minecraft:splash_potion'', ''minecraft:lingering_potion'', ''minecraft:glass_bottle'']"

definition canPlaceWorkstationSlot :: "shop \<Rightarrow> string \<Rightarrow> int \<Rightarrow> item_stack \<Rightarrow> bool" where
  "canPlaceWorkstationSlot M kind index stack =
     (let i = ItemID stack; tagged = HasTag (registry (shop_items M))
      in if IsEmpty stack \<or> index < 0 then True
         else if index = WorkstationOutputIndex kind then False
         else if kind = ''minecraft:enchanting_table'' then index = 1 \<and> i = ''minecraft:lapis_lazuli'' \<or> index = 0
         else if kind = ''minecraft:loom'' then
           index = 0 \<and> tagged i ''minecraft:banners'' \<or> index = 1 \<and> tagged i ''gocraft:dyes'' \<or>
           index = 2 \<and> tagged i ''gocraft:banner_patterns''
         else if kind = ''minecraft:smithing_table'' then smithingAccepts M index i
         else if kind = ''minecraft:stonecutter'' then index = 0
         else if kind = ''minecraft:cartography_table'' then
           index = 0 \<and> i = ''minecraft:filled_map'' \<or>
           index = 1 \<and> i \<in> set [''minecraft:paper'', ''minecraft:map'', ''minecraft:glass_pane'']
         else if kind = ''minecraft:brewing_stand'' then
           (if index \<le> 2 then i \<in> set potions else index = 4 \<and> i = ''minecraft:blaze_powder'' \<or> index = 3)
         else if kind = ''minecraft:beacon'' then
           i \<in> set [''minecraft:iron_ingot'', ''minecraft:gold_ingot'', ''minecraft:diamond'', ''minecraft:emerald'',
                    ''minecraft:netherite_ingot'']
         else True)"

definition workstationContainerSlot :: "player \<Rightarrow> int \<Rightarrow> (slot_ref \<times> int) option" where
  "workstationContainerSlot p slot =
     (let n = int (length (ContainerSlots p))
      in if slot \<ge> 0 \<and> slot < n then Some (InContainer (nat slot), slot)
         else if slot \<ge> n \<and> slot < n + 27 then Some (InInventory (nat (9 + slot - n)), -1)
         else if slot \<ge> n + 27 \<and> slot < n + 36 then Some (InInventory (nat (int HotbarStart + slot - (n + 27))), -1)
         else None)"

definition station_left :: "item_env \<Rightarrow> bool \<Rightarrow> item_stack \<Rightarrow> item_stack \<Rightarrow> item_stack \<times> item_stack" where
  "station_left E allowed carried target =
     (if IsEmpty carried then (target, no_item)
      else if IsEmpty target \<and> allowed then (no_item, carried)
      else if SameItem E target carried \<and> allowed \<and> Count target < MaxStackSize E (ItemID target)
        then merge_into (min (MaxStackSize E (ItemID target) - Count target) (Count carried)) carried target
      else if allowed then (target, carried)
      else (carried, target))"

definition station_right :: "item_env \<Rightarrow> bool \<Rightarrow> item_stack \<Rightarrow> item_stack \<Rightarrow> item_stack \<times> item_stack" where
  "station_right E allowed carried target =
     (if IsEmpty carried then (if IsEmpty target then (carried, target) else take_half target)
      else if IsEmpty target \<and> allowed then place_single carried
      else if SameItem E target carried \<and> allowed \<and> Count target < MaxStackSize E (ItemID target)
        then merge_into 1 carried target
      else (carried, target))"

definition clickWorkstationSlot :: "shop \<Rightarrow> player \<Rightarrow> int \<Rightarrow> byte \<Rightarrow> player" where
  "clickWorkstationSlot M p slot button =
     (if slot = -999 then clickChestSlot (shop_items M) p slot button
      else case workstationContainerSlot p slot of
        None \<Rightarrow> p
      | Some (r, index) \<Rightarrow>
          (let output = WorkstationOutputIndex (OpenContainerKind p);
               allowed = canPlaceWorkstationSlot M (OpenContainerKind p) index (CarriedItem p)
           in if output \<ge> 0 \<and> index = output then p
              else if button = 0 then on_slot p r (station_left (shop_items M) allowed)
              else on_slot p r (station_right (shop_items M) allowed)))"

subsection \<open>Shift clicks\<close>

text \<open>The slots a stack may go to: whether a slot takes it depends on its kind alone.\<close>

definition input_indices :: "shop \<Rightarrow> string \<Rightarrow> item_stack \<Rightarrow> nat \<Rightarrow> nat list" where
  "input_indices M kind item n =
     filter (\<lambda>i. int i \<noteq> WorkstationOutputIndex kind \<and> canPlaceWorkstationSlot M kind (int i) item) [0..<n]"

definition shiftWorkstationSlot :: "shop \<Rightarrow> player \<Rightarrow> int \<Rightarrow> player" where
  "shiftWorkstationSlot M p slot =
     (case workstationContainerSlot p slot of
        None \<Rightarrow> p
      | Some (r, index) \<Rightarrow>
          (let kind = OpenContainerKind p; output = WorkstationOutputIndex kind; item = get_slot p r; E = shop_items M
           in if IsEmpty item \<or> output \<ge> 0 \<and> index = output then p
              else if index \<ge> 0 then move_to_inventory E p r
              else (let (slots, placed) = add_stack E (MaxStackSize E (ItemID item))
                        (input_indices M kind item (length (ContainerSlots p))) (ContainerSlots p) item
                    in if placed then put_slot (p\<lparr>ContainerSlots := slots\<rparr>) r no_item else p)))"

subsection \<open>Taking the output\<close>

definition takeWorkstationOutputToCursor :: "shop \<Rightarrow> station \<Rightarrow> station" where
  "takeWorkstationOutputToCursor M s =
     (let p = Holder s; kind = OpenContainerKind p; output = WorkstationOutputIndex kind;
          preview = ContainerSlots p ! nat output; carried = CarriedItem p
      in if output < 0 \<or> output \<ge> int (length (ContainerSlots p)) then s
         else if IsEmpty preview \<or> \<not> IsEmpty carried \<and>
             (ItemID carried \<noteq> ItemID preview \<or> Damage carried \<noteq> Damage preview \<or>
              Count carried + Count preview > MaxStackSize (shop_items M) (ItemID preview)) then s
         else case TakeWorkstationResult M kind (ContainerSlots p) (WorkstationSelection s) of
             None \<Rightarrow> s
           | Some (slots, result, xp) \<Rightarrow>
               (let cost = AnvilLevelCost M kind (ContainerSlots p);
                    pending = PendingWorkstationXP s + xp;
                    pending = (if sint cost > 0 then pending - cost else pending);
                    carried' = (if IsEmpty carried then result else carried\<lparr>Count := Count carried + Count result\<rparr>)
                in s\<lparr>Holder := p\<lparr>ContainerSlots := slots, CarriedItem := carried'\<rparr>, PendingWorkstationXP := pending\<rparr>))"

text \<open>One round of the shift click: \<open>None\<close> when the loop is left.\<close>

definition shift_round :: "shop \<Rightarrow> station \<Rightarrow> station option" where
  "shift_round M s =
     (let p = Holder s; kind = OpenContainerKind p; output = WorkstationOutputIndex kind
      in if output < 0 \<or> output \<ge> int (length (ContainerSlots p)) \<or> IsEmpty (ContainerSlots p ! nat output) then None
         else (let (inventory, placed) = addStackToInventory (shop_items M) (Inventory p) (ContainerSlots p ! nat output)
               in if \<not> placed then None
                  else case TakeWorkstationResult M kind (ContainerSlots p) (WorkstationSelection s) of
                      None \<Rightarrow> None
                    | Some (slots, _, xp) \<Rightarrow>
                        Some (s\<lparr>Holder := p\<lparr>ContainerSlots := slots, Inventory := inventory\<rparr>,
                                PendingWorkstationXP := PendingWorkstationXP s + xp\<rparr>)))"

partial_function (option) shiftWorkstationOutput :: "shop \<Rightarrow> station \<Rightarrow> station option" where
  "shiftWorkstationOutput M s =
     (case shift_round M s of None \<Rightarrow> Some s | Some s' \<Rightarrow> shiftWorkstationOutput M s')"

subsection \<open>A click on the window\<close>

definition on_holder :: "(player \<Rightarrow> player) \<Rightarrow> station \<Rightarrow> station" where
  "on_holder f s = s\<lparr>Holder := f (Holder s)\<rparr>"

definition handleWorkstationClick :: "shop \<Rightarrow> station \<Rightarrow> int \<Rightarrow> byte \<Rightarrow> i32 \<Rightarrow> station option" where
  "handleWorkstationClick M s slot button mode =
     (if \<not> IsWorkstation (kind_of s) then Some s
      else
        let s0 = recompute M s; output = WorkstationOutputIndex (kind_of s);
            s1 = (if mode = 0 then
                    Some (if slot = output then takeWorkstationOutputToCursor M s0
                          else on_holder (\<lambda>p. clickWorkstationSlot M p slot button) s0)
                  else if mode = 1 then
                    (if slot = output then shiftWorkstationOutput M s0
                     else Some (on_holder (\<lambda>p. shiftWorkstationSlot M p slot) s0))
                  else Some s0)
        in map_option (\<lambda>s. touch (recompute M s)) s1)"

text \<open>The packet handler settles the experience: points awarded, or levels charged when there are enough.\<close>

definition settle :: "i32 \<Rightarrow> experience \<Rightarrow> experience" where
  "settle xp e =
     (if sint xp > 0 then AddExperience xp e
      else if sint xp < 0 \<and> sint (ExperienceLevel e) \<ge> sint (- xp)
        then SetTotalExperience (ExperienceForLevel (ExperienceLevel e - (- xp))) e
      else e)"

definition workstation_window :: "shop \<Rightarrow> station \<times> experience \<Rightarrow> int \<Rightarrow> byte \<Rightarrow> i32 \<Rightarrow> (station \<times> experience) option" where
  "workstation_window M = (\<lambda>(s, e) slot button mode.
     map_option (\<lambda>s'. (s'\<lparr>PendingWorkstationXP := 0\<rparr>, settle (PendingWorkstationXP s') e))
       (handleWorkstationClick M s slot button mode))"

definition handleWorkstationButtonClick :: "shop \<Rightarrow> station \<Rightarrow> i32 \<Rightarrow> i32 \<Rightarrow> station" where
  "handleWorkstationButtonClick M s windowID buttonID =
     (if windowID \<noteq> 1 \<or> OpenContainerID (Holder s) \<noteq> windowID \<or> kind_of s \<noteq> ''minecraft:stonecutter'' \<or> sint buttonID < 0
      then s else touch (recompute M (s\<lparr>WorkstationSelection := sint buttonID\<rparr>)))"

definition handleAnvilRename :: "shop \<Rightarrow> station \<Rightarrow> string \<Rightarrow> station" where
  "handleAnvilRename M s name =
     (let slot0 = slots_of s ! 0
      in if kind_of s \<notin> set anvils \<or> slots_of s = [] \<or> IsEmpty slot0 then s
         else touch (recompute M (set_slots s ((slots_of s)[0 :=
           (if name = [] then slot0\<lparr>Components := without_custom_name M (Components slot0)\<rparr> else set_name M name slot0)]))))"

subsection \<open>Opening and closing\<close>

definition return_slot_item :: "item_env \<Rightarrow> int \<Rightarrow> player \<Rightarrow> nat \<Rightarrow> player" where
  "return_slot_item E output p i =
     (let stack = ContainerSlots p ! i; (inventory, given) = GiveItem E (Inventory p) stack
      in if int i = output \<or> IsEmpty stack \<or> \<not> given then p
         else p\<lparr>Inventory := inventory, ContainerSlots := (ContainerSlots p)[i := no_item]\<rparr>)"

definition returnWorkstationItems :: "item_env \<Rightarrow> player \<Rightarrow> player" where
  "returnWorkstationItems E p =
     (if \<not> IsWorkstation (OpenContainerKind p) then p
      else foldl (return_slot_item E (WorkstationOutputIndex (OpenContainerKind p))) p [0..<length (ContainerSlots p)])"

definition load_stand :: "nat \<Rightarrow> container_item list \<Rightarrow> item_stack list" where
  "load_stand n items =
     foldl (\<lambda>slots ci. if Slot ci \<ge> 0 \<and> Slot ci < int (length slots) then slots[nat (Slot ci) := Stack ci] else slots)
       (replicate n no_item) items"

definition openWorkstation :: "shop \<Rightarrow> world_env \<Rightarrow> world \<Rightarrow> station \<Rightarrow> block_pos \<Rightarrow> string \<Rightarrow> station \<times> world" where
  "openWorkstation M G w s pos kind =
     (if \<not> IsWorkstation kind then (s, w)
      else
        let p = Holder s;
            p = (if OpenContainerKind p = ''minecraft:crafting_table'' then returnCraftingGrid (shop_items M) p
                 else if IsWorkstation (OpenContainerKind p) then returnWorkstationItems (shop_items M) p else p);
            (items, w') = (if kind = ''minecraft:brewing_stand''
                           then ContainerItems G w (sint (pos_x pos)) (sint (pos_y pos)) (sint (pos_z pos)) else ([], w));
            p = p\<lparr>OpenContainerID := 1, OpenContainerKind := kind, OpenContainerPos := pos,
                  OpenContainerPartnerPos := zero_pos, OpenContainerHasPartner := False,
                  ContainerSlots := load_stand (WorkstationSlotCount kind) items\<rparr>
        in (touch (recompute M (s\<lparr>Holder := p, WorkstationSelection := 0\<rparr>)), w'))"

definition stand_items :: "item_stack list \<Rightarrow> container_item list" where
  "stand_items slots =
     concat (map (\<lambda>(slot, stack). if IsEmpty stack then [] else [ContainerItemFromStack (int slot) stack]) (enumerate 0 slots))"

definition closeWorkstation :: "item_env \<Rightarrow> world_env \<Rightarrow> world \<Rightarrow> station \<Rightarrow> station \<times> world" where
  "closeWorkstation E G w s =
     (let p = Holder s; pos = OpenContainerPos p; stand = (OpenContainerKind p = ''minecraft:brewing_stand'');
          w' = (if stand then SetContainerItems G w (sint (pos_x pos)) (sint (pos_y pos)) (sint (pos_z pos))
                  (OpenContainerKind p) (stand_items (ContainerSlots p)) else w);
          p = (if stand then p else returnWorkstationItems E p);
          (inventory, given) = GiveItem E (Inventory p) (CarriedItem p);
          p = (if \<not> IsEmpty (CarriedItem p) \<and> given then p\<lparr>Inventory := inventory, CarriedItem := no_item\<rparr> else p)
      in (s\<lparr>Holder := refresh (p\<lparr>OpenContainerID := 0, OpenContainerKind := [], OpenContainerPos := zero_pos, ContainerSlots := []\<rparr>),
            WorkstationSelection := 0\<rparr>, w'))"

section \<open>Clicks keep the items\<close>

text \<open>Adding a stack reads and writes the given slots only.\<close>

lemma merge_loop_other:
  "j \<notin> set is \<Longrightarrow> merge_loop E limit item is (slots[j := x]) r = map_prod (\<lambda>ss. ss[j := x]) id (merge_loop E limit item is slots r)"
  by (induction E limit item "is" slots r rule: merge_loop.induct) (auto simp: Let_def list_update_swap)

lemma fill_loop_other:
  "j \<notin> set is \<Longrightarrow> fill_loop limit item is (slots[j := x]) r = map_prod (\<lambda>ss. ss[j := x]) id (fill_loop limit item is slots r)"
  by (induction limit item "is" slots r rule: fill_loop.induct) (auto simp: Let_def list_update_swap)

lemma add_stack_other:
  "j \<notin> set is \<Longrightarrow> add_stack E limit is (slots[j := x]) item = map_prod (\<lambda>ss. ss[j := x]) id (add_stack E limit is slots item)"
  by (simp add: add_stack_def merge_loop_other fill_loop_other split_beta Let_def)

lemma merge_length: "length (fst (merge_loop E limit item is slots r)) = length slots"
  by (induction E limit item "is" slots r rule: merge_loop.induct) (simp_all add: Let_def)

lemma fill_length: "length (fst (fill_loop limit item is slots r)) = length slots"
  by (induction limit item "is" slots r rule: fill_loop.induct) (simp_all add: Let_def)

lemma add_length [simp]: "length (fst (add_stack E limit is slots item)) = length slots"
  by (simp add: add_stack_def split_beta Let_def merge_length fill_length)

interpretation station_left: slot_click "station_left E allowed" E for E allowed
proof unfold_locales
  fix c t c' t' k
  assume ok: "slot_ok c" "slot_ok t" and run: "station_left E allowed c t = (c', t')"
  let ?add = "min (MaxStackSize E (ItemID t) - Count t) (Count c)"
  consider "\<not> IsEmpty c" "\<not> IsEmpty t" "SameItem E t c" "Count t < MaxStackSize E (ItemID t)" "allowed"
    | "IsEmpty c \<or> IsEmpty t \<or> \<not> (SameItem E t c \<and> allowed \<and> Count t < MaxStackSize E (ItemID t))" by blast
  then show "slot_ok c' \<and> slot_ok t' \<and> amount E k c' + amount E k t' = amount E k c + amount E k t"
  proof cases
    case 1
    then have "merge_into ?add c t = (c', t')" using run by (simp add: station_left_def)
    with 1 Count_pos [OF 1(1)] show ?thesis by (intro merge_into_ok) auto
  next
    case 2
    have "\<not> SameItem E t c" if "\<not> IsEmpty c" "IsEmpty t"
      using that ok(2) by (auto simp: SameItem_def slot_ok_def IsEmpty_def)
    then show ?thesis using 2 run ok by (auto simp: station_left_def split: if_splits)
  qed
qed

interpretation station_right: slot_click "station_right E allowed" E for E allowed
proof unfold_locales
  fix c t c' t' k
  assume ok: "slot_ok c" "slot_ok t" and run: "station_right E allowed c t = (c', t')"
  have empty: "\<not> SameItem E t c" if "\<not> IsEmpty c" "IsEmpty t"
    using that ok(2) by (auto simp: SameItem_def slot_ok_def IsEmpty_def)
  consider "IsEmpty c" "\<not> IsEmpty t" | "\<not> IsEmpty c" "allowed" "IsEmpty t"
    | "\<not> IsEmpty c" "\<not> IsEmpty t" "SameItem E t c" "Count t < MaxStackSize E (ItemID t)" "allowed"
    | "(c', t') = (c, t)" using run empty by (auto simp: station_right_def split: if_splits)
  then show "slot_ok c' \<and> slot_ok t' \<and> amount E k c' + amount E k t' = amount E k c + amount E k t"
  proof cases
    case 1
    then have "take_half t = (c', t')" using run by (simp add: station_right_def)
    from take_half_ok [OF 1(2) this, of E k] show ?thesis using 1(1) by simp
  next
    case 2
    then have "place_single c = (c', t')" using run by (simp add: station_right_def)
    from place_single_ok [OF 2(1) this, of E k] show ?thesis using 2(3) by simp
  next
    case 3
    then have "merge_into 1 c t = (c', t')" using run by (simp add: station_right_def)
    with 3 Count_pos [OF 3(1)] show ?thesis by (intro merge_into_ok) auto
  qed (use ok in auto)
qed

text \<open>The player without the derived output, which is no item of anybody.\<close>

definition output_of :: "player \<Rightarrow> nat option" where
  "output_of p =
     (let output = WorkstationOutputIndex (OpenContainerKind p)
      in if output < 0 \<or> output \<ge> int (length (ContainerSlots p)) then None else Some (nat output))"

definition bare :: "player \<Rightarrow> player" where
  "bare p = (case output_of p of None \<Rightarrow> p | Some i \<Rightarrow> p\<lparr>ContainerSlots := (ContainerSlots p)[i := no_item]\<rparr>)"

lemma output_bound: "output_of p = Some i \<Longrightarrow> i < length (ContainerSlots p)"
  by (auto simp: output_of_def Let_def split: if_splits)

lemma output_screen: "same_screen q p \<Longrightarrow> output_of q = output_of p"
  by (simp add: output_of_def same_screen_def)

lemma bare_screen [simp]: "same_screen (bare p) q = same_screen p q" "same_screen q (bare p) = same_screen q p"
  by (auto simp: bare_def same_screen_def split: option.splits)

lemma bare_same [simp]:
  "Inventory (bare p) = Inventory p" "CarriedItem (bare p) = CarriedItem p" "CraftingGrid (bare p) = CraftingGrid p"
  "OpenContainerKind (bare p) = OpenContainerKind p" "length (ContainerSlots (bare p)) = length (ContainerSlots p)"
  by (auto simp: bare_def split: option.splits)

lemma bare_updates [simp]:
  "bare (p\<lparr>Inventory := xs\<rparr>) = (bare p)\<lparr>Inventory := xs\<rparr>" "bare (p\<lparr>CarriedItem := c\<rparr>) = (bare p)\<lparr>CarriedItem := c\<rparr>"
  by (auto simp: bare_def output_of_def Let_def)

lemma bare_put: "(\<And>i. output_of p = Some i \<Longrightarrow> r \<noteq> InContainer i) \<Longrightarrow> bare (put_slot p r s) = put_slot (bare p) r s"
  by (cases r) (auto simp: bare_def output_of_def Let_def list_update_swap split: option.splits)

lemma bare_get: "(\<And>i. output_of p = Some i \<Longrightarrow> r \<noteq> InContainer i) \<Longrightarrow> get_slot (bare p) r = get_slot p r"
  by (cases r) (auto simp: bare_def split: option.splits)

lemma bare_valid [simp]: "valid_ref (bare p) r = valid_ref p r"
  by (cases r) (auto simp: bare_def split: option.splits)

lemma ws_ref:
  assumes "player_ok (bare p)" "workstationContainerSlot p slot = Some (r, index)"
  shows "valid_ref p r" "index \<ge> 0 \<Longrightarrow> r = InContainer (nat index) \<and> nat index < length (ContainerSlots p)"
    "index < 0 \<Longrightarrow> \<exists>i. r = InInventory i" "index = slot \<or> index = -1"
proof -
  have l: "length (Inventory p) = 46" using assms(1) by (simp add: player_ok_def InventorySize_def)
  show "valid_ref p r" "index \<ge> 0 \<Longrightarrow> r = InContainer (nat index) \<and> nat index < length (ContainerSlots p)"
    "index < 0 \<Longrightarrow> \<exists>i. r = InInventory i" "index = slot \<or> index = -1"
    using assms(2) l by (auto simp: workstationContainerSlot_def Let_def HotbarStart_def split: if_splits)
qed

lemma not_output:
  assumes "player_ok (bare p)" "workstationContainerSlot p slot = Some (r, index)"
    and "\<not> (WorkstationOutputIndex (OpenContainerKind p) \<ge> 0 \<and> index = WorkstationOutputIndex (OpenContainerKind p))"
    and "output_of p = Some i"
  shows "r \<noteq> InContainer i"
  using ws_ref [OF assms(1,2)] assms(3,4) by (cases "index \<ge> 0") (auto simp: output_of_def Let_def split: if_splits)

lemma on_slot_bare:
  assumes "\<And>i. output_of p = Some i \<Longrightarrow> r \<noteq> InContainer i"
  shows "bare (on_slot p r f) = on_slot (bare p) r f"
proof -
  have o: "output_of (p\<lparr>CarriedItem := c\<rparr>) = output_of p" for c by (simp add: output_of_def)
  show ?thesis
    by (simp add: on_slot_def bare_get [OF assms] split_beta Let_def bare_put [where p = "p\<lparr>CarriedItem := c\<rparr>" for c, unfolded o, OF assms])
qed

lemma clickWorkstationSlot_kept:
  assumes "player_ok (bare p)" "slot \<noteq> -999"
  shows "kept (shop_items M) (bare p) (bare (clickWorkstationSlot M p slot button))"
proof (cases "workstationContainerSlot p slot")
  case None
  then show ?thesis using assms by (simp add: clickWorkstationSlot_def)
next
  case (Some ri)
  obtain r index where ri: "ri = (r, index)" by fastforce
  note S = Some [unfolded ri]
  have v: "valid_ref p r" using ws_ref [OF assms(1) S] by simp
  show ?thesis
  proof (cases "WorkstationOutputIndex (OpenContainerKind p) \<ge> 0 \<and> index = WorkstationOutputIndex (OpenContainerKind p)")
    case True
    then show ?thesis using assms S by (simp add: clickWorkstationSlot_def Let_def)
  next
    case False
    note B = on_slot_bare [OF not_output [OF assms(1) S False]]
    have "kept (shop_items M) (bare p) (bare (on_slot p r (station_left (shop_items M) a)))"
      "kept (shop_items M) (bare p) (bare (on_slot p r (station_right (shop_items M) a)))" for a
      using station_left.click_ok [OF assms(1), of r "shop_items M" a]
        station_right.click_ok [OF assms(1), of r "shop_items M" a] v
      by (simp_all add: B kept_def)
    then show ?thesis using assms S False by (simp add: clickWorkstationSlot_def Let_def)
  qed
qed

lemma move_bare:
  assumes "\<And>i. output_of p = Some i \<Longrightarrow> r \<noteq> InContainer i"
  shows "bare (move_to_inventory E p r) = move_to_inventory E (bare p) r"
proof -
  have o: "output_of (p\<lparr>Inventory := xs\<rparr>) = output_of p" for xs by (simp add: output_of_def)
  show ?thesis
  proof (cases "snd (addStackToInventory E (Inventory p) (get_slot p r))")
    case True
    then obtain xs where a: "addStackToInventory E (Inventory p) (get_slot p r) = (xs, True)" by (metis prod.collapse)
    have "bare (put_slot (p\<lparr>Inventory := xs\<rparr>) r no_item) = put_slot (bare (p\<lparr>Inventory := xs\<rparr>)) r no_item"
      by (rule bare_put) (use assms in \<open>simp add: o\<close>)
    then show ?thesis by (simp add: move_to_inventory_def bare_get [OF assms] a)
  next
    case False
    then show ?thesis by (auto simp: move_to_inventory_def bare_get [OF assms] split_beta)
  qed
qed

lemma store_kept:
  assumes "env_ok E" "player_ok p" "i < length (Inventory p)" "\<not> IsEmpty (Inventory p ! i)"
    and "\<And>j. j \<in> set is \<Longrightarrow> j < length (ContainerSlots p)"
    and "add_stack E (MaxStackSize E (ItemID (Inventory p ! i))) is (ContainerSlots p) (Inventory p ! i) = (slots, True)"
  shows "kept E p (put_slot (p\<lparr>ContainerSlots := slots\<rparr>) (InInventory i) no_item)"
proof -
  have ok: "slots_ok (ContainerSlots p)" "slots_ok (Inventory p)" using assms(2) by (simp_all add: player_ok_def)
  note A = add_stack_correct [OF assms(4) MaxStackSize_pos [OF assms(1)] ok(1) assms(5,6)]
  have "slot_ok (Inventory p ! i)" using ok(2) assms(3) by (rule slots_ok_nth)
  then have "holdings E k (put_slot (p\<lparr>ContainerSlots := slots\<rparr>) (InInventory i) no_item) = holdings E k p" for k
    using A(3) [OF _ TrueI, of k] assms(3) by (simp add: holdings_def total_update)
  then show ?thesis
    using A(1,2) assms(2) ok by (simp add: kept_def player_ok_def same_screen_def slots_ok_update)
qed

lemma shiftWorkstationSlot_kept:
  assumes "env_ok (shop_items M)" "player_ok (bare p)"
  shows "kept (shop_items M) (bare p) (bare (shiftWorkstationSlot M p slot))"
proof (cases "workstationContainerSlot p slot")
  case None
  then show ?thesis using assms by (simp add: shiftWorkstationSlot_def)
next
  case (Some ri)
  obtain r index where ri: "ri = (r, index)" by fastforce
  note S = Some [unfolded ri] and R = ws_ref [OF assms(2) Some [unfolded ri]]
  let ?E = "shop_items M" and ?kind = "OpenContainerKind p"
  show ?thesis
  proof (cases "IsEmpty (get_slot p r) \<or> WorkstationOutputIndex ?kind \<ge> 0 \<and> index = WorkstationOutputIndex ?kind")
    case True
    then show ?thesis using assms S by (auto simp: shiftWorkstationSlot_def Let_def)
  next
    case False
    then have no: "\<And>i. output_of p = Some i \<Longrightarrow> r \<noteq> InContainer i" using not_output [OF assms(2) S] by blast
    show ?thesis
    proof (cases "index \<ge> 0")
      case True
      then have "r = InContainer (nat index)" using R(2) by simp
      then have "kept ?E (bare p) (move_to_inventory ?E (bare p) r)"
        using move_to_inventory_kept [OF assms, of r] R(1) by simp
      moreover have "shiftWorkstationSlot M p slot = move_to_inventory ?E p r"
        using S False True by (auto simp: shiftWorkstationSlot_def Let_def)
      ultimately show ?thesis by (simp add: move_bare [OF no])
    next
      case neg: False
      then obtain i where r: "r = InInventory i" using R(3) by auto
      let ?item = "Inventory p ! i" and ?is = "input_indices M ?kind (Inventory p ! i) (length (ContainerSlots p))"
      obtain slots placed where a: "add_stack ?E (MaxStackSize ?E (ItemID ?item)) ?is (ContainerSlots p) ?item = (slots, placed)"
        by fastforce
      let ?q = "p\<lparr>ContainerSlots := slots, Inventory := (Inventory p)[i := no_item]\<rparr>"
      have run: "shiftWorkstationSlot M p slot = (if placed then ?q else p)"
        using S False neg a by (auto simp: shiftWorkstationSlot_def Let_def r)
      have i: "i < length (Inventory p)" using R(1) r by simp
      have len: "length slots = length (ContainerSlots p)"
        using add_length [of ?E "MaxStackSize ?E (ItemID ?item)" ?is "ContainerSlots p" ?item] by (simp add: a)
      have "kept ?E (bare p) (bare ?q)" if placed
      proof -
        have "add_stack ?E (MaxStackSize ?E (ItemID ?item)) ?is (ContainerSlots (bare p)) ?item = (ContainerSlots (bare ?q), True)"
        proof (cases "output_of p")
          case None
          then have "output_of ?q = None" using len by (simp add: output_of_def Let_def split: if_splits)
          then show ?thesis using a that None by (simp add: bare_def)
        next
          case (Some out)
          then have o: "output_of ?q = Some out" using len by (simp add: output_of_def Let_def split: if_splits)
          have "out \<notin> set ?is" using Some by (auto simp: input_indices_def output_of_def Let_def split: if_splits)
          then show ?thesis using a that by (simp add: bare_def o Some add_stack_other)
        qed
        moreover have "bare ?q = put_slot ((bare p)\<lparr>ContainerSlots := ContainerSlots (bare ?q)\<rparr>) (InInventory i) no_item"
        proof -
          have "output_of ?q = output_of p" using len by (simp add: output_of_def Let_def)
          then show ?thesis by (simp add: bare_def split: option.splits)
        qed
        ultimately show ?thesis
          using store_kept [OF assms, of i ?is "ContainerSlots (bare ?q)"] i False r
          by (auto simp: input_indices_def)
      qed
      then show ?thesis using assms(2) run by simp
    qed
  qed
qed

section \<open>What an operation takes and gives\<close>

text \<open>The catalogue names no empty item as a smithing ingredient.\<close>

definition shop_ok :: "shop \<Rightarrow> bool" where
  "shop_ok M \<longleftrightarrow> env_ok (shop_items M) \<and>
     list_all (\<lambda>(ingredients, _). list_all (\<lambda>ids. [] \<notin> set ids) ingredients) (smithing_recipes M)"

lemma tagged_nonempty:
  assumes "env_ok E" "HasTag (registry E) i t"
  shows "i \<noteq> []"
proof
  assume e: "i = []"
  obtain d where "Lookup (registry E) i = Some d"
    using assms by (auto simp: env_ok_def registry_ok_def Lookup_def)
  then have "def_id d = i" "valid_definition d" using assms(1) by (auto simp: env_ok_def registry_ok_def Lookup_def)
  then show False using e by (simp add: valid_definition_def validateDefinition_def)
qed

lemma durability_nonneg: "env_ok E \<Longrightarrow> 0 \<le> MaxDurability E i"
  by (auto simp: env_ok_def MaxDurability_def registry_ok_durability split: option.splits)

text \<open>Operations without a result take nothing; others take at most one item of each input, at least one
  in all, and only from inputs that are there.\<close>

definition fair :: "item_stack list \<Rightarrow> operation \<Rightarrow> bool" where
  "fair inputs r \<longleftrightarrow>
     r = no_operation \<or>
     \<not> IsEmpty (op_result r) \<and> 1 \<in> set (op_consume r) \<and> length (op_consume r) \<le> length inputs \<and>
     (\<forall>i < length (op_consume r). op_consume r ! i = 0 \<or> op_consume r ! i = 1 \<and> \<not> IsEmpty (inputs ! i))"

lemma fair_no_operation [simp]: "fair inputs no_operation"
  by (simp add: fair_def)

lemma less_2: "(\<forall>i < Suc (Suc 0). P i) \<longleftrightarrow> P 0 \<and> P (Suc 0)"
  by (auto simp: less_Suc_eq)

lemma fair_pair:
  assumes "\<not> IsEmpty result" "\<not> IsEmpty (inputs ! 0)" "\<not> IsEmpty (inputs ! Suc 0)" "2 \<le> length inputs"
  shows "fair inputs \<lparr>op_result = result, op_consume = [1, 1], op_xp = xp, op_cost = cost\<rparr>"
  using assms by (simp add: fair_def less_2)

lemma enchant_nonempty: "ItemID (fst (Enchant s i l)) = ItemID s" "Count (fst (Enchant s i l)) = Count s"
    "Damage (fst (Enchant s i l)) = Damage s" "Components (fst (Enchant s i l)) = Components s"
  by (auto simp: Enchant_def Let_def split: option.splits)

lemma merge_enchantment_same:
  "ItemID (fst (merge_enchantment E el a)) = ItemID (fst a)" "Count (fst (merge_enchantment E el a)) = Count (fst a)"
  "Damage (fst (merge_enchantment E el a)) = Damage (fst a)"
  "Components (fst (merge_enchantment E el a)) = Components (fst a)"
  by (cases a; simp add: merge_enchantment_def enchant_nonempty split_beta Let_def split: option.splits)+

lemma fold_merge_same:
  "ItemID (fst (fold (merge_enchantment E) els a)) = ItemID (fst a)"
  "Count (fst (fold (merge_enchantment E) els a)) = Count (fst a)"
  "Damage (fst (fold (merge_enchantment E) els a)) = Damage (fst a)"
  "Components (fst (fold (merge_enchantment E) els a)) = Components (fst a)"
  by (induction els arbitrary: a) (simp_all add: merge_enchantment_same)

lemma merge_same [simp]:
  "ItemID (fst (mergeEnchantments E s src)) = ItemID s" "Count (fst (mergeEnchantments E s src)) = Count s"
  "Damage (fst (mergeEnchantments E s src)) = Damage s" "Components (fst (mergeEnchantments E s src)) = Components s"
  by (simp_all add: mergeEnchantments_def fold_merge_same)

lemma keep_name_same [simp]:
  "ItemID (keep_name M name s) = ItemID s" "Count (keep_name M name s) = Count s" "Damage (keep_name M name s) = Damage s"
  "Enchantments (keep_name M name s) = Enchantments s"
  by (simp_all add: keep_name_def set_name_def)

lemma repaired_fields [simp]: "ItemID (repairedStack E a b n) = ItemID a" "Count (repairedStack E a b n) = 1"
  by (simp_all add: repairedStack_def Let_def)

lemma one_item [simp]: "IsEmpty s \<longleftrightarrow> ItemID s = []" if "Count s = 1"
  using that by (simp add: IsEmpty_def)

lemma anvil_fair:
  assumes "length slots = 3"
  shows "fair slots (anvilOperation M slots)"
proof -
  let ?E = "shop_items M" and ?left = "slots ! 0" and ?right = "slots ! Suc 0"
  have pair: "fair slots \<lparr>op_result = s, op_consume = [1, 1], op_xp = 0, op_cost = cost\<rparr>"
    if "\<not> IsEmpty ?left" "\<not> IsEmpty ?right" "ItemID s = ItemID ?left" "Count s = 1" for s cost
    using that assms by (intro fair_pair) (auto simp: IsEmpty_def)
  have one: "fair slots \<lparr>op_result = ?left\<lparr>Count := 1\<rparr>, op_consume = [1, 0], op_xp = 0, op_cost = 1\<rparr>" if "\<not> IsEmpty ?left"
    using that assms by (auto simp: fair_def less_2 IsEmpty_def)
  show ?thesis
    unfolding anvilOperation_def Let_def One_nat_def [symmetric]
    using pair one by (auto simp: split_beta)
qed

lemma empty_id: "ItemID s = [] \<Longrightarrow> IsEmpty s"
  by (simp add: IsEmpty_def)

lemma strip_same [simp]: "ItemID (fst (grindstoneStrip s)) = ItemID s"
  by (simp add: grindstoneStrip_def)

lemma grindstone_fair:
  assumes "length slots = 3"
  shows "fair slots (grindstoneOperation E slots)"
proof -
  have "fair slots \<lparr>op_result = (fst (grindstoneStrip (slots ! 0)))\<lparr>Count := 1\<rparr>, op_consume = [1, 0], op_xp = xp, op_cost = 0\<rparr>"
    if "\<not> IsEmpty (slots ! 0)" for xp
    using that assms by (auto simp: fair_def less_Suc_eq IsEmpty_def)
  moreover have "fair slots \<lparr>op_result = (fst (grindstoneStrip (slots ! Suc 0)))\<lparr>Count := 1\<rparr>, op_consume = [0, 1], op_xp = xp, op_cost = 0\<rparr>"
    if "\<not> IsEmpty (slots ! Suc 0)" for xp
    using that assms by (auto simp: fair_def less_Suc_eq IsEmpty_def)
  ultimately show ?thesis
    using assms by (auto simp: grindstoneOperation_def Let_def split_beta empty_id intro!: fair_pair)
qed

lemma loom_fair:
  assumes "env_ok E" "slots_ok slots" "length slots = 4"
  shows "fair slots (loomOperation E slots)"
proof (cases "HasTag (registry E) (ItemID (slots ! 0)) ''minecraft:banners'' \<and> HasTag (registry E) (ItemID (slots ! 1)) ''gocraft:dyes''")
  case True
  then have ids: "ItemID (slots ! 0) \<noteq> []" "ItemID (slots ! 1) \<noteq> []" using tagged_nonempty [OF assms(1)] by blast+
  have "slot_ok (slots ! 0)" "slot_ok (slots ! 1)" using slots_ok_nth [OF assms(2)] assms(3) by auto
  then have "\<not> IsEmpty (slots ! 0)" "\<not> IsEmpty (slots ! 1)" using ids by (auto simp: slot_ok_def)
  then show ?thesis using True assms(3) ids by (auto simp: loomOperation_def fair_def less_Suc_eq numeral_2_eq_2)
qed (auto simp: loomOperation_def)

lemma id_present: "slot_ok s \<Longrightarrow> ItemID s \<noteq> [] \<Longrightarrow> \<not> IsEmpty s"
  by (auto simp: slot_ok_def)

lemma smithing_result:
  assumes "shop_ok M" "smithingTransform M a b c = Some r"
  shows "a \<noteq> [] \<and> b \<noteq> [] \<and> c \<noteq> [] \<and> r \<noteq> []"
proof -
  have "((a, b, c), r) \<in> set (smithing_table M)"
    using assms(2) by (auto simp: smithingTransform_def dest: map_of_SomeD)
  then obtain ingredients result where i: "(ingredients, result) \<in> set (smithing_recipes M)"
      "\<not> IsEmpty result" "r = ItemID result" "a \<in> set (ingredients ! 0)" "b \<in> set (ingredients ! 1)" "c \<in> set (ingredients ! 2)"
    by (auto simp: smithing_table_def split: if_splits)
  have l: "length ingredients = 3" using i(1) by (auto simp: smithing_recipes_def)
  have "list_all (\<lambda>ids. [] \<notin> set ids) ingredients" using assms(1) i(1) by (fastforce simp: shop_ok_def list_all_iff)
  then have "[] \<notin> set (ingredients ! j)" if "j < 3" for j using that l by (simp add: list_all_length)
  then show ?thesis using i by (auto simp: IsEmpty_def)
qed

lemma smithing_fair:
  assumes "shop_ok M" "slots_ok slots" "length slots = 4"
  shows "fair slots (smithingOperation M slots)"
proof (cases "smithingTransform M (ItemID (slots ! 0)) (ItemID (slots ! 1)) (ItemID (slots ! 2))")
  case (Some r)
  have "slot_ok (slots ! i)" if "i < 4" for i using slots_ok_nth [OF assms(2)] assms(3) that by auto
  then have "\<not> IsEmpty (slots ! 0)" "\<not> IsEmpty (slots ! Suc 0)" "\<not> IsEmpty (slots ! Suc (Suc 0))"
    using smithing_result [OF assms(1) Some] id_present [of "slots ! 0"] id_present [of "slots ! 1"] id_present [of "slots ! 2"]
    by (simp_all add: numeral_2_eq_2)
  then show ?thesis
    using smithing_result [OF assms(1) Some] assms(3) Some
    by (auto simp: smithingOperation_def fair_def less_Suc_eq IsEmpty_def)
qed (simp add: smithingOperation_def)

lemma stonecutter_fair: "length slots = 2 \<Longrightarrow> fair slots (stonecutterOperation M slots selection)"
  by (auto simp: stonecutterOperation_def Let_def fair_def)

lemma cartography_fair:
  assumes "slots_ok slots" "length slots = 3"
  shows "fair slots (cartographyOperation slots)"
proof -
  have "slot_ok (slots ! 0)" using slots_ok_nth [OF assms(1)] assms(2) by auto
  then have "\<not> IsEmpty (slots ! 0)" if "ItemID (slots ! 0) = ''minecraft:filled_map''" using that by (auto simp: slot_ok_def)
  then show ?thesis using assms(2) by (auto simp: cartographyOperation_def intro!: fair_pair)
qed

lemma operation_fair:
  assumes "shop_ok M" "slots_ok slots"
  shows "fair slots (workstationOperationFor M kind slots selection)"
proof -
  have env: "env_ok (shop_items M)" using assms(1) by (simp add: shop_ok_def)
  show ?thesis
    using anvil_fair [of slots M] grindstone_fair [of slots "shop_items M"] loom_fair [OF env assms(2)]
      smithing_fair [OF assms] stonecutter_fair [of slots M selection] cartography_fair [OF assms(2)]
    by (auto simp: workstationOperationFor_def WorkstationSlotCount_def IsWorkstation_def anvils_def)
qed

lemma operation_ok:
  assumes "shop_ok M" "slots_ok slots"
  shows "slot_ok (op_result (workstationOperationFor M kind slots selection))"
  using operation_fair [OF assms, of kind selection] by (auto simp: fair_def no_operation_def)

section \<open>Taking the output\<close>

lemma output_at:
  "kind \<in> set anvils \<Longrightarrow> WorkstationOutputIndex kind = 2"
  "WorkstationOutputIndex ''minecraft:grindstone'' = 2" "WorkstationOutputIndex ''minecraft:loom'' = 3"
  "WorkstationOutputIndex ''minecraft:smithing_table'' = 3" "WorkstationOutputIndex ''minecraft:stonecutter'' = 1"
  "WorkstationOutputIndex ''minecraft:cartography_table'' = 2"
  by (auto simp: WorkstationOutputIndex_def IsWorkstation_def anvils_def)

lemma slots_at:
  "kind \<in> set anvils \<Longrightarrow> WorkstationSlotCount kind = 3"
  "WorkstationSlotCount ''minecraft:grindstone'' = 3" "WorkstationSlotCount ''minecraft:loom'' = 4"
  "WorkstationSlotCount ''minecraft:smithing_table'' = 4" "WorkstationSlotCount ''minecraft:stonecutter'' = 2"
  "WorkstationSlotCount ''minecraft:cartography_table'' = 3"
  by (auto simp: WorkstationSlotCount_def IsWorkstation_def anvils_def)

lemma operation_inputs:
  assumes "WorkstationOutputIndex kind = int i"
  shows "workstationOperationFor M kind (slots[i := x]) selection = workstationOperationFor M kind slots selection"
proof -
  let ?ss = "slots[i := x]"
  have n: "1 \<le> i \<Longrightarrow> ?ss ! 0 = slots ! 0" "2 \<le> i \<Longrightarrow> ?ss ! 1 = slots ! 1" "3 \<le> i \<Longrightarrow> ?ss ! 2 = slots ! 2" by simp_all
  have ops: "anvilOperation M ?ss = anvilOperation M slots" "cartographyOperation ?ss = cartographyOperation slots"
    "grindstoneOperation (shop_items M) ?ss = grindstoneOperation (shop_items M) slots" if "i = 2"
      proof -
    have "?ss ! 0 = slots ! 0" "?ss ! 1 = slots ! 1" using n that by simp_all
    then show "anvilOperation M ?ss = anvilOperation M slots" "cartographyOperation ?ss = cartographyOperation slots"
      "grindstoneOperation (shop_items M) ?ss = grindstoneOperation (shop_items M) slots"
      by (simp_all only: anvilOperation_def grindstoneOperation_def cartographyOperation_def)
  qed
  have ops': "loomOperation (shop_items M) ?ss = loomOperation (shop_items M) slots"
    "smithingOperation M ?ss = smithingOperation M slots" if "i = 3"
  proof -
    have "?ss ! 0 = slots ! 0" "?ss ! 1 = slots ! 1" "?ss ! 2 = slots ! 2" using n that by simp_all
    then show "loomOperation (shop_items M) ?ss = loomOperation (shop_items M) slots"
      "smithingOperation M ?ss = smithingOperation M slots" by (simp_all only: loomOperation_def smithingOperation_def)
  qed
  have "stonecutterOperation M ?ss selection = stonecutterOperation M slots selection" if "i = 1"
    using n(1) that by (simp add: stonecutterOperation_def)
  note ops = ops ops' this
  have "kind \<in> set anvils \<Longrightarrow> anvilOperation M ?ss = anvilOperation M slots"
    "kind = ''minecraft:grindstone'' \<Longrightarrow> grindstoneOperation (shop_items M) ?ss = grindstoneOperation (shop_items M) slots"
    "kind = ''minecraft:loom'' \<Longrightarrow> loomOperation (shop_items M) ?ss = loomOperation (shop_items M) slots"
    "kind = ''minecraft:smithing_table'' \<Longrightarrow> smithingOperation M ?ss = smithingOperation M slots"
    "kind = ''minecraft:stonecutter'' \<Longrightarrow> stonecutterOperation M ?ss selection = stonecutterOperation M slots selection"
    "kind = ''minecraft:cartography_table'' \<Longrightarrow> cartographyOperation ?ss = cartographyOperation slots"
    using output_at assms ops by auto
  then show ?thesis unfolding workstationOperationFor_def length_list_update by (intro if_cong refl)
qed

lemma consume_before_output:
  assumes "workstationOperationFor M kind slots selection \<noteq> no_operation" "WorkstationOutputIndex kind = int i"
  shows "length (op_consume (workstationOperationFor M kind slots selection)) \<le> i"
proof -
  have "length (op_consume (anvilOperation M slots)) \<le> 2" "length (op_consume (grindstoneOperation (shop_items M) slots)) \<le> 2"
    "length (op_consume (loomOperation (shop_items M) slots)) \<le> 3" "length (op_consume (smithingOperation M slots)) \<le> 3"
    "length (op_consume (stonecutterOperation M slots selection)) \<le> 1" "length (op_consume (cartographyOperation slots)) \<le> 2"
    by (auto simp: anvilOperation_def grindstoneOperation_def loomOperation_def smithingOperation_def no_operation_def
        stonecutterOperation_def cartographyOperation_def Let_def split_beta split: option.split)
  note lens = this
  have outs: "kind \<in> set anvils \<Longrightarrow> i = 2" "kind = ''minecraft:grindstone'' \<Longrightarrow> i = 2" "kind = ''minecraft:loom'' \<Longrightarrow> i = 3"
    "kind = ''minecraft:smithing_table'' \<Longrightarrow> i = 3" "kind = ''minecraft:stonecutter'' \<Longrightarrow> i = 1"
    "kind = ''minecraft:cartography_table'' \<Longrightarrow> i = 2"
    using output_at assms by auto
  show ?thesis
    unfolding workstationOperationFor_def using lens outs by (simp add: no_operation_def)
qed

text \<open>How many items of a kind the inputs lose.\<close>

definition taken :: "item_env \<Rightarrow> item_key \<Rightarrow> int list \<Rightarrow> item_stack list \<Rightarrow> int" where
  "taken E k counts slots = (\<Sum>i < length counts. if item_key E (slots ! i) = k then counts ! i else 0)"

lemma consume_snoc: "consume_inputs (counts @ [c]) slots = consume_slot (consume_inputs counts slots) (length counts, c)"
  by (simp add: consume_inputs_def)

lemma consume_slot_length [simp]: "length (consume_slot slots ic) = length slots"
  by (simp add: consume_slot_def split_beta)

lemma consume_length [simp]: "length (consume_inputs counts slots) = length slots"
  by (induction counts rule: rev_induct) (simp_all add: consume_snoc, simp add: consume_inputs_def)

lemma consume_other: "length counts \<le> i \<Longrightarrow> consume_inputs counts slots ! i = slots ! i"
proof (induction counts rule: rev_induct)
  case (snoc c counts)
  then show ?case by (simp add: consume_snoc consume_slot_def)
qed (simp add: consume_inputs_def)

lemma consume_exact:
  assumes "slots_ok slots" "length counts \<le> length slots"
    and "\<And>i. i < length counts \<Longrightarrow> counts ! i = 0 \<or> counts ! i = 1 \<and> \<not> IsEmpty (slots ! i)"
  shows "slots_ok (consume_inputs counts slots) \<and> total E k (consume_inputs counts slots) = total E k slots - taken E k counts slots"
  using assms
proof (induction counts rule: rev_induct)
  case (snoc c counts)
  let ?mid = "consume_inputs counts slots" and ?n = "length counts"
  have prem: "counts ! i = 0 \<or> counts ! i = 1 \<and> \<not> IsEmpty (slots ! i)" if "i < ?n" for i
    using snoc.prems(3) [of i] that by (simp add: nth_append)
  have IH: "slots_ok ?mid" "total E k ?mid = total E k slots - taken E k counts slots"
    using snoc.IH [OF snoc.prems(1) _ prem] snoc.prems(2) by auto
  have n: "?mid ! ?n = slots ! ?n" by (simp add: consume_other)
  have t: "taken E k (counts @ [c]) slots = taken E k counts slots + (if item_key E (slots ! ?n) = k then c else 0)"
    by (auto simp: taken_def nth_append intro!: sum.cong)
  consider "c = 0" | "c = 1" "\<not> IsEmpty (slots ! ?n)" using snoc.prems(3) [of ?n] by auto
  then show ?case
  proof cases
    case 1
    then show ?thesis unfolding t consume_snoc using IH by (simp add: consume_slot_def)
  next
    case 2
    then have pos: "1 \<le> Count (slots ! ?n)" "ItemID (slots ! ?n) \<noteq> []" by (simp_all add: IsEmpty_def)
    have run: "consume_inputs (counts @ [c]) slots = ?mid[?n := normalizeStack ((slots ! ?n)\<lparr>Count := Count (slots ! ?n) - 1\<rparr>)]"
      using 2 pos snoc.prems(2) by (simp add: consume_snoc consume_slot_def n)
    show ?thesis unfolding run t
      using IH pos snoc.prems(2) 2
      by (simp add: total_update n slots_ok_update amount_normalize amount_nonempty)
  qed
qed (simp add: consume_inputs_def taken_def)

text \<open>The number of items in the inputs: what makes the shift click end.\<close>

definition stock :: "item_stack list \<Rightarrow> int" where
  "stock slots = sum_list (map (\<lambda>s. max 0 (Count s)) slots)"

lemma stock_update: "i < length slots \<Longrightarrow> stock (slots[i := s]) = stock slots - max 0 (Count (slots ! i)) + max 0 (Count s)"
  unfolding stock_def by (rule sum_list_update)

lemma stock_nonneg: "0 \<le> stock slots"
  by (auto simp: stock_def intro!: sum_list_nonneg)

lemma consume_slot_stock:
  assumes "c = 0 \<or> c = 1 \<and> \<not> IsEmpty (slots ! i)" "i < length slots"
  shows "stock (consume_slot slots (i, c)) = stock slots - c"
  using assms by (auto simp: consume_slot_def stock_update normalizeStack_def IsEmpty_def)

lemma consume_stock:
  assumes "length counts \<le> length slots" "\<And>i. i < length counts \<Longrightarrow> counts ! i = 0 \<or> counts ! i = 1 \<and> \<not> IsEmpty (slots ! i)"
  shows "stock (consume_inputs counts slots) = stock slots - sum_list counts"
  using assms
proof (induction counts rule: rev_induct)
  case (snoc c counts)
  have prem: "counts ! i = 0 \<or> counts ! i = 1 \<and> \<not> IsEmpty (slots ! i)" if "i < length counts" for i
    using snoc.prems(2) [of i] that by (simp add: nth_append)
  have "c = 0 \<or> c = 1 \<and> \<not> IsEmpty (consume_inputs counts slots ! length counts)"
    using snoc.prems(2) [of "length counts"] by (simp add: consume_other)
  then show ?case
    using snoc.IH [OF _ prem] snoc.prems(1) consume_slot_stock [of c "consume_inputs counts slots" "length counts"]
    by (simp add: consume_snoc)
qed (simp add: consume_inputs_def)

section \<open>The state of a screen\<close>

text \<open>An open screen: its slots and the player in order, the output aside, which is derived.\<close>

definition station_ok :: "station \<Rightarrow> bool" where
  "station_ok s \<longleftrightarrow> IsWorkstation (kind_of s) \<and> length (slots_of s) = WorkstationSlotCount (kind_of s) \<and> player_ok (bare (Holder s))"

text \<open>The output slot shows what the inputs give.\<close>

definition shown :: "shop \<Rightarrow> station \<Rightarrow> bool" where
  "shown M s \<longleftrightarrow>
     (\<forall>i. output_of (Holder s) = Some i \<longrightarrow>
        slots_of s ! i = op_result (workstationOperationFor M (kind_of s) (slots_of s) (WorkstationSelection s)))"

lemma output_index: "output_of p = Some i \<Longrightarrow> WorkstationOutputIndex (OpenContainerKind p) = int i"
  by (auto simp: output_of_def Let_def split: if_splits)

lemma set_slots_fields [simp]:
  "slots_of (set_slots s xs) = xs" "kind_of (set_slots s xs) = kind_of s" "WorkstationSelection (set_slots s xs) = WorkstationSelection s"
  "PendingWorkstationXP (set_slots s xs) = PendingWorkstationXP s"
  "Inventory (Holder (set_slots s xs)) = Inventory (Holder s)" "CarriedItem (Holder (set_slots s xs)) = CarriedItem (Holder s)"
  "CraftingGrid (Holder (set_slots s xs)) = CraftingGrid (Holder s)"
  by (simp_all add: set_slots_def)

lemma update_slots:
  "UpdateWorkstationResult M (kind_of s) (slots_of s) selection =
     (case output_of (Holder s) of None \<Rightarrow> slots_of s
      | Some i \<Rightarrow> (slots_of s)[i := op_result (workstationOperationFor M (kind_of s) (slots_of s) selection)])"
  by (auto simp: UpdateWorkstationResult_def output_of_def Let_def)

lemma update_result_length [simp]: "length (UpdateWorkstationResult M kind slots selection) = length slots"
  by (simp add: UpdateWorkstationResult_def Let_def)

lemma recompute_slots:
  "slots_of (recompute M s) =
     (case output_of (Holder s) of None \<Rightarrow> slots_of s
      | Some i \<Rightarrow> (slots_of s)[i := op_result (workstationOperationFor M (kind_of s) (slots_of s) (WorkstationSelection s))])"
  by (simp add: recompute_def update_slots)

lemma recompute_fields [simp]:
  "kind_of (recompute M s) = kind_of s" "WorkstationSelection (recompute M s) = WorkstationSelection s"
  "PendingWorkstationXP (recompute M s) = PendingWorkstationXP s" "Inventory (Holder (recompute M s)) = Inventory (Holder s)"
  "CarriedItem (Holder (recompute M s)) = CarriedItem (Holder s)" "length (slots_of (recompute M s)) = length (slots_of s)"
  by (auto simp: recompute_def update_slots split: option.splits)

lemma recompute_output [simp]: "output_of (Holder (recompute M s)) = output_of (Holder s)"
  unfolding output_of_def recompute_fields ..

lemma recompute_bare [simp]: "bare (Holder (recompute M s)) = bare (Holder s)"
proof -
  have "bare (Holder (set_slots s xs)) = bare (Holder s)"
    if "xs = (case output_of (Holder s) of None \<Rightarrow> slots_of s | Some i \<Rightarrow> (slots_of s)[i := x])" for xs x
  proof -
    have "output_of (Holder (set_slots s xs)) = output_of (Holder s)"
      using that by (auto simp: output_of_def set_slots_def Let_def split: option.splits)
    then show ?thesis using that by (simp add: bare_def set_slots_def split: option.splits)
  qed
  then show ?thesis by (simp add: recompute_def update_slots)
qed

lemma recompute_shown: "shown M (recompute M s)"
  using output_bound by (auto simp: shown_def recompute_slots operation_inputs [OF output_index] split: option.splits)

lemma recompute_ok [simp]: "station_ok (recompute M s) = station_ok s"
  by (simp add: station_ok_def)

lemma touch_fields [simp]:
  "bare (Holder (touch s)) = refresh (bare (Holder s))" "shown M (touch s) = shown M s" "station_ok (touch s) = station_ok s"
  "holdings E k (refresh p) = holdings E k p" "PendingWorkstationXP (touch s) = PendingWorkstationXP s"
  "kind_of (touch s) = kind_of s" "slots_of (touch s) = slots_of s" "WorkstationSelection (touch s) = WorkstationSelection s"
proof -
  have o: "output_of (refresh p) = output_of p" for p by (simp add: output_of_def refresh_def)
  have b: "bare (refresh p) = refresh (bare p)" for p by (simp add: bare_def o) (simp add: refresh_def split: option.split)
  show "bare (Holder (touch s)) = refresh (bare (Holder s))" by (simp add: touch_def b)
  show "shown M (touch s) = shown M s" by (simp add: shown_def touch_def o) (simp add: refresh_def)
  show "holdings E k (refresh p) = holdings E k p" by (simp add: holdings_def refresh_def)
  show "station_ok (touch s) = station_ok s" by (simp add: station_ok_def touch_def b) (simp add: refresh_def player_ok_def)
qed (simp_all add: touch_def refresh_def)

text \<open>The inputs decide the operation, and it is fair on them.\<close>

definition offer :: "shop \<Rightarrow> station \<Rightarrow> operation" where
  "offer M s = workstationOperationFor M (kind_of s) (slots_of s) (WorkstationSelection s)"

lemma offer_bare: "offer M s = workstationOperationFor M (kind_of s) (ContainerSlots (bare (Holder s))) (WorkstationSelection s)"
  by (auto simp: offer_def bare_def operation_inputs [OF output_index] split: option.splits)

lemma offer_fair:
  assumes "shop_ok M" "station_ok s"
  shows "fair (ContainerSlots (bare (Holder s))) (offer M s)" "slot_ok (op_result (offer M s))"
proof -
  have "slots_ok (ContainerSlots (bare (Holder s)))" using assms(2) by (simp add: station_ok_def player_ok_def)
  then show "fair (ContainerSlots (bare (Holder s))) (offer M s)" "slot_ok (op_result (offer M s))"
    unfolding offer_bare using operation_fair [OF assms(1)] operation_ok [OF assms(1)] by blast+
qed

lemma shown_offer: "shown M s \<Longrightarrow> output_of (Holder s) = Some i \<Longrightarrow> slots_of s ! i = op_result (offer M s)"
  by (simp add: shown_def offer_def)

text \<open>Taking: the inputs lose what the operation takes, and the next output is shown.\<close>

lemma take_step:
  assumes "shop_ok M" "station_ok s" "output_of (Holder s) = Some out"
    and t: "TakeWorkstationResult M (kind_of s) (slots_of s) (WorkstationSelection s) = Some (slots, result, xp)"
  defines "s' \<equiv> set_slots s slots"
  shows "result = op_result (offer M s)" "xp = op_xp (offer M s)" "\<not> IsEmpty result" "shown M s'" "station_ok s'"
    "total (shop_items M) k (ContainerSlots (bare (Holder s'))) =
       total (shop_items M) k (ContainerSlots (bare (Holder s))) - taken (shop_items M) k (op_consume (offer M s)) (ContainerSlots (bare (Holder s)))"
    "stock (ContainerSlots (bare (Holder s'))) < stock (ContainerSlots (bare (Holder s)))"
proof -
  let ?E = "shop_items M" and ?op = "offer M s" and ?old = "ContainerSlots (bare (Holder s))"
  let ?mid = "consume_inputs (op_consume ?op) (slots_of s)"
  have res: "result = op_result ?op" "xp = op_xp ?op" "\<not> IsEmpty (op_result ?op)"
    and sl: "slots = UpdateWorkstationResult M (kind_of s) ?mid (WorkstationSelection s)"
    using t by (auto simp: TakeWorkstationResult_def Let_def offer_def split: if_splits)
  show "result = op_result ?op" "xp = op_xp ?op" "\<not> IsEmpty result" using res by simp_all
  have s': "s' = recompute M (set_slots s ?mid)" by (simp add: s'_def sl recompute_def) (simp add: set_slots_def)
  have o: "output_of (Holder (set_slots s ?mid)) = Some out"
    using assms(3) by (simp add: output_of_def set_slots_def Let_def)
  note F = offer_fair(1) [OF assms(1,2)]
  have nop: "?op \<noteq> no_operation" using res(3) by (auto simp: no_operation_def)
  have len: "length (op_consume ?op) \<le> out"
    using consume_before_output [OF _ output_index [OF assms(3)]] nop by (simp add: offer_def)
  have ol: "out < length (slots_of s)" by (rule output_bound [OF assms(3)])
  have old: "?old = (slots_of s)[out := no_item]" by (simp add: bare_def assms(3))
  have counts: "op_consume ?op ! i = 0 \<or> op_consume ?op ! i = 1 \<and> \<not> IsEmpty (?old ! i)" if "i < length (op_consume ?op)" for i
    using F that nop by (simp add: fair_def)
  have mid: "(?mid)[out := no_item] = consume_inputs (op_consume ?op) ?old"
  proof -
    have "consume_inputs cs (xs[out := y]) = (consume_inputs cs xs)[out := y]" if "length cs \<le> out" for cs xs y
      using that by (induction cs rule: rev_induct) (auto simp: consume_snoc consume_slot_def list_update_swap, auto simp: consume_inputs_def)
    from this [OF len] show ?thesis by (simp add: old)
  qed
  have bs: "bare (Holder s') = (bare (Holder s))\<lparr>ContainerSlots := consume_inputs (op_consume ?op) ?old\<rparr>"
    unfolding s' recompute_bare using mid [unfolded old] by (simp add: bare_def o assms(3)) (simp add: set_slots_def)
  have ok: "slots_ok ?old" using assms(2) by (simp add: station_ok_def player_ok_def)
  have leno: "length (op_consume ?op) \<le> length ?old" using len ol by (simp add: old)
  note C = consume_exact [OF ok leno counts]
  show "shown M s'" unfolding s' by (rule recompute_shown)
  show "station_ok s'"
    using C assms(2) unfolding station_ok_def bs by (simp add: player_ok_def s'_def sl)
  show "total ?E k (ContainerSlots (bare (Holder s'))) = total ?E k ?old - taken ?E k (op_consume ?op) ?old"
    using C by (simp add: bs)
  have "sum_list (op_consume ?op) > 0"
  proof -
    have "1 \<in> set (op_consume ?op)" "\<forall>c \<in> set (op_consume ?op). 0 \<le> c"
      using F nop by (auto simp: fair_def in_set_conv_nth) fastforce
    then show ?thesis using member_le_sum_list [of 1 "op_consume ?op"] by fastforce
  qed
  then show "stock (ContainerSlots (bare (Holder s'))) < stock ?old"
    using consume_stock [OF leno counts] by (simp add: bs)
qed

text \<open>A deal: an operation made on some inputs, and what it changes in the amount of a kind.\<close>

definition deal :: "shop \<Rightarrow> string \<Rightarrow> int \<Rightarrow> operation \<times> item_stack list \<Rightarrow> bool" where
  "deal M kind selection = (\<lambda>(op, inputs).
     op = workstationOperationFor M kind inputs selection \<and> \<not> IsEmpty (op_result op) \<and> fair inputs op)"

definition gain :: "item_env \<Rightarrow> item_key \<Rightarrow> operation \<times> item_stack list \<Rightarrow> int" where
  "gain E k = (\<lambda>(op, inputs). amount E k (op_result op) - taken E k (op_consume op) inputs)"

abbreviation current_deal :: "shop \<Rightarrow> station \<Rightarrow> operation \<times> item_stack list" where
  "current_deal M s \<equiv> (offer M s, ContainerSlots (bare (Holder s)))"

lemma current_deal_ok:
  assumes "shop_ok M" "station_ok s" "\<not> IsEmpty (op_result (offer M s))"
  shows "deal M (kind_of s) (WorkstationSelection s) (current_deal M s)"
  using offer_fair(1) [OF assms(1,2)] assms(3) by (simp add: deal_def) (simp add: offer_bare)

lemma take_length: "TakeWorkstationResult M kind slots selection = Some (slots', r) \<Longrightarrow> length slots' = length slots"
  by (auto simp: TakeWorkstationResult_def Let_def split: if_splits)

lemma cursor_take:
  assumes "shop_ok M" "station_ok s" "shown M s"
    and "\<And>out. output_of (Holder s) = Some out \<Longrightarrow> IsEmpty (CarriedItem (Holder s)) \<or>
      SameItem (shop_items M) (CarriedItem (Holder s)) (slots_of s ! out)"
  shows "takeWorkstationOutputToCursor M s = s \<or>
    (let s' = takeWorkstationOutputToCursor M s in
       station_ok s' \<and> deal M (kind_of s) (WorkstationSelection s) (current_deal M s) \<and>
       (\<forall>k. holdings (shop_items M) k (bare (Holder s')) = holdings (shop_items M) k (bare (Holder s)) + gain (shop_items M) k (current_deal M s)))"
proof (cases "output_of (Holder s)")
  case None
  then show ?thesis by (auto simp: takeWorkstationOutputToCursor_def output_of_def Let_def split: if_splits)
next
  case (Some out)
  let ?E = "shop_items M" and ?p = "Holder s"
  note idx = output_index [OF Some] and bound = output_bound [OF Some]
  show ?thesis
  proof (cases "takeWorkstationOutputToCursor M s = s")
    case False
    then obtain slots result xp where t: "TakeWorkstationResult M (kind_of s) (slots_of s) (WorkstationSelection s) = Some (slots, result, xp)"
      using idx bound by (fastforce simp: takeWorkstationOutputToCursor_def Let_def split: if_splits option.splits)
    note T = take_step [OF assms(1,2) Some t]
    define c where "c = (if IsEmpty (CarriedItem ?p) then result
      else (CarriedItem ?p)\<lparr>Count := Count (CarriedItem ?p) + Count result\<rparr>)"
    obtain xp' where run: "takeWorkstationOutputToCursor M s =
        s\<lparr>Holder := ?p\<lparr>ContainerSlots := slots, CarriedItem := c\<rparr>, PendingWorkstationXP := xp'\<rparr>"
      using False t idx bound by (fastforce simp: takeWorkstationOutputToCursor_def Let_def c_def split: if_splits)
    let ?s' = "takeWorkstationOutputToCursor M s"
    have res: "slot_ok result" using offer_fair(2) [OF assms(1,2)] T(1) by simp
    have prev: "slots_of s ! out = result" using shown_offer [OF assms(3) Some] T(1) by simp
    have cur: "slot_ok (CarriedItem ?p)" using assms(2) by (simp add: station_ok_def player_ok_def)
    have c: "slot_ok c \<and> amount ?E k c = amount ?E k (CarriedItem ?p) + amount ?E k result" for k
    proof (cases "IsEmpty (CarriedItem ?p)")
      case True
      then show ?thesis using res by (simp add: c_def)
    next
      case full: False
      then have "item_key ?E (CarriedItem ?p) = item_key ?E result" using assms(4) [OF Some] prev by (simp add: SameItem_key)
      moreover have "0 < Count (CarriedItem ?p)" "0 < Count result" "ItemID (CarriedItem ?p) \<noteq> []"
        using full T(3) by (simp_all add: IsEmpty_def)
      ultimately show ?thesis using full T(3) by (simp add: c_def amount_Count amount_nonempty slot_ok_def IsEmpty_Count)
    qed
    note B = take_length [OF t]
    have bs: "bare (Holder ?s') = (bare (Holder (set_slots s slots)))\<lparr>CarriedItem := c\<rparr>" by (simp add: run set_slots_def)
    have "station_ok ?s'"
      using T(5) c B unfolding station_ok_def bs by (simp add: run player_ok_def)
    moreover have "holdings ?E k (bare (Holder ?s')) = holdings ?E k (bare ?p) + gain ?E k (current_deal M s)" for k
      using T(6) [of k] c [of k] by (simp add: bs holdings_def gain_def T(1))
    moreover have "deal M (kind_of s) (WorkstationSelection s) (current_deal M s)"
      using current_deal_ok [OF assms(1,2)] T(1,3) by simp
    ultimately show ?thesis by (simp add: Let_def)
  qed simp
qed

lemma shift_round_step:
  assumes "shop_ok M" "station_ok s" "shown M s" "shift_round M s = Some s'"
  shows "station_ok s' \<and> shown M s' \<and> kind_of s' = kind_of s \<and> WorkstationSelection s' = WorkstationSelection s \<and>
    deal M (kind_of s) (WorkstationSelection s) (current_deal M s) \<and>
    holdings (shop_items M) k (bare (Holder s')) = holdings (shop_items M) k (bare (Holder s)) + gain (shop_items M) k (current_deal M s) \<and>
    stock (ContainerSlots (bare (Holder s'))) < stock (ContainerSlots (bare (Holder s)))"
proof -
  let ?E = "shop_items M" and ?p = "Holder s"
  obtain out where out: "output_of ?p = Some out"
    using assms(4) by (auto simp: shift_round_def output_of_def Let_def split: if_splits)
  note idx = output_index [OF out] and bound = output_bound [OF out]
  have run: "(let (inventory, placed) = addStackToInventory ?E (Inventory ?p) (slots_of s ! out)
      in if \<not> placed then None
         else case TakeWorkstationResult M (kind_of s) (slots_of s) (WorkstationSelection s) of
             None \<Rightarrow> None
           | Some (slots, _, xp) \<Rightarrow> Some (s\<lparr>Holder := ?p\<lparr>ContainerSlots := slots, Inventory := inventory\<rparr>,
                PendingWorkstationXP := PendingWorkstationXP s + xp\<rparr>)) = Some s'"
    using assms(4) idx bound by (simp add: shift_round_def Let_def split: if_splits)
  obtain inventory slots result xp where a: "addStackToInventory ?E (Inventory ?p) (slots_of s ! out) = (inventory, True)"
    and t: "TakeWorkstationResult M (kind_of s) (slots_of s) (WorkstationSelection s) = Some (slots, result, xp)"
    and s': "s' = s\<lparr>Holder := ?p\<lparr>ContainerSlots := slots, Inventory := inventory\<rparr>, PendingWorkstationXP := PendingWorkstationXP s + xp\<rparr>"
    using run by (auto split: prod.splits if_splits option.splits)
  note T = take_step [OF assms(1,2) out t] and len = take_length [OF t]
  have prev: "slots_of s ! out = op_result (offer M s)" using shown_offer [OF assms(3) out] .
  have env: "env_ok ?E" using assms(1) by (simp add: shop_ok_def)
  have pok: "player_ok (bare ?p)" using assms(2) by (simp add: station_ok_def)
  have inv: "slots_ok (Inventory ?p)" "inventory_shape ?E (Inventory ?p)"
    using pok player_shape [OF env pok] by (simp_all add: player_ok_def)
  note A = inv.add_ok [OF inv(2,1) _ a] inv.add_total [OF inv(2,1) _ a]
  have res: "slot_ok (slots_of s ! out)" using offer_fair(2) [OF assms(1,2)] by (simp add: prev)
  have bs: "bare (Holder s') = (bare (Holder (set_slots s slots)))\<lparr>Inventory := inventory\<rparr>"
    by (simp add: s' set_slots_def)
  have "station_ok s'"
    using T(5) len A(1) [OF res] unfolding station_ok_def bs by (simp add: s' player_ok_def)
  moreover have "shown M s'"
    using T(4) by (simp add: s' shown_def set_slots_def output_of_def)
  moreover have "deal M (kind_of s) (WorkstationSelection s) (current_deal M s)"
    using current_deal_ok [OF assms(1,2)] T(1,3) by simp
  moreover have "holdings ?E k (bare (Holder s')) = holdings ?E k (bare ?p) + gain ?E k (current_deal M s)"
    using T(6) [of k] A(2) [OF res, of k] by (simp add: bs holdings_def gain_def prev)
  ultimately show ?thesis using T(7) by (simp add: bs) (simp add: s')
qed

text \<open>The shift click takes outputs until there are no more or the inventory is full; it returns, since
  every round takes an item from the inputs.\<close>

lemma shift_returns:
  assumes "shop_ok M" "station_ok s" "shown M s"
  shows "\<exists>s' ds. shiftWorkstationOutput M s = Some s' \<and> station_ok s' \<and>
    (\<forall>d \<in> set ds. deal M (kind_of s) (WorkstationSelection s) d) \<and>
    (\<forall>k. holdings (shop_items M) k (bare (Holder s')) = holdings (shop_items M) k (bare (Holder s)) + (\<Sum>d \<leftarrow> ds. gain (shop_items M) k d))"
  using assms(2,3)
proof (induction "nat (stock (ContainerSlots (bare (Holder s))))" arbitrary: s rule: less_induct)
  case less
  show ?case
  proof (cases "shift_round M s")
    case None
    then have "shiftWorkstationOutput M s = Some s" by (subst shiftWorkstationOutput.simps) simp
    then show ?thesis using less.prems by (intro exI [of _ s] exI [of _ "[]"]) simp
  next
    case (Some s1)
    note R = shift_round_step [OF assms(1) less.prems Some]
    have "nat (stock (ContainerSlots (bare (Holder s1)))) < nat (stock (ContainerSlots (bare (Holder s))))"
      using conjunct2 [OF conjunct2 [OF conjunct2 [OF conjunct2 [OF conjunct2 [OF conjunct2 [OF R]]]]]]
        stock_nonneg [of "ContainerSlots (bare (Holder s1))"] by linarith
    then obtain s' ds where IH: "shiftWorkstationOutput M s1 = Some s'" "station_ok s'"
        "\<forall>d \<in> set ds. deal M (kind_of s1) (WorkstationSelection s1) d"
        "\<And>k. holdings (shop_items M) k (bare (Holder s')) = holdings (shop_items M) k (bare (Holder s1)) + (\<Sum>d \<leftarrow> ds. gain (shop_items M) k d)"
      using less.hyps [of s1] R by auto
    have "shiftWorkstationOutput M s = Some s'" using IH(1) Some by (subst shiftWorkstationOutput.simps) simp
    then show ?thesis
      using IH R by (intro exI [of _ s'] exI [of _ "current_deal M s # ds"]) simp
  qed
qed

section \<open>Merging enchantments\<close>

definition merged_well :: "item_env \<Rightarrow> item_stack \<Rightarrow> item_stack \<Rightarrow> bool" where
  "merged_well E before after \<longleftrightarrow>
     canonical_enchantments (Enchantments after) \<and>
     (\<forall>i. EnchantmentLevel before i \<le> EnchantmentLevel after i) \<and>
     (\<forall>a \<in> enchantment_ids after - enchantment_ids before.
        \<exists>e. EnchantmentByID a = Some e \<and> (ItemID before = ''minecraft:enchanted_book'' \<or> Supports E e (ItemID before)) \<and>
          (\<forall>b \<in> enchantment_ids after. \<forall>f. b \<noteq> a \<longrightarrow> EnchantmentByID b = Some f \<longrightarrow> \<not> enchantmentsConflict e f))"

lemma merged_well_refl: "canonical_enchantments (Enchantments s) \<Longrightarrow> merged_well E s s"
  by (simp add: merged_well_def)

lemma merged_level_pos: "0 < l \<Longrightarrow> 0 \<le> existing \<Longrightarrow> merged_level existing l maximum = Some n \<Longrightarrow> 0 < maximum \<Longrightarrow> 0 < n"
  by (auto simp: merged_level_def split: if_splits)

lemma table_levels: "EnchantmentByID i = Some e \<Longrightarrow> 0 < MaxLevel e"
proof -
  have "list_all (\<lambda>e. 0 < MaxLevel e) enchantments" by (simp add: enchantments_def ench_def)
  then show "EnchantmentByID i = Some e \<Longrightarrow> 0 < MaxLevel e"
    by (auto simp: EnchantmentByID_def find_Some_iff list_all_iff)
qed

lemma new_id_compatible:
  assumes "CompatibleWith e s" "EnchantmentByID b = Some f" "b \<in> enchantment_ids s"
  shows "\<not> enchantmentsConflict e f"
  using assms by (fastforce simp: CompatibleWith_def list_all_iff enchantment_ids_def)

lemma merge_enchantment_well:
  assumes W: "merged_well E s0 d" and d: "\<not> IsEmpty d" "ItemID d = ItemID s0" and "1 \<le> el_level el"
  shows "merged_well E s0 (fst (merge_enchantment E el (d, changed)))"
proof (cases "fst (merge_enchantment E el (d, changed)) = d")
  case True
  then show ?thesis using W by simp
next
  case False
  let ?i = "el_id el"
  obtain e n where e: "EnchantmentByID ?i = Some e"
      "CompatibleWith e d \<or> EnchantmentLevel d ?i \<noteq> 0"
      "ItemID d = ''minecraft:enchanted_book'' \<or> Supports E e (ItemID d)"
      "merged_level (EnchantmentLevel d ?i) (el_level el) (MaxLevel e) = Some n"
    and run: "fst (merge_enchantment E el (d, changed)) = fst (Enchant d ?i n)"
    using False by (auto simp: merge_enchantment_def Let_def split_beta split: option.splits if_splits)
  let ?r = "fst (Enchant d ?i n)" and ?a = "with_namespace ?i"
  have can: "canonical_enchantments (Enchantments d)" using W by (simp add: merged_well_def)
  have n: "0 < n"
    by (rule merged_level_pos [OF _ _ e(4) table_levels [OF e(1)]]) (use assms(4) canonical_bound [OF can] in auto)
  note plain = known_enchantment [OF e(1)]
  note L = Enchant_levels [OF can d(1) n plain(2)] and I = Enchant_ids [OF can d(1) n plain(2)]
  have up: "EnchantmentLevel d j \<le> EnchantmentLevel ?r j" for j using L [of j] by (auto split: if_splits)
  have byid: "EnchantmentByID ?a = Some e" using e(1) by (simp add: EnchantmentByID_def)
  have fresh: "\<not> enchantmentsConflict e f" if "?a \<notin> enchantment_ids d" "b \<in> enchantment_ids d" "EnchantmentByID b = Some f" for b f
  proof -
    have "\<not> 0 < EnchantmentLevel d ?a" using canonical_ids [OF can, of ?a] that(1) by (auto simp: with_namespace_def)
    then have "EnchantmentLevel d ?i = 0"
      using canonical_bound [OF can, of ?a] by (simp add: EnchantmentLevel_def)
    then show ?thesis using new_id_compatible [of e d b f] that e(2) by blast
  qed
  have new: "\<exists>g. EnchantmentByID x = Some g \<and> (ItemID s0 = ''minecraft:enchanted_book'' \<or> Supports E g (ItemID s0)) \<and>
      (\<forall>b \<in> enchantment_ids ?r. \<forall>f. b \<noteq> x \<longrightarrow> EnchantmentByID b = Some f \<longrightarrow> \<not> enchantmentsConflict g f)"
    if x: "x \<in> enchantment_ids ?r" "x \<notin> enchantment_ids s0" for x
  proof (cases "x \<in> enchantment_ids d")
    case True
    then obtain g where g: "EnchantmentByID x = Some g" "ItemID s0 = ''minecraft:enchanted_book'' \<or> Supports E g (ItemID s0)"
        "\<And>b f. b \<in> enchantment_ids d \<Longrightarrow> b \<noteq> x \<Longrightarrow> EnchantmentByID b = Some f \<Longrightarrow> \<not> enchantmentsConflict g f"
      using W x(2) unfolding merged_well_def by blast
    have "\<not> enchantmentsConflict g f" if "b \<in> enchantment_ids ?r" "b \<noteq> x" "EnchantmentByID b = Some f" for b f
    proof (cases "b \<in> enchantment_ids d")
      case True
      then show ?thesis using g(3) that by blast
    next
      case out: False
      then have "b = ?a" using that(1) I by simp
      then show ?thesis using fresh [OF _ \<open>x \<in> enchantment_ids d\<close> g(1)] out that(3) byid conflict_sym by auto
    qed
    then show ?thesis using g by blast
  next
    case out: False
    then have xa: "x = ?a" using x(1) I by simp
    have "\<not> enchantmentsConflict e f" if "b \<in> enchantment_ids ?r" "b \<noteq> x" "EnchantmentByID b = Some f" for b f
      using fresh [of b f] that out xa I by auto
    then show ?thesis using e(3) d(2) byid xa by auto
  qed
  show ?thesis
    unfolding run merged_well_def using L up new W by (auto simp: merged_well_def intro: order_trans)
qed

lemma src_level_pos: "el \<in> set (EnchantmentLevels src) \<Longrightarrow> 1 \<le> el_level el"
proof -
  have e: "decode_entry x = Some v \<Longrightarrow> 1 \<le> el_level v" for x v
    by (auto simp: decode_entry_def Let_def split: if_splits option.splits)
  have "decode_entries xs = Some vs \<Longrightarrow> v \<in> set vs \<Longrightarrow> 1 \<le> el_level v" for xs vs v
    by (induction xs arbitrary: vs) (auto dest: e split: option.splits)
  then show "el \<in> set (EnchantmentLevels src) \<Longrightarrow> 1 \<le> el_level el"
    by (cases "DecodeEnchantments (Enchantments src)") (auto simp: EnchantmentLevels_def DecodeEnchantments_def split: if_splits)
qed

lemma merge_well:
  assumes "canonical_enchantments (Enchantments s)" "\<not> IsEmpty s"
  shows "merged_well E s (fst (mergeEnchantments E s src))"
proof -
  have "merged_well E s (fst (fold (merge_enchantment E) els a))"
    if "\<And>el. el \<in> set els \<Longrightarrow> 1 \<le> el_level el" "merged_well E s (fst a)" "\<not> IsEmpty (fst a)" "ItemID (fst a) = ItemID s" for els a
    using that
  proof (induction els arbitrary: a)
    case (Cons el els)
    obtain d c where a: "a = (d, c)" by fastforce
    have "merged_well E s (fst (merge_enchantment E el a))"
      unfolding a using Cons.prems by (intro merge_enchantment_well) (simp_all add: a)
    moreover have "\<not> IsEmpty (fst (merge_enchantment E el a))" "ItemID (fst (merge_enchantment E el a)) = ItemID s"
      using Cons.prems by (simp_all add: IsEmpty_def merge_enchantment_same)
    ultimately show ?case using Cons.IH [of "merge_enchantment E el a"] Cons.prems(1) by simp
  qed simp
  from this [of "EnchantmentLevels src" "(s, False)"] show ?thesis
    using assms src_level_pos merged_well_refl by (simp add: mergeEnchantments_def)
qed

section \<open>Closing a screen\<close>

lemma return_station_kept:
  assumes "env_ok E" "player_ok (bare p)" "i < length (ContainerSlots p)"
  shows "kept E (bare p) (bare (return_slot_item E (WorkstationOutputIndex (OpenContainerKind p)) p i))"
proof -
  let ?stack = "ContainerSlots p ! i"
  obtain inventory given where g: "GiveItem E (Inventory p) ?stack = (inventory, given)" by fastforce
  show ?thesis
  proof (cases "int i = WorkstationOutputIndex (OpenContainerKind p) \<or> IsEmpty ?stack \<or> \<not> given")
    case True
    then show ?thesis using assms(2) g by (simp add: return_slot_item_def)
  next
    case False
    let ?q = "p\<lparr>Inventory := inventory, ContainerSlots := (ContainerSlots p)[i := no_item]\<rparr>"
    have run: "return_slot_item E (WorkstationOutputIndex (OpenContainerKind p)) p i = ?q"
      using False g by (auto simp: return_slot_item_def)
    have no: "r \<noteq> InContainer i \<or> output_of p \<noteq> Some i" for r
      using False by (auto simp: output_of_def Let_def split: if_splits)
    have out: "output_of ?q = output_of p" by (simp add: output_of_def Let_def)
    have st: "ContainerSlots (bare p) ! i = ?stack"
      using no [of "InContainer i"] by (cases "output_of p") (auto simp: bare_def)
    have ok: "slots_ok (Inventory p)" "slots_ok (ContainerSlots (bare p))" using assms(2) by (simp_all add: player_ok_def)
    have shape: "inventory_shape E (Inventory p)" using player_shape [OF assms(1,2)] by simp
    have "GiveItem E (Inventory p) (ContainerSlots (bare p) ! i) = (inventory, True)" using g False st by simp
    note M = give.move_across [OF shape ok _ this]
    have bs: "bare ?q = (bare p)\<lparr>Inventory := inventory, ContainerSlots := (ContainerSlots (bare p))[i := no_item]\<rparr>"
      using no [of "InContainer i"] by (cases "output_of p") (auto simp: bare_def out list_update_swap)
    have M': "slots_ok inventory \<and> length inventory = length (Inventory p) \<and>
        slots_ok ((ContainerSlots (bare p))[i := no_item]) \<and>
        total E k inventory + total E k ((ContainerSlots (bare p))[i := no_item]) = total E k (Inventory p) + total E k (ContainerSlots (bare p))" for k
      using M [of k] assms(3) by simp
    have "holdings E k (bare ?q) = holdings E k (bare p)" for k
      using M' [of k] unfolding bs by (simp add: holdings_def)
    then show ?thesis
      using M' assms(2) unfolding run bs kept_def player_ok_def same_screen_def by simp
  qed
qed

lemma return_kept:
  assumes "env_ok E" "player_ok (bare p)"
  shows "kept E (bare p) (bare (returnWorkstationItems E p))"
proof (cases "IsWorkstation (OpenContainerKind p)")
  case True
  have step: "OpenContainerKind (return_slot_item E out q i) = OpenContainerKind q"
    "length (ContainerSlots (return_slot_item E out q i)) = length (ContainerSlots q)" for out q i
    by (simp_all add: return_slot_item_def Let_def split_beta)
  have "kept E (bare p) (bare (foldl (return_slot_item E (WorkstationOutputIndex (OpenContainerKind p))) q is))"
    if "kept E (bare p) (bare q)" "OpenContainerKind q = OpenContainerKind p" "\<forall>i \<in> set is. i < length (ContainerSlots q)" for q "is"
    using that
  proof (induction "is" arbitrary: q)
    case (Cons i "is")
    have "player_ok (bare q)" using Cons.prems(1) by (simp add: kept_def)
    then have "kept E (bare q) (bare (return_slot_item E (WorkstationOutputIndex (OpenContainerKind p)) q i))"
      using return_station_kept [OF assms(1), of q i] Cons.prems by simp
    then show ?case
      using Cons.IH [of "return_slot_item E (WorkstationOutputIndex (OpenContainerKind p)) q i"] Cons.prems
      by (simp add: step kept_trans [OF Cons.prems(1)])
  qed simp
  from this [of p "[0..<length (ContainerSlots p)]"] show ?thesis
    using True assms(2) by (simp add: returnWorkstationItems_def)
qed (use assms(2) in \<open>simp add: returnWorkstationItems_def\<close>)


section \<open>A click on a workstation\<close>

lemma on_holder_fields [simp]:
  "Holder (on_holder f s) = f (Holder s)" "WorkstationSelection (on_holder f s) = WorkstationSelection s"
  "PendingWorkstationXP (on_holder f s) = PendingWorkstationXP s"
  by (simp_all add: on_holder_def)

lemma kept_station:
  assumes "station_ok s" "kept E (bare (Holder s)) (bare (f (Holder s)))"
  shows "station_ok (on_holder f s)" "kind_of (on_holder f s) = kind_of s"
  using assms by (auto simp: station_ok_def kept_def same_screen_def)

lemma finish:
  "station_ok s \<Longrightarrow> station_ok (touch (recompute M s)) \<and> shown M (touch (recompute M s)) \<and>
    holdings E k (bare (Holder (touch (recompute M s)))) = holdings E k (bare (Holder s))"
  by (simp add: recompute_shown)

lemma click_runs:
  assumes "shop_ok M" "station_ok s" "slot \<noteq> -999"
    and "slot = WorkstationOutputIndex (kind_of s) \<Longrightarrow> mode = 0 \<Longrightarrow>
      IsEmpty (CarriedItem (Holder s)) \<or> SameItem (shop_items M) (CarriedItem (Holder s)) (op_result (offer M s))"
  shows "\<exists>s1 ds. (if mode = (0::i32) then
            Some (if slot = WorkstationOutputIndex (kind_of s) then takeWorkstationOutputToCursor M (recompute M s) else on_holder (\<lambda>p. clickWorkstationSlot M p slot button) (recompute M s))
          else if mode = 1 then
            (if slot = WorkstationOutputIndex (kind_of s) then shiftWorkstationOutput M (recompute M s) else Some (on_holder (\<lambda>p. shiftWorkstationSlot M p slot) (recompute M s)))
          else Some (recompute M s)) = Some s1 \<and> station_ok s1 \<and>
      (\<forall>d \<in> set ds. deal M (kind_of s) (WorkstationSelection s) d) \<and> (slot \<noteq> WorkstationOutputIndex (kind_of s) \<longrightarrow> ds = []) \<and> (mode = 0 \<longrightarrow> length ds \<le> 1) \<and>
      (\<forall>k. holdings (shop_items M) k (bare (Holder s1)) = holdings (shop_items M) k (bare (Holder s)) + (\<Sum>d \<leftarrow> ds. gain (shop_items M) k d))"
proof -
  let ?E = "shop_items M" and ?s0 = "recompute M s" and ?out = "WorkstationOutputIndex (kind_of s)"
  have env: "env_ok ?E" using assms(1) by (simp add: shop_ok_def)
  have ok0: "station_ok ?s0" using assms(2) by simp
  have pok: "player_ok (bare (Holder ?s0))" using ok0 by (simp add: station_ok_def)
  have off: "offer M ?s0 = offer M s" by (simp add: offer_bare)
  consider "mode = 0" "slot = ?out" | "mode = 0" "slot \<noteq> ?out" | "mode = 1" "slot = ?out" | "mode = 1" "slot \<noteq> ?out"
    | "mode \<noteq> 0" "mode \<noteq> 1" by blast
  then show ?thesis
  proof cases
    case 1
    have cur: "IsEmpty (CarriedItem (Holder ?s0)) \<or> SameItem ?E (CarriedItem (Holder ?s0)) (slots_of ?s0 ! out)"
      if "output_of (Holder ?s0) = Some out" for out
      using shown_offer [OF recompute_shown that] assms(4) 1 off by simp
    let ?s1 = "takeWorkstationOutputToCursor M ?s0"
    from cursor_take [OF assms(1) ok0 recompute_shown cur]
    consider "?s1 = ?s0" | "station_ok ?s1" "deal M (kind_of s) (WorkstationSelection s) (current_deal M ?s0)"
      "\<And>k. holdings ?E k (bare (Holder ?s1)) = holdings ?E k (bare (Holder s)) + gain ?E k (current_deal M ?s0)"
      by (auto simp: Let_def)
    then show ?thesis
    proof cases
      case a: 1
      then show ?thesis using 1 ok0 by (intro exI [of _ ?s1] exI [of _ "[]"]) simp
    next
      case 2
      then show ?thesis using 1 by (intro exI [of _ ?s1] exI [of _ "[current_deal M ?s0]"]) simp
    qed
  next
    case 2
    note K = clickWorkstationSlot_kept [OF pok assms(3), of M button]
    show ?thesis
      using 2 K kept_station [where f = "\<lambda>p. clickWorkstationSlot M p slot button", OF ok0 K]
      by (intro exI [of _ "on_holder (\<lambda>p. clickWorkstationSlot M p slot button) ?s0"] exI [of _ "[]"]) (simp add: kept_def)
  next
    case 3
    obtain s1 ds where S: "shiftWorkstationOutput M ?s0 = Some s1" "station_ok s1"
        "\<forall>d \<in> set ds. deal M (kind_of ?s0) (WorkstationSelection ?s0) d"
        "\<forall>k. holdings ?E k (bare (Holder s1)) = holdings ?E k (bare (Holder ?s0)) + (\<Sum>d \<leftarrow> ds. gain ?E k d)"
      using shift_returns [OF assms(1) ok0 recompute_shown] by blast
    then show ?thesis using 3 by (intro exI [of _ s1] exI [of _ ds]) auto
  next
    case 4
    note K = shiftWorkstationSlot_kept [OF env pok, of slot]
    show ?thesis
      using 4 K kept_station [where f = "\<lambda>p. shiftWorkstationSlot M p slot", OF ok0 K]
      by (intro exI [of _ "on_holder (\<lambda>p. shiftWorkstationSlot M p slot) ?s0"] exI [of _ "[]"]) (simp add: kept_def)
  next
    case 5
    then show ?thesis using ok0 by (intro exI [of _ ?s0] exI [of _ "[]"]) simp
  qed
qed


section \<open>What an anvil does to the item\<close>

lemma merged_well_cong:
  assumes "Enchantments a = Enchantments a'" "ItemID a = ItemID a'" "Enchantments b = Enchantments b'"
  shows "merged_well E a b = merged_well E a' b'"
proof -
  have L: "EnchantmentLevels a = EnchantmentLevels a'" "EnchantmentLevels b = EnchantmentLevels b'"
    using assms by (simp_all add: EnchantmentLevels_def)
  show ?thesis by (simp add: merged_well_def EnchantmentLevel_def enchantment_ids_def L assms)
qed

lemma repaired_damage:
  assumes "0 \<le> Damage first" "0 \<le> MaxDurability E (ItemID first)" "0 \<le> n"
  shows "0 \<le> Damage (repairedStack E first second n) \<and> Damage (repairedStack E first second n) \<le> Damage first"
proof -
  let ?max = "MaxDurability E (ItemID first)"
  have "0 \<le> ?max * n div 100" using assms by (simp add: pos_imp_zdiv_nonneg_iff)
  moreover have "0 \<le> RemainingDurability E second" by (simp add: RemainingDurability_def Let_def)
  moreover have "?max - Damage first \<le> RemainingDurability E first" "0 \<le> RemainingDurability E first"
    using assms by (simp_all add: RemainingDurability_def Let_def)
  ultimately show ?thesis using assms by (simp add: repairedStack_def Let_def)
qed

text \<open>The enchantments of the output are those of a stack with the inputs' left item and its own enchantments,
  merged with the right stack or left alone.\<close>

lemma merged_output:
  assumes "canonical_enchantments (Enchantments left)" "\<not> IsEmpty left"
    and "ItemID s = ItemID left" "Enchantments s = Enchantments left" "Count s = 1"
  shows "merged_well E left (fst (mergeEnchantments E s src))"
proof -
  have "\<not> IsEmpty s" using assms by (auto simp: IsEmpty_def)
  then have "merged_well E s (fst (mergeEnchantments E s src))" using merge_well [of s] assms by simp
  then show ?thesis using merged_well_cong [of s left] assms by blast
qed

lemma anvil_branches:
  assumes "anvilOperation M slots \<noteq> no_operation"
  obtains (rename) "op_result (anvilOperation M slots) = (slots ! 0)\<lparr>Count := 1\<rparr>"
  | (book) s where "op_result (anvilOperation M slots) = fst (mergeEnchantments (shop_items M) s (slots ! 1))"
      "ItemID s = ItemID (slots ! 0)" "Enchantments s = Enchantments (slots ! 0)" "Count s = 1" "Damage s = Damage (slots ! 0)"
  | (pair) s where "op_result (anvilOperation M slots) =
        keep_name M (stack_name M (slots ! 0)) (fst (mergeEnchantments (shop_items M) s (slots ! 1)))"
      "ItemID s = ItemID (slots ! 0)" "Enchantments s = Enchantments (slots ! 0)" "Count s = 1"
      "Damage s = Damage (repairedStack (shop_items M) (slots ! 0) (slots ! 1) 12)"
  | (material) "op_result (anvilOperation M slots) = keep_name M (stack_name M (slots ! 0)) ((slots ! 0)
        \<lparr>Count := 1, Damage := max 0 (Damage (slots ! 0) - max 1 (MaxDurability (shop_items M) (ItemID (slots ! 0)) div 4))\<rparr>)"
proof -
  let ?E = "shop_items M" and ?left = "slots ! 0" and ?right = "slots ! 1"
  consider "IsEmpty ?right" | "\<not> IsEmpty ?right" "ItemID ?right = ''minecraft:enchanted_book'' \<and> MaxDurability ?E (ItemID ?left) > 0"
    | "\<not> IsEmpty ?right" "\<not> (ItemID ?right = ''minecraft:enchanted_book'' \<and> MaxDurability ?E (ItemID ?left) > 0)" "ItemID ?left = ItemID ?right"
    | "\<not> IsEmpty ?right" "\<not> (ItemID ?right = ''minecraft:enchanted_book'' \<and> MaxDurability ?E (ItemID ?left) > 0)" "ItemID ?left \<noteq> ItemID ?right"
    by blast
  then show thesis
  proof cases
    case 1
    then show ?thesis using assms by (intro rename) (auto simp: anvilOperation_def Let_def split: if_splits)
  next
    case 2
    let ?s = "keep_name M (stack_name M ?left) (?left\<lparr>Count := 1\<rparr>)"
    have some: "\<not> IsEmpty ?left" "snd (mergeEnchantments ?E ?s ?right)"
      using assms 2 unfolding anvilOperation_def Let_def split_beta by argo+
    show ?thesis
      by (rule book [of ?s]) (use some 2 in \<open>simp_all add: anvilOperation_def Let_def split_beta\<close>)
  next
    case 3
    let ?s = "(repairedStack ?E ?left ?right 12)\<lparr>Enchantments := Enchantments ?left, Components := Components ?left\<rparr>"
    have some: "\<not> IsEmpty ?left" "MaxDurability ?E (ItemID ?left) \<noteq> 0"
      using assms 3 unfolding anvilOperation_def Let_def split_beta by argo+
    have run: "op_result (anvilOperation M slots) = keep_name M (stack_name M ?left) (fst (mergeEnchantments ?E ?s ?right))"
      unfolding anvilOperation_def Let_def using some 3(1,2) 3(3) [symmetric] by (simp only: if_False if_True simp_thms operation.select_convs)
    show ?thesis by (rule pair [OF run]) simp_all
  next
    case 4
    then show ?thesis using assms by (intro material) (auto simp: anvilOperation_def Let_def split: if_splits)
  qed
qed

text \<open>C34: whatever an anvil offers is one item of the left input's kind, no more damaged than it; no enchantment
  is weaker than before, and each new one is known, fits the item and conflicts with no other on it.\<close>

theorem anvil_improves:
  assumes "env_ok (shop_items M)" "canonical_enchantments (Enchantments (slots ! 0))" "0 \<le> Damage (slots ! 0)"
    and "\<not> IsEmpty (slots ! 0)" "anvilOperation M slots \<noteq> no_operation"
  shows "let r = op_result (anvilOperation M slots)
         in ItemID r = ItemID (slots ! 0) \<and> Count r = 1 \<and> 0 \<le> Damage r \<and> Damage r \<le> Damage (slots ! 0) \<and>
            merged_well (shop_items M) (slots ! 0) r"
  using assms(5)
proof (cases rule: anvil_branches)
  case rename
  then show ?thesis
    using assms(3) merged_well_cong [of "slots ! 0" "slots ! 0" "(slots ! 0)\<lparr>Count := 1\<rparr>" "slots ! 0"]
      merged_well_refl [OF assms(2)] by simp
next
  case (book s)
  then show ?thesis using merged_output [OF assms(2,4) book(2-4)] assms(3) by simp
next
  case (pair s)
  let ?m = "fst (mergeEnchantments (shop_items M) s (slots ! 1))"
  have "merged_well (shop_items M) (slots ! 0) (keep_name M (stack_name M (slots ! 0)) ?m)"
    using merged_output [OF assms(2,4) pair(2-4)] merged_well_cong [of "slots ! 0" "slots ! 0" "keep_name M (stack_name M (slots ! 0)) ?m" ?m] by simp
  then show ?thesis using repaired_damage [OF assms(3) durability_nonneg [OF assms(1)], of 12 "slots ! 1"] pair by simp
next
  case material
  let ?m = "op_result (anvilOperation M slots)"
  have "merged_well (shop_items M) (slots ! 0) ?m"
    using merged_well_cong [of "slots ! 0" "slots ! 0" ?m "slots ! 0"] merged_well_refl [OF assms(2)] material by simp
  then show ?thesis using assms(3) material by simp
qed

section \<open>Examples\<close>

definition sword :: "int \<Rightarrow> item_stack" where
  "sword worn = no_item\<lparr>ItemID := ''minecraft:iron_sword'', Count := 1, Damage := worn, Enchantments := ''minecraft:sharpness=2''\<rparr>"

definition sword_item :: item_definition where
  "sword_item = (bare_item ''minecraft:iron_sword'' [])\<lparr>def_max_stack := 1, def_max_durability := 250\<rparr>"

definition smith :: shop where
  "smith = \<lparr>shop_items = \<lparr>registry = \<lparr>reg_definitions = [''minecraft:iron_sword'' \<mapsto> sword_item], reg_tags = (\<lambda>_. None)\<rparr>,
     norm_components = id\<rparr>, shop_tags = (\<lambda>_. {}), shop_recipes = [], custom_name = (\<lambda>_. []),
     with_custom_name = (\<lambda>c _. c), without_custom_name = (\<lambda>c. c)\<rparr>"

lemma smith_ok: "shop_ok smith" "env_ok (shop_items smith)"
proof -
  have "validateDefinition sword_item = None" by (simp add: validateDefinition_def sword_item_def bare_item_def)
  then show "env_ok (shop_items smith)"
    by (simp add: smith_def env_ok_def registry_ok_def valid_definition_def HasTag_def) (simp add: sword_item_def bare_item_def)
  then show "shop_ok smith" by (simp add: shop_ok_def smithing_recipes_def smith_def)
qed

lemma sharp_canonical: "canonical_enchantments ''minecraft:sharpness=2''"
proof -
  have "levels_ok [\<lparr>el_id = ''minecraft:sharpness'', el_level = 2\<rparr>]" by (simp add: levels_ok_def)
  moreover have "encodeEnchantments [\<lparr>el_id = ''minecraft:sharpness'', el_level = 2\<rparr>] = ''minecraft:sharpness=2''"
    by code_simp
  ultimately show ?thesis by (metis canonical_enchantments_def)
qed

theorem anvil_improves_witness:
  "let r = op_result (anvilOperation smith [sword 200, sword 100, no_item])
   in ItemID r = ''minecraft:iron_sword'' \<and> Damage r \<le> 200 \<and> merged_well (shop_items smith) (sword 200) r"
proof -
  have "MaxDurability (shop_items smith) ''minecraft:iron_sword'' = 250"
    by (simp add: MaxDurability_def Lookup_def smith_def sword_item_def)
  then have "anvilOperation smith [sword 200, sword 100, no_item] \<noteq> no_operation"
    by (simp add: anvilOperation_def Let_def sword_def IsEmpty_def no_operation_def split_beta)
  from anvil_improves [OF smith_ok(2) _ _ _ this] show ?thesis
    using sharp_canonical by (simp add: sword_def IsEmpty_def Let_def)
qed

text \<open>A grindstone with a worn sword in it.\<close>

definition grinding :: station where
  "grinding = \<lparr>Holder = new_player\<lparr>OpenContainerID := 1, OpenContainerKind := ''minecraft:grindstone'',
     ContainerSlots := [sword 200, no_item, no_item]\<rparr>, WorkstationSelection = 0, PendingWorkstationXP = 0\<rparr>"

lemma grinding_ok: "station_ok grinding"
  using new_player_ok
  by (auto simp: station_ok_def grinding_def IsWorkstation_def WorkstationSlotCount_def
      bare_def output_of_def WorkstationOutputIndex_def player_ok_def slots_ok_def sword_def)



end
