(* ===== verification/Navigation.thy ===== *)
theory Navigation
  imports Worlds "HOL-Library.Extended_Nat"
begin

text \<open>
  Path finding for ground mobs (\<open>core/navigation/pathfinder.go\<close>): which positions a mob can stand on
  (\<open>core/world/world.go\<close>), the columns next to a position, and the bounded search with its binary heap
  (\<open>container/heap\<close>). A position is a node key; a search node is reached by its key, so a pointer to a node
  is its key. The path is the list of its keys: the code returns the centres of these blocks.
  The arithmetic of \<open>float64\<close> is a parameter, and so are the floors of the two end points. A world does
  not change during a search.
\<close>

section \<open>Where a mob can stand\<close>

definition no_collision :: "string set" where
  "no_collision = {'''', ''minecraft:air'', ''minecraft:cave_air'', ''minecraft:void_air'',
     ''minecraft:water'', ''minecraft:bubble_column'', ''minecraft:lava'', ''minecraft:nether_portal'',
     ''minecraft:end_portal'', ''minecraft:end_gateway'', ''minecraft:short_grass'',
     ''minecraft:grass'', ''minecraft:tall_grass'', ''minecraft:fern'',
     ''minecraft:large_fern'', ''minecraft:wheat'', ''minecraft:carrots'',
     ''minecraft:potatoes'', ''minecraft:beetroots'', ''minecraft:dandelion'',
     ''minecraft:poppy'', ''minecraft:allium'', ''minecraft:azure_bluet'',
     ''minecraft:red_tulip'', ''minecraft:orange_tulip'', ''minecraft:white_tulip'',
     ''minecraft:pink_tulip'', ''minecraft:cornflower'', ''minecraft:oxeye_daisy'',
     ''minecraft:lily_of_the_valley'', ''minecraft:blue_orchid'', ''minecraft:lilac'',
     ''minecraft:rose_bush'', ''minecraft:peony'', ''minecraft:sunflower'',
     ''minecraft:wither_rose'', ''minecraft:torchflower'', ''minecraft:dead_bush'',
     ''minecraft:seagrass'', ''minecraft:tall_seagrass'', ''minecraft:vine'',
     ''minecraft:moss_carpet'', ''minecraft:brown_mushroom'', ''minecraft:red_mushroom'',
     ''minecraft:oak_sapling'', ''minecraft:spruce_sapling'', ''minecraft:birch_sapling'',
     ''minecraft:jungle_sapling'', ''minecraft:acacia_sapling'', ''minecraft:dark_oak_sapling'',
     ''minecraft:cherry_sapling'', ''minecraft:mangrove_propagule'', ''minecraft:fire''}"

definition entitySupportBlock :: "string \<Rightarrow> bool" where
  "entitySupportBlock name \<longleftrightarrow> name \<notin> no_collision"

definition IsEntityCollisionBlock :: "block \<Rightarrow> bool" where
  "IsEntityCollisionBlock b =
     (if has_suffix (ResourceLocation b) ''_door'' \<and> \<not> has_suffix (ResourceLocation b) ''_trapdoor'' \<and>
         get_prop b ''open'' = ''true'' then False
      else entitySupportBlock (ResourceLocation b))"

record node_key =
  nk_x :: int
  nk_y :: int
  nk_z :: int

definition node_key_at :: "int \<Rightarrow> int \<Rightarrow> int \<Rightarrow> node_key" where
  "node_key_at x y z = \<lparr>nk_x = x, nk_y = y, nk_z = z\<rparr>"

text \<open>The evaluator of one search: the cache remembers the result of each column it has been asked for.\<close>

record evaluator =
  ev_world :: world
  ev_cache :: "node_key \<rightharpoonup> int option"
  canOpenDoors :: bool

definition maximumStepUp :: int where "maximumStepUp = 1"

definition maximumFall :: int where "maximumFall = 3"

definition passable :: "evaluator \<Rightarrow> block \<Rightarrow> bool" where
  "passable e b =
     (if \<not> IsEntityCollisionBlock b then True
      else canOpenDoors e \<and> has_suffix (ResourceLocation b) ''_door'' \<and>
           \<not> has_suffix (ResourceLocation b) ''_trapdoor'' \<and> ResourceLocation b \<noteq> ''minecraft:iron_door'')"

fun try_heights :: "evaluator \<Rightarrow> int \<Rightarrow> int \<Rightarrow> int list \<Rightarrow> int option" where
  "try_heights e x z [] = None"
| "try_heights e x z (y # ys) =
     (if y < WorldMinY + 1 \<or> y > WorldMaxY - 1 then try_heights e x z ys
      else let (support, loaded) = BlockIfLoaded (ev_world e) x (y - 1) z
           in if \<not> loaded then None
              else if \<not> entitySupportBlock (ResourceLocation support) then try_heights e x z ys
              else let (feet, feetLoaded) = BlockIfLoaded (ev_world e) x y z;
                       (head, headLoaded) = BlockIfLoaded (ev_world e) x (y + 1) z
                   in if feetLoaded \<and> headLoaded \<and> passable e feet \<and> passable e head then Some y
                      else try_heights e x z ys)"

declare try_heights.simps [simp del]

definition findStandableY :: "evaluator \<Rightarrow> node_key \<Rightarrow> int option" where
  "findStandableY e k =
     (let y = nk_y k in try_heights e (nk_x k) (nk_z k) [y, y + 1, y - 1, y - 2, y - 3])"

definition standableY :: "node_key \<Rightarrow> evaluator \<Rightarrow> int option \<times> evaluator" where
  "standableY k e =
     (case ev_cache e k of
        Some r \<Rightarrow> (r, e)
      | None \<Rightarrow> (let r = findStandableY e k in (r, e\<lparr>ev_cache := (ev_cache e)(k \<mapsto> r)\<rparr>)))"

definition column :: "node_key \<Rightarrow> int \<times> int \<Rightarrow> node_key" where
  "column k d = node_key_at (nk_x k + fst d) (nk_y k) (nk_z k + snd d)"

text \<open>The first column with a place to stand, ring by ring around the position.\<close>

definition ring :: "int \<Rightarrow> (int \<times> int) list" where
  "ring r = filter (\<lambda>(dx, dz). \<not> (r > 0 \<and> \<bar>dx\<bar> \<noteq> r \<and> \<bar>dz\<bar> \<noteq> r)) (List.product [- r..r] [- r..r])"

fun first_standable :: "node_key \<Rightarrow> (int \<times> int) list \<Rightarrow> evaluator \<Rightarrow> node_key option \<times> evaluator" where
  "first_standable k [] e = (None, e)"
| "first_standable k (d # ds) e =
     (let (r, e') = standableY (column k d) e
      in case r of
           Some standY \<Rightarrow> (Some ((column k d)\<lparr>nk_y := standY\<rparr>), e')
         | None \<Rightarrow> first_standable k ds e')"

definition nearestStandable :: "node_key \<Rightarrow> evaluator \<Rightarrow> node_key option \<times> evaluator" where
  "nearestStandable k e = first_standable k (concat (map ring [0, 1, 2])) e"

section \<open>Neighbours\<close>

text \<open>A loop over offsets that looks each column up; the found neighbours come with their offset.\<close>

fun look_up :: "node_key \<Rightarrow> (int \<times> int) list \<Rightarrow> evaluator \<Rightarrow> ((int \<times> int) \<times> node_key) list \<times> evaluator" where
  "look_up k [] e = ([], e)"
| "look_up k (d # ds) e =
     (let (r, e') = standableY (column k d) e; (found, e'') = look_up k ds e'
      in (case r of None \<Rightarrow> found | Some standY \<Rightarrow> (d, (column k d)\<lparr>nk_y := standY\<rparr>) # found, e''))"

definition stepped :: "node_key \<Rightarrow> node_key option \<Rightarrow> bool" where
  "stepped k n = (case n of None \<Rightarrow> False | Some n \<Rightarrow> \<bar>nk_y n - nk_y k\<bar> \<le> maximumStepUp)"

definition open_corners :: "node_key \<Rightarrow> ((int \<times> int) \<times> node_key) list \<Rightarrow> (int \<times> int) list" where
  "open_corners k cardinal =
     filter (\<lambda>d. stepped k (map_of cardinal (fst d, 0)) \<and> stepped k (map_of cardinal (0, snd d)))
       [(1, 1), (1, -1), (-1, 1), (-1, -1)]"

definition neighbours :: "node_key \<Rightarrow> evaluator \<Rightarrow> node_key list \<times> evaluator" where
  "neighbours k e =
     (let (cardinal, e') = look_up k [(1, 0), (-1, 0), (0, 1), (0, -1)] e;
          (diagonal, e'') = look_up k (open_corners k cardinal) e'
      in (map snd (cardinal @ diagonal), e''))"

section \<open>Costs\<close>

text \<open>What the search uses of \<open>float64\<close>: conversion, constants, arithmetic and comparisons.\<close>

record 'f float_arith =
  f_int :: "int \<Rightarrow> 'f"
  f_half :: 'f
  f_sqrt2 :: 'f
  f_inf :: 'f
  f_add :: "'f \<Rightarrow> 'f \<Rightarrow> 'f"
  f_mul :: "'f \<Rightarrow> 'f \<Rightarrow> 'f"
  f_sqrt :: "'f \<Rightarrow> 'f"
  f_eq :: "'f \<Rightarrow> 'f \<Rightarrow> bool"
  f_less :: "'f \<Rightarrow> 'f \<Rightarrow> bool"
  f_le :: "'f \<Rightarrow> 'f \<Rightarrow> bool"

definition heuristic :: "'f float_arith \<Rightarrow> node_key \<Rightarrow> node_key \<Rightarrow> 'f" where
  "heuristic F a b =
     (let dx = f_int F (nk_x a - nk_x b); dy = f_int F (nk_y a - nk_y b); dz = f_int F (nk_z a - nk_z b)
      in f_sqrt F (f_add F (f_add F (f_mul F dx dx) (f_mul F dy dy)) (f_mul F dz dz)))"

definition movementCost :: "'f float_arith \<Rightarrow> node_key \<Rightarrow> node_key \<Rightarrow> 'f" where
  "movementCost F a b =
     (let dx = \<bar>nk_x a - nk_x b\<bar>; dy = \<bar>nk_y a - nk_y b\<bar>; dz = \<bar>nk_z a - nk_z b\<bar>;
          cost = (if dx \<noteq> 0 \<and> dz \<noteq> 0 then f_sqrt2 F else f_int F 1)
      in f_add F cost (f_mul F (f_int F dy) (f_half F)))"

section \<open>Search nodes and the open heap\<close>

record 'f search_node =
  node_g :: 'f
  node_h :: 'f
  parent :: "node_key option"
  heapIndex :: int
  closed :: bool

record 'f search =
  nodes :: "(node_key \<times> 'f search_node) list"
  open_heap :: "node_key list"
  best :: node_key

definition node_of :: "'f search \<Rightarrow> node_key \<Rightarrow> 'f search_node" where
  "node_of S k = the (map_of (nodes S) k)"

text \<open>A write through a pointer to a node.\<close>

definition alter :: "node_key \<Rightarrow> ('f search_node \<Rightarrow> 'f search_node) \<Rightarrow> 'f search \<Rightarrow> 'f search" where
  "alter k f S = S\<lparr>nodes := map (\<lambda>(k', n). (k', if k' = k then f n else n)) (nodes S)\<rparr>"

definition set_index :: "int \<Rightarrow> node_key \<Rightarrow> 'f search \<Rightarrow> 'f search" where
  "set_index i k = alter k (\<lambda>n. n\<lparr>heapIndex := i\<rparr>)"

definition node_score :: "'f float_arith \<Rightarrow> 'f search_node \<Rightarrow> 'f" where
  "node_score F n = f_add F (node_g n) (node_h n)"

definition heap_less :: "'f float_arith \<Rightarrow> 'f search \<Rightarrow> nat \<Rightarrow> nat \<Rightarrow> bool" where
  "heap_less F S i j =
     (let a = node_of S (open_heap S ! i); b = node_of S (open_heap S ! j)
      in if f_eq F (node_score F a) (node_score F b) then f_less F (node_h a) (node_h b)
         else f_less F (node_score F a) (node_score F b))"

definition heap_swap :: "nat \<Rightarrow> nat \<Rightarrow> 'f search \<Rightarrow> 'f search" where
  "heap_swap i j S =
     (let a = open_heap S ! i; b = open_heap S ! j
      in set_index (int j) a (set_index (int i) b (S\<lparr>open_heap := (open_heap S)[i := b, j := a]\<rparr>)))"

text \<open>\<open>container/heap\<close>: moving an entry up and down.\<close>

function heap_up :: "'f float_arith \<Rightarrow> nat \<Rightarrow> 'f search \<Rightarrow> 'f search" where
  "heap_up F j S =
     (let i = (j - 1) div 2
      in if i = j \<or> \<not> heap_less F S j i then S else heap_up F i (heap_swap i j S))"
  by pat_completeness auto
termination by (relation "measure (\<lambda>(F, j, S). j)") auto

function heap_down :: "'f float_arith \<Rightarrow> nat \<Rightarrow> nat \<Rightarrow> 'f search \<Rightarrow> nat \<times> 'f search" where
  "heap_down F n i S =
     (let j1 = 2 * i + 1; j2 = j1 + 1
      in if j1 \<ge> n then (i, S)
         else let j = (if j2 < n \<and> heap_less F S j2 j1 then j2 else j1)
              in if \<not> heap_less F S j i then (i, S) else heap_down F n j (heap_swap i j S))"
  by pat_completeness auto
termination by (relation "measure (\<lambda>(F, n, i, S). n - i)") (auto split: if_splits)

declare heap_up.simps [simp del] heap_down.simps [simp del]

definition heap_push :: "'f float_arith \<Rightarrow> node_key \<Rightarrow> 'f search \<Rightarrow> 'f search" where
  "heap_push F k S =
     (let n = length (open_heap S); S' = set_index (int n) k S
      in heap_up F n (S'\<lparr>open_heap := open_heap S' @ [k]\<rparr>))"

definition heap_pop :: "'f float_arith \<Rightarrow> 'f search \<Rightarrow> node_key \<times> 'f search" where
  "heap_pop F S =
     (let n = length (open_heap S) - 1; S' = snd (heap_down F n 0 (heap_swap 0 n S)); k = last (open_heap S')
      in (k, (set_index (-1) k S')\<lparr>open_heap := butlast (open_heap S')\<rparr>))"

definition heap_fix :: "'f float_arith \<Rightarrow> nat \<Rightarrow> 'f search \<Rightarrow> 'f search" where
  "heap_fix F i S =
     (let (i', S') = heap_down F (length (open_heap S)) i S
      in if i' > i then S' else heap_up F i S')"

section \<open>The search\<close>

definition new_node :: "'f float_arith \<Rightarrow> node_key \<Rightarrow> node_key \<Rightarrow> 'f search_node" where
  "new_node F goal k = \<lparr>node_g = f_inf F, node_h = heuristic F k goal, parent = None, heapIndex = -1, closed = False\<rparr>"

definition find_or_add :: "'f float_arith \<Rightarrow> node_key \<Rightarrow> node_key \<Rightarrow> 'f search \<Rightarrow> 'f search" where
  "find_or_add F goal k S =
     (case map_of (nodes S) k of
        Some _ \<Rightarrow> S
      | None \<Rightarrow> S\<lparr>nodes := nodes S @ [(k, new_node F goal k)]\<rparr>)"

definition relax :: "'f float_arith \<Rightarrow> node_key \<Rightarrow> node_key \<Rightarrow> node_key \<Rightarrow> 'f search \<Rightarrow> 'f search" where
  "relax F goal current k S =
     (let newCost = f_add F (node_g (node_of S current)) (movementCost F current k);
          S = find_or_add F goal k S; node = node_of S k
      in if closed node \<or> f_le F (node_g node) newCost then S
         else let S = alter k (\<lambda>n. n\<lparr>node_g := newCost, parent := Some current\<rparr>) S
              in if heapIndex node \<ge> 0 then heap_fix F (nat (heapIndex node)) S else heap_push F k S)"

definition take_current :: "'f float_arith \<Rightarrow> node_key \<Rightarrow> 'f search \<Rightarrow> 'f search" where
  "take_current F k S =
     (let S = alter k (\<lambda>n. n\<lparr>closed := True\<rparr>) S
      in if f_less F (node_h (node_of S k)) (node_h (node_of S (best S))) then S\<lparr>best := k\<rparr> else S)"

text \<open>The loop ends with the goal, or without it when the heap is empty or the budget is used up.\<close>

partial_function (option) search_loop ::
  "'f float_arith \<Rightarrow> nat \<Rightarrow> node_key \<Rightarrow> bool \<Rightarrow> 'f search \<Rightarrow> evaluator \<Rightarrow> ('f search \<times> node_key option) option" where
  "search_loop F maxVisited goal goalStandable S e =
     (if open_heap S = [] \<or> length (nodes S) > maxVisited then Some (S, None)
      else let (current, S) = heap_pop F S
           in if closed (node_of S current) then search_loop F maxVisited goal goalStandable S e
              else let S = take_current F current S
                   in if current = goal \<and> goalStandable then Some (S, Some current)
                      else let (candidates, e) = neighbours current e
                           in search_loop F maxVisited goal goalStandable (fold (relax F goal current) candidates S) e)"

section \<open>The path\<close>

partial_function (option) reversed_path :: "'f search \<Rightarrow> node_key \<Rightarrow> node_key list option" where
  "reversed_path S k =
     (case parent (node_of S k) of
        None \<Rightarrow> Some []
      | Some p \<Rightarrow> Option.bind (reversed_path S p) (\<lambda>ks. Some (k # ks)))"

definition direction :: "node_key \<Rightarrow> node_key \<Rightarrow> int \<times> int \<times> int" where
  "direction a b = (sgn (nk_x b - nk_x a), sgn (nk_y b - nk_y a), sgn (nk_z b - nk_z a))"

text \<open>The loop of \<open>simplify\<close>: the last kept position and the rest of the path.\<close>

fun keep_turns :: "node_key \<Rightarrow> node_key list \<Rightarrow> node_key list" where
  "keep_turns previous (current # nxt # ks) =
     (if direction previous current = direction current nxt then keep_turns previous (nxt # ks)
      else current # keep_turns current (nxt # ks))"
| "keep_turns previous ks = ks"

definition simplify :: "node_key list \<Rightarrow> node_key list" where
  "simplify path = (if length path < 3 then path else hd path # keep_turns (hd path) (tl path))"

definition reconstruct :: "'f search \<Rightarrow> node_key \<Rightarrow> bool \<Rightarrow> node_key list option" where
  "reconstruct S k preserveDoorNodes =
     map_option (\<lambda>reversed. if preserveDoorNodes then rev reversed else simplify (rev reversed)) (reversed_path S k)"

definition start_search :: "'f float_arith \<Rightarrow> node_key \<Rightarrow> node_key \<Rightarrow> 'f search" where
  "start_search F start goal =
     \<lparr>nodes = [(start, \<lparr>node_g = f_int F 0, node_h = heuristic F start goal, parent = None, heapIndex = -1, closed = False\<rparr>)],
      open_heap = [start], best = start\<rparr>"

text \<open>The outer \<open>None\<close> is a search that does not return; the path is empty where the code returns \<open>nil\<close>.\<close>

definition findPath :: "'f float_arith \<Rightarrow> world \<Rightarrow> node_key \<Rightarrow> node_key \<Rightarrow> int \<Rightarrow> bool \<Rightarrow> (node_key list \<times> bool) option" where
  "findPath F w start goal maxVisited doors =
     (if maxVisited \<le> 0 then Some ([], False)
      else case nearestStandable start \<lparr>ev_world = w, ev_cache = (\<lambda>_. None), canOpenDoors = doors\<rparr> of
             (None, e) \<Rightarrow> Some ([], False)
           | (Some startKey, e) \<Rightarrow>
               (let (found, e) = nearestStandable goal e; goalKey = (case found of Some k \<Rightarrow> k | None \<Rightarrow> goal)
                in case search_loop F (nat maxVisited) goalKey (found \<noteq> None) (start_search F startKey goalKey) e of
                     None \<Rightarrow> None
                   | Some (S, Some current) \<Rightarrow> map_option (\<lambda>path. (path, True)) (reconstruct S current doors)
                   | Some (S, None) \<Rightarrow>
                       (if best S = startKey then Some ([], False)
                        else map_option (\<lambda>path. (path, False)) (reconstruct S (best S) doors))))"

definition FindPath :: "'f float_arith \<Rightarrow> world \<Rightarrow> node_key \<Rightarrow> node_key \<Rightarrow> int \<Rightarrow> (node_key list \<times> bool) option" where
  "FindPath F w start goal maxVisited = findPath F w start goal maxVisited False"

definition FindPathOpeningDoors :: "'f float_arith \<Rightarrow> world \<Rightarrow> node_key \<Rightarrow> node_key \<Rightarrow> int \<Rightarrow> (node_key list \<times> bool) option" where
  "FindPathOpeningDoors F w start goal maxVisited = findPath F w start goal maxVisited True"

section \<open>The cache changes no answer\<close>

definition fresh :: "world \<Rightarrow> bool \<Rightarrow> evaluator" where
  "fresh w doors = \<lparr>ev_world = w, ev_cache = (\<lambda>_. None), canOpenDoors = doors\<rparr>"

definition standing :: "world \<Rightarrow> bool \<Rightarrow> node_key \<Rightarrow> int option" where
  "standing w doors k = findStandableY (fresh w doors) k"

definition evaluates :: "world \<Rightarrow> bool \<Rightarrow> evaluator \<Rightarrow> bool" where
  "evaluates w doors e \<longleftrightarrow> ev_world e = w \<and> canOpenDoors e = doors \<and>
     (\<forall>k r. ev_cache e k = Some r \<longrightarrow> r = standing w doors k)"

lemma fresh_evaluates [simp]: "evaluates w doors (fresh w doors)"
  by (simp add: evaluates_def fresh_def)

lemma passable_fresh: "evaluates w doors e \<Longrightarrow> passable e b = passable (fresh w doors) b"
  by (simp add: passable_def evaluates_def fresh_def)

lemma try_heights_fresh: "evaluates w doors e \<Longrightarrow> try_heights e x z ys = try_heights (fresh w doors) x z ys"
proof (induction ys)
  case (Cons y ys)
  have "ev_world e = w" "ev_world (fresh w doors) = w" using Cons.prems by (simp_all add: evaluates_def fresh_def)
  then show ?case
    using Cons.IH [OF Cons.prems] passable_fresh [OF Cons.prems] by (simp add: try_heights.simps(2) [of _ x z y ys] split_beta)
qed (simp add: try_heights.simps)

lemma find_fresh: "evaluates w doors e \<Longrightarrow> findStandableY e k = standing w doors k"
  by (simp add: findStandableY_def standing_def try_heights_fresh split: prod.splits)

lemma standableY_evaluates:
  assumes "evaluates w doors e"
  shows "fst (standableY k e) = standing w doors k" "evaluates w doors (snd (standableY k e))"
  using assms find_fresh [OF assms, of k]
  by (auto simp: standableY_def evaluates_def Let_def split: option.splits)

definition found_at :: "world \<Rightarrow> bool \<Rightarrow> node_key \<Rightarrow> (int \<times> int) list \<Rightarrow> ((int \<times> int) \<times> node_key) list" where
  "found_at w doors k ds =
     concat (map (\<lambda>d. case standing w doors (column k d) of None \<Rightarrow> [] | Some y \<Rightarrow> [(d, (column k d)\<lparr>nk_y := y\<rparr>)]) ds)"

lemma look_up_evaluates:
  assumes "evaluates w doors e"
  shows "fst (look_up k ds e) = found_at w doors k ds" "evaluates w doors (snd (look_up k ds e))"
proof -
  have "fst (look_up k ds e) = found_at w doors k ds \<and> evaluates w doors (snd (look_up k ds e))"
    using assms
  proof (induction ds arbitrary: e)
    case (Cons d ds)
    show ?case
      using Cons.IH [OF standableY_evaluates(2) [OF Cons.prems, of "column k d"]]
        standableY_evaluates(1) [OF Cons.prems, of "column k d"]
      by (simp add: split_beta found_at_def split: option.splits)
  qed (simp add: found_at_def)
  then show "fst (look_up k ds e) = found_at w doors k ds" "evaluates w doors (snd (look_up k ds e))" by auto
qed

definition next_to :: "world \<Rightarrow> bool \<Rightarrow> node_key \<Rightarrow> node_key list" where
  "next_to w doors k =
     (let cardinal = found_at w doors k [(1, 0), (-1, 0), (0, 1), (0, -1)]
      in map snd (cardinal @ found_at w doors k (open_corners k cardinal)))"

lemma neighbours_evaluates:
  assumes "evaluates w doors e"
  shows "fst (neighbours k e) = next_to w doors k" "evaluates w doors (snd (neighbours k e))"
proof -
  note A = look_up_evaluates [OF assms] and B = look_up_evaluates [OF look_up_evaluates(2) [OF assms]]
  show "fst (neighbours k e) = next_to w doors k" "evaluates w doors (snd (neighbours k e))"
    unfolding neighbours_def split_beta Let_def next_to_def fst_conv snd_conv A(1) B(1) by (rule refl, rule B(2))
qed

lemma first_evaluates:
  assumes "evaluates w doors e" "evaluates w doors e'"
  shows "fst (first_standable k ds e) = fst (first_standable k ds e') \<and> evaluates w doors (snd (first_standable k ds e))"
  using assms
proof (induction ds arbitrary: e e')
  case (Cons d ds)
  let ?c = "column k d"
  note A = standableY_evaluates [OF Cons.prems(1), of ?c] and B = standableY_evaluates [OF Cons.prems(2), of ?c]
  show ?case using A B Cons.IH [OF A(2) B(2)] by (auto simp: split_beta split: option.splits)
qed simp

lemma nearest_evaluates:
  assumes "evaluates w doors e"
  shows "fst (nearestStandable k e) = fst (nearestStandable k (fresh w doors))" "evaluates w doors (snd (nearestStandable k e))"
  using first_evaluates [OF assms fresh_evaluates] by (simp_all add: nearestStandable_def)

section \<open>Legal steps\<close>

text \<open>The feet and the head are free and the block below carries the mob.\<close>

definition stands_at :: "world \<Rightarrow> bool \<Rightarrow> node_key \<Rightarrow> bool" where
  "stands_at w doors k \<longleftrightarrow> WorldMinY < nk_y k \<and> nk_y k < WorldMaxY \<and>
     (let there = (\<lambda>dy. BlockIfLoaded w (nk_x k) (nk_y k + dy) (nk_z k))
      in snd (there (-1)) \<and> snd (there 0) \<and> snd (there 1) \<and> entitySupportBlock (ResourceLocation (fst (there (-1)))) \<and>
         passable (fresh w doors) (fst (there 0)) \<and> passable (fresh w doors) (fst (there 1)))"

text \<open>A step goes to one of the eight columns around, up one block or down three, and cuts no corner.\<close>

definition legal_step :: "world \<Rightarrow> bool \<Rightarrow> node_key \<Rightarrow> node_key \<Rightarrow> bool" where
  "legal_step w doors a b \<longleftrightarrow>
     stands_at w doors b \<and> (nk_x a, nk_z a) \<noteq> (nk_x b, nk_z b) \<and> \<bar>nk_x b - nk_x a\<bar> \<le> 1 \<and> \<bar>nk_z b - nk_z a\<bar> \<le> 1 \<and>
     nk_y a - maximumFall \<le> nk_y b \<and> nk_y b \<le> nk_y a + maximumStepUp \<and>
     (nk_x a = nk_x b \<or> nk_z a = nk_z b \<or>
       (\<exists>c d. stands_at w doors c \<and> stands_at w doors d \<and>
          (nk_x c, nk_z c) = (nk_x b, nk_z a) \<and> (nk_x d, nk_z d) = (nk_x a, nk_z b) \<and>
          \<bar>nk_y c - nk_y a\<bar> \<le> maximumStepUp \<and> \<bar>nk_y d - nk_y a\<bar> \<le> maximumStepUp))"

lemma try_heights_stands: "try_heights (fresh w doors) x z ys = Some y \<Longrightarrow> y \<in> set ys \<and> stands_at w doors (node_key_at x y z)"
  by (induction ys) (auto simp: try_heights.simps stands_at_def node_key_at_def fresh_def split_beta Let_def split: if_splits)

lemma standing_stands:
  assumes "standing w doors k = Some y"
  shows "stands_at w doors (k\<lparr>nk_y := y\<rparr>)" "nk_y k - maximumFall \<le> y" "y \<le> nk_y k + maximumStepUp"
proof -
  have k: "node_key_at (nk_x k) y (nk_z k) = k\<lparr>nk_y := y\<rparr>" by (cases k) (simp add: node_key_at_def)
  note H = try_heights_stands [of w doors "nk_x k" "nk_z k" _ y]
  show "stands_at w doors (k\<lparr>nk_y := y\<rparr>)" using H assms k by (simp add: standing_def findStandableY_def Let_def)
  show "nk_y k - maximumFall \<le> y" "y \<le> nk_y k + maximumStepUp"
    using H assms by (force simp: standing_def findStandableY_def Let_def maximumFall_def maximumStepUp_def)+
qed

lemma nearest_stands:
  assumes "fst (nearestStandable k (fresh w doors)) = Some n"
  shows "stands_at w doors n"
proof -
  have "fst (first_standable k ds e) = Some n \<Longrightarrow> stands_at w doors n" if "evaluates w doors e" for ds e
    using that
  proof (induction ds arbitrary: e)
    case (Cons d ds)
    let ?c = "column k d"
    note A = standableY_evaluates [OF Cons.prems(2), of ?c]
    show ?case
      using A Cons.IH [OF _ A(2)] Cons.prems(1) standing_stands [of w doors ?c]
      by (auto simp: split_beta split: option.splits)
  qed simp
  from this [OF fresh_evaluates] show ?thesis using assms unfolding nearestStandable_def .
qed

lemma found_stands:
  assumes "(d, n) \<in> set (found_at w doors k ds)"
  shows "d \<in> set ds" "stands_at w doors n" "nk_x n = nk_x k + fst d" "nk_z n = nk_z k + snd d"
    "nk_y k - maximumFall \<le> nk_y n" "nk_y n \<le> nk_y k + maximumStepUp"
proof -
  obtain y where y: "standing w doors (column k d) = Some y" "n = (column k d)\<lparr>nk_y := y\<rparr>" and "d \<in> set ds"
    using assms by (force simp: found_at_def split: option.splits)
  then show "d \<in> set ds" "stands_at w doors n" "nk_x n = nk_x k + fst d" "nk_z n = nk_z k + snd d"
      "nk_y k - maximumFall \<le> nk_y n" "nk_y n \<le> nk_y k + maximumStepUp"
    using standing_stands [OF y(1)] by (simp_all add: column_def node_key_at_def)
qed

lemma stepped_iff: "stepped k n \<longleftrightarrow> (\<exists>c. n = Some c \<and> \<bar>nk_y c - nk_y k\<bar> \<le> maximumStepUp)"
  by (cases n) (simp_all add: stepped_def)

lemma open_corner:
  assumes "d \<in> set (open_corners k cardinal)"
  obtains c e where "map_of cardinal (fst d, 0) = Some c" "map_of cardinal (0, snd d) = Some e"
    "\<bar>nk_y c - nk_y k\<bar> \<le> maximumStepUp" "\<bar>nk_y e - nk_y k\<bar> \<le> maximumStepUp"
    and "d \<in> set [(1, 1), (1, -1), (-1, 1), (-1, -1)]"
proof -
  have "d \<in> set [(1, 1), (1, -1), (-1, 1), (-1, -1)] \<and>
      stepped k (map_of cardinal (fst d, 0)) \<and> stepped k (map_of cardinal (0, snd d))"
    using assms by (simp only: open_corners_def set_filter mem_Collect_eq)
  then show ?thesis using that unfolding stepped_iff by blast
qed

lemma next_legal:
  assumes "b \<in> set (next_to w doors a)"
  shows "legal_step w doors a b"
proof -
  let ?card = "found_at w doors a [(1, 0), (-1, 0), (0, 1), (0, -1)]"
  consider d where "(d, b) \<in> set ?card" | d where "(d, b) \<in> set (found_at w doors a (open_corners a ?card))"
    using assms by (auto simp: next_to_def Let_def)
  then show ?thesis
  proof cases
    case 1
    from found_stands [OF 1] show ?thesis by (auto simp: legal_step_def)
  next
    case 2
    note F = found_stands [OF 2]
    obtain c e where ce: "map_of ?card (fst d, 0) = Some c" "map_of ?card (0, snd d) = Some e"
        "\<bar>nk_y c - nk_y a\<bar> \<le> maximumStepUp" "\<bar>nk_y e - nk_y a\<bar> \<le> maximumStepUp"
      and d: "d \<in> set [(1, 1), (1, -1), (-1, 1), (-1, -1)]"
      using open_corner [OF F(1)] .
    note C = found_stands [OF map_of_SomeD [OF ce(1)]] and D = found_stands [OF map_of_SomeD [OF ce(2)]]
    have "(nk_x c, nk_z c) = (nk_x b, nk_z a)" "(nk_x e, nk_z e) = (nk_x a, nk_z b)" using C D F by auto
    then show ?thesis using F C(2) D(2) ce d unfolding legal_step_def by auto
  qed
qed

section \<open>Writing to nodes\<close>

definition known :: "'f search \<Rightarrow> node_key set" where
  "known S = fst ` set (nodes S)"

lemma alter_fields [simp]:
  "open_heap (alter k f S) = open_heap S" "best (alter k f S) = best S" "known (alter k f S) = known S"
  "length (nodes (alter k f S)) = length (nodes S)" "map fst (nodes (alter k f S)) = map fst (nodes S)"
  by (force simp: alter_def known_def)+

lemma map_of_alter: "map_of (nodes (alter k f S)) k' = (if k' = k then map_option f (map_of (nodes S) k') else map_of (nodes S) k')"
proof -
  have "map_of (map (\<lambda>(k', n). (k', if k' = k then f n else n)) ns) k' =
      (if k' = k then map_option f (map_of ns k') else map_of ns k')" for ns
    by (induction ns) auto
  then show ?thesis by (simp add: alter_def)
qed

lemma known_map: "k \<in> known S \<longleftrightarrow> (\<exists>n. map_of (nodes S) k = Some n)"
  unfolding known_def by (metis dom_map_of_conv_image_fst domIff not_None_eq)

lemma node_of_alter:
  "k' \<in> known S \<Longrightarrow> node_of (alter k f S) k' = (if k' = k then f (node_of S k') else node_of S k')"
  by (auto simp: node_of_def map_of_alter known_map)

lemma open_update_fields [simp]: "known (S\<lparr>open_heap := ks\<rparr>) = known S" "node_of (S\<lparr>open_heap := ks\<rparr>) k = node_of S k"
  by (simp_all add: known_def node_of_def)

text \<open>Two states whose nodes differ in their heap indices only.\<close>

definition same_nodes :: "'f search \<Rightarrow> 'f search \<Rightarrow> bool" where
  "same_nodes S S' \<longleftrightarrow> map fst (nodes S') = map fst (nodes S) \<and> best S' = best S \<and>
     (\<forall>k \<in> known S. (node_of S' k)\<lparr>heapIndex := 0\<rparr> = (node_of S k)\<lparr>heapIndex := 0\<rparr>)"

lemma same_nodes_refl [simp]: "same_nodes S S"
  by (simp add: same_nodes_def)

lemma same_nodes_known: "same_nodes S S' \<Longrightarrow> known S' = known S" "same_nodes S S' \<Longrightarrow> length (nodes S') = length (nodes S)"
  unfolding same_nodes_def known_def by (metis list.set_map, metis length_map)

lemma same_nodes_trans: "same_nodes S S' \<Longrightarrow> same_nodes S' S'' \<Longrightarrow> same_nodes S S''"
  using same_nodes_known(1) [of S S'] by (simp add: same_nodes_def)

lemma same_nodes_node:
  assumes "same_nodes S S'" "k \<in> known S"
  shows "node_g (node_of S' k) = node_g (node_of S k)" "node_h (node_of S' k) = node_h (node_of S k)"
    "parent (node_of S' k) = parent (node_of S k)" "closed (node_of S' k) = closed (node_of S k)"
proof -
  have "(node_of S' k)\<lparr>heapIndex := 0\<rparr> = (node_of S k)\<lparr>heapIndex := 0\<rparr>" using assms by (simp add: same_nodes_def)
  from arg_cong [OF this, of node_g] arg_cong [OF this, of node_h] arg_cong [OF this, of parent] arg_cong [OF this, of closed]
  show "node_g (node_of S' k) = node_g (node_of S k)" "node_h (node_of S' k) = node_h (node_of S k)"
    "parent (node_of S' k) = parent (node_of S k)" "closed (node_of S' k) = closed (node_of S k)"
    by simp_all
qed

lemma set_index_same [simp]: "same_nodes S (set_index i k S)"
  by (simp add: same_nodes_def set_index_def node_of_alter)

lemma open_update_same [simp]: "same_nodes S (S\<lparr>open_heap := ks\<rparr>) = True"
  by (simp add: same_nodes_def node_of_def)

section \<open>The heap and the indices of its nodes\<close>

definition heap_ok :: "'f search \<Rightarrow> bool" where
  "heap_ok S \<longleftrightarrow> distinct (open_heap S) \<and> set (open_heap S) \<subseteq> known S \<and>
     (\<forall>i < length (open_heap S). heapIndex (node_of S (open_heap S ! i)) = int i) \<and>
     (\<forall>k \<in> known S - set (open_heap S). heapIndex (node_of S k) = -1)"

lemma heap_swap_ok:
  assumes "heap_ok S" "i < length (open_heap S)" "j < length (open_heap S)"
  shows "heap_ok (heap_swap i j S)" "same_nodes S (heap_swap i j S)"
    "mset (open_heap (heap_swap i j S)) = mset (open_heap S)"
proof -
  let ?a = "open_heap S ! i" and ?b = "open_heap S ! j" and ?S = "heap_swap i j S"
  have open_swap: "open_heap ?S = (open_heap S)[i := ?b, j := ?a]"
    by (simp add: heap_swap_def Let_def set_index_def)
  show ms: "mset (open_heap ?S) = mset (open_heap S)" using assms(2,3) by (simp add: open_swap mset_swap)
  show same: "same_nodes S ?S"
    unfolding heap_swap_def Let_def
    by (rule same_nodes_trans [OF _ set_index_same] same_nodes_trans [OF _ set_index_same])+ simp
  have k: "known ?S = known S" by (rule same_nodes_known(1) [OF same])
  have n: "node_of ?S k = (if k = ?a then (node_of S k)\<lparr>heapIndex := int j\<rparr>
      else if k = ?b then (node_of S k)\<lparr>heapIndex := int i\<rparr> else node_of S k)" if "k \<in> known S" for k
    using that by (cases "k = ?a"; simp add: heap_swap_def Let_def set_index_def node_of_alter)
  have set_eq: "set (open_heap ?S) = set (open_heap S)" using ms by (rule mset_eq_setD)
  have d: "distinct (open_heap S)" "distinct (open_heap ?S)"
    using assms(1) ms by (auto simp: heap_ok_def) (metis mset_eq_imp_distinct_iff)
  have idx: "heapIndex (node_of ?S (open_heap ?S ! m)) = int m" if m: "m < length (open_heap ?S)" for m
  proof -
    have len: "length (open_heap ?S) = length (open_heap S)" by (simp add: open_swap)
    then have mem: "open_heap ?S ! m \<in> known S" using m assms(1) set_eq by (auto simp: heap_ok_def dest: nth_mem)
    have "open_heap S ! m = ?a \<longleftrightarrow> m = i" "open_heap S ! m = ?b \<longleftrightarrow> m = j" "?a = ?b \<longleftrightarrow> i = j"
      using d(1) m len assms(2,3) by (simp_all add: nth_eq_iff_index_eq)
    moreover have "heapIndex (node_of S (open_heap S ! m)) = int m" using assms(1) m len by (simp add: heap_ok_def)
    ultimately show ?thesis using n [OF mem] m len assms(2,3) by (auto simp: open_swap nth_list_update)
  qed
  have "heapIndex (node_of ?S k) = -1" if "k \<in> known S" "k \<notin> set (open_heap S)" for k
    using n [OF that(1)] that assms by (auto simp: heap_ok_def)
  then show "heap_ok ?S" using d idx assms(1) by (simp add: heap_ok_def k set_eq)
qed

lemma heap_up_ok:
  assumes "heap_ok S" "j < length (open_heap S)"
  shows "heap_ok (heap_up F j S) \<and> same_nodes S (heap_up F j S) \<and> mset (open_heap (heap_up F j S)) = mset (open_heap S)"
  using assms
proof (induction F j S rule: heap_up.induct)
  case (1 F j S)
  let ?i = "(j - 1) div 2"
  show ?case
  proof (cases "?i = j \<or> \<not> heap_less F S j ?i")
    case True
    then show ?thesis using "1.prems" by (subst (1 2 3) heap_up.simps) (simp add: Let_def)
  next
    case False
    then have i: "?i < length (open_heap S)" using "1.prems" by simp
    note W = heap_swap_ok [OF "1.prems"(1) i "1.prems"(2)]
    have "length (open_heap (heap_swap ?i j S)) = length (open_heap S)" using W(3) by (rule mset_eq_length)
    then have IH: "heap_ok (heap_up F ?i (heap_swap ?i j S)) \<and> same_nodes (heap_swap ?i j S) (heap_up F ?i (heap_swap ?i j S)) \<and>
        mset (open_heap (heap_up F ?i (heap_swap ?i j S))) = mset (open_heap (heap_swap ?i j S))"
      using "1.IH" [OF refl _ W(1)] False i by simp
    have "heap_up F j S = heap_up F ?i (heap_swap ?i j S)" using False by (subst heap_up.simps) (simp add: Let_def)
    then show ?thesis using IH W same_nodes_trans [OF W(2)] by simp
  qed
qed

lemma heap_down_ok:
  assumes "heap_ok S" "n \<le> length (open_heap S)" "i < n \<or> n = 0"
  shows "heap_ok (snd (heap_down F n i S)) \<and> same_nodes S (snd (heap_down F n i S)) \<and>
    mset (open_heap (snd (heap_down F n i S))) = mset (open_heap S) \<and>
    (\<forall>m. n \<le> m \<longrightarrow> open_heap (snd (heap_down F n i S)) ! m = open_heap S ! m) \<and> i \<le> fst (heap_down F n i S)"
  using assms
proof (induction F n i S rule: heap_down.induct)
  case (1 F n i S)
  let ?j1 = "2 * i + 1" and ?j2 = "2 * i + 1 + 1"
  let ?j = "if ?j2 < n \<and> heap_less F S ?j2 ?j1 then ?j2 else ?j1"
  show ?case
  proof (cases "?j1 \<ge> n \<or> \<not> heap_less F S ?j i")
    case True
    then have "heap_down F n i S = (i, S)" by (subst heap_down.simps) (auto simp: Let_def)
    then show ?thesis using "1.prems" by simp
  next
    case False
    then have j: "?j < n" "i < n" "i \<le> ?j" by auto
    then have lt: "?j < length (open_heap S)" "i < length (open_heap S)" using "1.prems" by simp_all
    let ?W = "heap_swap i ?j S"
    note W = heap_swap_ok [OF "1.prems"(1) lt(2,1)]
    have len: "length (open_heap ?W) = length (open_heap S)" using W(3) by (rule mset_eq_length)
    have rest: "open_heap ?W ! m = open_heap S ! m" if "n \<le> m" for m
      using that j by (auto simp: heap_swap_def Let_def set_index_def nth_list_update)
    have run: "heap_down F n i S = heap_down F n ?j ?W" using False by (subst heap_down.simps) (auto simp: Let_def)
    have "heap_ok (snd (heap_down F n ?j ?W)) \<and> same_nodes ?W (snd (heap_down F n ?j ?W)) \<and>
        mset (open_heap (snd (heap_down F n ?j ?W))) = mset (open_heap ?W) \<and>
        (\<forall>m. n \<le> m \<longrightarrow> open_heap (snd (heap_down F n ?j ?W)) ! m = open_heap ?W ! m) \<and> ?j \<le> fst (heap_down F n ?j ?W)"
      by (rule "1.IH" [OF refl refl _ refl _ W(1)]) (use False j len "1.prems" in simp_all)
    then show ?thesis unfolding run using W rest j(3) same_nodes_trans [OF W(2)] by simp
  qed
qed

lemma heap_push_ok:
  assumes "heap_ok S" "k \<in> known S" "k \<notin> set (open_heap S)"
  shows "heap_ok (heap_push F k S)" "same_nodes S (heap_push F k S)"
    "mset (open_heap (heap_push F k S)) = add_mset k (mset (open_heap S))"
proof -
  let ?n = "length (open_heap S)"
  let ?S = "(set_index (int ?n) k S)\<lparr>open_heap := open_heap S @ [k]\<rparr>"
  have node: "node_of ?S k' = (if k' = k then (node_of S k')\<lparr>heapIndex := int ?n\<rparr> else node_of S k')" if "k' \<in> known S" for k'
    using that by (simp add: set_index_def node_of_alter)
  have known: "known ?S = known S" by (simp add: set_index_def)
  have "heapIndex (node_of ?S (open_heap ?S ! i)) = int i" if "i < length (open_heap ?S)" for i
  proof (cases "i < ?n")
    case True
    then have "open_heap S ! i \<in> known S" "open_heap S ! i \<noteq> k" using assms by (auto simp: heap_ok_def dest: nth_mem)
    then show ?thesis using True assms(1) node by (simp add: nth_append heap_ok_def)
  next
    case False
    then have "i = ?n" using that by simp
    then show ?thesis using node assms(2) by simp
  qed
  then have ok: "heap_ok ?S" using assms node known by (auto simp: heap_ok_def)
  have same: "same_nodes S ?S" by (rule same_nodes_trans [OF set_index_same [where i = "int ?n" and k = k]]) simp
  have run: "heap_push F k S = heap_up F ?n ?S" by (simp add: heap_push_def Let_def set_index_def)
  have "?n < length (open_heap ?S)" by simp
  from heap_up_ok [OF ok this, of F] show "heap_ok (heap_push F k S)" "same_nodes S (heap_push F k S)"
      "mset (open_heap (heap_push F k S)) = add_mset k (mset (open_heap S))"
    using same_nodes_trans [OF same] unfolding run by simp_all
qed

lemma heap_pop_ok:
  assumes "heap_ok S" "open_heap S \<noteq> []"
  shows "heap_ok (snd (heap_pop F S))" "same_nodes S (snd (heap_pop F S))"
    "mset (open_heap S) = add_mset (fst (heap_pop F S)) (mset (open_heap (snd (heap_pop F S))))"
proof -
  let ?n = "length (open_heap S) - 1"
  let ?W = "heap_swap 0 ?n S"
  define D where "D = snd (heap_down F ?n 0 ?W)"
  let ?k = "last (open_heap D)"
  have lt: "0 < length (open_heap S)" "?n < length (open_heap S)" using assms(2) by simp_all
  note W = heap_swap_ok [OF assms(1) lt]
  have lenW: "length (open_heap ?W) = length (open_heap S)" using W(3) by (rule mset_eq_length)
  have z: "0 < ?n \<or> ?n = 0" by auto
  have down: "heap_ok D" "same_nodes ?W D" "mset (open_heap D) = mset (open_heap ?W)"
    using heap_down_ok [OF W(1) _ z, of F] lenW by (auto simp: D_def)
  have same: "same_nodes S D" using same_nodes_trans [OF W(2) down(2)] .
  have ms: "mset (open_heap D) = mset (open_heap S)" using down(3) W(3) by simp
  then have ne: "open_heap D \<noteq> []" using assms(2) by auto
  let ?P = "(set_index (-1) ?k D)\<lparr>open_heap := butlast (open_heap D)\<rparr>"
  have run: "heap_pop F S = (?k, ?P)" by (simp add: heap_pop_def Let_def D_def)
  have split: "open_heap D = butlast (open_heap D) @ [?k]" using ne by simp
  have "mset (open_heap D) = add_mset ?k (mset (butlast (open_heap D)))"
    using arg_cong [OF split, of mset] by simp
  then show "mset (open_heap S) = add_mset (fst (heap_pop F S)) (mset (open_heap (snd (heap_pop F S))))"
    unfolding run using ms by simp
  have kd: "distinct (butlast (open_heap D) @ [?k])" using down(1) split unfolding heap_ok_def by metis
  have set_eq: "set (open_heap D) = insert ?k (set (butlast (open_heap D)))" using arg_cong [OF split, of set] by simp
  have sub: "set (open_heap D) \<subseteq> known D" using down(1) by (simp add: heap_ok_def)
  have node: "node_of ?P k = (if k = ?k then (node_of D k)\<lparr>heapIndex := -1\<rparr> else node_of D k)" if "k \<in> known D" for k
    using that by (simp add: set_index_def node_of_alter)
  have idx: "heapIndex (node_of ?P (butlast (open_heap D) ! i)) = int i" if i: "i < length (butlast (open_heap D))" for i
  proof -
    have eq: "butlast (open_heap D) ! i = open_heap D ! i" using i by (simp add: nth_butlast)
    have "butlast (open_heap D) ! i \<noteq> ?k" "butlast (open_heap D) ! i \<in> known D"
      using nth_mem [OF i] kd sub set_eq by auto
    moreover have "heapIndex (node_of D (open_heap D ! i)) = int i" using down(1) i by (simp add: heap_ok_def)
    ultimately show ?thesis using node unfolding eq by simp
  qed
  have rest: "heapIndex (node_of ?P k) = -1" if "k \<in> known D" "k \<notin> set (butlast (open_heap D))" for k
  proof (cases "k = ?k")
    case False
    then have "k \<notin> set (open_heap D)" using that set_eq by simp
    then have "heapIndex (node_of D k) = -1" using down(1) that(1) by (simp add: heap_ok_def)
    then show ?thesis using node [OF that(1)] False by simp
  qed (use node [OF that(1)] in simp)
  have P: "open_heap ?P = butlast (open_heap D)" "known ?P = known D" by (simp_all add: set_index_def)
  have "distinct (open_heap ?P)" "set (open_heap ?P) \<subseteq> known ?P" using kd sub set_eq unfolding P by auto
  then have "heap_ok ?P" using idx rest unfolding heap_ok_def P by blast
  moreover have "same_nodes S ?P"
    by (rule same_nodes_trans [OF same_nodes_trans [OF same set_index_same [where i = "-1" and k = ?k]]]) simp
  ultimately show "heap_ok (snd (heap_pop F S))" "same_nodes S (snd (heap_pop F S))" unfolding run by simp_all
qed

lemma heap_fix_ok:
  assumes "heap_ok S" "i < length (open_heap S)"
  shows "heap_ok (heap_fix F i S)" "same_nodes S (heap_fix F i S)" "mset (open_heap (heap_fix F i S)) = mset (open_heap S)"
proof -
  obtain i' S' where d: "heap_down F (length (open_heap S)) i S = (i', S')" by fastforce
  have D: "heap_ok S'" "same_nodes S S'" "mset (open_heap S') = mset (open_heap S)"
    using heap_down_ok [OF assms(1) le_refl disjI1 [OF assms(2)], of F] d by simp_all
  have "i < length (open_heap S')" using mset_eq_length [OF D(3)] assms(2) by simp
  note U = heap_up_ok [OF D(1) this, of F]
  show "heap_ok (heap_fix F i S)" "same_nodes S (heap_fix F i S)" "mset (open_heap (heap_fix F i S)) = mset (open_heap S)"
    using D U same_nodes_trans [OF D(2)] by (simp_all add: heap_fix_def d)
qed

section \<open>The state of a search\<close>

definition is_closed :: "'f search \<Rightarrow> node_key \<Rightarrow> bool" where
  "is_closed S k \<longleftrightarrow> k \<in> known S \<and> closed (node_of S k)"

text \<open>The way back from a closed node: the nodes from the start, each the parent of the next.\<close>

definition trail :: "(node_key \<Rightarrow> node_key list) \<Rightarrow> node_key \<Rightarrow> 'f search \<Rightarrow> node_key list \<Rightarrow> bool" where
  "trail N start S ks \<longleftrightarrow> ks \<noteq> [] \<and> hd ks = start \<and> distinct ks \<and> (\<forall>k \<in> set ks. is_closed S k) \<and>
     successively (\<lambda>a b. parent (node_of S b) = Some a \<and> b \<in> set (N a)) ks"

definition reach :: "(node_key \<Rightarrow> node_key list) \<Rightarrow> (node_key \<times> node_key) set" where
  "reach N = {(a, b). b \<in> set (N a)}\<^sup>*"

definition core :: "(node_key \<Rightarrow> node_key list) \<Rightarrow> 'f float_arith \<Rightarrow> node_key \<Rightarrow> node_key \<Rightarrow> node_key set \<Rightarrow> 'f search \<Rightarrow> bool" where
  "core N F start goal waiting S \<longleftrightarrow>
     distinct (map fst (nodes S)) \<and> is_closed S start \<and> parent (node_of S start) = None \<and> is_closed S (best S) \<and>
     (\<forall>k \<in> waiting. k \<in> known S \<and> \<not> is_closed S k \<and> (\<exists>p. parent (node_of S k) = Some p \<and> is_closed S p \<and> k \<in> set (N p))) \<and>
     (\<forall>k. is_closed S k \<longrightarrow> (\<exists>ks. trail N start S ks \<and> last ks = k)) \<and>
     (\<forall>k \<in> known S. (start, k) \<in> reach N \<and> node_h (node_of S k) = heuristic F k goal)"

lemma trail_kept:
  assumes "trail N start S ks"
    and "\<And>k. is_closed S k \<Longrightarrow> is_closed S' k \<and> parent (node_of S' k) = parent (node_of S k)"
  shows "trail N start S' ks"
proof -
  have "successively (\<lambda>a b. parent (node_of S' b) = Some a \<and> b \<in> set (N a)) ks"
    by (rule successively_mono [of "\<lambda>a b. parent (node_of S b) = Some a \<and> b \<in> set (N a)"])
      (use assms in \<open>auto simp: trail_def\<close>)
  then show ?thesis using assms by (auto simp: trail_def)
qed

lemma core_change:
  assumes "core N F start goal waiting S"
    and "\<And>k. is_closed S k \<Longrightarrow> is_closed S' k \<and> parent (node_of S' k) = parent (node_of S k)"
    and "\<And>k. is_closed S' k \<Longrightarrow> is_closed S k"
    and "distinct (map fst (nodes S'))" "best S' = best S"
    and "\<And>k. k \<in> known S' \<Longrightarrow> (start, k) \<in> reach N \<and> node_h (node_of S' k) = heuristic F k goal"
    and "\<And>k. k \<in> waiting' \<Longrightarrow> k \<in> known S' \<and> \<not> is_closed S' k \<and> (\<exists>p. parent (node_of S' k) = Some p \<and> is_closed S' p \<and> k \<in> set (N p))"
  shows "core N F start goal waiting' S'"
proof -
  have "\<exists>ks. trail N start S' ks \<and> last ks = k" if "is_closed S' k" for k
    using assms(1) assms(3) [OF that] trail_kept [OF _ assms(2)] unfolding core_def by metis
  then show ?thesis using assms unfolding core_def by simp
qed

lemma same_closed: "same_nodes S S' \<Longrightarrow> is_closed S' k = is_closed S k"
  using same_nodes_known(1) [of S S'] same_nodes_node(4) [of S S' k] by (auto simp: is_closed_def)

lemma core_same:
  assumes "core N F start goal waiting S" "same_nodes S S'"
  shows "core N F start goal waiting S'"
proof (rule core_change [OF assms(1)])
  note K = same_nodes_known(1) [OF assms(2)] and C = same_closed [OF assms(2)] and V = same_nodes_node [OF assms(2)]
  show "is_closed S' k \<and> parent (node_of S' k) = parent (node_of S k)" if "is_closed S k" for k
    using that C [of k] V(3) [of k] unfolding is_closed_def by blast
  show "is_closed S k" if "is_closed S' k" for k using that C by simp
  show "distinct (map fst (nodes S'))" "best S' = best S" using assms by (simp_all add: core_def same_nodes_def)
  show "(start, k) \<in> reach N \<and> node_h (node_of S' k) = heuristic F k goal" if "k \<in> known S'" for k
    using assms(1) that V(2) K by (simp add: core_def)
  show "k \<in> known S' \<and> \<not> is_closed S' k \<and> (\<exists>p. parent (node_of S' k) = Some p \<and> is_closed S' p \<and> k \<in> set (N p))"
    if "k \<in> waiting" for k
    using assms(1) that V(3) K C by (simp add: core_def)
qed

lemma find_or_add_fields:
  "known (find_or_add F goal k S) = insert k (known S)" "open_heap (find_or_add F goal k S) = open_heap S"
  "best (find_or_add F goal k S) = best S"
  "k' \<in> known S \<Longrightarrow> node_of (find_or_add F goal k S) k' = node_of S k'"
  "k \<notin> known S \<Longrightarrow> node_of (find_or_add F goal k S) k = new_node F goal k"
proof -
  show "known (find_or_add F goal k S) = insert k (known S)"
    using known_map [of k S] by (auto simp: find_or_add_def known_def split: option.splits)
  show "k' \<in> known S \<Longrightarrow> node_of (find_or_add F goal k S) k' = node_of S k'"
    using known_map [of k' S] by (auto simp: find_or_add_def node_of_def map_add_def split: option.splits)
  show "k \<notin> known S \<Longrightarrow> node_of (find_or_add F goal k S) k = new_node F goal k"
    using known_map [of k S] by (auto simp: find_or_add_def node_of_def map_add_def split: option.splits)
qed (simp_all add: find_or_add_def split: option.splits)

lemma find_or_add_closed: "is_closed (find_or_add F goal k S) k' = is_closed S k'"
  by (cases "k' \<in> known S") (auto simp: is_closed_def find_or_add_fields new_node_def)

lemma find_or_add_ok:
  assumes "heap_ok S" "core N F start goal waiting S" "is_closed S current" "k \<in> set (N current)"
  shows "heap_ok (find_or_add F goal k S)" "core N F start goal waiting (find_or_add F goal k S)"
proof -
  let ?S = "find_or_add F goal k S"
  note FF = find_or_add_fields [where F = F and goal = goal and k = k and S = S]
  have in_heap: "open_heap S ! i \<in> known S" if "i < length (open_heap S)" for i
    using assms(1) nth_mem [OF that] by (auto simp: heap_ok_def)
  have "heapIndex (node_of ?S k') = -1" if "k' \<in> known ?S" "k' \<notin> set (open_heap S)" for k'
    using that assms(1) FF by (cases "k' \<in> known S") (auto simp: heap_ok_def new_node_def)
  then show "heap_ok ?S" using assms(1) in_heap by (auto simp: heap_ok_def FF)
  show "core N F start goal waiting ?S"
  proof (rule core_change [OF assms(2)])
    show "is_closed ?S k' \<and> parent (node_of ?S k') = parent (node_of S k')" if "is_closed S k'" for k'
      using that FF(4) [of k'] by (simp add: find_or_add_closed) (simp add: is_closed_def)
    show "is_closed S k'" if "is_closed ?S k'" for k' using that by (simp add: find_or_add_closed)
    show "distinct (map fst (nodes ?S))"
      using assms(2) known_map [of k S] by (auto simp: core_def find_or_add_def known_def image_iff split: option.splits)
    have "(start, current) \<in> reach N" using assms(2,3) by (simp add: core_def is_closed_def)
    then have "(start, k) \<in> reach N" using assms(4) unfolding reach_def by (auto intro: rtrancl_into_rtrancl)
    then show "(start, k') \<in> reach N \<and> node_h (node_of ?S k') = heuristic F k' goal" if "k' \<in> known ?S" for k'
      using that assms(2) FF by (cases "k' \<in> known S") (auto simp: core_def new_node_def)
    show "k' \<in> known ?S \<and> \<not> is_closed ?S k' \<and> (\<exists>p. parent (node_of ?S k') = Some p \<and> is_closed ?S p \<and> k' \<in> set (N p))"
      if "k' \<in> waiting" for k'
      using that assms(2) FF by (auto simp: core_def find_or_add_closed)
  qed (simp add: FF)
qed

definition improve :: "'f float_arith \<Rightarrow> node_key \<Rightarrow> node_key \<Rightarrow> 'f \<Rightarrow> 'f search \<Rightarrow> 'f search" where
  "improve F current k cost S = alter k (\<lambda>n. n\<lparr>node_g := cost, parent := Some current\<rparr>) S"

lemma improve_node: "k' \<in> known S \<Longrightarrow> node_of (improve F current k cost S) k' =
    (if k' = k then (node_of S k)\<lparr>node_g := cost, parent := Some current\<rparr> else node_of S k')"
  by (simp add: improve_def node_of_alter)

lemma improve_fields [simp]:
  "known (improve F current k cost S) = known S" "open_heap (improve F current k cost S) = open_heap S"
  "best (improve F current k cost S) = best S" "map fst (nodes (improve F current k cost S)) = map fst (nodes S)"
  by (simp_all add: improve_def)

lemma improve_closed [simp]: "is_closed (improve F current k cost S) k' = is_closed S k'"
  by (cases "k' \<in> known S") (auto simp: is_closed_def improve_node)

lemma improve_ok:
  assumes "heap_ok S" "core N F start goal waiting S" "is_closed S current" "k \<in> set (N current)" "k \<in> known S" "\<not> is_closed S k"
  shows "heap_ok (improve F current k cost S)" "core N F start goal (insert k waiting) (improve F current k cost S)"
proof -
  let ?S = "improve F current k cost S"
  have in_heap: "open_heap S ! i \<in> known S" if "i < length (open_heap S)" for i
    using assms(1) nth_mem [OF that] by (auto simp: heap_ok_def)
  show "heap_ok ?S" using assms(1,5) in_heap by (auto simp: heap_ok_def improve_node)
  show "core N F start goal (insert k waiting) ?S"
  proof (rule core_change [OF assms(2)])
    show "is_closed ?S k' \<and> parent (node_of ?S k') = parent (node_of S k')" if c: "is_closed S k'" for k'
    proof -
      have "k' \<noteq> k" "k' \<in> known S" using c assms(6) by (auto simp: is_closed_def)
      then show ?thesis using c by (simp add: improve_node)
    qed
    show "(start, k') \<in> reach N \<and> node_h (node_of ?S k') = heuristic F k' goal" if "k' \<in> known ?S" for k'
      using that assms(2,5) by (simp add: core_def improve_node)
    show "k' \<in> known ?S \<and> \<not> is_closed ?S k' \<and> (\<exists>p. parent (node_of ?S k') = Some p \<and> is_closed ?S p \<and> k' \<in> set (N p))"
      if "k' \<in> insert k waiting" for k'
      using that assms by (cases "k' = k") (auto simp: core_def improve_node)
  qed (use assms(2) in \<open>simp_all add: core_def\<close>)
qed

text \<open>A relaxed neighbour stays as it is, or gets the new cost and waits in the heap.\<close>

lemma relax_cases:
  fixes F goal current k S
  defines "cost \<equiv> f_add F (node_g (node_of S current)) (movementCost F current k)"
    and "S1 \<equiv> find_or_add F goal k S"
  assumes "heap_ok S" "core N F start goal (set (open_heap S)) S" "is_closed S current" "k \<in> set (N current)"
  obtains (kept) "closed (node_of S1 k) \<or> f_le F (node_g (node_of S1 k)) cost" "relax F goal current k S = S1"
  | (queued) "\<not> is_closed S1 k" "heap_ok (relax F goal current k S)"
      "same_nodes (improve F current k cost S1) (relax F goal current k S)"
      "set (open_heap (relax F goal current k S)) = insert k (set (open_heap S))"
proof -
  note A = find_or_add_ok [OF assms(3-6)]
  let ?S2 = "improve F current k cost S1"
  have k: "k \<in> known S1" and o: "open_heap S1 = open_heap S" by (simp_all add: S1_def find_or_add_fields)
  have run: "relax F goal current k S = (if closed (node_of S1 k) \<or> f_le F (node_g (node_of S1 k)) cost then S1
      else if heapIndex (node_of S1 k) \<ge> 0 then heap_fix F (nat (heapIndex (node_of S1 k))) ?S2 else heap_push F k ?S2)"
    by (simp only: relax_def Let_def cost_def S1_def improve_def)
  show thesis
  proof (cases "closed (node_of S1 k) \<or> f_le F (node_g (node_of S1 k)) cost")
    case True
    then show ?thesis using kept run by simp
  next
    case False
    then have nc: "\<not> is_closed S1 k" by (simp add: is_closed_def)
    have c1: "is_closed S1 current" using assms(5) by (simp add: S1_def find_or_add_closed)
    have h2: "heap_ok ?S2" using improve_ok(1) [OF A [folded S1_def] c1 assms(6) k nc] .
    show ?thesis
    proof (cases "heapIndex (node_of S1 k) \<ge> 0")
      case idx: True
      then have "k \<in> set (open_heap S)" using A(1) k o by (force simp: heap_ok_def S1_def [symmetric])
      then obtain i where i: "i < length (open_heap S)" "open_heap S ! i = k" by (auto simp: in_set_conv_nth)
      then have "heapIndex (node_of S1 k) = int i" using A(1) o by (auto simp: heap_ok_def S1_def [symmetric])
      then have "relax F goal current k S = heap_fix F i ?S2" using run False idx by simp
      then show ?thesis
        using heap_fix_ok [OF h2, of i F] i o nc \<open>k \<in> set (open_heap S)\<close> by (intro queued) (auto dest: mset_eq_setD)
    next
      case idx: False
      then have "k \<notin> set (open_heap ?S2)" using A(1) o by (auto simp: heap_ok_def S1_def [symmetric] in_set_conv_nth)
      note P = heap_push_ok [OF h2 _ this, of F]
      have "relax F goal current k S = heap_push F k ?S2" using run False idx by simp
      then show ?thesis using P k o nc by (intro queued) (auto dest: arg_cong [of _ _ set_mset])
    qed
  qed
qed

lemma relax_ok:
  assumes "heap_ok S" "core N F start goal (set (open_heap S)) S" "is_closed S current" "k \<in> set (N current)"
  shows "heap_ok (relax F goal current k S)" "core N F start goal (set (open_heap (relax F goal current k S))) (relax F goal current k S)"
    "known (relax F goal current k S) = insert k (known S)" "is_closed (relax F goal current k S) k' = is_closed S k'"
proof -
  let ?R = "relax F goal current k S"
  note A = find_or_add_ok [OF assms]
  have c1: "is_closed (find_or_add F goal k S) current" using assms(3) by (simp add: find_or_add_closed)
  have k: "k \<in> known (find_or_add F goal k S)" by (simp add: find_or_add_fields)
  have "heap_ok ?R \<and> core N F start goal (set (open_heap ?R)) ?R \<and> known ?R = insert k (known S) \<and> is_closed ?R k' = is_closed S k'"
    using assms
  proof (cases rule: relax_cases)
    case kept
    then show ?thesis using A by (simp add: find_or_add_fields find_or_add_closed)
  next
    case queued
    note I = improve_ok(2) [OF A c1 assms(4) k queued(1)]
    have "known ?R = insert k (known S)" using same_nodes_known(1) [OF queued(3)] by (simp add: find_or_add_fields)
    moreover have "is_closed ?R k' = is_closed S k'" using same_closed [OF queued(3)] by (simp add: find_or_add_closed)
    ultimately show ?thesis using core_same [OF I queued(3)] queued by simp
  qed
  then show "heap_ok ?R" "core N F start goal (set (open_heap ?R)) ?R" "known ?R = insert k (known S)" "is_closed ?R k' = is_closed S k'"
    by simp_all
qed

section \<open>No node is forgotten\<close>

text \<open>What \<open>float64\<close> guarantees of the costs: a finite cost is less than infinity, and adding the cost of one
  step, which is less than 4, keeps it finite.\<close>

definition finite_costs :: "'f float_arith \<Rightarrow> ('f \<Rightarrow> bool) \<Rightarrow> bool" where
  "finite_costs F fin \<longleftrightarrow> fin (f_int F 0) \<and> (\<forall>x. fin x \<longrightarrow> \<not> f_le F (f_inf F) x) \<and>
     (\<forall>x a b. fin x \<longrightarrow> \<bar>nk_y a - nk_y b\<bar> \<le> maximumFall \<longrightarrow> fin (f_add F x (movementCost F a b)))"

definition none_lost :: "('f \<Rightarrow> bool) \<Rightarrow> 'f search \<Rightarrow> bool" where
  "none_lost fin S \<longleftrightarrow> (\<forall>k \<in> known S. (is_closed S k \<or> k \<in> set (open_heap S)) \<and> fin (node_g (node_of S k)))"

lemma next_height: "b \<in> set (next_to w doors a) \<Longrightarrow> \<bar>nk_y a - nk_y b\<bar> \<le> maximumFall"
  using next_legal [of b w doors a] by (auto simp: legal_step_def maximumFall_def maximumStepUp_def)

lemma relax_none_lost:
  assumes "heap_ok S" "core N F start goal (set (open_heap S)) S" "is_closed S current" "k \<in> set (N current)"
    and "none_lost fin S" "finite_costs F fin" "\<bar>nk_y current - nk_y k\<bar> \<le> maximumFall"
  shows "none_lost fin (relax F goal current k S)"
proof -
  let ?R = "relax F goal current k S" and ?S1 = "find_or_add F goal k S"
    and ?cost = "f_add F (node_g (node_of S current)) (movementCost F current k)"
  note FF = find_or_add_fields [where F = F and goal = goal and k = k and S = S]
  have fin: "fin ?cost" using assms(3,5-7) by (simp add: finite_costs_def none_lost_def is_closed_def)
  have old: "(is_closed S k' \<or> k' \<in> set (open_heap S)) \<and> fin (node_g (node_of S k'))" if "k' \<in> known S" for k'
    using assms(5) that by (simp add: none_lost_def)
  show ?thesis
    using assms(1-4)
  proof (cases rule: relax_cases)
    case kept
    have "k \<in> known S"
    proof (rule ccontr)
      assume "k \<notin> known S"
      then have "f_le F (f_inf F) ?cost" using kept(1) FF(5) by (simp add: new_node_def)
      then show False using fin assms(6) by (simp add: finite_costs_def)
    qed
    then show ?thesis unfolding kept(2) none_lost_def using old FF by (auto simp: find_or_add_closed)
  next
    case queued
    have K: "known ?R = insert k (known S)" using same_nodes_known(1) [OF queued(3)] by (simp add: FF(1))
    have "(is_closed ?R k' \<or> k' \<in> set (open_heap ?R)) \<and> fin (node_g (node_of ?R k'))" if "k' \<in> known ?R" for k'
    proof (cases "k' = k")
      case True
      have "node_g (node_of ?R k) = ?cost"
        using same_nodes_node(1) [OF queued(3), of k] by (simp add: FF improve_node)
      then show ?thesis using fin queued(4) True by simp
    next
      case False
      then have k': "k' \<in> known S" using that K by simp
      have "node_g (node_of ?R k') = node_g (node_of S k')"
        using same_nodes_node(1) [OF queued(3), of k'] k' False by (simp add: FF improve_node)
      moreover have "is_closed ?R k' = is_closed S k'" using same_closed [OF queued(3)] by (simp add: find_or_add_closed)
      ultimately show ?thesis using old [OF k'] queued(4) by auto
    qed
    then show ?thesis by (simp add: none_lost_def)
  qed
qed

text \<open>All neighbours of the current node.\<close>

lemma relax_all:
  assumes "heap_ok S" "core N F start goal (set (open_heap S)) S" "is_closed S current" "set ks \<subseteq> set (N current)"
  shows "let S' = fold (relax F goal current) ks S
         in heap_ok S' \<and> core N F start goal (set (open_heap S')) S' \<and> known S' = known S \<union> set ks \<and>
            (\<forall>k. is_closed S' k = is_closed S k) \<and>
            (none_lost fin S \<and> finite_costs F fin \<and> (\<forall>k \<in> set (N current). \<bar>nk_y current - nk_y k\<bar> \<le> maximumFall) \<longrightarrow> none_lost fin S')"
  using assms
proof (induction ks arbitrary: S)
  case (Cons k ks)
  have k: "k \<in> set (N current)" using Cons.prems(4) by simp
  note R = relax_ok [OF Cons.prems(1-3) k]
  have "is_closed (relax F goal current k S) current" using R(4) Cons.prems(3) by simp
  note IH = Cons.IH [OF R(1,2) this]
  show ?case
    using IH Cons.prems(4) R(3,4) relax_none_lost [OF Cons.prems(1-3) k, of fin] k unfolding Let_def by auto
qed simp

section \<open>One node\<close>

definition expand :: "'f float_arith \<Rightarrow> 'f search \<Rightarrow> node_key \<times> 'f search" where
  "expand F S = (let (k, S') = heap_pop F S in (k, take_current F k S'))"

lemma best_update_fields [simp]: "known (S\<lparr>best := b\<rparr>) = known S" "node_of (S\<lparr>best := b\<rparr>) k = node_of S k"
  by (simp_all add: known_def node_of_def)

lemma take_current_fields:
  "known (take_current F k S) = known S" "open_heap (take_current F k S) = open_heap S"
  "map fst (nodes (take_current F k S)) = map fst (nodes S)"
  "k' \<in> known S \<Longrightarrow> node_of (take_current F k S) k' = (if k' = k then (node_of S k)\<lparr>closed := True\<rparr> else node_of S k')"
  "best (take_current F k S) = best S \<or> best (take_current F k S) = k"
  by (simp_all add: take_current_def Let_def node_of_alter) (cases "k' = k"; simp add: node_of_alter)

lemma take_current_closed: "k \<in> known S \<Longrightarrow> is_closed (take_current F k S) k' \<longleftrightarrow> k' = k \<or> is_closed S k'"
  by (cases "k' \<in> known S") (auto simp: is_closed_def take_current_fields)

lemma take_current_ok:
  assumes "heap_ok S" "core N F start goal waiting S" "k \<in> waiting" "k \<notin> set (open_heap S)"
  shows "heap_ok (take_current F k S)" "core N F start goal (waiting - {k}) (take_current F k S)"
proof -
  let ?S = "take_current F k S"
  have k: "k \<in> known S" "\<not> is_closed S k" using assms(2,3) by (auto simp: core_def)
  have in_heap: "open_heap S ! i \<in> known S" if "i < length (open_heap S)" for i
    using assms(1) nth_mem [OF that] by (auto simp: heap_ok_def)
  show "heap_ok ?S" using assms(1) k in_heap by (auto simp: heap_ok_def take_current_fields)
  obtain p where p: "parent (node_of S k) = Some p" "is_closed S p" "k \<in> set (N p)"
    using assms(2,3) by (auto simp: core_def)
  have par: "parent (node_of ?S k') = parent (node_of S k')" if "k' \<in> known S" for k' using that by (simp add: take_current_fields)
  have kept: "is_closed ?S k' \<and> parent (node_of ?S k') = parent (node_of S k')" if "is_closed S k'" for k'
    using that par take_current_closed [OF k(1)] by (simp add: is_closed_def)
  have trails: "\<exists>ks. trail N start ?S ks \<and> last ks = k'" if "is_closed ?S k'" for k'
  proof (cases "k' = k")
    case True
    obtain ks where ks: "trail N start S ks" "last ks = p" using assms(2) p(2) unfolding core_def by blast
    have t: "trail N start ?S ks" by (rule trail_kept [OF ks(1) kept])
    have "k \<notin> set ks" using ks(1) k(2) by (auto simp: trail_def)
    moreover have "is_closed ?S k" using take_current_closed [OF k(1)] by simp
    ultimately have "trail N start ?S (ks @ [k])"
      using t p ks(2) par [OF k(1)] by (auto simp: trail_def successively_append_iff)
    then show ?thesis using True by (intro exI [of _ "ks @ [k]"]) simp
  next
    case False
    then have "is_closed S k'" using that take_current_closed [OF k(1)] by simp
    then show ?thesis using assms(2) trail_kept [OF _ kept] unfolding core_def by metis
  qed
  have "is_closed ?S (best ?S)"
    using take_current_fields(5) [of F k S] take_current_closed [OF k(1)] assms(2) by (auto simp: core_def)
  moreover have "node_h (node_of ?S k') = node_h (node_of S k')" if "k' \<in> known S" for k'
    using that by (simp add: take_current_fields)
  moreover have "k' \<in> known ?S \<and> \<not> is_closed ?S k' \<and> (\<exists>p. parent (node_of ?S k') = Some p \<and> is_closed ?S p \<and> k' \<in> set (N p))"
    if "k' \<in> waiting - {k}" for k'
    using that assms(2) par kept take_current_closed [OF k(1)] by (auto simp: core_def take_current_fields(1))
  ultimately show "core N F start goal (waiting - {k}) ?S"
    using assms(2) trails kept unfolding core_def by (simp add: take_current_fields(1,3))
qed

definition searching :: "(node_key \<Rightarrow> node_key list) \<Rightarrow> 'f float_arith \<Rightarrow> node_key \<Rightarrow> node_key \<Rightarrow> 'f search \<Rightarrow> bool" where
  "searching N F start goal S \<longleftrightarrow>
     S = start_search F start goal \<or> heap_ok S \<and> core N F start goal (set (open_heap S)) S"

lemma start_fields:
  "known (start_search F start goal) = {start}" "open_heap (start_search F start goal) = [start]"
  "best (start_search F start goal) = start" "length (nodes (start_search F start goal)) = 1"
  "node_of (start_search F start goal) start =
     \<lparr>node_g = f_int F 0, node_h = heuristic F start goal, parent = None, heapIndex = -1, closed = False\<rparr>"
  by (simp_all add: start_search_def known_def node_of_def)

lemma pop_start:
  "heap_pop F (start_search F start goal) = (start, (start_search F start goal)\<lparr>open_heap := []\<rparr>)"
proof -
  let ?S = "start_search F start goal"
  have "heap_down F 0 0 S = (0, S)" for S :: "'a search" by (subst heap_down.simps) simp
  then show ?thesis
    by (simp add: heap_pop_def Let_def heap_swap_def set_index_def alter_def start_search_def)
qed

text \<open>The first node to be expanded is the start.\<close>

lemma expand_start:
  fixes F start goal N
  defines "S' \<equiv> snd (expand F (start_search F start goal))"
  shows "fst (expand F (start_search F start goal)) = start" "heap_ok S'" "core N F start goal {} S'" "open_heap S' = []"
    "known S' = {start}" "is_closed S' k = (k = start)" "node_g (node_of S' start) = f_int F 0" "length (nodes S') = 1"
proof -
  let ?P = "(start_search F start goal)\<lparr>open_heap := []\<rparr>"
  have S': "S' = take_current F start ?P" "fst (expand F (start_search F start goal)) = start"
    by (simp_all add: S'_def expand_def pop_start)
  have P: "start \<in> known ?P" "known ?P = {start}" "\<not> is_closed ?P k" for k by (auto simp: start_fields is_closed_def)
  have node: "node_of S' start = (node_of ?P start)\<lparr>closed := True\<rparr>" unfolding S' using take_current_fields(4) [OF P(1), of F start] by simp
  show "fst (expand F (start_search F start goal)) = start" by (fact S'(2))
  show known: "known S' = {start}" by (simp add: S' take_current_fields start_fields)
  show op: "open_heap S' = []" by (simp add: S' take_current_fields)
  show "heap_ok S'" using known op node by (simp add: heap_ok_def start_fields)
  show cl: "is_closed S' k = (k = start)" for k unfolding S' take_current_closed [OF P(1)] using P(3) by simp
  show "node_g (node_of S' start) = f_int F 0" using node by (simp add: start_fields)
  have keys: "map fst (nodes S') = [start]" by (simp add: S' take_current_fields) (simp add: start_search_def)
  then show "length (nodes S') = 1" by (metis length_map length_Cons list.size(3) One_nat_def)
  have b: "best S' = start" using take_current_fields(5) [of F start ?P] by (auto simp: S' start_fields)
  have "trail N start S' [start]" using cl by (simp add: trail_def)
  then show "core N F start goal {} S'"
    using keys node cl b known by (auto simp: core_def start_fields reach_def intro!: exI [of _ "[start]"])
qed

lemma expand_ok:
  assumes "searching N F start goal S" "open_heap S \<noteq> []"
  shows "let (k, S') = expand F S
         in \<not> closed (node_of (snd (heap_pop F S)) k) \<and> heap_ok S' \<and> core N F start goal (set (open_heap S')) S' \<and>
            known S' = known S \<and> length (nodes S') = length (nodes S) \<and> k \<in> known S \<and> \<not> is_closed S k \<and>
            (\<forall>k'. is_closed S' k' \<longleftrightarrow> k' = k \<or> is_closed S k') \<and> (none_lost fin S \<longrightarrow> none_lost fin S')"
  using assms(1) unfolding searching_def
proof (elim disjE conjE)
  assume S: "S = start_search F start goal"
  note X = expand_start [where F = F and start = start and goal = goal]
  have "\<not> is_closed S k" for k by (auto simp: S is_closed_def start_fields)
  then show ?thesis
    using X unfolding S split_beta Let_def
    by (simp add: start_fields none_lost_def) (simp add: pop_start start_fields)
next
  assume ok: "heap_ok S" and core: "core N F start goal (set (open_heap S)) S"
  obtain k S1 where pop: "heap_pop F S = (k, S1)" by fastforce
  have P: "heap_ok S1" "same_nodes S S1" "mset (open_heap S) = add_mset k (mset (open_heap S1))"
    using heap_pop_ok [OF ok assms(2), of F] pop by simp_all
  have waiting: "set (open_heap S) = insert k (set (open_heap S1))" using arg_cong [OF P(3), of set_mset] by simp
  have "distinct (open_heap S)" using ok by (simp add: heap_ok_def)
  then have k1: "k \<notin> set (open_heap S1)" using P(3) by (metis distinct.simps(2) mset.simps(2) mset_eq_imp_distinct_iff)
  have k: "k \<in> known S1" "\<not> is_closed S1 k" "k \<in> known S" "\<not> is_closed S k"
    using core waiting same_closed [OF P(2)] same_nodes_known(1) [OF P(2)] by (auto simp: core_def)
  have T: "heap_ok (take_current F k S1)" "core N F start goal (set (open_heap S) - {k}) (take_current F k S1)"
    using take_current_ok [OF P(1) core_same [OF core P(2)] _ k1] waiting by auto
  have w: "set (open_heap S) - {k} = set (open_heap (take_current F k S1))" using k1 waiting by (simp add: take_current_fields)
  have n: "node_g (node_of (take_current F k S1) k') = node_g (node_of S k')" if "k' \<in> known S" for k'
    using that same_nodes_node(1) [OF P(2)] same_nodes_known(1) [OF P(2)] by (cases "k' = k"; simp add: take_current_fields)
  have len: "length (nodes (take_current F k S1)) = length (nodes S)"
    using same_nodes_known(2) [OF P(2)] by (metis length_map take_current_fields(3))
  have kn: "known (take_current F k S1) = known S" using same_nodes_known(1) [OF P(2)] by (simp add: take_current_fields)
  have cl: "is_closed (take_current F k S1) k' \<longleftrightarrow> k' = k \<or> is_closed S k'" for k'
    using take_current_closed [OF k(1)] same_closed [OF P(2)] by simp
  have "none_lost fin S \<longrightarrow> none_lost fin (take_current F k S1)"
    unfolding none_lost_def kn cl using n waiting by (auto simp: take_current_fields(2))
  moreover have "expand F S = (k, take_current F k S1)" by (simp add: expand_def pop)
  ultimately show ?thesis using T w kn cl len k by (simp add: pop is_closed_def)
qed

section \<open>The loop\<close>

lemma loop_step:
  "search_loop F m goal gs S e =
     (if open_heap S = [] \<or> length (nodes S) > m then Some (S, None)
      else let (k, S') = expand F S
           in if closed (node_of (snd (heap_pop F S)) k) then search_loop F m goal gs (snd (heap_pop F S)) e
              else if k = goal \<and> gs then Some (S', Some k)
              else search_loop F m goal gs (fold (relax F goal k) (fst (neighbours k e)) S') (snd (neighbours k e)))"
  by (subst search_loop.simps) (simp add: expand_def split_beta Let_def)

lemma next_length: "length (next_to w doors k) \<le> 8"
proof -
  have f: "length (found_at w doors k ds) \<le> length ds" for ds
    by (induction ds) (auto simp: found_at_def split: option.splits)
  let ?ds = "[(1, 0), (-1, 0), (0, 1), (0, -1)] :: (int \<times> int) list"
  have "length (open_corners k cardinal) \<le> 4" for cardinal
    unfolding open_corners_def by (rule order_trans [OF length_filter_le]) simp
  then have "length (found_at w doors k (open_corners k (found_at w doors k ?ds))) \<le> 4" using f order_trans by blast
  moreover have "length (found_at w doors k ?ds) \<le> 4" using f [of ?ds] by simp
  ultimately show ?thesis by (simp add: next_to_def Let_def)
qed

lemma core_card: "core N F start goal waiting S \<Longrightarrow> card (known S) = length (nodes S)"
  unfolding core_def known_def by (metis distinct_card length_map list.set_map)

definition search_done :: "(node_key \<Rightarrow> node_key list) \<Rightarrow> 'f float_arith \<Rightarrow> nat \<Rightarrow> node_key \<Rightarrow> node_key \<Rightarrow> bool \<Rightarrow>
    'f search \<Rightarrow> node_key option \<Rightarrow> bool" where
  "search_done N F m start goal gs S r \<longleftrightarrow>
     core N F start goal (set (open_heap S)) S \<and> length (nodes S) \<le> m + 8 \<and>
     (case r of
        Some k \<Rightarrow> k = goal \<and> gs \<and> is_closed S goal
      | None \<Rightarrow> (gs \<longrightarrow> \<not> is_closed S goal) \<and>
          (length (nodes S) > m \<or> open_heap S = [] \<and> (\<forall>k. is_closed S k \<longrightarrow> set (N k) \<subseteq> known S)))"

lemma loop_returns:
  fixes w doors
  defines "N \<equiv> next_to w doors"
  assumes "evaluates w doors e" "searching N F start goal S" "1 \<le> m" "length (nodes S) \<le> m + 8"
    and "gs \<Longrightarrow> \<not> is_closed S goal" "\<And>k. is_closed S k \<Longrightarrow> set (N k) \<subseteq> known S"
  shows "\<exists>S' r. search_loop F m goal gs S e = Some (S', r) \<and> search_done N F m start goal gs S' r \<and>
    (none_lost fin S \<and> finite_costs F fin \<longrightarrow> none_lost fin S')"
  using assms(2,3,5-7)
proof (induction "m + 1 - card {k. is_closed S k}" arbitrary: S e rule: less_induct)
  case less
  show ?case
  proof (cases "open_heap S = [] \<or> length (nodes S) > m")
    case True
    then have "S \<noteq> start_search F start goal" using assms(4) by (auto simp: start_fields)
    then have "core N F start goal (set (open_heap S)) S" using less.prems(2) by (simp add: searching_def)
    then show ?thesis
      using True less.prems by (subst loop_step) (auto simp: search_done_def intro!: exI [of _ S] exI [of _ None])
  next
    case False
    obtain k S1 where x: "expand F S = (k, S1)" by fastforce
    note X = expand_ok [OF less.prems(2), of fin] 
    have E: "\<not> closed (node_of (snd (heap_pop F S)) k)" "heap_ok S1" "core N F start goal (set (open_heap S1)) S1"
        "known S1 = known S" "length (nodes S1) = length (nodes S)" "k \<in> known S" "\<not> is_closed S k"
        "\<And>k'. is_closed S1 k' \<longleftrightarrow> k' = k \<or> is_closed S k'" "none_lost fin S \<Longrightarrow> none_lost fin S1"
      using X False by (simp_all add: x)
    have run: "search_loop F m goal gs S e = (if k = goal \<and> gs then Some (S1, Some k)
        else search_loop F m goal gs (fold (relax F goal k) (N k) S1) (snd (neighbours k e)))"
      using False E(1) neighbours_evaluates(1) [OF less.prems(1)] by (subst loop_step) (simp add: x N_def)
    show ?thesis
    proof (cases "k = goal \<and> gs")
      case True
      then show ?thesis
        using run E less.prems(3) by (intro exI [of _ S1] exI [of _ "Some k"]) (simp add: search_done_def)
    next
      case going: False
      let ?S = "fold (relax F goal k) (N k) S1"
      have "is_closed S1 k" using E(8) by simp
      from relax_all [OF E(2,3) this order_refl, of fin]
      have R: "heap_ok ?S" "core N F start goal (set (open_heap ?S)) ?S" "known ?S = known S \<union> set (N k)"
          "\<And>k'. is_closed ?S k' \<longleftrightarrow> k' = k \<or> is_closed S k'" "none_lost fin S \<and> finite_costs F fin \<Longrightarrow> none_lost fin ?S"
        using E(4,8,9) next_height by (auto simp: Let_def N_def)
      have "card (known ?S) \<le> card (known S) + length (N k)"
        unfolding R(3) using card_Un_le [of "known S" "set (N k)"] card_length [of "N k"] by linarith
      then have len: "length (nodes ?S) \<le> m + 8"
        using core_card [OF R(2)] core_card [OF E(3)] E(4,5) False next_length [of w doors k] by (simp add: N_def)
      have fin_known: "finite (known S)" by (simp add: known_def)
      have sub: "{k'. is_closed S k'} \<subseteq> known S - {k}" using E(7) by (auto simp: is_closed_def)
      have "card {k'. is_closed S k'} \<le> card (known S - {k})" by (rule card_mono) (use sub fin_known in simp_all)
      also have "\<dots> < card (known S)" by (rule card_Diff1_less [OF fin_known E(6)])
      finally have small: "card {k'. is_closed S k'} < m + 1" using core_card [OF E(3)] E(4,5) False by simp
      have "{k'. is_closed ?S k'} = insert k {k'. is_closed S k'}" using R(4) by auto
      then have "card {k'. is_closed ?S k'} = card {k'. is_closed S k'} + 1"
        using E(7) finite_subset [OF sub] fin_known by simp
      then have dec: "m + 1 - card {k'. is_closed ?S k'} < m + 1 - card {k'. is_closed S k'}" using small by simp
      have "set (N k') \<subseteq> known ?S" if "is_closed ?S k'" for k' using that R(3,4) less.prems(5) by auto
      moreover have "searching N F start goal ?S" using R(1,2) by (simp add: searching_def)
      moreover have "\<not> is_closed ?S goal" if gs using R(4) going less.prems(4) that by auto
      ultimately obtain S' r where L: "search_loop F m goal gs ?S (snd (neighbours k e)) = Some (S', r)"
          "search_done N F m start goal gs S' r" "none_lost fin ?S \<and> finite_costs F fin \<longrightarrow> none_lost fin S'"
        using less.hyps [OF dec neighbours_evaluates(2) [OF less.prems(1)] _ len] by blast
      moreover have "search_loop F m goal gs S e = Some (S', r)" using L(1) unfolding run if_not_P [OF going] .
      ultimately show ?thesis using R(5) by blast
    qed
  qed
qed

section \<open>The way back\<close>

lemma trail_reversed:
  assumes "trail N start S ks" "parent (node_of S start) = None"
  shows "reversed_path S (last ks) = Some (rev (tl ks))"
  using assms(1)
proof (induction ks rule: rev_induct)
  case (snoc b ks)
  show ?case
  proof (cases "ks = []")
    case True
    then have "parent (node_of S b) = None" using snoc.prems assms(2) by (simp add: trail_def)
    then show ?thesis using True by (subst reversed_path.simps) simp
  next
    case False
    then have "trail N start S ks" "parent (node_of S b) = Some (last ks)"
      using snoc.prems by (simp_all add: trail_def successively_append_iff)
    then show ?thesis using snoc.IH False by (subst reversed_path.simps) simp
  qed
qed (simp add: trail_def)

text \<open>Leaving positions out of a walk: a run of positions is left out only where all its steps go to the next
  column in one direction, so that the straight way passes the same columns.\<close>

definition straight :: "node_key list \<Rightarrow> bool" where
  "straight ks \<longleftrightarrow> (\<exists>dx dz. successively (\<lambda>a b. nk_x b = nk_x a + dx \<and> nk_z b = nk_z a + dz) ks)"

inductive thins :: "node_key list \<Rightarrow> node_key list \<Rightarrow> bool" where
  thins_end: "thins [x] [x]"
| thins_run: "straight (u # ms @ [v]) \<Longrightarrow> thins (v # xs) (v # ys) \<Longrightarrow> thins (u # v # xs) (u # ms @ v # ys)"

lemma sgn_steps: "sgn (b - a) = s \<Longrightarrow> sgn (c - b) = s \<Longrightarrow> sgn (c - a) = (s :: int)"
  by (auto simp: sgn_if split: if_splits)

lemma direction_steps: "direction a b = d \<Longrightarrow> direction b c = d \<Longrightarrow> direction a c = d"
  by (cases d) (auto simp: direction_def intro: sgn_steps)

lemma run_direction:
  "successively (\<lambda>a b. direction a b = d) (u # ms @ [v]) \<Longrightarrow> direction u v = d"
proof (induction ms arbitrary: u)
  case (Cons m ms)
  then have "direction u m = d" "direction m v = d" by simp_all
  then show ?case by (rule direction_steps)
qed simp

lemma run_straight:
  assumes "successively (\<lambda>a b. direction a b = d) ks"
    and "successively (\<lambda>a b. \<bar>nk_x b - nk_x a\<bar> \<le> 1 \<and> \<bar>nk_z b - nk_z a\<bar> \<le> 1) ks"
  shows "straight ks"
proof -
  have one: "sgn n = n" if "\<bar>n\<bar> \<le> 1" for n :: int using that by (auto simp: sgn_if)
  have "successively (\<lambda>a b. nk_x b = nk_x a + fst d \<and> nk_z b = nk_z a + snd (snd d)) ks"
    using assms
  proof (induction ks rule: induct_list012)
    case (3 a b ks)
    then show ?case using one [of "nk_x b - nk_x a"] one [of "nk_z b - nk_z a"] by (auto simp: direction_def)
  qed simp_all
  then show ?thesis by (auto simp: straight_def)
qed

abbreviation near :: "node_key \<Rightarrow> node_key \<Rightarrow> bool" where
  "near a b \<equiv> \<bar>nk_x b - nk_x a\<bar> \<le> 1 \<and> \<bar>nk_z b - nk_z a\<bar> \<le> 1"

lemma keep_turns_thins:
  assumes "successively (\<lambda>a b. direction a b = d) (u # ms @ [c])" "successively near (u # ms @ c # rest)"
  shows "thins (u # keep_turns u (c # rest)) (u # ms @ c # rest)"
  using assms
proof (induction rest arbitrary: u ms c d)
  case Nil
  then show ?case using thins_run [OF run_straight [OF Nil.prems(1)] thins_end] by simp
next
  case (Cons n rest)
  have uc: "direction u c = d" by (rule run_direction [OF Cons.prems(1)])
  show ?case
  proof (cases "direction u c = direction c n")
    case True
    have "successively (\<lambda>a b. direction a b = d) ((u # ms @ [c]) @ [n])"
      using Cons.prems(1) True uc by (subst successively_append_iff) simp
    then have "successively (\<lambda>a b. direction a b = d) (u # (ms @ [c]) @ [n])" by simp
    from Cons.IH [OF this] show ?thesis using Cons.prems(2) True by simp
  next
    case False
    have "successively near ((u # ms @ [c]) @ n # rest)" "successively near ((u # ms) @ c # n # rest)"
      using Cons.prems(2) by simp_all
    then have "successively near (c # n # rest)" "successively near (u # ms @ [c])"
      unfolding successively_append_iff by blast+
    then have "thins (c # keep_turns c (n # rest)) (c # n # rest)"
      using Cons.IH [of "direction c n" c "[]" n] by simp
    from thins_run [OF run_straight [OF Cons.prems(1) \<open>successively near (u # ms @ [c])\<close>] this] show ?thesis
      using False by simp
  qed
qed

lemma simplify_thins:
  assumes "successively near path" "path \<noteq> []"
  shows "thins (simplify path) path"
proof -
  consider a where "path = [a]" | a b rest where "path = a # b # rest" using assms(2) by (metis list.exhaust)
  then show ?thesis
  proof cases
    case 1
    then show ?thesis by (simp add: simplify_def thins_end)
  next
    case (2 a b rest)
    from keep_turns_thins [of "direction a b" a "[]" b rest] have "thins (a # keep_turns a (b # rest)) path" using assms(1) 2 by simp
    moreover have "simplify path = a # keep_turns a (b # rest)" using 2 by (cases rest) (simp_all add: simplify_def)
    ultimately show ?thesis by simp
  qed
qed

lemma thins_ends: "thins xs ys \<Longrightarrow> xs \<noteq> [] \<and> hd xs = hd ys \<and> last xs = last ys \<and> length xs \<le> length ys \<and> set xs \<subseteq> set ys"
  by (induction rule: thins.induct) auto

section \<open>The paths found\<close>

lemma trail_walk:
  assumes "trail (next_to w doors) start S ks"
  shows "ks = start # tl ks" "successively (legal_step w doors) (start # tl ks)" "distinct (start # tl ks)"
proof -
  show ks: "ks = start # tl ks" using assms by (cases ks) (simp_all add: trail_def)
  have "successively (legal_step w doors) ks"
    by (rule successively_mono [of "\<lambda>a b. parent (node_of S b) = Some a \<and> b \<in> set (next_to w doors a)"])
      (use assms next_legal in \<open>auto simp: trail_def\<close>)
  then show "successively (legal_step w doors) (start # tl ks)" using ks by metis
  show "distinct (start # tl ks)" using assms ks unfolding trail_def by metis
qed

lemma steps_near: "successively (legal_step w doors) ks \<Longrightarrow> successively near ks"
  by (erule successively_mono) (simp_all add: legal_step_def)

text \<open>The walk behind a path, and what the path keeps of it.\<close>

definition walk_of :: "world \<Rightarrow> bool \<Rightarrow> node_key \<Rightarrow> node_key list \<Rightarrow> node_key list \<Rightarrow> bool" where
  "walk_of w doors from walk path \<longleftrightarrow>
     successively (legal_step w doors) (from # walk) \<and> distinct (from # walk) \<and>
     (if doors \<or> walk = [] then path = walk else thins path walk)"

lemma walk_of_length: "walk_of w doors from walk path \<Longrightarrow> length path \<le> length walk"
  using thins_ends [of path walk] by (auto simp: walk_of_def split: if_splits)

lemma reconstruct_walk:
  assumes "core (next_to w doors) F start goal waiting S" "is_closed S k"
  shows "\<exists>walk path. reconstruct S k doors = Some path \<and> walk_of w doors start walk path \<and> last (start # walk) = k \<and>
    length walk < length (nodes S)"
proof -
  obtain ks where ks: "trail (next_to w doors) start S ks" "last ks = k" using assms unfolding core_def by blast
  have "parent (node_of S start) = None" using assms(1) by (simp add: core_def)
  note R = trail_reversed [OF ks(1) this] and W = trail_walk [OF ks(1)]
  let ?path = "if doors then tl ks else simplify (tl ks)"
  have run: "reconstruct S k doors = Some ?path" using R ks(2) by (simp add: reconstruct_def)
  have near_tl: "successively near (tl ks)"
    using steps_near [OF W(2)] by (cases "tl ks") (simp_all add: successively_Cons)
  have "thins (simplify (tl ks)) (tl ks)" if "tl ks \<noteq> []" using simplify_thins [OF near_tl that] .
  then have walk: "walk_of w doors start (tl ks) ?path" using W(2,3) by (auto simp: walk_of_def simplify_def)
  have "set ks \<subseteq> known S" using ks(1) by (auto simp: trail_def is_closed_def)
  moreover have "finite (known S)" by (simp add: known_def)
  ultimately have "card (set ks) \<le> length (nodes S)" using card_mono core_card [OF assms(1)] by metis
  moreover have "card (set ks) = length ks" using ks(1) by (simp add: trail_def distinct_card)
  moreover have "length ks = Suc (length (tl ks))" using arg_cong [OF W(1), of length] by simp
  ultimately have "length (tl ks) < length (nodes S)" by linarith
  moreover have "last (start # tl ks) = k" using W(1) ks(2) by metis
  ultimately show ?thesis using run walk by blast
qed

lemma start_searching:
  "searching N F start goal (start_search F start goal)" "\<not> is_closed (start_search F start goal) k"
  "finite_costs F fin \<Longrightarrow> none_lost fin (start_search F start goal)"
  by (auto simp: searching_def is_closed_def start_fields none_lost_def finite_costs_def)

text \<open>The call up to the end of its loop.\<close>

lemma find_runs:
  fixes w doors goal fin
  defines "near_to k \<equiv> fst (nearestStandable k (fresh w doors))"
  assumes "1 \<le> m" "near_to start = Some from"
  defines "goalKey \<equiv> (case near_to goal of Some k \<Rightarrow> k | None \<Rightarrow> goal)"
  obtains S r where "search_done (next_to w doors) F m from goalKey (near_to goal \<noteq> None) S r"
    "finite_costs F fin \<Longrightarrow> none_lost fin S"
    "findPath F w start goal (int m) doors =
       (case r of Some current \<Rightarrow> map_option (\<lambda>path. (path, True)) (reconstruct S current doors)
        | None \<Rightarrow> if best S = from then Some ([], False) else map_option (\<lambda>path. (path, False)) (reconstruct S (best S) doors))"
proof -
  obtain e where e: "nearestStandable start (fresh w doors) = (Some from, e)" "evaluates w doors e"
    using assms(2,3) nearest_evaluates(2) [OF fresh_evaluates, where k = start and w = w and doors = doors]
    unfolding near_to_def by (metis fst_conv prod.collapse snd_conv)
  have g: "fst (nearestStandable goal e) = near_to goal" "evaluates w doors (snd (nearestStandable goal e))"
    using nearest_evaluates [OF e(2)] by (simp_all add: near_to_def)
  let ?S = "start_search F from goalKey"
  have "\<exists>S r. search_loop F m goalKey (near_to goal \<noteq> None) ?S (snd (nearestStandable goal e)) = Some (S, r) \<and>
      search_done (next_to w doors) F m from goalKey (near_to goal \<noteq> None) S r \<and> (none_lost fin ?S \<and> finite_costs F fin \<longrightarrow> none_lost fin S)"
    by (rule loop_returns [OF g(2) start_searching(1) assms(2)]) (simp_all add: start_fields start_searching(2))
  then obtain S r where L: "search_loop F m goalKey (near_to goal \<noteq> None) ?S (snd (nearestStandable goal e)) = Some (S, r)"
      "search_done (next_to w doors) F m from goalKey (near_to goal \<noteq> None) S r" "finite_costs F fin \<Longrightarrow> none_lost fin S"
    using start_searching(3) by blast
  show thesis
  proof (rule that [OF L(2,3)])
    show "findPath F w start goal (int m) doors =
       (case r of Some current \<Rightarrow> map_option (\<lambda>path. (path, True)) (reconstruct S current doors)
        | None \<Rightarrow> if best S = from then Some ([], False) else map_option (\<lambda>path. (path, False)) (reconstruct S (best S) doors))"
      using assms(2) L(1) e(1) g(1)
      by (simp add: findPath_def fresh_def split_beta Let_def goalKey_def [symmetric] split: option.splits)
  qed
qed

text \<open>C36: a path search returns, whatever the float arithmetic does.  A path it gives belongs to a walk from the
  place where the mob stands: each step goes to a place where it can stand, one column on, up at most one
  block and down at most three, round no corner; no place is visited twice, and the places left out lie on
  straight lines.  A path that reaches ends where a mob can stand next to the goal.\<close>

theorem path_is_walkable:
  assumes "0 < m"
  shows "\<exists>path reached. findPath F w start goal (int m) doors = Some (path, reached) \<and> length path < m + 8 \<and>
    (path = [] \<and> \<not> reached \<or>
     (\<exists>from walk. fst (nearestStandable start (fresh w doors)) = Some from \<and> stands_at w doors from \<and>
        walk_of w doors from walk path \<and>
        (\<not> reached \<or> fst (nearestStandable goal (fresh w doors)) = Some (last (from # walk)))))"
proof (cases "fst (nearestStandable start (fresh w doors))")
  case None
  then have "findPath F w start goal (int m) doors = Some ([], False)"
    using assms by (auto simp: findPath_def fresh_def split: prod.splits)
  then show ?thesis using assms by (intro exI [of _ "[]"] exI [of _ False]) simp
next
  case (Some place)
  have m: "1 \<le> m" using assms by simp
  from find_runs [where F = F and fin = "\<lambda>_. True" and goal = goal, OF m Some]
  obtain S r where D: "search_done (next_to w doors) F m place
        (case fst (nearestStandable goal (fresh w doors)) of None \<Rightarrow> goal | Some k \<Rightarrow> k) (fst (nearestStandable goal (fresh w doors)) \<noteq> None) S r"
      and run: "findPath F w start goal (int m) doors =
       (case r of Some current \<Rightarrow> map_option (\<lambda>path. (path, True)) (reconstruct S current doors)
        | None \<Rightarrow> if best S = place then Some ([], False) else map_option (\<lambda>path. (path, False)) (reconstruct S (best S) doors))"
    by blast
  let ?k = "case r of Some k \<Rightarrow> k | None \<Rightarrow> best S"
  note core = conjunct1 [OF D [unfolded search_done_def]]
  have "is_closed S ?k" using D core by (auto simp: search_done_def core_def split: option.splits)
  from reconstruct_walk [OF core this]
  obtain walk path where W: "reconstruct S ?k doors = Some path" "walk_of w doors place walk path" "last (place # walk) = ?k"
      "length walk < length (nodes S)" by blast
  have len: "length path < m + 8" using walk_of_length [OF W(2)] W(4) D by (simp add: search_done_def)
  have stands: "stands_at w doors place" by (rule nearest_stands [OF Some])
  have reached: "r = None \<or> fst (nearestStandable goal (fresh w doors)) = Some (last (place # walk))"
    using D W(3) by (cases r) (auto simp: search_done_def)
  have "findPath F w start goal (int m) doors = Some (path, r \<noteq> None) \<or>
      findPath F w start goal (int m) doors = Some ([], False)"
    using run W(1) by (cases r) simp_all
  then show ?thesis
  proof
    assume "findPath F w start goal (int m) doors = Some (path, r \<noteq> None)"
    then show ?thesis using len Some stands W(2) reached by blast
  next
    assume "findPath F w start goal (int m) doors = Some ([], False)"
    then show ?thesis using assms by (intro exI [of _ "[]"] exI [of _ False]) simp
  qed
qed

text \<open>C37: with a budget as large as the number of places the mob can get to, the search says that it reaches
  exactly when the place next to the goal is one of them.\<close>

theorem path_found_iff_reachable:
  assumes "finite_costs F fin"
    and "fst (nearestStandable start (fresh w doors)) = Some from" "fst (nearestStandable goal (fresh w doors)) = Some to"
    and "finite {k. (from, k) \<in> reach (next_to w doors)}" "card {k. (from, k) \<in> reach (next_to w doors)} \<le> m"
  shows "\<exists>path. findPath F w start goal (int m) doors = Some (path, (from, to) \<in> reach (next_to w doors))"
proof -
  let ?R = "{k. (from, k) \<in> reach (next_to w doors)}"
  have "from \<in> ?R" by (simp add: reach_def)
  then have "0 < card ?R" using assms(4) by (auto simp: card_gt_0_iff)
  then have m: "1 \<le> m" using assms(5) by simp
  from find_runs [where F = F and fin = fin and goal = goal, OF m assms(2), unfolded assms(3)]
  obtain S r where D: "search_done (next_to w doors) F m from to True S r" and lost: "none_lost fin S"
    and run: "findPath F w start goal (int m) doors =
       (case r of Some current \<Rightarrow> map_option (\<lambda>path. (path, True)) (reconstruct S current doors)
        | None \<Rightarrow> if best S = from then Some ([], False) else map_option (\<lambda>path. (path, False)) (reconstruct S (best S) doors))"
    using assms(1) by auto
  note core = conjunct1 [OF D [unfolded search_done_def]]
  have sub: "known S \<subseteq> ?R" using core by (auto simp: core_def)
  have "\<exists>path. reconstruct S k doors = Some path" if "is_closed S k" for k
    using reconstruct_walk [OF core that] by blast
  moreover have "is_closed S (best S)" using core by (simp add: core_def)
  ultimately have some: "\<exists>path. findPath F w start goal (int m) doors = Some (path, r \<noteq> None)"
    using run D by (auto simp: search_done_def split: option.splits)
  have "(from, to) \<in> reach (next_to w doors)" if "r \<noteq> None"
    using D that sub by (auto simp: search_done_def is_closed_def)
  moreover have "(from, to) \<notin> reach (next_to w doors)" if none: "r = None"
  proof
    assume way: "(from, to) \<in> reach (next_to w doors)"
    have "length (nodes S) \<le> m" using card_mono [OF assms(4) sub] core_card [OF core] assms(5) by simp
    then have all: "is_closed S k" if "k \<in> known S" for k
      using D none lost that by (auto simp: search_done_def none_lost_def)
    have stay: "set (next_to w doors k) \<subseteq> known S" if "is_closed S k" for k
      using D none \<open>length (nodes S) \<le> m\<close> that by (auto simp: search_done_def)
    have "is_closed S from" using core by (simp add: core_def)
    from way have "is_closed S to"
      unfolding reach_def by (induction rule: rtrancl_induct) (use \<open>is_closed S from\<close> stay all in blast)+
    then show False using D none by (simp add: search_done_def)
  qed
  ultimately show ?thesis using some by (cases r) auto
qed

section \<open>Examples\<close>

text \<open>A loaded chunk of air with two pillars in it.\<close>

definition stone :: block where
  "stone = \<lparr>Namespace = ''minecraft'', Name = ''stone'', Properties = []\<rparr>"

definition pillars :: section_data where
  "pillars = NewSection\<lparr>blockPalette := [Air, stone],
     blockData := (replicate 4096 0)[grid_index 8 15 8 := 1, grid_index 2 15 2 := 1]\<rparr>"

definition pillar_world :: world where
  "pillar_world = (New None)\<lparr>chunks := [((0, 0), \<lparr>ChunkX = 0, ChunkZ = 0, Sections = (replicate 24 None)[4 := Some pillars],
     BlockEntities = []\<rparr>)]\<rparr>"

text \<open>Costs as extended natural numbers, a diagonal step as long as a straight one.\<close>

definition whole_costs :: "enat float_arith" where
  "whole_costs = \<lparr>f_int = (\<lambda>i. enat (nat \<bar>i\<bar>)), f_half = 1, f_sqrt2 = 1, f_inf = \<infinity>, f_add = (+), f_mul = (*),
     f_sqrt = id, f_eq = (=), f_less = (<), f_le = (\<le>)\<rparr>"

lemma whole_finite: "finite_costs whole_costs (\<lambda>x. x \<noteq> \<infinity>)"
  by (auto simp: finite_costs_def whole_costs_def movementCost_def Let_def one_enat_def)

lemma pillar_at:
  assumes "x < 16" "y < 16" "z < 16"
  shows "At (Some pillars) x y z = (if y = 15 \<and> (x = 8 \<and> z = 8 \<or> x = 2 \<and> z = 2) then stone else Air)"
proof -
  have "g < 4096 \<Longrightarrow> blockData pillars ! g = (if g = grid_index 8 15 8 \<or> g = grid_index 2 15 2 then 1 else 0)" for g
    by (simp add: pillars_def nth_list_update grid_index_def)
  moreover have "grid_index x y z < 4096" using assms by (rule grid_index_less)
  moreover have inj: "grid_index x y z = grid_index u v w \<longleftrightarrow> y = v \<and> x = u \<and> z = w" if "u < 16" "w < 16" for u v w
    using assms that by (metis grid_index_parts)
  moreover have "blockPalette pillars = [Air, stone]" by (simp add: pillars_def)
  ultimately show ?thesis by (auto simp: At_def)
qed

lemma pillar_blocks:
  assumes "0 \<le> x" "x < 16" "0 \<le> z" "z < 16" "0 \<le> y" "y < 32"
  shows "BlockIfLoaded pillar_world x y z = (if y = 15 \<and> (x = 8 \<and> z = 8 \<or> x = 2 \<and> z = 2) then stone else Air, True)"
proof -
  have key: "ChunkCoordsFor x z = (0, 0)" using assms by (simp add: ChunkCoordsFor_def SectionSize_def)
  have "blockInChunk \<lparr>ChunkX = 0, ChunkZ = 0, Sections = (replicate 24 None)[4 := Some pillars], BlockEntities = []\<rparr> x y z =
      (if y = 15 \<and> (x = 8 \<and> z = 8 \<or> x = 2 \<and> z = 2) then stone else Air)"
  proof (cases "y < 16")
    case True
    then have "(y - WorldMinY) div SectionSize = 4" "(y - WorldMinY) mod SectionSize = y"
      using assms by (simp_all add: WorldMinY_def SectionSize_def) presburger+
    then show ?thesis
      using assms True pillar_at [of "nat x" "nat y" "nat z"]
      by (auto simp: blockInChunk_def Let_def SectionSize_def nat_eq_iff)
  next
    case False
    then have "(y - WorldMinY) div SectionSize = 5" using assms by (simp add: WorldMinY_def SectionSize_def)
    then show ?thesis using False by (simp add: blockInChunk_def Let_def)
  qed
  then show ?thesis
    using assms key by (simp add: BlockIfLoaded_def ChunkIfLoaded_def pillar_world_def WorldMinY_def WorldMaxY_def)
qed

lemma pillar_try:
  assumes "0 \<le> x" "x < 16" "0 \<le> z" "z < 16" "0 < y" "y < 31"
  shows "try_heights (fresh pillar_world False) x z (y # ys) =
    (if y = 16 \<and> (x = 8 \<and> z = 8 \<or> x = 2 \<and> z = 2) then Some y else try_heights (fresh pillar_world False) x z ys)"
proof -
  have B: "BlockIfLoaded pillar_world x (y - 1) z = (if y = 16 \<and> (x = 8 \<and> z = 8 \<or> x = 2 \<and> z = 2) then stone else Air, True)"
      "y = 16 \<Longrightarrow> BlockIfLoaded pillar_world x 16 z = (Air, True)" "y = 16 \<Longrightarrow> BlockIfLoaded pillar_world x 17 z = (Air, True)"
    using pillar_blocks [OF assms(1-4), of "y - 1"] pillar_blocks [OF assms(1-4), of 16] pillar_blocks [OF assms(1-4), of 17] assms
    by auto
  have "entitySupportBlock (ResourceLocation stone)" "\<not> entitySupportBlock (ResourceLocation Air)"
      "passable (fresh pillar_world False) Air"
    by (simp_all add: entitySupportBlock_def no_collision_def ResourceLocation_def stone_def Air_def passable_def
        IsEntityCollisionBlock_def has_suffix_def)
  moreover have "ev_world (fresh pillar_world False) = pillar_world" by (simp add: fresh_def)
  ultimately show ?thesis
    using assms B by (subst try_heights.simps) (auto simp: WorldMinY_def WorldMaxY_def)
qed

lemma pillar_standing:
  assumes "0 \<le> nk_x k" "nk_x k < 16" "0 \<le> nk_z k" "nk_z k < 16" "nk_y k = 16"
  shows "standing pillar_world False k = (if nk_x k = 8 \<and> nk_z k = 8 \<or> nk_x k = 2 \<and> nk_z k = 2 then Some 16 else None)"
  using pillar_try [OF assms(1-4)] assms(5)
  by (simp add: standing_def findStandableY_def Let_def try_heights.simps(1))

lemma pillar_tops:
  assumes "k \<in> {node_key_at 8 16 8, node_key_at 2 16 2}"
  shows "fst (nearestStandable k (fresh pillar_world False)) = Some k" "next_to pillar_world False k = []"
proof -
  have k: "k = node_key_at 8 16 8 \<or> k = node_key_at 2 16 2" using assms by simp
  have here: "standing pillar_world False (column k (0, 0)) = Some 16"
    by (rule trans [OF pillar_standing]) (use k in \<open>auto simp: column_def node_key_at_def\<close>)
  have ring: "concat (map ring [0, 1, 2]) = (0, 0) # concat (map ring [1, 2])" by (simp add: ring_def)
  have "column k (0, 0)\<lparr>nk_y := 16\<rparr> = k" using k by (auto simp: column_def node_key_at_def)
  then show "fst (nearestStandable k (fresh pillar_world False)) = Some k"
    using standableY_evaluates(1) [OF fresh_evaluates, where w = pillar_world and doors = False and k = "column k (0, 0)"] here
    unfolding nearestStandable_def ring by (simp add: split_beta)
  have "standing pillar_world False (column k d) = None" if "d \<in> {(1, 0), (-1, 0), (0, 1), (0, -1)}" for d
    by (rule trans [OF pillar_standing]) (use k that in \<open>auto simp: column_def node_key_at_def\<close>)
  then show "next_to pillar_world False k = []"
    by (simp add: next_to_def found_at_def open_corners_def stepped_def)
qed

theorem path_found_iff_reachable_witness:
  "\<exists>path. findPath whole_costs pillar_world (node_key_at 8 16 8) (node_key_at 2 16 2) 1 False = Some (path, False)"
proof -
  let ?a = "node_key_at 8 16 8" and ?b = "node_key_at 2 16 2"
  have "(?a, k) \<in> reach (next_to pillar_world False) \<longleftrightarrow> k = ?a" for k
    using pillar_tops(2) [of ?a] by (auto simp: reach_def elim: converse_rtranclE)
  then have R: "{k. (?a, k) \<in> reach (next_to pillar_world False)} = {?a}" "(?a, ?b) \<notin> reach (next_to pillar_world False)"
    by (auto simp: node_key_at_def)
  from path_found_iff_reachable [OF whole_finite pillar_tops(1) pillar_tops(1), of ?a ?b 1] show ?thesis
    using R by simp
qed

theorem path_is_walkable_witness:
  "\<exists>path reached. findPath whole_costs pillar_world (node_key_at 8 16 8) (node_key_at 8 16 8) 1 False = Some (path, reached) \<and>
    length path < 9"
  using path_is_walkable [where m = 1 and F = whole_costs and w = pillar_world and start = "node_key_at 8 16 8"
      and goal = "node_key_at 8 16 8" and doors = False] by auto

end
