(* ===== verification/Brewing.thy ===== *)
theory Brewing
  imports Containers
begin

text \<open>
  Brewing: the recipes (\<open>core/world/brewing.go\<close>) and the simulation of the stands (\<open>server/brewing.go\<close>).
  A stand is its five slots in the world (three bottles, ingredient, fuel) and the state the server
  keeps for it. How a component string is given potion contents (JSON) is a parameter.
\<close>

section \<open>Recipes\<close>

record brewing_recipe =
  InputItem :: string
  InputPotion :: string
  br_Ingredient :: string
  OutputItem :: string
  OutputPotion :: string

definition potion_recipe :: "string \<Rightarrow> string \<Rightarrow> string \<Rightarrow> brewing_recipe" where
  "potion_recipe input ingredient output =
     \<lparr>InputItem = [], InputPotion = input, br_Ingredient = ingredient, OutputItem = [], OutputPotion = output\<rparr>"

definition brewingRecipes :: "brewing_recipe list" where
  "brewingRecipes =
    [potion_recipe ''water'' ''minecraft:nether_wart'' ''awkward'',
     potion_recipe ''water'' ''minecraft:glowstone_dust'' ''thick'',
     potion_recipe ''water'' ''minecraft:redstone'' ''mundane'',
     potion_recipe ''water'' ''minecraft:sugar'' ''mundane'',
     potion_recipe ''water'' ''minecraft:rabbit_foot'' ''mundane'',
     potion_recipe ''water'' ''minecraft:glistering_melon_slice'' ''mundane'',
     potion_recipe ''water'' ''minecraft:blaze_powder'' ''mundane'',
     potion_recipe ''water'' ''minecraft:spider_eye'' ''mundane'',
     potion_recipe ''water'' ''minecraft:ghast_tear'' ''mundane'',
     potion_recipe ''water'' ''minecraft:magma_cream'' ''mundane'',
     potion_recipe ''water'' ''minecraft:pufferfish'' ''mundane'',
     potion_recipe ''water'' ''minecraft:golden_carrot'' ''mundane'',
     potion_recipe ''water'' ''minecraft:fermented_spider_eye'' ''weakness'',
     potion_recipe ''water'' ''minecraft:phantom_membrane'' ''mundane'',
     potion_recipe ''water'' ''minecraft:turtle_scute'' ''mundane'',
     potion_recipe ''awkward'' ''minecraft:sugar'' ''swiftness'',
     potion_recipe ''awkward'' ''minecraft:rabbit_foot'' ''leaping'',
     potion_recipe ''awkward'' ''minecraft:glistering_melon_slice'' ''healing'',
     potion_recipe ''awkward'' ''minecraft:spider_eye'' ''poison'',
     potion_recipe ''awkward'' ''minecraft:ghast_tear'' ''regeneration'',
     potion_recipe ''awkward'' ''minecraft:blaze_powder'' ''strength'',
     potion_recipe ''awkward'' ''minecraft:magma_cream'' ''fire_resistance'',
     potion_recipe ''awkward'' ''minecraft:pufferfish'' ''water_breathing'',
     potion_recipe ''awkward'' ''minecraft:golden_carrot'' ''night_vision'',
     potion_recipe ''awkward'' ''minecraft:phantom_membrane'' ''slow_falling'',
     potion_recipe ''awkward'' ''minecraft:turtle_scute'' ''turtle_master'',
     potion_recipe ''swiftness'' ''minecraft:fermented_spider_eye'' ''slowness'',
     potion_recipe ''long_swiftness'' ''minecraft:fermented_spider_eye'' ''long_slowness'',
     potion_recipe ''leaping'' ''minecraft:fermented_spider_eye'' ''slowness'',
     potion_recipe ''long_leaping'' ''minecraft:fermented_spider_eye'' ''long_slowness'',
     potion_recipe ''healing'' ''minecraft:fermented_spider_eye'' ''harming'',
     potion_recipe ''strong_healing'' ''minecraft:fermented_spider_eye'' ''strong_harming'',
     potion_recipe ''poison'' ''minecraft:fermented_spider_eye'' ''harming'',
     potion_recipe ''long_poison'' ''minecraft:fermented_spider_eye'' ''harming'',
     potion_recipe ''strong_poison'' ''minecraft:fermented_spider_eye'' ''strong_harming'',
     potion_recipe ''night_vision'' ''minecraft:fermented_spider_eye'' ''invisibility'',
     potion_recipe ''long_night_vision'' ''minecraft:fermented_spider_eye'' ''long_invisibility'',
     potion_recipe ''fire_resistance'' ''minecraft:fermented_spider_eye'' ''slowness'',
     potion_recipe ''long_fire_resistance'' ''minecraft:fermented_spider_eye'' ''long_slowness'',
     potion_recipe ''water_breathing'' ''minecraft:fermented_spider_eye'' ''slowness'',
     potion_recipe ''long_water_breathing'' ''minecraft:fermented_spider_eye'' ''long_slowness'',
     potion_recipe ''swiftness'' ''minecraft:redstone'' ''long_swiftness'',
     potion_recipe ''slowness'' ''minecraft:redstone'' ''long_slowness'',
     potion_recipe ''leaping'' ''minecraft:redstone'' ''long_leaping'',
     potion_recipe ''healing'' ''minecraft:redstone'' ''long_healing'',
     potion_recipe ''harming'' ''minecraft:redstone'' ''long_harming'',
     potion_recipe ''poison'' ''minecraft:redstone'' ''long_poison'',
     potion_recipe ''regeneration'' ''minecraft:redstone'' ''long_regeneration'',
     potion_recipe ''strength'' ''minecraft:redstone'' ''long_strength'',
     potion_recipe ''fire_resistance'' ''minecraft:redstone'' ''long_fire_resistance'',
     potion_recipe ''water_breathing'' ''minecraft:redstone'' ''long_water_breathing'',
     potion_recipe ''night_vision'' ''minecraft:redstone'' ''long_night_vision'',
     potion_recipe ''invisibility'' ''minecraft:redstone'' ''long_invisibility'',
     potion_recipe ''weakness'' ''minecraft:redstone'' ''long_weakness'',
     potion_recipe ''slow_falling'' ''minecraft:redstone'' ''long_slow_falling'',
     potion_recipe ''turtle_master'' ''minecraft:redstone'' ''long_turtle_master'',
     potion_recipe ''swiftness'' ''minecraft:glowstone_dust'' ''strong_swiftness'',
     potion_recipe ''slowness'' ''minecraft:glowstone_dust'' ''strong_slowness'',
     potion_recipe ''leaping'' ''minecraft:glowstone_dust'' ''strong_leaping'',
     potion_recipe ''healing'' ''minecraft:glowstone_dust'' ''strong_healing'',
     potion_recipe ''harming'' ''minecraft:glowstone_dust'' ''strong_harming'',
     potion_recipe ''poison'' ''minecraft:glowstone_dust'' ''strong_poison'',
     potion_recipe ''regeneration'' ''minecraft:glowstone_dust'' ''strong_regeneration'',
     potion_recipe ''strength'' ''minecraft:glowstone_dust'' ''strong_strength'',
     potion_recipe ''turtle_master'' ''minecraft:glowstone_dust'' ''strong_turtle_master'',
     \<lparr>InputItem = ''minecraft:potion'', InputPotion = [], br_Ingredient = ''minecraft:gunpowder'', OutputItem = ''minecraft:splash_potion'', OutputPotion = []\<rparr>,
     \<lparr>InputItem = ''minecraft:splash_potion'', InputPotion = [], br_Ingredient = ''minecraft:dragon_breath'', OutputItem = ''minecraft:lingering_potion'', OutputPotion = []\<rparr>]"

text \<open>What follows the first occurrence of a string.\<close>

fun after_first :: "string \<Rightarrow> string \<Rightarrow> string option" where
  "after_first p [] = (if p = [] then Some [] else None)"
| "after_first p (c # s) = (if has_prefix (c # s) p then Some (drop (length p) (c # s)) else after_first p s)"

declare after_first.simps [simp del]

definition quote :: char where "quote = CHR 0x22"

definition potionName :: "string \<Rightarrow> string" where
  "potionName components =
     (case after_first (quote # ''potion'' @ [quote] @ '':'' @ [quote] @ ''minecraft:'') components of
        None \<Rightarrow> []
      | Some rest \<Rightarrow> if quote \<in> set rest then takeWhile (\<lambda>c. c \<noteq> quote) rest else [])"

definition recipe_applies :: "string \<Rightarrow> string \<Rightarrow> string \<Rightarrow> brewing_recipe \<Rightarrow> bool" where
  "recipe_applies bottle ingredient inputPotion r \<longleftrightarrow>
     br_Ingredient r = ingredient \<and> (InputItem r = [] \<or> InputItem r = bottle) \<and>
     (InputPotion r = [] \<or> InputPotion r = inputPotion)"

definition BrewingResult :: "string \<Rightarrow> string \<Rightarrow> string \<Rightarrow> (string \<times> string) option" where
  "BrewingResult bottle ingredient components =
     (let inputPotion = potionName components
      in case find (recipe_applies bottle ingredient inputPotion) brewingRecipes of
           None \<Rightarrow> None
         | Some r \<Rightarrow> Some (if OutputItem r = [] then bottle else OutputItem r,
                            if OutputPotion r = [] then inputPotion else OutputPotion r))"

section \<open>The state of a stand\<close>

definition brewingSlotCount :: nat where "brewingSlotCount = 5"

definition brewingBottleSlots :: nat where "brewingBottleSlots = 3"

definition brewingIngredientSlot :: nat where "brewingIngredientSlot = 3"

definition brewingFuelSlot :: nat where "brewingFuelSlot = 4"

definition brewingTicksPerBrew :: int where "brewingTicksPerBrew = 400"

definition brewingFuelPerPowder :: int where "brewingFuelPerPowder = 20"

record brewing_state =
  BrewTime :: int
  FuelAmount :: int

type_synonym brewing_key = "i32 \<times> block_pos"

definition loadBrewingSlots :: "world_env \<Rightarrow> world \<Rightarrow> block_pos \<Rightarrow> item_stack list \<times> world" where
  "loadBrewingSlots G w pos =
     (let (items, w') = items_of G w pos
      in (load_entries 0 brewingSlotCount items (replicate brewingSlotCount no_item), w'))"

definition persistBrewingSlots :: "world_env \<Rightarrow> world \<Rightarrow> block_pos \<Rightarrow> item_stack list \<Rightarrow> world" where
  "persistBrewingSlots G w pos slots =
     set_items_of G w pos ''minecraft:brewing_stand'' (entries_from 0 (take brewingSlotCount slots))"

definition brewingStateForDimension :: "brewing_key \<Rightarrow> (brewing_key \<times> brewing_state) list \<Rightarrow> (brewing_key \<times> brewing_state) list" where
  "brewingStateForDimension key stands =
     (if map_of stands key = None then stands @ [(key, \<lparr>BrewTime = 0, FuelAmount = 0\<rparr>)] else stands)"

section \<open>One tick\<close>

definition brew_of :: "item_stack \<Rightarrow> item_stack \<Rightarrow> (string \<times> string) option" where
  "brew_of ingredient bottle =
     (if IsEmpty bottle then None else BrewingResult (ItemID bottle) (ItemID ingredient) (Components bottle))"

definition canBrew :: "item_stack list \<Rightarrow> bool" where
  "canBrew slots =
     (if length slots < brewingSlotCount \<or> IsEmpty (slots ! brewingIngredientSlot) then False
      else list_ex (\<lambda>bottle. brew_of (slots ! brewingIngredientSlot) bottle \<noteq> None) (take brewingBottleSlots slots))"

definition brewed_bottle :: "(string \<Rightarrow> string \<Rightarrow> string) \<Rightarrow> item_stack \<Rightarrow> item_stack \<Rightarrow> item_stack" where
  "brewed_bottle with_potion ingredient bottle =
     (case brew_of ingredient bottle of
        None \<Rightarrow> bottle
      | Some (outItem, outPotion) \<Rightarrow>
          bottle\<lparr>ItemID := outItem, Components := (if outPotion \<noteq> [] then with_potion (Components bottle) outPotion else Components bottle)\<rparr>)"

definition applyBrew :: "(string \<Rightarrow> string \<Rightarrow> string) \<Rightarrow> item_stack list \<Rightarrow> item_stack list \<times> bool" where
  "applyBrew with_potion slots =
     (if length slots < brewingSlotCount \<or> IsEmpty (slots ! brewingIngredientSlot) then (slots, False)
      else
        let ingredient = slots ! brewingIngredientSlot;
            changed = list_ex (\<lambda>bottle. brew_of ingredient bottle \<noteq> None) (take brewingBottleSlots slots);
            slots' = map (brewed_bottle with_potion ingredient) (take brewingBottleSlots slots) @ drop brewingBottleSlots slots
        in (if changed then slots'[brewingIngredientSlot := normalizeStack (ingredient\<lparr>Count := Count ingredient - 1\<rparr>)] else slots', changed))"

definition refuel :: "brewing_state \<times> item_stack list \<Rightarrow> brewing_state \<times> item_stack list" where
  "refuel = (\<lambda>(st, slots).
     (let powder = slots ! brewingFuelSlot
      in if FuelAmount st = 0 \<and> \<not> IsEmpty powder \<and> ItemID powder = ''minecraft:blaze_powder''
         then (st\<lparr>FuelAmount := brewingFuelPerPowder\<rparr>,
               slots[brewingFuelSlot := normalizeStack (powder\<lparr>Count := Count powder - 1\<rparr>)])
         else (st, slots)))"

definition brew_step :: "(string \<Rightarrow> string \<Rightarrow> string) \<Rightarrow> brewing_state \<times> item_stack list \<Rightarrow> brewing_state \<times> item_stack list" where
  "brew_step with_potion = (\<lambda>(st, slots).
     (if FuelAmount st > 0 \<and> canBrew slots then
        let t = (if BrewTime st = 0 then brewingTicksPerBrew else BrewTime st) - 1
        in if t = 0 then (st\<lparr>BrewTime := 0, FuelAmount := FuelAmount st - 1\<rparr>, fst (applyBrew with_potion slots))
           else (st\<lparr>BrewTime := t\<rparr>, slots)
      else (st\<lparr>BrewTime := 0\<rparr>, slots)))"

definition tick_brewing :: "(string \<Rightarrow> string \<Rightarrow> string) \<Rightarrow> brewing_state \<times> item_stack list \<Rightarrow> brewing_state \<times> item_stack list" where
  "tick_brewing with_potion s = brew_step with_potion (refuel s)"

section \<open>All stands\<close>

text \<open>The stands and worlds of the server, and the players with the dimension they are in.\<close>

record brewing_server =
  brewingStands :: "(brewing_key \<times> brewing_state) list"
  worldForDimension :: "i32 \<Rightarrow> world"
  OnlinePlayers :: "(i32 \<times> player) list"

definition register_viewers :: "brewing_server \<Rightarrow> brewing_server" where
  "register_viewers s =
     s\<lparr>brewingStands := fold (\<lambda>(dim, p) stands.
         if OpenContainerKind p = ''minecraft:brewing_stand'' then brewingStateForDimension (dim, OpenContainerPos p) stands else stands)
       (OnlinePlayers s) (brewingStands s)\<rparr>"

definition sync_brewing_viewer :: "brewing_key \<Rightarrow> item_stack list \<Rightarrow> i32 \<times> player \<Rightarrow> i32 \<times> player" where
  "sync_brewing_viewer key slots = (\<lambda>(dim, p).
     (dim, if dim \<noteq> fst key \<or> OpenContainerKind p \<noteq> ''minecraft:brewing_stand'' \<or> OpenContainerPos p \<noteq> snd key then p
           else (refresh p)\<lparr>ContainerSlots := slots\<rparr>))"

definition tick_stand :: "(string \<Rightarrow> string \<Rightarrow> string) \<Rightarrow> world_env \<Rightarrow> brewing_key \<Rightarrow> brewing_server \<Rightarrow> brewing_server" where
  "tick_stand with_potion G key s =
     (let pos = snd key; st = the (map_of (brewingStands s) key); (b, w1) = block_of G (worldForDimension s (fst key)) pos;
          set_world = (\<lambda>w s. s\<lparr>worldForDimension := (worldForDimension s)(fst key := w)\<rparr>)
      in if ResourceLocation b \<noteq> ''minecraft:brewing_stand''
         then set_world w1 (s\<lparr>brewingStands := AList.delete key (brewingStands s)\<rparr>)
         else
           let (slots, w2) = loadBrewingSlots G w1 pos; (st', slots') = tick_brewing with_potion (st, slots);
               s = s\<lparr>brewingStands := AList.update key st' (brewingStands s)\<rparr>
           in if slots \<noteq> slots'
              then (set_world (persistBrewingSlots G w2 pos slots') s)
                     \<lparr>OnlinePlayers := map (sync_brewing_viewer key slots') (OnlinePlayers s)\<rparr>
              else set_world w2 s)"

definition tickBrewingStands :: "(string \<Rightarrow> string \<Rightarrow> string) \<Rightarrow> world_env \<Rightarrow> brewing_server \<Rightarrow> brewing_server" where
  "tickBrewingStands with_potion G s =
     (let s = register_viewers s in fold (tick_stand with_potion G) (map fst (brewingStands s)) s)"

section \<open>Every bottle settles\<close>

text \<open>How many more brews a potion name, and the container it is in, can take.\<close>

definition potion_ranks :: "(nat \<times> string list) list" where
  "potion_ranks =
    [(5, [''water'']),
     (4, [''awkward'']),
     (3, [''poison'']),
     (2, [''fire_resistance'', ''healing'', ''leaping'', ''long_poison'', ''night_vision'', ''swiftness'', ''water_breathing'']),
     (1, [''harming'', ''invisibility'', ''long_fire_resistance'', ''long_leaping'', ''long_night_vision'', ''long_swiftness'', ''long_water_breathing'', ''regeneration'', ''slow_falling'', ''slowness'', ''strength'', ''strong_healing'', ''strong_poison'', ''turtle_master'', ''weakness''])]"

definition potion_rank :: "string \<Rightarrow> nat" where
  "potion_rank name = (case find (\<lambda>(n, names). name \<in> set names) potion_ranks of None \<Rightarrow> 0 | Some (n, _) \<Rightarrow> n)"

definition container_rank :: "string \<Rightarrow> nat" where
  "container_rank i = (if i = ''minecraft:potion'' then 2 else if i = ''minecraft:splash_potion'' then 1 else 0)"

definition bottle_rank :: "item_stack \<Rightarrow> nat" where
  "bottle_rank s = container_rank (ItemID s) + potion_rank (potionName (Components s))"

definition plain_name :: "string \<Rightarrow> bool" where
  "plain_name s \<longleftrightarrow> list_all (\<lambda>c. c = CHR ''_'' \<or> 97 \<le> (of_char c :: nat) \<and> (of_char c :: nat) \<le> 122) s"

text \<open>The component codec gives a plain potion name back.\<close>

definition keeps_potion :: "(string \<Rightarrow> string \<Rightarrow> string) \<Rightarrow> bool" where
  "keeps_potion with_potion \<longleftrightarrow> (\<forall>c name. plain_name name \<longrightarrow> name \<noteq> [] \<longrightarrow> potionName (with_potion c name) = name)"

definition recipe_steps_down :: "brewing_recipe \<Rightarrow> bool" where
  "recipe_steps_down r \<longleftrightarrow>
     (if InputPotion r = [] then OutputPotion r = [] \<and> OutputItem r \<noteq> [] \<and> InputItem r \<noteq> [] \<and> container_rank (OutputItem r) < container_rank (InputItem r)
      else OutputItem r = [] \<and> OutputPotion r \<noteq> [] \<and> plain_name (OutputPotion r) \<and> potion_rank (OutputPotion r) < potion_rank (InputPotion r))"

lemma recipes_step_down: "list_all recipe_steps_down brewingRecipes"
  by code_simp

lemma potion_rank_le: "potion_rank name \<le> 5"
proof -
  have all: "list_all (\<lambda>e. fst e \<le> 5) potion_ranks" by (simp add: potion_ranks_def)
  show ?thesis
  proof (cases "find (\<lambda>(n, names). name \<in> set names) potion_ranks")
    case (Some e)
    then have "e \<in> set potion_ranks" by (metis find_Some_iff nth_mem)
    then show ?thesis using all Some by (auto simp: potion_rank_def list_all_iff split: prod.splits)
  qed (simp add: potion_rank_def)
qed

lemma bottle_rank_le: "bottle_rank s \<le> 7"
  using potion_rank_le [of "potionName (Components s)"] by (simp add: bottle_rank_def container_rank_def)

lemma brewing_result:
  assumes "BrewingResult bottle ingredient components = Some (i, p)"
  obtains (container) "i \<noteq> []" "container_rank i < container_rank bottle" "p = potionName components"
  | (potion) "i = bottle" "p \<noteq> []" "plain_name p" "potion_rank p < potion_rank (potionName components)"
proof -
  obtain r where r: "find (recipe_applies bottle ingredient (potionName components)) brewingRecipes = Some r"
      "i = (if OutputItem r = [] then bottle else OutputItem r)"
      "p = (if OutputPotion r = [] then potionName components else OutputPotion r)"
    using assms by (auto simp: BrewingResult_def Let_def split: option.splits)
  have "r \<in> set brewingRecipes" "recipe_applies bottle ingredient (potionName components) r"
    using r(1) by (auto simp: find_Some_iff)
  then have "recipe_steps_down r" "recipe_applies bottle ingredient (potionName components) r"
    using recipes_step_down by (auto simp: list_all_iff)
  then show thesis
    using container potion r(2,3) by (cases "InputPotion r = []") (auto simp: recipe_steps_down_def recipe_applies_def)
qed

definition brews :: "(string \<Rightarrow> string \<Rightarrow> string) \<Rightarrow> item_stack \<Rightarrow> item_stack \<Rightarrow> bool" where
  "brews with_potion s s' \<longleftrightarrow> (\<exists>ingredient. brew_of ingredient s \<noteq> None \<and> s' = brewed_bottle with_potion ingredient s)"

lemma brew_steps_down:
  assumes "keeps_potion with_potion" "plain_name (potionName (Components s))" "brews with_potion s s'"
  shows "bottle_rank s' < bottle_rank s \<and> plain_name (potionName (Components s'))"
proof -
  obtain ingredient i p where b: "brew_of ingredient s = Some (i, p)" "s' = brewed_bottle with_potion ingredient s"
    using assms(3) by (auto simp: brews_def)
  then have s': "s' = s\<lparr>ItemID := i, Components := (if p \<noteq> [] then with_potion (Components s) p else Components s)\<rparr>"
    by (simp add: brewed_bottle_def)
  have "BrewingResult (ItemID s) (ItemID ingredient) (Components s) = Some (i, p)"
    using b(1) by (simp add: brew_of_def split: if_splits)
  then show ?thesis
  proof (cases rule: brewing_result)
    case container
    then show ?thesis using assms(1,2) by (cases "p = []") (auto simp: s' bottle_rank_def keeps_potion_def)
  next
    case potion
    then have "potionName (with_potion (Components s) p) = p" using assms(1) by (simp add: keeps_potion_def)
    then show ?thesis using potion by (simp add: s' bottle_rank_def)
  qed
qed


section \<open>What the ticks do\<close>

definition brewing_ticks :: "(string \<Rightarrow> string \<Rightarrow> string) \<Rightarrow> nat \<Rightarrow> brewing_state \<times> item_stack list \<Rightarrow> brewing_state \<times> item_stack list" where
  "brewing_ticks with_potion n = tick_brewing with_potion ^^ n"

lemma ticks_Suc: "brewing_ticks with_potion (Suc n) s = tick_brewing with_potion (brewing_ticks with_potion n s)"
  by (simp add: brewing_ticks_def)

text \<open>C38: a stand with fuel and something to brew, left alone, shows no change for 399 ticks and brews with the
  400th: each bottle with a recipe becomes its result, one ingredient and one unit of fuel are gone.\<close>

theorem brewing_on_time:
  assumes "canBrew slots" "0 < FuelAmount st" "BrewTime st = 0"
  shows "(\<forall>n \<in> {1..399}. brewing_ticks with_potion n (st, slots) = (st\<lparr>BrewTime := 400 - int n\<rparr>, slots)) \<and>
    brewing_ticks with_potion 400 (st, slots) =
      (st\<lparr>FuelAmount := FuelAmount st - 1\<rparr>,
       (map (brewed_bottle with_potion (slots ! 3)) (take 3 slots) @ drop 3 slots)[3 := normalizeStack ((slots ! 3)\<lparr>Count := Count (slots ! 3) - 1\<rparr>)])"
proof -
  have tick: "tick_brewing with_potion (st\<lparr>BrewTime := t\<rparr>, slots) =
      (let t' = (if t = 0 then 400 else t) - 1
       in if t' = 0 then (st\<lparr>BrewTime := 0, FuelAmount := FuelAmount st - 1\<rparr>, fst (applyBrew with_potion slots)) else (st\<lparr>BrewTime := t'\<rparr>, slots))" for t
    using assms(1,2) by (simp add: tick_brewing_def refuel_def brew_step_def Let_def brewingTicksPerBrew_def)
  have st: "st\<lparr>BrewTime := 0\<rparr> = st" using assms(3) by simp
  have run: "brewing_ticks with_potion n (st, slots) = (st\<lparr>BrewTime := (if n = 0 then 0 else 400 - int n)\<rparr>, slots)" if "n < 400" for n
    using that
  proof (induction n)
    case (Suc n)
    then show ?case by (simp add: brewing_ticks_def tick)
  qed (simp add: brewing_ticks_def st)
  have "brewing_ticks with_potion 400 (st, slots) = tick_brewing with_potion (brewing_ticks with_potion 399 (st, slots))"
    using ticks_Suc [of with_potion 399 "(st, slots)"] by simp
  also have "\<dots> = (st\<lparr>BrewTime := 0, FuelAmount := FuelAmount st - 1\<rparr>, fst (applyBrew with_potion slots))"
    by (simp add: run tick)
  finally have "brewing_ticks with_potion 400 (st, slots) =
      (st\<lparr>FuelAmount := FuelAmount st - 1\<rparr>,
       (map (brewed_bottle with_potion (slots ! 3)) (take 3 slots) @ drop 3 slots)[3 := normalizeStack ((slots ! 3)\<lparr>Count := Count (slots ! 3) - 1\<rparr>)])"
    using assms(1,3) by (simp add: applyBrew_def canBrew_def Let_def brewingIngredientSlot_def brewingBottleSlots_def split: if_splits)
  then show ?thesis using run by simp
qed

text \<open>The items in a slot, and the ticks a running brew has taken so far.\<close>

definition held :: "item_stack \<Rightarrow> int" where
  "held s = (if IsEmpty s then 0 else Count s)"

definition elapsed :: "brewing_state \<Rightarrow> int" where
  "elapsed st = (if BrewTime st = 0 then 0 else 400 - BrewTime st)"

definition stand_ok :: "brewing_state \<times> item_stack list \<Rightarrow> bool" where
  "stand_ok = (\<lambda>(st, slots). length slots = 5 \<and> slots_ok slots \<and> 0 \<le> BrewTime st \<and> BrewTime st < 400 \<and>
     0 \<le> FuelAmount st \<and> FuelAmount st \<le> 20)"

text \<open>What a number of brews and of powders burnt has changed.\<close>

definition accounts :: "int \<Rightarrow> int \<Rightarrow> brewing_state \<times> item_stack list \<Rightarrow> brewing_state \<times> item_stack list \<Rightarrow> bool" where
  "accounts brewed burnt = (\<lambda>(st, slots) (st', slots').
     0 \<le> brewed \<and> 0 \<le> burnt \<and> held (slots' ! 3) = held (slots ! 3) - brewed \<and> held (slots' ! 4) = held (slots ! 4) - burnt \<and>
     20 * burnt + FuelAmount st = FuelAmount st' + brewed \<and> (\<forall>i < 3. held (slots' ! i) = held (slots ! i)))"

lemma held_less: "\<not> IsEmpty s \<Longrightarrow> held (normalizeStack (s\<lparr>Count := Count s - 1\<rparr>)) = held s - 1 \<and> slot_ok (normalizeStack (s\<lparr>Count := Count s - 1\<rparr>))"
  by (auto simp: held_def normalizeStack_def slot_ok_def IsEmpty_def)

lemma brewed_held: "held (brewed_bottle with_potion ingredient s) = held s \<and> (slot_ok s \<longrightarrow> slot_ok (brewed_bottle with_potion ingredient s))"
proof (cases "brew_of ingredient s")
  case (Some ip)
  obtain i p where ip: "ip = (i, p)" by (cases ip)
  have s: "\<not> IsEmpty s" "BrewingResult (ItemID s) (ItemID ingredient) (Components s) = Some (i, p)"
    using Some ip by (auto simp: brew_of_def split: if_splits)
  have "i \<noteq> []" using s by (auto elim!: brewing_result simp: IsEmpty_def)
  then show ?thesis using s Some ip by (auto simp: brewed_bottle_def held_def slot_ok_def IsEmpty_def)
qed (simp add: brewed_bottle_def)

lemma refuel_accounts:
  assumes "stand_ok (st, slots)"
  shows "stand_ok (refuel (st, slots)) \<and> BrewTime (fst (refuel (st, slots))) = BrewTime st \<and>
    (\<exists>burnt. accounts 0 burnt (st, slots) (refuel (st, slots)))"
proof -
  let ?powder = "slots ! brewingFuelSlot"
  show ?thesis
  proof (cases "FuelAmount st = 0 \<and> \<not> IsEmpty ?powder \<and> ItemID ?powder = ''minecraft:blaze_powder''")
    case True
    let ?p = "normalizeStack (?powder\<lparr>Count := Count ?powder - 1\<rparr>)"
    have run: "refuel (st, slots) = (st\<lparr>FuelAmount := 20\<rparr>, slots[4 := ?p])"
      using True by (simp add: refuel_def Let_def brewingFuelPerPowder_def) (simp add: brewingFuelSlot_def)
    have p: "held ?p = held (slots ! 4) - 1" "slot_ok ?p" using held_less [of ?powder] True by (simp_all add: brewingFuelSlot_def)
    have len: "length slots = 5" "slots_ok slots" using assms by (simp_all add: stand_ok_def)
    have "slots_ok (slots[4 := ?p])" using len(2) p(2) by (simp add: slots_ok_def list_all_update)
    then have "stand_ok (refuel (st, slots))" using assms by (simp add: run stand_ok_def)
    moreover have "accounts 0 1 (st, slots) (refuel (st, slots))" using p(1) True len by (simp add: run accounts_def)
    ultimately show ?thesis by (auto simp: run)
  next
    case False
    then have "refuel (st, slots) = (st, slots)" by (auto simp: refuel_def Let_def)
    moreover have "accounts 0 0 (st, slots) (st, slots)" by (simp add: accounts_def)
    ultimately show ?thesis using assms by auto
  qed
qed

lemma applyBrew_accounts:
  fixes with_potion
  assumes "length slots = 5" "slots_ok slots" "canBrew slots"
  defines "slots' \<equiv> fst (applyBrew with_potion slots)"
  shows "length slots' = 5 \<and> slots_ok slots' \<and> held (slots' ! 3) = held (slots ! 3) - 1 \<and> slots' ! 4 = slots ! 4 \<and>
    (\<forall>i < 3. held (slots' ! i) = held (slots ! i))"
proof -
  let ?b = "map (brewed_bottle with_potion (slots ! 3)) (take 3 slots) @ drop 3 slots"
  let ?i = "normalizeStack ((slots ! 3)\<lparr>Count := Count (slots ! 3) - 1\<rparr>)"
  have some: "\<not> IsEmpty (slots ! 3)" and run: "slots' = ?b[3 := ?i]"
    using assms(3) by (simp_all add: slots'_def canBrew_def applyBrew_def Let_def brewingIngredientSlot_def
        brewingBottleSlots_def split: if_splits)
  have "slots_ok ?b"
    using assms(2) brewed_held by (auto simp: slots_ok_def list_all_iff dest: in_set_takeD in_set_dropD)
  then have "slots_ok slots'" unfolding run using held_less [OF some] by (simp add: slots_ok_def list_all_update)
  moreover have "held (slots' ! 3) = held (slots ! 3) - 1" "slots' ! 4 = slots ! 4"
    using assms(1) held_less [OF some] by (simp_all add: run nth_append)
  moreover have "held (slots' ! i) = held (slots ! i)" if "i < 3" for i
    using that assms(1) brewed_held by (simp add: run nth_append)
  ultimately show ?thesis using assms(1) by (simp add: run)
qed

lemma tick_accounts:
  assumes "stand_ok s"
  shows "\<exists>brewed burnt. stand_ok (tick_brewing with_potion s) \<and> accounts brewed burnt s (tick_brewing with_potion s) \<and>
    400 * brewed + elapsed (fst (tick_brewing with_potion s)) \<le> elapsed (fst s) + 1"
proof -
  obtain st slots where s: "s = (st, slots)" by (cases s)
  obtain st1 slots1 where f: "refuel (st, slots) = (st1, slots1)" by fastforce
  obtain burnt where R: "stand_ok (st1, slots1)" "BrewTime st1 = BrewTime st" "accounts 0 burnt (st, slots) (st1, slots1)"
    using refuel_accounts [of st slots] assms f s by auto
  let ?t = "(if BrewTime st1 = 0 then 400 else BrewTime st1) - 1"
  consider "FuelAmount st1 > 0 \<and> canBrew slots1" "?t = 0" | "FuelAmount st1 > 0 \<and> canBrew slots1" "?t \<noteq> 0"
    | "\<not> (FuelAmount st1 > 0 \<and> canBrew slots1)" by blast
  then show ?thesis
  proof cases
    case 1
    have run: "tick_brewing with_potion s = (st1\<lparr>BrewTime := 0, FuelAmount := FuelAmount st1 - 1\<rparr>, fst (applyBrew with_potion slots1))"
      using 1 f by (simp add: s tick_brewing_def brew_step_def brewingTicksPerBrew_def Let_def split: if_splits)
    have A: "length slots1 = 5" "slots_ok slots1" "canBrew slots1" using R(1) 1 by (simp_all add: stand_ok_def)
    note B = applyBrew_accounts [OF A, of with_potion]
    have "accounts 1 burnt s (tick_brewing with_potion s)" "stand_ok (tick_brewing with_potion s)"
      using B R 1 unfolding run unfolding s by (auto simp: accounts_def stand_ok_def)
    moreover have "BrewTime st = 1" using 1(2) R(2) by (simp split: if_splits)
    ultimately show ?thesis unfolding run by (intro exI [of _ 1] exI [of _ burnt]) (simp add: s elapsed_def)
  next
    case 2
    have run: "tick_brewing with_potion s = (st1\<lparr>BrewTime := ?t\<rparr>, slots1)"
      using 2 f by (auto simp: s tick_brewing_def brew_step_def brewingTicksPerBrew_def Let_def)
    have "accounts 0 burnt s (tick_brewing with_potion s)" "stand_ok (tick_brewing with_potion s)"
      using R 2 unfolding run unfolding s by (auto simp: accounts_def stand_ok_def)
    then show ?thesis using R(2) 2 unfolding run by (intro exI [of _ 0] exI [of _ burnt]) (auto simp: s elapsed_def)
  next
    case 3
    have run: "tick_brewing with_potion s = (st1\<lparr>BrewTime := 0\<rparr>, slots1)"
      using 3 f by (auto simp: s tick_brewing_def brew_step_def Let_def)
    have "accounts 0 burnt s (tick_brewing with_potion s)" "stand_ok (tick_brewing with_potion s)"
      using R unfolding run unfolding s by (auto simp: accounts_def stand_ok_def)
    moreover have "0 \<le> elapsed st" using assms by (simp add: s stand_ok_def elapsed_def)
    ultimately show ?thesis unfolding run by (intro exI [of _ 0] exI [of _ burnt]) (simp add: s elapsed_def)
  qed
qed

text \<open>C39: over any number of ticks the fuel stays between 0 and 20 and the timer below 400, no slot gains an item, and
  the books balance: each brew took one ingredient, one unit of fuel and 400 ticks, each powder gave
  twenty units, and no bottle was made or lost.\<close>

theorem brewing_accounts:
  assumes "stand_ok s"
  shows "\<exists>brewed burnt. stand_ok (brewing_ticks with_potion n s) \<and> accounts brewed burnt s (brewing_ticks with_potion n s) \<and>
    400 * brewed + elapsed (fst (brewing_ticks with_potion n s)) \<le> elapsed (fst s) + int n"
proof (induction n)
  case 0
  have "accounts 0 0 s s" by (cases s) (simp add: accounts_def)
  then show ?case using assms by (intro exI [of _ 0] exI [of _ 0]) (simp add: brewing_ticks_def)
next
  case (Suc n)
  let ?s = "brewing_ticks with_potion n s"
  from Suc obtain brewed burnt where A: "stand_ok ?s" "accounts brewed burnt s ?s"
      "400 * brewed + elapsed (fst ?s) \<le> elapsed (fst s) + int n" by blast
  from tick_accounts [OF A(1)] obtain brewed' burnt' where B: "stand_ok (tick_brewing with_potion ?s)"
      "accounts brewed' burnt' ?s (tick_brewing with_potion ?s)"
      "400 * brewed' + elapsed (fst (tick_brewing with_potion ?s)) \<le> elapsed (fst ?s) + 1" by blast
  have "accounts (brewed + brewed') (burnt + burnt') s (tick_brewing with_potion ?s)"
    using A(2) B(2) by (auto simp: accounts_def)
  then show ?case
    using B(1,3) A(3) unfolding ticks_Suc by (intro exI [of _ "brewed + brewed'"] exI [of _ "burnt + burnt'"]) simp
qed

section \<open>Examples\<close>

text \<open>Components that hold potion contents only.\<close>

definition contents_only :: "string \<Rightarrow> string \<Rightarrow> string" where
  "contents_only components name = quote # ''potion'' @ [quote] @ '':'' @ [quote] @ ''minecraft:'' @ name @ [quote]"

definition water_bottle :: item_stack where
  "water_bottle = no_item\<lparr>ItemID := ''minecraft:potion'', Count := 1, Components := contents_only [] ''water''\<rparr>"

definition wart_stand :: "item_stack list" where
  "wart_stand = [water_bottle, no_item, no_item, no_item\<lparr>ItemID := ''minecraft:nether_wart'', Count := 2\<rparr>, no_item]"

lemma after_first_prefix: "p \<noteq> [] \<Longrightarrow> after_first p (p @ rest) = Some rest"
  by (cases p) (simp_all add: after_first.simps has_prefix_def)

lemma contents_only_keeps: "keeps_potion contents_only"
proof -
  let ?prefix = "quote # ''potion'' @ [quote] @ '':'' @ [quote] @ ''minecraft:''"
  have t: "quote \<notin> set name \<Longrightarrow> takeWhile (\<lambda>c. c \<noteq> quote) (name @ [quote]) = name" for name
    by (induction name) auto
  have split: "contents_only c name = ?prefix @ (name @ [quote])" for c name by (simp add: contents_only_def)
  have "after_first ?prefix (contents_only c name) = Some (name @ [quote])" for c name
    unfolding split by (rule after_first_prefix) simp
  then have "potionName (contents_only c name) = name" if "quote \<notin> set name" for c name
    unfolding potionName_def using t [OF that] by simp
  moreover have "\<not> (quote = CHR ''_'' \<or> 97 \<le> (of_char quote :: nat) \<and> (of_char quote :: nat) \<le> 122)" by code_simp
  then have "quote \<notin> set name" if "plain_name name" for name
    using that unfolding plain_name_def list_all_iff by blast
  ultimately show ?thesis unfolding keeps_potion_def by blast
qed

lemma water_brews: "brew_of (wart_stand ! 3) water_bottle = Some (''minecraft:potion'', ''awkward'')"
  by code_simp


theorem brewing_on_time_witness:
  "ItemID (snd (brewing_ticks contents_only 400 (\<lparr>BrewTime = 0, FuelAmount = 20\<rparr>, wart_stand)) ! 3) = ''minecraft:nether_wart'' \<and>
   Count (snd (brewing_ticks contents_only 400 (\<lparr>BrewTime = 0, FuelAmount = 20\<rparr>, wart_stand)) ! 3) = 1 \<and>
   potionName (Components (snd (brewing_ticks contents_only 400 (\<lparr>BrewTime = 0, FuelAmount = 20\<rparr>, wart_stand)) ! 0)) = ''awkward''"
proof -
  have can: "canBrew wart_stand"
    using water_brews by (simp add: canBrew_def brewingSlotCount_def brewingIngredientSlot_def brewingBottleSlots_def)
      (simp add: wart_stand_def IsEmpty_def)
  have len: "length wart_stand = 5" "wart_stand ! 0 = water_bottle" by (simp_all add: wart_stand_def)
  have "brewed_bottle contents_only (wart_stand ! 3) water_bottle = water_bottle\<lparr>ItemID := ''minecraft:potion'', Components := contents_only (Components water_bottle) ''awkward''\<rparr>"
    using water_brews by (simp add: brewed_bottle_def)
  moreover have "potionName (contents_only (Components water_bottle) ''awkward'') = ''awkward''"
    using contents_only_keeps by (simp add: keeps_potion_def plain_name_def)
  ultimately show ?thesis
    using brewing_on_time [OF can, of "\<lparr>BrewTime = 0, FuelAmount = 20\<rparr>" contents_only] len
    by (simp add: nth_append) (simp add: wart_stand_def normalizeStack_def)
qed

theorem brewing_accounts_witness:
  "\<exists>brewed burnt. accounts brewed burnt (\<lparr>BrewTime = 0, FuelAmount = 20\<rparr>, wart_stand)
     (brewing_ticks contents_only 1000 (\<lparr>BrewTime = 0, FuelAmount = 20\<rparr>, wart_stand)) \<and> brewed \<le> 2"
proof -
  have "stand_ok (\<lparr>BrewTime = 0, FuelAmount = 20\<rparr>, wart_stand)"
    by (simp add: stand_ok_def wart_stand_def slots_ok_def slot_ok_def water_bottle_def IsEmpty_def)
  from brewing_accounts [OF this, of contents_only 1000]
  obtain brewed burnt where A: "stand_ok (brewing_ticks contents_only 1000 (\<lparr>BrewTime = 0, FuelAmount = 20\<rparr>, wart_stand))"
      "accounts brewed burnt (\<lparr>BrewTime = 0, FuelAmount = 20\<rparr>, wart_stand) (brewing_ticks contents_only 1000 (\<lparr>BrewTime = 0, FuelAmount = 20\<rparr>, wart_stand))"
      "400 * brewed + elapsed (fst (brewing_ticks contents_only 1000 (\<lparr>BrewTime = 0, FuelAmount = 20\<rparr>, wart_stand))) \<le> 1000"
    by (auto simp: elapsed_def)
  then have "0 \<le> elapsed (fst (brewing_ticks contents_only 1000 (\<lparr>BrewTime = 0, FuelAmount = 20\<rparr>, wart_stand)))"
    by (cases "brewing_ticks contents_only 1000 (\<lparr>BrewTime = 0, FuelAmount = 20\<rparr>, wart_stand)") (simp add: stand_ok_def elapsed_def)
  then show ?thesis using A(2,3) by (intro exI [of _ brewed] exI [of _ burnt]) simp
qed

end
