(* ===== verification/Potions.thy ===== *)
theory Potions
  imports Brewing Effects
begin

text \<open>
  What drinking a potion does (\<open>core/player/potion.go\<close>). How a component string holds potion contents (JSON)
  is a parameter: the potion and the custom effects, or \<open>None\<close>. The hearts healed or lost are the integers
  that the \<open>float32\<close> values of the code represent.
\<close>

record potion_outcome =
  Effects :: "status_effect list"
  Heal :: int
  PotionDamage :: int

definition no_outcome :: potion_outcome where
  "no_outcome = \<lparr>Effects = [], Heal = 0, PotionDamage = 0\<rparr>"

type_synonym contents_codec = "string \<Rightarrow> (string \<times> status_effect list) option"

definition potion_items :: "string list" where
  "potion_items = [''minecraft:potion'', ''minecraft:splash_potion'', ''minecraft:lingering_potion'']"

definition PotionName :: "contents_codec \<Rightarrow> item_stack \<Rightarrow> string \<times> bool" where
  "PotionName contents s =
     (if ItemID s \<notin> set potion_items then ([], False)
      else case contents (Components s) of
        None \<Rightarrow> ([], True)
      | Some (potion, _) \<Rightarrow> (trim_prefix potion ''minecraft:'', True))"

definition potionEffectID :: "string \<Rightarrow> string" where
  "potionEffectID name =
     (if name = ''swiftness'' then ''speed'' else if name = ''leaping'' then ''jump_boost'' else name)"

definition potion_effect :: "string \<Rightarrow> i32 \<Rightarrow> i32 \<Rightarrow> status_effect" where
  "potion_effect i amplifier duration =
     \<lparr>eff_ID = ''minecraft:'' @ i, Amplifier = amplifier, Duration = duration, Ambient = False, ShowParticles = True, ShowIcon = True\<rparr>"

definition one_effect :: "string \<Rightarrow> i32 \<Rightarrow> i32 \<Rightarrow> potion_outcome" where
  "one_effect i amplifier duration = no_outcome\<lparr>Effects := [potion_effect i amplifier duration]\<rparr>"

definition basePotionOutcome :: "string \<Rightarrow> potion_outcome" where
  "basePotionOutcome name =
     (if name = ''healing'' then no_outcome\<lparr>Heal := 4\<rparr>
      else if name = ''strong_healing'' then no_outcome\<lparr>Heal := 8\<rparr>
      else if name = ''harming'' then no_outcome\<lparr>PotionDamage := 6\<rparr>
      else if name = ''strong_harming'' then no_outcome\<lparr>PotionDamage := 12\<rparr>
      else if name \<in> set [''night_vision'', ''invisibility'', ''fire_resistance'', ''swiftness'', ''strength'', ''water_breathing'']
        then one_effect (potionEffectID name) 0 3600
      else if name \<in> set [''long_night_vision'', ''long_invisibility'', ''long_fire_resistance'', ''long_swiftness'',
          ''long_strength'', ''long_water_breathing'']
        then one_effect (potionEffectID (trim_prefix name ''long_'')) 0 9600
      else if name = ''leaping'' then one_effect ''jump_boost'' 0 3600
      else if name = ''long_leaping'' then one_effect ''jump_boost'' 0 9600
      else if name \<in> set [''strong_leaping'', ''strong_swiftness'', ''strong_strength'']
        then one_effect (potionEffectID (trim_prefix name ''strong_'')) 1 1800
      else if name \<in> set [''poison'', ''regeneration''] then one_effect name 0 900
      else if name \<in> set [''long_poison'', ''long_regeneration''] then one_effect (trim_prefix name ''long_'') 0 1800
      else if name = ''strong_poison'' then one_effect ''poison'' 1 432
      else if name = ''strong_regeneration'' then one_effect ''regeneration'' 1 450
      else if name \<in> set [''weakness'', ''slowness''] then one_effect name 0 1800
      else if name \<in> set [''long_weakness'', ''long_slowness'', ''long_slow_falling''] then one_effect (trim_prefix name ''long_'') 0 4800
      else if name = ''slow_falling'' then one_effect ''slow_falling'' 0 1800
      else if name = ''strong_slowness'' then one_effect ''slowness'' 3 400
      else if name = ''decay'' then one_effect ''wither'' 0 800
      else if name = ''luck'' then one_effect ''luck'' 0 6000
      else if name \<in> set [''wind_charged'', ''weaving'', ''oozing'', ''infested''] then one_effect name 0 3600
      else if name \<in> set [''turtle_master'', ''long_turtle_master'', ''strong_turtle_master'']
        then (let duration = (if name = ''long_turtle_master'' then 800 else 400);
                  strong = (name = ''strong_turtle_master'')
              in no_outcome\<lparr>Effects := [potion_effect ''resistance'' (if strong then 3 else 2) duration,
                                        potion_effect ''slowness'' (if strong then 5 else 3) duration]\<rparr>)
      else no_outcome)"

text \<open>\<open>int32(n) << min(amplifier, 10)\<close>; the amplifier of a normalized effect is not negative.\<close>

definition applyInstantPotion :: "potion_outcome \<Rightarrow> status_effect \<Rightarrow> potion_outcome option" where
  "applyInstantPotion out e =
     (let shifted = (\<lambda>n :: i32. sint (push_bit (nat (min (sint (Amplifier e)) 10)) n))
      in if eff_ID e = ''minecraft:instant_health'' then Some (out\<lparr>Heal := Heal out + shifted 4\<rparr>)
         else if eff_ID e = ''minecraft:instant_damage'' then Some (out\<lparr>PotionDamage := PotionDamage out + shifted 6\<rparr>)
         else None)"

definition add_custom :: "status_effect \<Rightarrow> potion_outcome \<Rightarrow> potion_outcome" where
  "add_custom e out =
     (case normalizeStatusEffect e of
        None \<Rightarrow> out
      | Some e' \<Rightarrow>
          (case applyInstantPotion out e' of
             Some out' \<Rightarrow> out'
           | None \<Rightarrow> out\<lparr>Effects := Effects out @ [e']\<rparr>))"

definition PotionOutcomeFor :: "contents_codec \<Rightarrow> item_stack \<Rightarrow> potion_outcome option" where
  "PotionOutcomeFor contents s =
     (if ItemID s \<notin> set potion_items then None
      else case contents (Components s) of
        None \<Rightarrow> Some no_outcome
      | Some (potion, custom) \<Rightarrow> Some (fold add_custom custom (basePotionOutcome (trim_prefix potion ''minecraft:''))))"

section \<open>The effects are well formed\<close>

definition outcome_ok :: "potion_outcome \<Rightarrow> bool" where
  "outcome_ok out \<longleftrightarrow> list_all effect_ok (Effects out) \<and> 0 \<le> Heal out \<and> 0 \<le> PotionDamage out"

lemma outcome_if: "outcome_ok x \<Longrightarrow> outcome_ok y \<Longrightarrow> outcome_ok (if b then x else y)"
  by simp

lemma potion_effect_ok: "0 < sint d \<Longrightarrow> 0 \<le> sint a \<Longrightarrow> effect_ok (potion_effect i a d)"
  by (simp add: effect_ok_def potion_effect_def contains_char_def)

lemma one_effect_ok: "0 < sint d \<Longrightarrow> 0 \<le> sint a \<Longrightarrow> outcome_ok (one_effect i a d)"
  by (simp add: outcome_ok_def one_effect_def no_outcome_def potion_effect_ok)

lemma base_ok: "outcome_ok (basePotionOutcome name)"
  unfolding basePotionOutcome_def
  by (intro outcome_if one_effect_ok) (simp_all add: outcome_ok_def no_outcome_def Let_def potion_effect_ok)

lemma add_custom_ok:
  assumes "outcome_ok out"
  shows "outcome_ok (add_custom e out)"
proof (cases "normalizeStatusEffect e")
  case (Some e')
  have e: "effect_ok e'" by (rule normalize_ok [OF Some])
  have "nat (min (sint (Amplifier e')) 10) \<in> set [0..<11]" by auto
  moreover have "list_all (\<lambda>n. 0 \<le> sint (push_bit n 4 :: i32) \<and> 0 \<le> sint (push_bit n 6 :: i32)) [0..<11]" by code_simp
  ultimately have "0 \<le> sint (push_bit (nat (min (sint (Amplifier e')) 10)) 4 :: i32)"
      "0 \<le> sint (push_bit (nat (min (sint (Amplifier e')) 10)) 6 :: i32)"
    unfolding list_all_iff by blast+
  then show ?thesis using assms Some e by (simp add: add_custom_def applyInstantPotion_def Let_def outcome_ok_def)
qed (use assms in \<open>simp add: add_custom_def\<close>)

text \<open>Whatever a potion holds, its effects have a namespaced id, a positive duration and an amplifier that is not
  negative, so that the player's list takes them as they are; it never heals or hurts by a negative amount.\<close>

theorem potion_outcome_wellformed:
  assumes "PotionOutcomeFor contents s = Some out"
  shows "outcome_ok out"
proof -
  have "outcome_ok (fold add_custom es base)" if "outcome_ok base" for es base
    using that by (induction es arbitrary: base) (simp_all add: add_custom_ok)
  then show ?thesis
    using assms base_ok by (auto simp: PotionOutcomeFor_def outcome_ok_def no_outcome_def split: if_splits option.splits)
qed

text \<open>The brewed potions that do nothing are the three base potions and two more, \<open>long_healing\<close> and
  \<open>long_harming\<close>, which redstone makes of a potion that has an effect.\<close>

theorem brewed_without_effect:
  "set (filter (\<lambda>name. name \<noteq> [] \<and> basePotionOutcome name = no_outcome) (map OutputPotion brewingRecipes)) =
   set [''awkward'', ''thick'', ''mundane'', ''long_healing'', ''long_harming'']"
  by code_simp

theorem potion_outcome_wellformed_witness:
  "outcome_ok (the (PotionOutcomeFor (\<lambda>_. Some (''minecraft:swiftness'', [])) water_bottle))"
  using potion_outcome_wellformed [of "\<lambda>_. Some (''minecraft:swiftness'', [])" water_bottle]
  by (simp add: PotionOutcomeFor_def water_bottle_def potion_items_def)

end
