(* ===== verification/Spec2Isabelle.thy ===== *)
theory Spec2Isabelle
  imports Wire Spatial Registry Inventory Chunks Worlds Persistence Recipes Clicks Containers Furnaces Hoppers Cipher Experience Effects Permissions Nbt Physics Redstone Region AnvilStorage Workstations Navigation Potions
begin

text \<open>
  Verification of the core of GoCraft, a Minecraft server in Go. The server keeps one canonical
  game state (worlds of chunks, players with inventories, container screens, furnaces) and
  serves it to Java clients (\<open>java/\<close>) and Bedrock clients (\<open>bedrock/\<close>). This development models
  the parts that carry the state and its rules; names are those of the Go source.

  Theories, in the order they build on each other:

  \<^item> \<open>Prelude\<close>: the machine types, rewrite collections, lemmas on lists and words.
  \<^item> \<open>Wire\<close> (\<open>java/protocol\<close>): variable-length integers, primitive fields, UUIDs, packet frames.
    The decoders are functions on byte lists returning a result or one of the source's errors.
    Lemmas: round trips for every field and for streams of frames, the result of \<open>ReadVarInt\<close> on
    every input, the size limit of the reader.
  \<^item> \<open>Spatial\<close> (\<open>core/spatial\<close>): block positions and their packed 26/26/12 bit form.
  \<^item> \<open>Registry\<close> (\<open>core/itemregistry\<close>): validation, the index and its queries; what an accepted
    registry guarantees.
  \<^item> \<open>GoStrings\<close>, \<open>Items\<close> (\<open>core/player/item.go\<close>, \<open>enchantment_state.go\<close>): the string functions the
    code uses, item stacks, when two stacks merge, durability, the enchantment string.
  \<^item> \<open>Inventory\<close> (\<open>core/player/player.go\<close>, \<open>java/handler\<close>): the ways to add a stack to slots. The
    locales \<open>stack_sink\<close> and \<open>atomic_sink\<close> state what a routine that adds a stack promises (the
    slots stay well formed, the total of every kind grows by what was added, a refusal changes
    nothing); they are interpreted on \<open>GiveItem\<close>, \<open>addStackToInventory\<close>, \<open>addStackToContainer\<close> and
    the container automation, and their facts carry the click and transfer proofs.
  \<^item> \<open>Blocks\<close>, \<open>Chunks\<close> (\<open>core/world/block.go\<close>, \<open>chunk.go\<close>): block states and their keys, the palette
    sections of 4096 blocks, the biome cells, the height query; the palette invariant and the
    read-after-write laws.
  \<^item> \<open>Worlds\<close>, \<open>Persistence\<close> (\<open>core/world/world.go\<close>, \<open>lectern.go\<close>): the chunk cache with its dirty and
    flushing sets, eviction, block and container access, and the autosave, whose phases are
    steps interleaved with every other operation (\<open>world_step\<close>). The abstract specification is a
    map of block keys and a map of container contents; every step refines it.
  \<^item> \<open>Players\<close> (\<open>core/player/player.go\<close>, \<open>storage_inventory.go\<close>): the inventory part of a player, the
    open screen, and vehicle inventories shared by their viewers.
  \<^item> \<open>Recipes\<close> (\<open>java/handler/recipes.go\<close>, \<open>crafting.go\<close>): matching of shaped and shapeless recipes
    and the placement of a recipe by the recipe book.
  \<^item> \<open>Clicks\<close> (\<open>java/handler/crafting.go\<close>, \<open>chest.go\<close>, \<open>furnace.go\<close>): the click, shift click and drag
    handlers of the inventory, crafting, chest and furnace screens; they conserve every kind of
    item, keep the player well formed, and the shift click on a crafting result returns.
  \<^item> \<open>Containers\<close> (\<open>java/handler/chest.go\<close>, \<open>boat_inventory.go\<close>, \<open>furnace.go\<close>): opening a screen from the
    world, persisting and closing it; what was persisted is what the next viewer loads.
  \<^item> \<open>Furnaces\<close> (\<open>server/furnace.go\<close>, \<open>java/handler/furnace_recipes.go\<close>): the recipe index and the tick
    of a furnace: how items and time are accounted for.
  \<^item> \<open>Hoppers\<close> (\<open>server/container_automation.go\<close>): hoppers moving items between containers of a world.
  \<^item> \<open>Cipher\<close> (\<open>java/auth/cfb8.go\<close>, \<open>java/network/conn.go\<close>): CFB8 over a parametric block function, the
    encrypted reader and writer, and the switch to encryption with bytes already buffered. A written
    stream is read back whatever the pieces.
  \<^item> \<open>Experience\<close> (\<open>core/player/experience.go\<close>, \<open>core/experience/orb.go\<close>,
    \<open>java/handler/experience_command.go\<close>): levels, points and orbs, with the search for the level proved
    to invert the cost curve.
  \<^item> \<open>Effects\<close> (\<open>core/player/status_effect*.go\<close>, \<open>TickBreathing\<close>): status effects as a refinement of a map,
    durations and the drowning schedule.
  \<^item> \<open>Permissions\<close> (\<open>core/permission\<close>): validation with its cycle search, the resolution of a request as
    the best rule over the inherited groups, and the manager over a store.
  \<^item> \<open>Nbt\<close> (\<open>java/world/anvil/nbt.go\<close>): the trees of saved worlds, their writer and reader.  The reader
    runs with \<open>2 * length + 2\<close> units of fuel, which \<open>nbt_reader_total\<close> shows to be enough.
  \<^item> \<open>Physics\<close> (\<open>core/world/block_physics.go\<close>): the scheduler of block updates, refined by the map of earliest
    due ticks, and the classes of blocks.
  \<^item> \<open>Redstone\<close> (\<open>core/world/redstone.go\<close>): computed powers, visible states and the flush of pending
    positions. The recursion between torches takes a fuel; \<open>torches_return\<close> says when one suffices.
    The flush itself makes at most \<open>max_updates\<close> steps, as in the code.
  \<^item> \<open>Region\<close> (\<open>java/world/anvil/region.go\<close>, \<open>storage.go\<close>): region files as bytes, and the buffered storage
    whose flush other saves interleave with. It refines a map from chunks to bytes that only saves
    change, and a saved tree loads back through sectors, compression and NBT.
  \<^item> \<open>AnvilEntities\<close>, \<open>Anvil\<close>, \<open>AnvilStorage\<close> (\<open>java/world/anvil/encode.go\<close>, \<open>merge.go\<close>, \<open>decode.go\<close>,
    \<open>storage.go\<close>, \<open>metadata.go\<close>): block entities and container items as NBT, packed block and biome
    containers, the writer of new chunks, the writer that merges into a loaded tree, and the loader.
    The two writers agree, and a chunk survives a restart.
  \<^item> \<open>Enchantments\<close> (\<open>core/player/enchantments.go\<close>, \<open>enchantment_compatibility.go\<close>,
    \<open>enchantment_items.go\<close>): the table of enchantments, their conflicts, and what the encoded levels read back as.
  \<^item> \<open>Workstations\<close> (\<open>java/handler/workstation.go\<close>, \<open>smithing.go\<close>, the workstation branch of \<open>crafting.go\<close>):
    what each workstation makes of its inputs, its clicks, and opening and closing. A click accounts for
    every item; a shift click on the output repeats until the inputs are used up, which \<open>shift_returns\<close> shows to end.
  \<^item> \<open>Navigation\<close> (\<open>core/navigation/pathfinder.go\<close>): the path search of ground mobs with its cache, its heap
    and its budget. Every path is a legal walk, and with enough budget the search decides reachability;
    both hold for any arithmetic of costs that keeps finite costs finite, so for \<open>float64\<close>. The loop is a
    \<open>partial_function\<close>, which \<open>loop_returns\<close> shows to return: each round closes a node.
  \<^item> \<open>Brewing\<close> (\<open>core/world/brewing.go\<close>, \<open>server/brewing.go\<close>): the recipes and the ticks of brewing stands.
    The tick of a stand is split into fuel, timer and brew; every brew is paid for and takes 400 ticks, and
    the rank of a potion name shows that no bottle brews for ever.
  \<^item> \<open>Potions\<close> (\<open>core/player/potion.go\<close>): the effects, healing and damage of a potion item.

  Correspondence. A Go struct is a record and a method its definition, with the receiver as an
  argument and, when it mutates the receiver, as a result. A pointer that may be nil is an
  option; a Go error is a constructor of an error type. \<open>byte\<close>, \<open>int32\<close>, \<open>uint64\<close> and the like are
  words where the code relies on their width; the Go \<open>int\<close> of counters and coordinates is the
  type \<open>int\<close>. Code that runs under a lock is one step; \<open>Flush\<close>, which releases the lock, is several.
  Maps that the code iterates over are association lists or lists in the order of iteration, so
  a theorem about every list is one about every order.

  Parameters. The embedded item definitions and the JSON component codec are the fields of
  \<open>item_env\<close>; the terrain generator, whether a chunk fails to load, and the book decoder are the
  fields of \<open>world_env\<close>. The theorems quantify over them; \<open>env_ok\<close> asks that the item definitions
  went through the registry's validation. The witnesses use concrete ones.

  Bounds and fuel. Loops whose end is not structural are total functions with a measure
  (\<open>trimChunksLocked\<close> by the number of cached chunks, the variable-length writers by the value).
  The shift click on a crafting result is an endless loop in the code and a \<open>partial_function\<close> here:
  not returning is \<open>None\<close>, and \<open>shift_crafting_returns\<close> proves that it returns.

  Not modelled, and why: entity motion, mob behaviour and terrain noise (floating point and random
  choices); networking, sessions and goroutine scheduling; the Bedrock adapter (it translates
  between a third-party library and the core); the JSON catalogues (data); plugins and their
  processes; command line, configuration and logging. Observers of block changes, physics and
  redstone notifications triggered by \<open>SetBlock\<close> are left out of the world model: \<open>SetBlock\<close> is
  its store part. The experience a furnace pays out is a random rounding of a floating-point
  product and is left out.
\<close>

end
